(* ===== verification/Prelude.thy ===== *)
theory Prelude
  imports Complex_Main "HOL-Library.Word"
begin

text \<open>
  Shared vocabulary of the development: the machine types of the firmware (ESP32-C6, a 32-bit
  RISC-V target, so \<open>size_t\<close>, \<open>unsigned\<close> and \<open>TickType_t\<close> are 32 bits wide), the collections of
  rewrite rules the component theories feed to \<open>simp\<close>, and small facts on words, options and
  lists that several components use.
\<close>

unbundle bit_operations_syntax

section \<open>Machine types\<close>

type_synonym u8 = "8 word"
type_synonym u16 = "16 word"
type_synonym u32 = "32 word"
type_synonym u64 = "64 word"

text \<open>
  \<open>esp_err_t\<close> as the code uses it: a value that is compared with \<open>ESP_OK\<close> and otherwise only
  passed on. The number is kept because several callers publish or return it.
\<close>

type_synonym esp_err = int

abbreviation (input) ESP_OK :: esp_err where
  "ESP_OK \<equiv> 0"

abbreviation (input) ESP_FAIL :: esp_err where
  "ESP_FAIL \<equiv> - 1"

abbreviation (input) ESP_ERR_NO_MEM :: esp_err where
  "ESP_ERR_NO_MEM \<equiv> 0x101"

text \<open>
  Signed integers are kept as \<open>int\<close>; the conversions that can change a value are written out.
  \<open>to_i8\<close> and \<open>to_i32\<close> are the C++ (two's complement) conversions to \<open>int8_t\<close> and \<open>int32_t\<close>.
\<close>

definition to_i8 :: "int \<Rightarrow> int" where
  "to_i8 x = (x + 128) mod 256 - 128"

definition to_i32 :: "int \<Rightarrow> int" where
  "to_i32 x = (x + 2 ^ 31) mod 2 ^ 32 - 2 ^ 31"

text \<open>
  C++ integer division truncates towards zero; a zero divisor is undefined behaviour, which the
  model reports as \<open>None\<close>.
\<close>

definition c_div :: "int \<Rightarrow> int \<Rightarrow> int option" where
  "c_div a b = (if b = 0 then None else Some (sgn a * sgn b * (\<bar>a\<bar> div \<bar>b\<bar>)))"

definition udiv :: "'a::len word \<Rightarrow> 'a word \<Rightarrow> 'a word option" where
  "udiv a b = (if b = 0 then None else Some (a div b))"

text \<open>\<open>std::clamp\<close> on integers.\<close>

definition iclamp :: "'a::linorder \<Rightarrow> 'a \<Rightarrow> 'a \<Rightarrow> 'a" where
  "iclamp v lo hi = (if v < lo then lo else if hi < v then hi else v)"

section \<open>Collections of rewrite rules\<close>

text \<open>
  \<open>exec_simps\<close>: definitions that evaluate an operation on a concrete state.
  \<open>inv_simps\<close>: the definitions of the invariants of the components.
  \<open>frame_simps\<close>: what an operation leaves unchanged.
\<close>

named_theorems exec_simps
named_theorems inv_simps
named_theorems frame_simps

section \<open>Words\<close>

lemma to_i8_id: "- 128 \<le> x \<Longrightarrow> x \<le> 127 \<Longrightarrow> to_i8 x = x"
  by (simp add: to_i8_def)

lemma to_i8_range: "- 128 \<le> to_i8 x \<and> to_i8 x \<le> 127"
  using pos_mod_bound [of 256 "x + 128"] pos_mod_sign [of 256 "x + 128"]
  by (simp add: to_i8_def)

lemma iclamp_bounds: "lo \<le> hi \<Longrightarrow> lo \<le> iclamp v lo hi \<and> iclamp v lo hi \<le> hi"
  by (auto simp: iclamp_def)

lemma iclamp_id [simp]: "lo \<le> v \<Longrightarrow> v \<le> hi \<Longrightarrow> iclamp v lo hi = v"
  by (auto simp: iclamp_def)

lemma iclamp_idem: "lo \<le> hi \<Longrightarrow> iclamp (iclamp v lo hi) lo hi = iclamp v lo hi"
  by (auto simp: iclamp_def)

lemma unat_add_no_overflow:
  fixes a b :: "'a::len word"
  shows "unat a + unat b < 2 ^ LENGTH('a) \<Longrightarrow> unat (a + b) = unat a + unat b"
  by (simp add: unat_word_ariths)

lemma unat_u32_less [simp]: "unat (x :: u32) < 4294967296"
  using unsigned_less [of x, where ?'a = nat] by simp

lemma unat_Suc_u32: "unat (x :: u32) < 2 ^ 32 - 1 \<Longrightarrow> unat (x + 1) = unat x + 1"
  by (simp add: unat_word_ariths)

lemma u32_succ_neq [simp]: "(x :: u32) + 1 \<noteq> x"
  by simp

lemma unat_of_nat_u32: "n < 4294967296 \<Longrightarrow> unat (of_nat n :: u32) = n"
  by (simp add: unsigned_of_nat take_bit_nat_eq_self)

text \<open>The parity of a word flips with every increment, also where the word wraps.\<close>

lemma even_word_add_1: "even (x + 1 :: 'a::len word) \<longleftrightarrow> odd x" if "1 < LENGTH('a)"
  using that by simp

lemma u32_le_1_iff: "(x :: u32) \<le> 1 \<longleftrightarrow> x = 0 \<or> x = 1"
proof -
  have "unat x \<le> 1 \<longleftrightarrow> unat x = 0 \<or> unat x = unat (1 :: u32)" by auto
  then show ?thesis by (simp only: word_le_nat_alt word_unat_eq_iff [symmetric]) (simp add: unat_eq_0)
qed

lemma u32_max_1: "max (x :: u32) 1 = (if x = 0 then 1 else x)"
  by (metis linorder_linear max_def u32_le_1_iff)

section \<open>Options\<close>

lemma option_case_Some_eq:
  "(case x of None \<Rightarrow> None | Some a \<Rightarrow> f a) = Some b \<longleftrightarrow> (\<exists>a. x = Some a \<and> f a = Some b)"
  by (cases x) auto

end
