(* ===== verification/Floats.thy ===== *)
theory Floats
  imports Prelude
begin

text \<open>
  The floating-point arithmetic of the firmware. \<open>float\<close> is IEEE 754 binary32 and \<open>double\<close> is
  binary64, both computed in software on the ESP32-C6 with rounding to nearest, ties to even.
  A finite value is the rational number it stands for; the two zeros are one value here, so the
  sign of a zero (which only its decimal rendering shows) is not modelled. The rounding function
  works on rationals and is executable. The locale \<open>rounding\<close> states what the component proofs
  use of a rounding function (it is monotone and leaves representable numbers alone), and the two
  formats interpret it.
\<close>

section \<open>Binary logarithm\<close>

function nlog2 :: "int \<Rightarrow> int" where
  "nlog2 n = (if n \<le> 1 then 0 else 1 + nlog2 (n div 2))"
  by pat_completeness auto
termination
  by (relation "measure nat") auto

declare nlog2.simps [simp del]

lemma nlog2_bounds: "0 < n \<Longrightarrow> 0 \<le> nlog2 n \<and> 2 ^ nat (nlog2 n) \<le> n \<and> n < 2 * 2 ^ nat (nlog2 n)"
proof (induction n rule: nlog2.induct)
  case (1 n)
  show ?case
  proof (cases "n \<le> 1")
    case True
    with 1 show ?thesis by (simp add: nlog2.simps [of n])
  next
    case False
    define k where "k = nat (nlog2 (n div 2))"
    have "0 \<le> nlog2 (n div 2) \<and> 2 ^ k \<le> n div 2 \<and> n div 2 < 2 * 2 ^ k"
      using 1 False by (simp add: k_def)
    moreover from this have "nat (1 + nlog2 (n div 2)) = Suc k"
      by (simp add: k_def nat_add_distrib)
    ultimately show ?thesis
      using False by (simp add: nlog2.simps [of n]) linarith
  qed
qed

definition ilog2 :: "rat \<Rightarrow> int" where
  "ilog2 x = (let (n, d) = quotient_of x; e = nlog2 n - nlog2 d
     in if 2 powi e \<le> x then e else e - 1)"

lemma powi_le_iff: "(2::rat) powi a \<le> 2 powi b \<longleftrightarrow> a \<le> b"
proof
  assume "a \<le> b"
  then show "(2::rat) powi a \<le> 2 powi b" by (intro power_int_increasing) auto
next
  assume *: "(2::rat) powi a \<le> 2 powi b"
  show "a \<le> b"
  proof (rule ccontr)
    assume "\<not> a \<le> b"
    then have "(2::rat) powi b < 2 powi a" by (intro power_int_strict_increasing) auto
    with * show False by simp
  qed
qed

lemma powi_less_iff: "(2::rat) powi a < 2 powi b \<longleftrightarrow> a < b"
  using powi_le_iff [of b a] by auto

lemma powi_split: "(2::rat) powi (a + b) = 2 powi a * 2 powi b"
  by (simp add: power_int_add)

lemma powi_pos [simp]: "0 < (2::rat) powi e"
  by simp

text \<open>The logarithm of a quotient, to within one, from those of its parts, in any base.\<close>

lemma quotient_log_bounds:
  fixes b n d :: rat
  assumes b: "1 < b" and n: "b ^ a \<le> n" "n < b * b ^ a" and d: "b ^ c \<le> d" "d < b * b ^ c"
  shows "b powi (int a - int c - 1) \<le> n / d \<and> n / d < b powi (int a - int c + 1)"
proof -
  have pos: "0 < b ^ a" "0 < b ^ c" using b by simp_all
  then have nd: "0 < n" "0 < d" using n d by linarith+
  have pe: "b powi (int a - int c) = b ^ a / b ^ c" using b by (simp add: power_int_diff)
  have "n / d \<le> n / b ^ c" using d nd pos by (intro divide_left_mono) auto
  also have "\<dots> < b * b ^ a / b ^ c" using n pos by (intro divide_strict_right_mono) auto
  also have "\<dots> = b powi (int a - int c + 1)" using b by (simp add: power_int_add pe)
  finally have upper: "n / d < b powi (int a - int c + 1)" .
  have "b ^ a / (b * b ^ c) \<le> n / d"
    using n(1) d(2) nd by (intro frac_le) (simp_all add: less_imp_le)
  then have "b powi (int a - int c - 1) \<le> n / d" using b by (simp add: power_int_diff pe mult.commute)
  with upper show ?thesis by simp
qed

text \<open>The same for a rational number in lowest terms, with the correction both logarithms make.\<close>

lemma quotient_ilog_bounds:
  fixes x :: rat and b :: int and log :: "int \<Rightarrow> int"
  assumes x: "0 < x" and b: "1 < b" and nd: "quotient_of x = (n, d)"
    and log: "\<And>k. 0 < k \<Longrightarrow> 0 \<le> log k \<and> b ^ nat (log k) \<le> k \<and> k < b * b ^ nat (log k)"
    and e: "e = (if of_int b powi (log n - log d) \<le> x then log n - log d else log n - log d - 1)"
  shows "of_int b powi e \<le> x \<and> x < of_int b powi (e + 1)"
proof -
  have d: "0 < d" and xq: "x = of_int n / of_int d"
    using quotient_of_denom_pos [OF nd] quotient_of_div [OF nd] by auto
  with x have n: "0 < n" by (simp add: zero_less_divide_iff)
  have real: "of_int b ^ nat (log k) \<le> (of_int k :: rat) \<and> (of_int k :: rat) < of_int b * of_int b ^ nat (log k)"
    if "0 < k" for k
  proof -
    have "(of_int (b ^ nat (log k)) :: rat) \<le> of_int k" "(of_int k :: rat) < of_int (b * b ^ nat (log k))"
      using log [OF that] by (simp_all only: of_int_le_iff of_int_less_iff)
    then show ?thesis by simp
  qed
  have ints: "int (nat (log n)) = log n" "int (nat (log d)) = log d" using log [OF n] log [OF d] by simp_all
  have "of_int b powi (log n - log d - 1) \<le> x \<and> x < of_int b powi (log n - log d + 1)"
    using quotient_log_bounds [of "of_int b :: rat" "nat (log n)" "of_int n" "nat (log d)" "of_int d"]
      real [OF n] real [OF d] b unfolding xq ints by (simp only: of_int_1_less_iff)
  then show ?thesis by (auto simp: e)
qed

lemma ilog2_bounds:
  assumes "0 < x"
  shows "2 powi ilog2 x \<le> x \<and> x < 2 powi (ilog2 x + 1)"
proof -
  obtain n d where nd: "quotient_of x = (n, d)" by fastforce
  have "ilog2 x = (if 2 powi (nlog2 n - nlog2 d) \<le> x then nlog2 n - nlog2 d else nlog2 n - nlog2 d - 1)"
    by (simp add: ilog2_def nd)
  then show ?thesis
    using quotient_ilog_bounds [OF assms, of 2 n d nlog2 "ilog2 x"] nd nlog2_bounds by simp
qed

lemma ilog2_mono: "0 < x \<Longrightarrow> x \<le> y \<Longrightarrow> ilog2 x \<le> ilog2 y"
  using ilog2_bounds [of x] ilog2_bounds [of y] powi_less_iff [of "ilog2 x" "ilog2 y + 1"]
  by linarith

section \<open>Rounding to nearest, ties to even\<close>

definition rhe :: "rat \<Rightarrow> int" where
  "rhe x = (let f = \<lfloor>x\<rfloor>; r = x - of_int f in
     if r < 1 / 2 then f else if 1 / 2 < r then f + 1 else if even f then f else f + 1)"

lemma rhe_of_int [simp]: "rhe (of_int k) = k"
  by (simp add: rhe_def)

lemma rhe_floor: "\<lfloor>x\<rfloor> \<le> rhe x \<and> rhe x \<le> \<lfloor>x\<rfloor> + 1"
  by (auto simp: rhe_def Let_def)

lemma rhe_mono: "x \<le> y \<Longrightarrow> rhe x \<le> rhe y"
proof -
  assume xy: "x \<le> y"
  show ?thesis
  proof (cases "\<lfloor>x\<rfloor> = \<lfloor>y\<rfloor>")
    case True
    with xy show ?thesis by (auto simp: rhe_def Let_def)
  next
    case False
    then have "\<lfloor>x\<rfloor> + 1 \<le> \<lfloor>y\<rfloor>" using floor_mono [OF xy] by simp
    with rhe_floor [of x] rhe_floor [of y] show ?thesis by linarith
  qed
qed

lemma rhe_minus: "rhe (- x) = - rhe x"
proof (cases "of_int \<lfloor>x\<rfloor> = x")
  case True
  then show ?thesis by (metis rhe_of_int of_int_minus)
next
  case False
  then have f: "\<lfloor>- x\<rfloor> = - \<lfloor>x\<rfloor> - 1"
    by (metis ceiling_altdef ceiling_def diff_minus_eq_add minus_add_distrib minus_minus uminus_add_conv_diff)
  show ?thesis
    by (auto simp: rhe_def Let_def f field_simps)
qed

text \<open>
  \<open>fl p q x\<close>: the value of \<open>x\<close> rounded to \<open>p\<close> significant bits with \<open>2 ^ q\<close> the smallest unit in
  the last place (so results below the normal range are rounded as subnormals).
\<close>

definition ulp_exp :: "nat \<Rightarrow> int \<Rightarrow> rat \<Rightarrow> int" where
  "ulp_exp p q x = max (ilog2 \<bar>x\<bar> - int p + 1) q"

definition fl :: "nat \<Rightarrow> int \<Rightarrow> rat \<Rightarrow> rat" where
  "fl p q x = (if x = 0 then 0 else
     of_int (rhe (x * 2 powi (- ulp_exp p q x))) * 2 powi (ulp_exp p q x))"

definition representable :: "nat \<Rightarrow> int \<Rightarrow> rat \<Rightarrow> bool" where
  "representable p q x \<longleftrightarrow> (\<exists>m e. x = of_int m * 2 powi e \<and> \<bar>m\<bar> \<le> 2 ^ p \<and> q \<le> e)"

lemma fl_0 [simp]: "fl p q 0 = 0"
  by (simp add: fl_def)

lemma fl_minus: "fl p q (- x) = - fl p q x"
  by (simp add: fl_def ulp_exp_def rhe_minus)

lemma rhe_ge: "of_int k \<le> x \<Longrightarrow> k \<le> rhe x"
  using rhe_mono [of "of_int k" x] by simp

lemma rhe_le: "x \<le> of_int k \<Longrightarrow> rhe x \<le> k"
  using rhe_mono [of x "of_int k"] by simp

lemma powi_shift: "x * 2 powi (- e) \<le> y \<longleftrightarrow> x \<le> y * (2::rat) powi e"
  by (simp add: power_int_minus pos_divide_le_eq [symmetric] divide_inverse [symmetric])

lemma powi_shift': "y \<le> x * 2 powi (- e) \<longleftrightarrow> y * (2::rat) powi e \<le> x"
  by (simp add: power_int_minus pos_le_divide_eq [symmetric] divide_inverse [symmetric])

lemma powi_nat_split:
  assumes "e + int p = k"
  shows "(2::rat) ^ p * 2 powi e = 2 powi k"
proof -
  have "(2::rat) powi (e + int p) = 2 powi e * 2 powi int p"
    by (rule powi_split)
  with assms show ?thesis by (simp add: mult.commute)
qed

text \<open>Below the next power of two the rounded value stays at or below it.\<close>

lemma fl_le_powi:
  assumes "0 < x" "x \<le> 2 powi (ulp_exp p q x + int p)"
  shows "fl p q x \<le> 2 powi (ulp_exp p q x + int p)"
proof -
  let ?e = "ulp_exp p q x"
  have pe: "(2::rat) ^ p * 2 powi ?e = 2 powi (?e + int p)"
    by (rule powi_nat_split) simp
  then have "x * 2 powi (- ?e) \<le> of_int (2 ^ p)"
    using assms(2) by (simp add: powi_shift)
  then have "rhe (x * 2 powi (- ?e)) \<le> 2 ^ p" by (rule rhe_le)
  then have "(of_int (rhe (x * 2 powi (- ?e))) :: rat) \<le> of_int (2 ^ p)"
    by (simp only: of_int_le_iff)
  then have "of_int (rhe (x * 2 powi (- ?e))) * 2 powi ?e \<le> (2::rat) ^ p * 2 powi ?e"
    by (intro mult_right_mono) auto
  with pe assms(1) show ?thesis by (simp add: fl_def)
qed

lemma ulp_exp_upper: "0 < x \<Longrightarrow> x \<le> 2 powi (ulp_exp p q x + int p)"
proof -
  assume x: "0 < x"
  have "x < 2 powi (ilog2 x + 1)" using ilog2_bounds [OF x] by simp
  also have "\<dots> \<le> 2 powi (ulp_exp p q x + int p)"
    unfolding powi_le_iff using x by (simp add: ulp_exp_def)
  finally show ?thesis by simp
qed

lemma fl_nonneg: "0 \<le> x \<Longrightarrow> 0 \<le> fl p q x"
  by (auto simp: fl_def intro!: mult_nonneg_nonneg rhe_ge)

lemma fl_mono_pos:
  assumes p: "0 < p" and x: "0 < x" and xy: "x \<le> y"
  shows "fl p q x \<le> fl p q y"
proof -
  have y: "0 < y" using x xy by simp
  let ?a = "ulp_exp p q x" and ?b = "ulp_exp p q y"
  have le: "?a \<le> ?b"
    using ilog2_mono [OF x xy] x y by (simp add: ulp_exp_def)
  show ?thesis
  proof (cases "?a = ?b")
    case True
    have "rhe (x * 2 powi (- ?b)) \<le> rhe (y * 2 powi (- ?b))"
      using xy by (intro rhe_mono mult_right_mono) auto
    then have "(of_int (rhe (x * 2 powi (- ?b))) :: rat) * 2 powi ?b
        \<le> of_int (rhe (y * 2 powi (- ?b))) * 2 powi ?b"
      by (intro mult_right_mono) auto
    with True x y show ?thesis by (simp add: fl_def)
  next
    case False
    with le have ab: "?a + 1 \<le> ?b" by simp
    then have b: "?b = ilog2 y - int p + 1"
      using y by (simp add: ulp_exp_def split: if_splits)
    have lo: "(of_int (2 ^ (p - 1)) :: rat) * 2 powi ?b = 2 powi (ilog2 y)"
      using powi_nat_split [of ?b "p - 1" "ilog2 y"] p b by (simp add: of_nat_diff)
    have "of_int (2 ^ (p - 1)) * 2 powi ?b \<le> y"
      unfolding lo using ilog2_bounds [OF y] by simp
    then have "of_int (2 ^ (p - 1)) \<le> y * 2 powi (- ?b)"
      by (simp only: powi_shift')
    then have "2 ^ (p - 1) \<le> rhe (y * 2 powi (- ?b))" by (rule rhe_ge)
    then have "(of_int (2 ^ (p - 1)) :: rat) \<le> of_int (rhe (y * 2 powi (- ?b)))"
      by (simp only: of_int_le_iff)
    then have "(of_int (2 ^ (p - 1)) :: rat) * 2 powi ?b \<le> fl p q y"
      using y by (simp add: fl_def)
    moreover have "fl p q x \<le> 2 powi (?a + int p)"
      using x by (intro fl_le_powi ulp_exp_upper)
    moreover have "(2::rat) powi (?a + int p) \<le> 2 powi (ilog2 y)"
      unfolding powi_le_iff using ab b by simp
    ultimately show ?thesis using lo by simp
  qed
qed

lemma fl_mono:
  assumes p: "0 < p" and xy: "x \<le> y"
  shows "fl p q x \<le> fl p q y"
proof (cases "0 < x")
  case True
  then show ?thesis using fl_mono_pos p xy by blast
next
  case x: False
  show ?thesis
  proof (cases "0 \<le> y")
    case True
    have "fl p q x \<le> 0" using fl_nonneg [of "- x" p q] x by (simp add: fl_minus)
    with fl_nonneg [OF True, of p q] show ?thesis by simp
  next
    case False
    then have "fl p q (- y) \<le> fl p q (- x)" using p xy by (intro fl_mono_pos) auto
    then show ?thesis by (simp add: fl_minus)
  qed
qed

text \<open>Representable numbers are not changed.\<close>

lemma fl_id_int:
  assumes "x * 2 powi (- ulp_exp p q x) = of_int k"
  shows "fl p q x = x"
proof (cases "x = 0")
  case False
  have "fl p q x = of_int k * 2 powi (ulp_exp p q x)"
    using assms False by (simp add: fl_def)
  also have "\<dots> = x"
    by (simp flip: assms add: power_int_minus)
  finally show ?thesis .
qed simp

lemma scaled_int:
  assumes "e \<le> e0"
  shows "\<exists>k. (of_int m * 2 powi e0) * 2 powi (- e) = (of_int k :: rat)"
proof -
  have "(of_int m * 2 powi e0) * 2 powi (- e) = of_int m * (2::rat) powi (e0 - e)"
    by (simp add: mult.assoc flip: power_int_add)
  also have "\<dots> = of_int (m * 2 ^ nat (e0 - e))"
    using assms by (simp add: power_int_def)
  finally show ?thesis by blast
qed

lemma fl_representable:
  assumes p: "0 < p" and "representable p q x"
  shows "fl p q x = x"
proof (cases "x = 0")
  case False
  from assms obtain m e where x: "x = of_int m * 2 powi e" and m: "\<bar>m\<bar> \<le> 2 ^ p" and q: "q \<le> e"
    by (auto simp: representable_def)
  have ax: "0 < \<bar>x\<bar>" using False by simp
  have xabs: "\<bar>x\<bar> = of_int \<bar>m\<bar> * 2 powi e"
    by (simp add: x abs_mult)
  show ?thesis
  proof (cases "\<bar>m\<bar> = 2 ^ p")
    case True
    then have "m = 1 * 2 ^ p \<or> m = - 1 * 2 ^ p" by arith
    then obtain s where s: "m = s * 2 ^ p" by blast
    have "\<exists>k. x * 2 powi (- ulp_exp p q x) = of_int k"
    proof -
      have "x = of_int (s * 2 ^ (p - 1)) * 2 powi (e + 1)"
        using p by (cases p) (simp_all add: x s power_int_add)
      moreover have "ulp_exp p q x \<le> e + 1"
      proof -
        have "\<bar>x\<bar> = 2 powi (e + int p)"
          using True powi_nat_split [of e p "e + int p"] by (simp add: xabs)
        then have "2 powi (ilog2 \<bar>x\<bar>) \<le> (2::rat) powi (e + int p)"
          using ilog2_bounds [OF ax] by simp
        then have "ilog2 \<bar>x\<bar> \<le> e + int p" by (simp only: powi_le_iff)
        then show ?thesis using q by (simp add: ulp_exp_def)
      qed
      ultimately show ?thesis using scaled_int by metis
    qed
    then show ?thesis using fl_id_int by blast
  next
    case False
    with m have "\<bar>m\<bar> < 2 ^ p" by simp
    then have "(of_int \<bar>m\<bar> :: rat) < of_int (2 ^ p)" by (simp only: of_int_less_iff)
    then have "\<bar>x\<bar> < 2 ^ p * 2 powi e"
      unfolding xabs by (intro mult_strict_right_mono) auto
    then have "\<bar>x\<bar> < 2 powi (e + int p)"
      using powi_nat_split [of e p "e + int p"] by simp
    then have "2 powi (ilog2 \<bar>x\<bar>) < (2::rat) powi (e + int p)"
      using ilog2_bounds [OF ax] by (meson le_less_trans)
    then have "ilog2 \<bar>x\<bar> < e + int p" by (simp only: powi_less_iff)
    then have "ulp_exp p q x \<le> e" using q by (simp add: ulp_exp_def)
    then show ?thesis using scaled_int [of _ e m] fl_id_int unfolding x by blast
  qed
qed simp

lemma representable_int: "\<bar>k\<bar> \<le> 2 ^ p \<Longrightarrow> q \<le> 0 \<Longrightarrow> representable p q (of_int k)"
  unfolding representable_def by (intro exI [of _ k] exI [of _ 0]) auto


text \<open>The rounded value is itself representable, so every computed value is a number of its format.\<close>

lemma representable_fl:
  assumes p: "0 < p"
  shows "representable p q (fl p q x)"
proof (cases "x = 0")
  case True
  then show ?thesis unfolding representable_def by (intro exI [of _ 0] exI [of _ q]) simp
next
  case False
  let ?e = "ulp_exp p q x" and ?k = "rhe (x * 2 powi (- ulp_exp p q x))"
  have "0 < \<bar>x\<bar>" using False by simp
  then have "\<bar>x\<bar> \<le> 2 powi (?e + int p)"
    using ulp_exp_upper [of "\<bar>x\<bar>" p q] by (simp add: ulp_exp_def)
  then have "\<bar>x\<bar> \<le> of_int (2 ^ p) * 2 powi ?e"
    using powi_nat_split [of ?e p] by simp
  then have ub: "x \<le> of_int (2 ^ p) * 2 powi ?e" and lb: "of_int (- (2 ^ p)) * 2 powi ?e \<le> x"
    by simp_all
  have "?k \<le> 2 ^ p" using ub by (intro rhe_le) (simp only: powi_shift)
  moreover have "- (2 ^ p) \<le> ?k" using lb by (intro rhe_ge) (simp only: powi_shift')
  ultimately have "\<bar>?k\<bar> \<le> 2 ^ p" by simp
  moreover have "q \<le> ?e" by (simp add: ulp_exp_def)
  ultimately show ?thesis
    unfolding representable_def using False by (intro exI [of _ ?k] exI [of _ ?e]) (simp add: fl_def)
qed

section \<open>The interface of a rounding function\<close>

text \<open>
  What the component proofs know of rounding: monotone, the identity on the numbers of the format,
  with results in the format. Every bound below (a clamped sum, an average of bounded samples, a
  calibrated value) follows from these three laws, so it holds whatever the rounding error is.
\<close>

locale rounding =
  fixes rnd :: "rat \<Rightarrow> rat" and exact :: "rat \<Rightarrow> bool"
  assumes rnd_mono: "x \<le> y \<Longrightarrow> rnd x \<le> rnd y"
    and rnd_exact: "exact x \<Longrightarrow> rnd x = x"
    and exact_rnd: "exact (rnd x)"
begin

lemma rnd_ge: "exact lo \<Longrightarrow> lo \<le> x \<Longrightarrow> lo \<le> rnd x"
  using rnd_mono [of lo x] by (simp add: rnd_exact)

lemma rnd_le: "exact hi \<Longrightarrow> x \<le> hi \<Longrightarrow> rnd x \<le> hi"
  using rnd_mono [of x hi] by (simp add: rnd_exact)

lemma rnd_idem: "rnd (rnd x) = rnd x"
  by (simp add: rnd_exact exact_rnd)

lemma rnd_abs_le:
  assumes "exact b" "exact (- b)" "\<bar>x\<bar> \<le> b"
  shows "\<bar>rnd x\<bar> \<le> b"
  using rnd_le [OF assms(1), of x] rnd_ge [OF assms(2), of x] assms(3)
  by (simp add: abs_le_iff)

end

datatype flt = Fin rat | PInf | NInf | NaN

definition mkflt :: "nat \<Rightarrow> int \<Rightarrow> nat \<Rightarrow> rat \<Rightarrow> flt" where
  "mkflt p q emax x = (let r = fl p q x in
     if 2 ^ emax \<le> r then PInf else if r \<le> - (2 ^ emax) then NInf else Fin r)"

text \<open>The two formats: C++ \<open>float\<close> and \<open>double\<close>.\<close>

definition f32 :: "rat \<Rightarrow> flt" where
  "f32 = mkflt 24 (- 149) 128"

definition f64 :: "rat \<Rightarrow> flt" where
  "f64 = mkflt 53 (- 1074) 1024"

text \<open>A format with its overflow threshold: results below it are finite.\<close>

locale float_format = rounding rnd exact for rnd :: "rat \<Rightarrow> rat" and exact :: "rat \<Rightarrow> bool" +
  fixes mk :: "rat \<Rightarrow> flt" and top :: rat
  assumes mk_Fin: "\<bar>rnd x\<bar> < top \<Longrightarrow> mk x = Fin (rnd x)"
begin

lemma mk_between:
  assumes "exact lo" "exact hi" "lo \<le> x" "x \<le> hi" "- top < lo" "hi < top"
  shows "\<exists>r. mk x = Fin r \<and> lo \<le> r \<and> r \<le> hi"
proof -
  have "lo \<le> rnd x" "rnd x \<le> hi" using assms by (auto intro: rnd_ge rnd_le)
  with assms(5,6) show ?thesis using mk_Fin [of x] by auto
qed

lemma mk_exact: "exact x \<Longrightarrow> \<bar>x\<bar> < top \<Longrightarrow> mk x = Fin x"
  using mk_Fin [of x] by (simp add: rnd_exact)

end

interpretation r32: float_format "fl 24 (- 149)" "representable 24 (- 149)" f32 "2 ^ 128"
  by unfold_locales
    (auto intro: fl_mono fl_representable representable_fl simp: f32_def mkflt_def Let_def abs_less_iff)

interpretation r64: float_format "fl 53 (- 1074)" "representable 53 (- 1074)" f64 "2 ^ 1024"
  by unfold_locales
    (auto intro: fl_mono fl_representable representable_fl simp: f64_def mkflt_def Let_def abs_less_iff)

section \<open>Arithmetic and comparison\<close>

text \<open>
  The operations take the format's constructor. A quotient by zero is the infinity of the
  dividend's sign (the divisor's zero is taken as positive).
\<close>

fun f_neg :: "flt \<Rightarrow> flt" where
  "f_neg (Fin x) = Fin (- x)"
| "f_neg PInf = NInf"
| "f_neg NInf = PInf"
| "f_neg NaN = NaN"

fun f_add :: "(rat \<Rightarrow> flt) \<Rightarrow> flt \<Rightarrow> flt \<Rightarrow> flt" where
  "f_add mk (Fin x) (Fin y) = mk (x + y)"
| "f_add mk NaN y = NaN"
| "f_add mk x NaN = NaN"
| "f_add mk PInf NInf = NaN"
| "f_add mk NInf PInf = NaN"
| "f_add mk PInf y = PInf"
| "f_add mk x PInf = PInf"
| "f_add mk NInf y = NInf"
| "f_add mk x NInf = NInf"

definition f_sub :: "(rat \<Rightarrow> flt) \<Rightarrow> flt \<Rightarrow> flt \<Rightarrow> flt" where
  "f_sub mk x y = f_add mk x (f_neg y)"

fun f_sgn :: "flt \<Rightarrow> rat" where
  "f_sgn (Fin x) = sgn x"
| "f_sgn PInf = 1"
| "f_sgn NInf = - 1"
| "f_sgn NaN = 0"

definition f_inf :: "rat \<Rightarrow> flt" where
  "f_inf s = (if 0 < s then PInf else if s < 0 then NInf else NaN)"

fun f_mul :: "(rat \<Rightarrow> flt) \<Rightarrow> flt \<Rightarrow> flt \<Rightarrow> flt" where
  "f_mul mk (Fin x) (Fin y) = mk (x * y)"
| "f_mul mk NaN y = NaN"
| "f_mul mk x NaN = NaN"
| "f_mul mk x y = f_inf (f_sgn x * f_sgn y)"

fun f_div :: "(rat \<Rightarrow> flt) \<Rightarrow> flt \<Rightarrow> flt \<Rightarrow> flt" where
  "f_div mk (Fin x) (Fin y) = (if y = 0 then f_inf (sgn x) else mk (x / y))"
| "f_div mk NaN y = NaN"
| "f_div mk x NaN = NaN"
| "f_div mk (Fin x) y = Fin 0"
| "f_div mk x (Fin y) = f_inf (f_sgn x * (if y = 0 then 1 else sgn y))"
| "f_div mk x y = NaN"

fun f_lt :: "flt \<Rightarrow> flt \<Rightarrow> bool" where
  "f_lt (Fin x) (Fin y) \<longleftrightarrow> x < y"
| "f_lt NaN y \<longleftrightarrow> False"
| "f_lt x NaN \<longleftrightarrow> False"
| "f_lt x PInf \<longleftrightarrow> x \<noteq> PInf"
| "f_lt NInf y \<longleftrightarrow> y \<noteq> NInf"
| "f_lt x y \<longleftrightarrow> False"

definition f_eq :: "flt \<Rightarrow> flt \<Rightarrow> bool" where
  "f_eq x y \<longleftrightarrow> x = y \<and> x \<noteq> NaN"

definition f_le :: "flt \<Rightarrow> flt \<Rightarrow> bool" where
  "f_le x y \<longleftrightarrow> f_lt x y \<or> f_eq x y"

text \<open>C++ \<open>!=\<close> on floating-point values: a NaN differs from everything, itself included.\<close>

definition f_neq :: "flt \<Rightarrow> flt \<Rightarrow> bool" where
  "f_neq x y \<longleftrightarrow> \<not> f_eq x y"

text \<open>\<open>std::clamp\<close>, with its two comparisons; a NaN passes through.\<close>

definition f_clamp :: "flt \<Rightarrow> flt \<Rightarrow> flt \<Rightarrow> flt" where
  "f_clamp v lo hi = (if f_lt v lo then lo else if f_lt hi v then hi else v)"

text \<open>Conversions: an integer or a \<open>double\<close> to a format (\<open>float\<close> to \<open>double\<close> is exact).\<close>

fun f_round :: "(rat \<Rightarrow> flt) \<Rightarrow> flt \<Rightarrow> flt" where
  "f_round mk (Fin x) = mk x"
| "f_round mk x = x"

definition f_int :: "(rat \<Rightarrow> flt) \<Rightarrow> int \<Rightarrow> flt" where
  "f_int mk n = mk (of_int n)"

text \<open>A value within two bounds: finite, and between them.\<close>

definition f_in :: "rat \<Rightarrow> rat \<Rightarrow> flt \<Rightarrow> bool" where
  "f_in lo hi v \<longleftrightarrow> (\<exists>r. v = Fin r \<and> lo \<le> r \<and> r \<le> hi)"

lemma f_in_Fin [simp]: "f_in lo hi (Fin r) \<longleftrightarrow> lo \<le> r \<and> r \<le> hi"
  by (auto simp: f_in_def)

lemma f_in_simps [simp]: "\<not> f_in lo hi PInf" "\<not> f_in lo hi NInf" "\<not> f_in lo hi NaN"
  by (auto simp: f_in_def)

lemma f_inE: "f_in lo hi v \<Longrightarrow> (\<And>r. v = Fin r \<Longrightarrow> lo \<le> r \<Longrightarrow> r \<le> hi \<Longrightarrow> P) \<Longrightarrow> P"
  by (auto simp: f_in_def)

lemma f_in_mono: "f_in lo hi v \<Longrightarrow> lo' \<le> lo \<Longrightarrow> hi \<le> hi' \<Longrightarrow> f_in lo' hi' v"
  by (auto simp: f_in_def)

lemma f_clamp_in: "lo \<le> hi \<Longrightarrow> v \<noteq> NaN \<Longrightarrow> f_in lo hi (f_clamp v (Fin lo) (Fin hi))"
  by (cases v) (auto simp: f_clamp_def)

lemma f_clamp_id: "f_in lo hi v \<Longrightarrow> f_clamp v (Fin lo) (Fin hi) = v"
  by (auto simp: f_clamp_def f_in_def)

lemma f_clamp_idem:
  "lo \<le> hi \<Longrightarrow> f_clamp (f_clamp v (Fin lo) (Fin hi)) (Fin lo) (Fin hi) = f_clamp v (Fin lo) (Fin hi)"
  by (cases v) (auto simp: f_clamp_def)

lemma f_clamp_NaN [simp]: "f_clamp NaN lo hi = NaN"
  by (cases lo; cases hi) (simp_all add: f_clamp_def)

lemma f_lt_irrefl [simp]: "\<not> f_lt v v"
  by (cases v) auto

lemma f_lt_NaN [simp]: "\<not> f_lt v NaN" "\<not> f_lt NaN v"
  by (cases v; simp)+

lemma f32_not_NaN [simp]: "f32 x \<noteq> NaN" "f64 x \<noteq> NaN"
  by (auto simp: f32_def f64_def mkflt_def Let_def)

text \<open>Bounds of a single-precision result, with integer bounds (all below \<open>2 ^ 24\<close> are exact).\<close>

lemma representable_int32 [simp]: "\<bar>k\<bar> \<le> 2 ^ 24 \<Longrightarrow> representable 24 (- 149) (of_int k)"
  by (rule representable_int) auto

lemma representable_int64 [simp]: "\<bar>k\<bar> \<le> 2 ^ 53 \<Longrightarrow> representable 53 (- 1074) (of_int k)"
  by (rule representable_int) auto

lemma int_below_top: "\<bar>k\<bar> \<le> 2 ^ 24 \<Longrightarrow> \<bar>of_int k\<bar> < (2 ^ 128 :: rat)"
proof -
  assume "\<bar>k\<bar> \<le> 2 ^ 24"
  then have "(of_int \<bar>k\<bar> :: rat) \<le> of_int (2 ^ 24)" by (simp only: of_int_le_iff)
  then show "\<bar>of_int k\<bar> < (2 ^ 128 :: rat)" by simp
qed

lemma f32_in_int:
  assumes "of_int lo \<le> x" "x \<le> of_int hi" "\<bar>lo\<bar> \<le> 2 ^ 24" "\<bar>hi\<bar> \<le> 2 ^ 24"
  shows "f_in (of_int lo) (of_int hi) (f32 x)"
  using r32.mk_between [of "of_int lo" "of_int hi" x] assms
    int_below_top [OF assms(3)] int_below_top [OF assms(4)]
  by (auto simp: f_in_def)

lemma f32_int: "\<bar>k\<bar> \<le> 2 ^ 24 \<Longrightarrow> f32 (of_int k) = Fin (of_int k)"
  using f32_in_int [of k "of_int k" k] by (auto simp: f_in_def)

lemma f_int32 [simp]: "\<bar>k\<bar> \<le> 2 ^ 24 \<Longrightarrow> f_int f32 k = Fin (of_int k)"
  by (simp add: f_int_def f32_int)

text \<open>Sums and means of bounded values stay within the bounds, rounding included.\<close>

lemma f32_add_in:
  assumes "f_in (of_int a) (of_int b) x" "f_in (of_int c) (of_int d) y"
    "\<bar>a + c\<bar> \<le> 2 ^ 24" "\<bar>b + d\<bar> \<le> 2 ^ 24"
  shows "f_in (of_int (a + c)) (of_int (b + d)) (f_add f32 x y)"
  using assms(1,2) by (auto simp del: of_int_add elim!: f_inE intro!: f32_in_int assms(3,4))

lemma f32_mean_in:
  assumes "0 < k" "int k \<le> 2 ^ 24" "f_in (of_int (lo * int k)) (of_int (hi * int k)) s"
    "\<bar>lo\<bar> \<le> 2 ^ 24" "\<bar>hi\<bar> \<le> 2 ^ 24"
  shows "f_in (of_int lo) (of_int hi) (f_div f32 s (f_int f32 (int k)))"
proof -
  obtain r where s: "s = Fin r" and r: "of_int lo * of_nat k \<le> r" "r \<le> of_int hi * of_nat k"
    using assms(3) by (auto elim: f_inE)
  have "of_int lo \<le> r / of_nat k" "r / of_nat k \<le> of_int hi"
    using r assms(1) by (simp_all add: pos_le_divide_eq pos_divide_le_eq)
  then show ?thesis
    using assms by (auto simp: s intro!: f32_in_int)
qed

lemma f32_fixed: "f32 x = Fin r \<Longrightarrow> f32 r = Fin r"
  by (auto simp: f32_def mkflt_def Let_def fl_representable representable_fl split: if_splits)

lemma f64_fixed: "f64 x = Fin r \<Longrightarrow> f64 r = Fin r"
  by (auto simp: f64_def mkflt_def Let_def fl_representable representable_fl split: if_splits)

section \<open>The order of results\<close>

text \<open>Every operation of a \<open>double\<close> computation that is monotone on numbers is monotone on the
  rounded results, overflow to the infinities included.\<close>

lemma f_le_simps [simp]:
  "f_le (Fin x) (Fin y) \<longleftrightarrow> x \<le> y" "f_le NInf (Fin y)" "f_le (Fin x) PInf" "f_le NInf PInf"
  "f_le PInf PInf" "f_le NInf NInf" "\<not> f_le PInf (Fin y)" "\<not> f_le (Fin x) NInf" "\<not> f_le PInf NInf"
  "\<not> f_le NaN v" "\<not> f_le v NaN"
  by (auto simp: f_le_def f_eq_def)

lemma f_le_refl [simp]: "f_le v v \<longleftrightarrow> v \<noteq> NaN"
  by (cases v) simp_all

lemma f_le_trans: "f_le u v \<Longrightarrow> f_le v w \<Longrightarrow> f_le u w"
  by (cases u; cases v; cases w) simp_all

lemma f_in_f_le: "f_in lo hi v \<longleftrightarrow> f_le (Fin lo) v \<and> f_le v (Fin hi)"
  by (cases v) simp_all

lemma mkflt_mono: "0 < p \<Longrightarrow> x \<le> y \<Longrightarrow> f_le (mkflt p q emax x) (mkflt p q emax y)"
  using fl_mono [of p x y q] by (auto simp: mkflt_def Let_def)

lemma f32_mono: "x \<le> y \<Longrightarrow> f_le (f32 x) (f32 y)"
  by (simp add: f32_def mkflt_mono)

lemma f64_mono: "x \<le> y \<Longrightarrow> f_le (f64 x) (f64 y)"
  by (simp add: f64_def mkflt_mono)

lemma f_mul_mono: "f_le u v \<Longrightarrow> 0 < c \<Longrightarrow> f_le (f_mul f64 u (Fin c)) (f_mul f64 v (Fin c))"
proof -
  have l: "f_le NInf (f64 x)" "f_le (f64 x) PInf" for x by (cases "f64 x"; simp)+
  assume "f_le u v" "0 < c"
  then show ?thesis by (cases u; cases v) (simp_all add: f64_mono f_inf_def l)
qed

lemma f_div_mono: "f_le u v \<Longrightarrow> 0 < c \<Longrightarrow> f_le (f_div f64 u (Fin c)) (f_div f64 v (Fin c))"
proof -
  have l: "f_le NInf (f64 x)" "f_le (f64 x) PInf" for x by (cases "f64 x"; simp)+
  assume "f_le u v" "0 < c"
  then show ?thesis
    by (cases u; cases v) (simp_all add: f64_mono f_inf_def l divide_right_mono)
qed

lemma f_clamp_mono:
  "f_le u v \<Longrightarrow> lo \<le> hi \<Longrightarrow> f_le (f_clamp u (Fin lo) (Fin hi)) (f_clamp v (Fin lo) (Fin hi))"
  by (cases u; cases v) (auto simp: f_clamp_def)

lemma f_round_mono: "f_le u v \<Longrightarrow> f_le (f_round f32 u) (f_round f32 v)"
proof -
  have l: "f_le NInf (f32 x)" "f_le (f32 x) PInf" for x by (cases "f32 x"; simp)+
  assume "f_le u v"
  then show ?thesis by (cases u; cases v) (simp_all add: f32_mono l)
qed

lemma int_below_top64: "\<bar>k\<bar> \<le> 2 ^ 53 \<Longrightarrow> \<bar>of_int k\<bar> < (2 ^ 1024 :: rat)"
proof -
  assume "\<bar>k\<bar> \<le> 2 ^ 53"
  then have "(of_int \<bar>k\<bar> :: rat) \<le> of_int (2 ^ 53)" by (simp only: of_int_le_iff)
  moreover have "(2 ^ 53 :: rat) < 2 ^ 1024" by (rule power_strict_increasing) auto
  ultimately show "\<bar>of_int k\<bar> < (2 ^ 1024 :: rat)" by simp
qed

lemma f64_int: "\<bar>k\<bar> \<le> 2 ^ 53 \<Longrightarrow> f64 (of_int k) = Fin (of_int k)"
  using r64.mk_exact [of "of_int k"] by (simp add: int_below_top64)

lemma f_int64 [simp]: "\<bar>k\<bar> \<le> 2 ^ 53 \<Longrightarrow> f_int f64 k = Fin (of_int k)"
  by (simp add: f_int_def f64_int)

lemma f64_in_int:
  assumes "of_int lo \<le> x" "x \<le> of_int hi" "\<bar>lo\<bar> \<le> 2 ^ 53" "\<bar>hi\<bar> \<le> 2 ^ 53"
  shows "f_in (of_int lo) (of_int hi) (f64 x)"
  using f64_mono [OF assms(1)] f64_mono [OF assms(2)]
  by (simp only: f_in_f_le f64_int [OF assms(3)] f64_int [OF assms(4)])

text \<open>Distinct numbers of a format have a difference that does not round to zero.\<close>

lemma representable_multiple:
  assumes "representable p q x"
  shows "\<exists>k. x = of_int k * 2 powi q"
proof -
  obtain m e where x: "x = of_int m * 2 powi e" and "q \<le> e"
    using assms by (auto simp: representable_def)
  then obtain k where "x * 2 powi (- q) = of_int k" using scaled_int [of q e m] by auto
  then have "x = of_int k * 2 powi q" by (simp add: power_int_minus field_simps)
  then show ?thesis ..
qed

lemma fl_diff_pos:
  assumes p: "0 < p" and "representable p q x" "representable p q y" "y < x"
  shows "0 < fl p q (x - y)"
proof -
  obtain a b where a: "x = of_int a * 2 powi q" and b: "y = of_int b * 2 powi q"
    using representable_multiple assms(2,3) by meson
  then have "b < a" using assms(4) by simp
  then have "(of_int 1 :: rat) \<le> of_int (a - b)" by (simp only: of_int_le_iff)
  then have "1 * 2 powi q \<le> of_int (a - b) * (2 :: rat) powi q" by (intro mult_right_mono) auto
  then have "2 powi q \<le> x - y" by (simp add: a b left_diff_distrib)
  then have "fl p q (2 powi q) \<le> fl p q (x - y)" by (rule fl_mono [OF p])
  moreover have "representable p q (2 powi q)"
    unfolding representable_def by (intro exI [of _ 1] exI [of _ q]) simp
  ultimately have "2 powi q \<le> fl p q (x - y)" using fl_representable [OF p] by simp
  moreover have "0 < (2 :: rat) powi q" by simp
  ultimately show ?thesis by (rule order.strict_trans2 [rotated])
qed

end
