(* ===== verification/SharedLayout.thy ===== *)
theory SharedLayout
  imports Floats
begin

text \<open>
  The data shared between the LP program and the HP firmware: \<open>lp_sensor_core_config_t\<close>
  (\<open>components/lp_sensor_core/include/lp_sensor_core.h\<close>) and \<open>lp_shared_state_t\<close>
  (\<open>include/shared_layout.h\<close>), field by field and in the same order. The eight configuration
  fields open both structs, so the shared state extends the configuration record.

  Who writes what: the HP side writes the configuration block and the three \<open>hp_ack\<close> fields, the
  LP program everything else. \<open>hp_frame\<close> says that a step leaves the LP-owned fields alone;
  \<open>seq_view\<close> is the part of the state that \<open>result_seq\<close> protects.
\<close>

record lp_sensor_core_config =
  sensor_samples :: u32
  temp_offset_c :: flt
  temp_min_change_c :: flt
  rh_offset_pct :: flt
  rh_min_change_pct :: flt
  max_skip_cycles :: u32
  heater_period_cycles :: u32
  high_rh_trigger_cycles :: u32

record lp_shared_state = lp_sensor_core_config +
  heartbeat_counter :: u32
  result_seq :: u32
  sensor_ok :: u32
  consec_fail_count :: u32
  raw_temp_c :: flt
  raw_hum_pct :: flt
  cal_temp_c :: flt
  cal_hum_pct :: flt
  should_wake_hp :: u32
  prev_delivered_temp_c :: flt
  prev_delivered_hum_pct :: flt
  skipped_cycles :: u32
  hp_ack_seq :: u32
  hp_acked_temp_c :: flt
  hp_acked_hum_pct :: flt
  cycles_since_heater :: u32
  high_rh_cycles :: u32
  heater_active :: u32
  last_heater_run_cycle :: u32
  last_heater_delta_t :: flt
  last_heater_passed :: u32
  heater_run_count :: u32

text \<open>The all-zero state \<open>ulp_lp_core_load_binary()\<close> leaves behind.\<close>

definition zero_shared :: lp_shared_state where
  "zero_shared = \<lparr>sensor_samples = 0, temp_offset_c = Fin 0, temp_min_change_c = Fin 0,
     rh_offset_pct = Fin 0, rh_min_change_pct = Fin 0, max_skip_cycles = 0,
     heater_period_cycles = 0, high_rh_trigger_cycles = 0,
     heartbeat_counter = 0, result_seq = 0, sensor_ok = 0, consec_fail_count = 0,
     raw_temp_c = Fin 0, raw_hum_pct = Fin 0, cal_temp_c = Fin 0, cal_hum_pct = Fin 0,
     should_wake_hp = 0, prev_delivered_temp_c = Fin 0, prev_delivered_hum_pct = Fin 0,
     skipped_cycles = 0, hp_ack_seq = 0, hp_acked_temp_c = Fin 0, hp_acked_hum_pct = Fin 0,
     cycles_since_heater = 0, high_rh_cycles = 0, heater_active = 0, last_heater_run_cycle = 0,
     last_heater_delta_t = Fin 0, last_heater_passed = 0, heater_run_count = 0\<rparr>"

section \<open>Ownership\<close>

text \<open>
  \<open>seq_view\<close> is what a reader may rely on under the sequence lock: the fields the LP program writes
  between two increments of the counter. The delivery baseline and the skip counter are LP-owned
  too, but the LP program also writes them before the first increment, while the counter is even;
  \<open>lp_view\<close> adds them and the counter itself.
\<close>

definition seq_view where
  "seq_view s = (heartbeat_counter s, sensor_ok s, consec_fail_count s,
     (raw_temp_c s, raw_hum_pct s, cal_temp_c s, cal_hum_pct s), should_wake_hp s,
     (cycles_since_heater s, high_rh_cycles s, heater_active s, last_heater_run_cycle s,
      last_heater_delta_t s, last_heater_passed s, heater_run_count s))"

definition lp_view where
  "lp_view s = (seq_view s, result_seq s,
     prev_delivered_temp_c s, prev_delivered_hum_pct s, skipped_cycles s)"

text \<open>What the HP side owns: the configuration block and the acknowledgement.\<close>

type_synonym hp_fields = "(u32 \<times> flt \<times> flt \<times> flt \<times> flt \<times> u32 \<times> u32 \<times> u32) \<times> u32 \<times> flt \<times> flt"

definition hp_view :: "lp_shared_state \<Rightarrow> hp_fields" where
  "hp_view s = ((sensor_samples s, temp_offset_c s, temp_min_change_c s, rh_offset_pct s,
     rh_min_change_pct s, max_skip_cycles s, heater_period_cycles s, high_rh_trigger_cycles s),
     hp_ack_seq s, hp_acked_temp_c s, hp_acked_hum_pct s)"

lemma hp_view_upd [simp]:
  "hp_view (s\<lparr>result_seq := n\<rparr>) = hp_view s" "hp_view (s\<lparr>heartbeat_counter := n\<rparr>) = hp_view s"
  "hp_view (s\<lparr>sensor_ok := n\<rparr>) = hp_view s" "hp_view (s\<lparr>consec_fail_count := n\<rparr>) = hp_view s"
  "hp_view (s\<lparr>raw_temp_c := v\<rparr>) = hp_view s" "hp_view (s\<lparr>raw_hum_pct := v\<rparr>) = hp_view s"
  "hp_view (s\<lparr>cal_temp_c := v\<rparr>) = hp_view s" "hp_view (s\<lparr>cal_hum_pct := v\<rparr>) = hp_view s"
  "hp_view (s\<lparr>should_wake_hp := n\<rparr>) = hp_view s" "hp_view (s\<lparr>prev_delivered_temp_c := v\<rparr>) = hp_view s"
  "hp_view (s\<lparr>prev_delivered_hum_pct := v\<rparr>) = hp_view s" "hp_view (s\<lparr>skipped_cycles := n\<rparr>) = hp_view s"
  "hp_view (s\<lparr>cycles_since_heater := n\<rparr>) = hp_view s" "hp_view (s\<lparr>high_rh_cycles := n\<rparr>) = hp_view s"
  "hp_view (s\<lparr>heater_active := n\<rparr>) = hp_view s" "hp_view (s\<lparr>last_heater_run_cycle := n\<rparr>) = hp_view s"
  "hp_view (s\<lparr>last_heater_delta_t := v\<rparr>) = hp_view s" "hp_view (s\<lparr>last_heater_passed := n\<rparr>) = hp_view s"
  "hp_view (s\<lparr>heater_run_count := n\<rparr>) = hp_view s"
  by (simp_all add: hp_view_def)

text \<open>A step of the HP side leaves the LP-owned fields alone.\<close>

definition hp_frame :: "lp_shared_state \<Rightarrow> lp_shared_state \<Rightarrow> bool" where
  "hp_frame s t \<longleftrightarrow> lp_view t = lp_view s"

lemma hp_frame_refl [simp]: "hp_frame s s"
  by (simp add: hp_frame_def)

lemma hp_frame_fields:
  assumes "hp_frame s t"
  shows "heartbeat_counter t = heartbeat_counter s" "result_seq t = result_seq s"
    "sensor_ok t = sensor_ok s" "consec_fail_count t = consec_fail_count s"
    "raw_temp_c t = raw_temp_c s" "raw_hum_pct t = raw_hum_pct s"
    "cal_temp_c t = cal_temp_c s" "cal_hum_pct t = cal_hum_pct s"
    "should_wake_hp t = should_wake_hp s"
    "prev_delivered_temp_c t = prev_delivered_temp_c s"
    "prev_delivered_hum_pct t = prev_delivered_hum_pct s" "skipped_cycles t = skipped_cycles s"
    "cycles_since_heater t = cycles_since_heater s" "high_rh_cycles t = high_rh_cycles s"
    "heater_active t = heater_active s" "last_heater_run_cycle t = last_heater_run_cycle s"
    "last_heater_delta_t t = last_heater_delta_t s" "last_heater_passed t = last_heater_passed s"
    "heater_run_count t = heater_run_count s"
  using assms by (simp_all add: hp_frame_def lp_view_def seq_view_def)

end
