(* ===== verification/LpMeasure.thy ===== *)
theory LpMeasure
  imports SharedLayout
begin

text \<open>
  The sensor side of the LP program, \<open>components/lp_sensor_core/lp_core/main.cpp\<close>: the SHT4x
  frame check and conversion, averaging, and the heater maintenance sequence. The I2C bus and the
  busy-wait are a parameter (\<open>'b i2c\<close>) over an abstract environment state.

  The lemmas: the checksum detects every change of one byte and every error of up to three bits;
  every value a measurement, an average or a heater run can deliver is finite and in the physical
  range, whatever the rounding; the loops' time bounds.
\<close>

section \<open>The bus\<close>

text \<open>\<open>uint8_t raw[6]\<close>, the reply to a measurement command.\<close>

datatype raw6 = Raw u8 u8 u8 u8 u8 u8

record 'b i2c =
  i2c_write :: "u8 \<Rightarrow> 'b \<Rightarrow> bool \<times> 'b"
  i2c_read :: "'b \<Rightarrow> raw6 option \<times> 'b"
  delay_us :: "u32 \<Rightarrow> 'b \<Rightarrow> 'b"

definition kCmdMeasureHigh :: u8 where "kCmdMeasureHigh = 0xFD"
definition kMeasureDelayUs :: u32 where "kMeasureDelayUs = 10000"
definition kCmdHeaterMediumShort :: u8 where "kCmdHeaterMediumShort = 0x24"
definition kHeaterMediumShortDelayUs :: u32 where "kHeaterMediumShortDelayUs = 110000"
definition kCmdHeaterHighLong :: u8 where "kCmdHeaterHighLong = 0x39"
definition kHeaterHighLongDelayUs :: u32 where "kHeaterHighLongDelayUs = 1100000"
definition kInterSampleDelayUs :: u32 where "kInterSampleDelayUs = 100000"
definition kHighRhThreshold :: flt where "kHighRhThreshold = Fin 90"
definition kHeaterDurationMs :: u32 where "kHeaterDurationMs = 20000"
definition kSelftestDeltaT :: flt where "kSelftestDeltaT = Fin 5"
definition kCreepDeltaT :: flt where "kCreepDeltaT = Fin 40"
definition kCooldownEpsilonC :: flt where "kCooldownEpsilonC = f32 (3 / 10)"
definition kCooldownMaxMs :: u32 where "kCooldownMaxMs = 240000"
definition kCooldownPollMs :: u32 where "kCooldownPollMs = 2000"
definition kRhSettleMs :: u32 where "kRhSettleMs = 90000"

lemmas lp_constants = kCmdMeasureHigh_def kMeasureDelayUs_def kCmdHeaterMediumShort_def
  kHeaterMediumShortDelayUs_def kCmdHeaterHighLong_def kHeaterHighLongDelayUs_def
  kInterSampleDelayUs_def kHighRhThreshold_def kHeaterDurationMs_def kSelftestDeltaT_def
  kCreepDeltaT_def kCooldownEpsilonC_def kCooldownMaxMs_def kCooldownPollMs_def kRhSettleMs_def

section \<open>The frame check\<close>

text \<open>One bit of \<open>crc8\<close>'s inner loop, and the eight bits of one byte.\<close>

definition crc8_bit :: "u8 \<Rightarrow> u8" where
  "crc8_bit crc = (if crc AND 0x80 \<noteq> 0 then push_bit 1 crc XOR 0x31 else push_bit 1 crc)"

definition crc8_byte :: "u8 \<Rightarrow> u8 \<Rightarrow> u8" where
  "crc8_byte crc d = (crc8_bit ^^ 8) (crc XOR d)"

definition crc8 :: "u8 list \<Rightarrow> u8" where
  "crc8 data = foldl crc8_byte 0xFF data"

section \<open>One measurement\<close>

definition clampf :: "flt \<Rightarrow> flt \<Rightarrow> flt \<Rightarrow> flt" where
  "clampf v lo hi = (if f_lt v lo then lo else if f_lt hi v then hi else v)"

definition absf :: "flt \<Rightarrow> flt" where
  "absf v = (if f_lt v (Fin 0) then f_neg v else v)"

definition join16 :: "u8 \<Rightarrow> u8 \<Rightarrow> u16" where
  "join16 hi lo = push_bit 8 (ucast hi) OR ucast lo"

definition sht4x_temp :: "u16 \<Rightarrow> flt" where
  "sht4x_temp raw = f_sub f32 (f_div f32 (f_mul f32 (f_int f32 (uint raw)) (Fin 175)) (Fin 65535)) (Fin 45)"

definition sht4x_hum :: "u16 \<Rightarrow> flt" where
  "sht4x_hum raw = clampf
     (f_sub f32 (f_div f32 (f_mul f32 (f_int f32 (uint raw)) (Fin 125)) (Fin 65535)) (Fin 6))
     (Fin 0) (Fin 100)"

text \<open>
  \<open>measure\<close>: \<open>None\<close> is the result \<open>false\<close> (write error, read error or checksum mismatch); the two
  output arguments are the pair of a \<open>Some\<close>.
\<close>

definition measure_sht :: "'b i2c \<Rightarrow> u8 \<Rightarrow> u32 \<Rightarrow> 'b \<Rightarrow> (flt \<times> flt) option \<times> 'b" where
  "measure_sht bus cmd delayUs b =
    (case i2c_write bus cmd b of
       (False, b) \<Rightarrow> (None, b)
     | (True, b) \<Rightarrow>
        (case i2c_read bus (delay_us bus delayUs b) of
           (None, b) \<Rightarrow> (None, b)
         | (Some (Raw r0 r1 r2 r3 r4 r5), b) \<Rightarrow>
             if r2 \<noteq> crc8 [r0, r1] \<or> r5 \<noteq> crc8 [r3, r4] then (None, b)
             else (Some (sht4x_temp (join16 r0 r1), sht4x_hum (join16 r3 r4)), b)))"

text \<open>
  \<open>measureAveraged\<close>. The loop carries the number of iterations left, whether it is past the first,
  the two sums and the number of successful reads.
\<close>

fun sample_loop :: "'b i2c \<Rightarrow> nat \<Rightarrow> bool \<Rightarrow> flt \<Rightarrow> flt \<Rightarrow> nat \<Rightarrow> 'b \<Rightarrow> (flt \<times> flt \<times> nat) \<times> 'b" where
  "sample_loop bus 0 later sumT sumH ok b = ((sumT, sumH, ok), b)"
| "sample_loop bus (Suc n) later sumT sumH ok b =
    (case measure_sht bus kCmdMeasureHigh kMeasureDelayUs
        (if later then delay_us bus kInterSampleDelayUs b else b) of
       (None, b) \<Rightarrow> sample_loop bus n True sumT sumH ok b
     | (Some (t, h), b) \<Rightarrow>
         sample_loop bus n True (f_add f32 sumT t) (f_add f32 sumH h) (ok + 1) b)"

definition measureAveraged :: "'b i2c \<Rightarrow> u32 \<Rightarrow> 'b \<Rightarrow> (flt \<times> flt) option \<times> 'b" where
  "measureAveraged bus samples b =
    (let samples = (if samples = 0 then 1 else samples) in
     case sample_loop bus (unat samples) False (Fin 0) (Fin 0) 0 b of
       ((sumT, sumH, ok), b) \<Rightarrow>
         if ok = 0 then (None, b)
         else (Some (f_div f32 sumT (f_int f32 (int ok)), f_div f32 sumH (f_int f32 (int ok))), b))"

section \<open>Heater maintenance\<close>

fun pulse_loop ::
  "'b i2c \<Rightarrow> nat \<Rightarrow> u8 \<Rightarrow> u32 \<Rightarrow> flt \<Rightarrow> flt \<Rightarrow> flt \<times> flt \<Rightarrow> 'b \<Rightarrow> (flt \<times> flt) \<times> 'b" where
  "pulse_loop bus 0 cmd us t0 minDeltaT tr b = (tr, b)"
| "pulse_loop bus (Suc n) cmd us t0 minDeltaT tr b =
    (case measure_sht bus cmd us b of
       (None, b) \<Rightarrow> pulse_loop bus n cmd us t0 minDeltaT tr b
     | (Some (tp, rhp), b) \<Rightarrow>
         if f_le minDeltaT (f_sub f32 tp t0) then ((tp, rhp), b)
         else pulse_loop bus n cmd us t0 minDeltaT (tp, rhp) b)"

fun cooldown_loop :: "'b i2c \<Rightarrow> nat \<Rightarrow> flt \<Rightarrow> flt \<times> flt \<Rightarrow> 'b \<Rightarrow> (flt \<times> flt) \<times> 'b" where
  "cooldown_loop bus 0 t0 tr b = (tr, b)"
| "cooldown_loop bus (Suc n) t0 tr b =
    (case measure_sht bus kCmdMeasureHigh kMeasureDelayUs (delay_us bus (kCooldownPollMs * 1000) b) of
       (None, b) \<Rightarrow> cooldown_loop bus n t0 tr b
     | (Some (tc, rhc), b) \<Rightarrow>
         if f_le tc (f_add f32 t0 kCooldownEpsilonC) then ((tc, rhc), b)
         else cooldown_loop bus n t0 (tc, rhc) b)"

definition runHeaterMaintenance ::
  "'b i2c \<Rightarrow> u8 \<Rightarrow> u32 \<Rightarrow> flt \<Rightarrow> 'b \<Rightarrow> (flt \<times> flt \<times> flt \<times> bool) option \<times> 'b" where
  "runHeaterMaintenance bus heaterCmd heaterDelayUs minDeltaT b =
    (case measure_sht bus kCmdMeasureHigh kMeasureDelayUs b of
       (None, b) \<Rightarrow> (None, b)
     | (Some (t0, rh0), b) \<Rightarrow>
        (let maxPulseIterations = kHeaterDurationMs * 1000 div heaterDelayUs;
             ((t1, rh1), b) =
               pulse_loop bus (unat maxPulseIterations) heaterCmd heaterDelayUs t0 minDeltaT (t0, rh0) b;
             outDeltaT = f_sub f32 t1 t0;
             outPassed = f_le minDeltaT outDeltaT;
             maxCooldownIterations = kCooldownMaxMs div kCooldownPollMs;
             ((t, rh), b) = cooldown_loop bus (unat maxCooldownIterations) t0 (t1, rh1) b;
             b = delay_us bus (kRhSettleMs * 1000) b
         in case measure_sht bus kCmdMeasureHigh kMeasureDelayUs b of
              (None, b) \<Rightarrow> (Some (t, rh, outDeltaT, outPassed), b)
            | (Some (cleanTemp, cleanHum), b) \<Rightarrow> (Some (cleanTemp, cleanHum, outDeltaT, outPassed), b)))"

section \<open>The checksum detects transmission errors\<close>

text \<open>The linear part of the checksum: the register after eight shifts, for an initial value.\<close>

lemma xor_swap4: "(a XOR b) XOR (c XOR d) = (a XOR c) XOR (b XOR d)" for a :: u8
  by (rule bit_word_eqI) (auto simp: bit_xor_iff)

lemma xor_cancel: "(a XOR k) XOR (b XOR k) = a XOR b" for a :: u8
  by (rule bit_word_eqI) (auto simp: bit_xor_iff)

lemma xor_0_iff: "x XOR y = 0 \<longleftrightarrow> x = y" for x :: u8
  by (auto simp: bit_eq_iff bit_xor_iff)

lemma crc8_bit_alt: "crc8_bit z = push_bit 1 z XOR (if bit z 7 then 0x31 else 0)"
proof -
  have "(0x80 :: u8) = push_bit 7 1" by simp
  then have "(z AND 0x80 \<noteq> 0) = bit z 7"
    by (simp only: bit_iff_and_push_bit_not_eq_0)
  then show ?thesis by (simp add: crc8_bit_def)
qed

lemma crc8_bit_linear: "crc8_bit (x XOR y) = crc8_bit x XOR crc8_bit y"
proof -
  have "(if bit (x XOR y) 7 then 0x31 else 0 :: u8)
      = (if bit x 7 then 0x31 else 0) XOR (if bit y 7 then 0x31 else 0)"
    by (auto simp: bit_xor_iff)
  then show ?thesis by (simp only: crc8_bit_alt push_bit_xor xor_swap4)
qed

definition crc8_shift :: "u8 \<Rightarrow> u8" where
  "crc8_shift x = (crc8_bit ^^ 8) x"

lemma crc8_shift_linear: "crc8_shift (x XOR y) = crc8_shift x XOR crc8_shift y"
proof -
  have "(crc8_bit ^^ n) (x XOR y) = (crc8_bit ^^ n) x XOR (crc8_bit ^^ n) y" for n
    by (induction n) (simp_all add: crc8_bit_linear)
  then show ?thesis by (simp add: crc8_shift_def)
qed

lemma crc8_two: "crc8 [a, b] = crc8_shift (crc8_shift (0xFF XOR a) XOR b)"
  by (simp add: crc8_def crc8_byte_def crc8_shift_def)

lemma crc8_error:
  "crc8 [a XOR ea, b XOR eb] = crc8 [a, b] XOR crc8_shift (crc8_shift ea XOR eb)"
proof -
  have "0xFF XOR (a XOR ea) = (0xFF XOR a) XOR ea" by (simp only: xor.assoc)
  then show ?thesis
    by (simp only: crc8_two crc8_shift_linear xor_swap4)
qed

text \<open>A word on the wire: two data bytes and their checksum; \<open>syndrome\<close> decides about an error pattern.\<close>

type_synonym sht_word = "u8 \<times> u8 \<times> u8"

fun frame_ok :: "sht_word \<Rightarrow> bool" where
  "frame_ok (a, b, c) \<longleftrightarrow> c = crc8 [a, b]"

fun frame_xor :: "sht_word \<Rightarrow> sht_word \<Rightarrow> sht_word" where
  "frame_xor (a, b, c) (ea, eb, ec) = (a XOR ea, b XOR eb, c XOR ec)"

fun syndrome :: "sht_word \<Rightarrow> u8" where
  "syndrome (ea, eb, ec) = crc8_shift (crc8_shift ea XOR eb) XOR ec"

definition bit_error :: "nat \<Rightarrow> sht_word" where
  "bit_error i = (if i < 8 then (push_bit i 1, 0, 0)
     else if i < 16 then (0, push_bit (i - 8) 1, 0) else (0, 0, push_bit (i - 16) 1))"

definition flip_bit24 :: "nat \<Rightarrow> sht_word \<Rightarrow> sht_word" where
  "flip_bit24 i w = frame_xor w (bit_error i)"

lemma frame_ok_error:
  assumes "frame_ok w"
  shows "frame_ok (frame_xor w e) \<longleftrightarrow> syndrome e = 0"
proof -
  obtain a b c ea eb ec where w: "w = (a, b, c)" and e: "e = (ea, eb, ec)"
    by (cases w, cases e) auto
  have "(c XOR ec = c XOR x) = (x = ec)" for x
    using xor_0_iff [of "c XOR ec" "c XOR x"] xor_0_iff [of ec x] xor_swap4 [of c ec c x] by auto
  with assms show ?thesis by (simp add: w e crc8_error xor_0_iff)
qed

lemma syndrome_xor: "syndrome (frame_xor d e) = syndrome d XOR syndrome e"
  by (cases d; cases e) (simp only: frame_xor.simps syndrome.simps crc8_shift_linear xor_swap4)

lemma frame_xor_assoc: "frame_xor (frame_xor w d) e = frame_xor w (frame_xor d e)"
  by (cases w; cases d; cases e) (simp add: xor.assoc)

definition bit_syndromes :: "u8 list" where
  "bit_syndromes = map (\<lambda>i. syndrome (bit_error i)) [0..<24]"

lemma crc8_shift_unfold: "crc8_shift x =
    crc8_bit (crc8_bit (crc8_bit (crc8_bit (crc8_bit (crc8_bit (crc8_bit (crc8_bit x)))))))"
  by (simp add: crc8_shift_def eval_nat_numeral)

lemma bit_syndromes_value: "bit_syndromes =
  [0xF4, 0xD9, 0x83, 0x37, 0x6E, 0xDC, 0x89, 0x23,
   0x31, 0x62, 0xC4, 0xB9, 0x43, 0x86, 0x3D, 0x7A, 1, 2, 4, 8, 0x10, 0x20, 0x40, 0x80]"
  by (simp add: bit_syndromes_def upt_rec bit_error_def crc8_shift_unfold crc8_bit_def)

lemma syndrome_bit: "i < 24 \<Longrightarrow> syndrome (bit_error i) = bit_syndromes ! i"
  by (simp add: bit_syndromes_def)

lemma bit_syndromes_distinct: "distinct bit_syndromes"
  by (simp add: bit_syndromes_value)

lemma bit_syndromes_nonzero: "0 \<notin> set bit_syndromes"
  by (simp add: bit_syndromes_value)

text \<open>
  The generator has an even number of terms, so it is divisible by \<open>x + 1\<close>: every single-bit error
  has a syndrome of odd parity, and three of them cannot cancel.
\<close>

primrec parity :: "u8 \<Rightarrow> nat list \<Rightarrow> bool" where
  "parity x [] = False"
| "parity x (i # is) = (bit x i \<noteq> parity x is)"

lemma parity_xor: "parity (x XOR y) is \<longleftrightarrow> parity x is \<noteq> parity y is"
  by (induction "is") (auto simp: bit_xor_iff)

definition odd_parity :: "u8 \<Rightarrow> bool" where
  "odd_parity x \<longleftrightarrow> parity x [0, 1, 2, 3, 4, 5, 6, 7]"

lemma odd_parity_xor: "odd_parity (x XOR y) \<longleftrightarrow> odd_parity x \<noteq> odd_parity y"
  by (simp only: odd_parity_def parity_xor)

lemma bit_syndromes_all_odd: "list_all odd_parity bit_syndromes"
  by (simp add: bit_syndromes_value odd_parity_def)

lemma bit_syndromes_odd: "x \<in> set bit_syndromes \<Longrightarrow> odd_parity x"
  using bit_syndromes_all_odd by (simp add: list_all_iff)

lemma syndrome_in: "i < 24 \<Longrightarrow> syndrome (bit_error i) \<in> set bit_syndromes"
  by (simp add: bit_syndromes_def)

lemma syndrome_1: "i < 24 \<Longrightarrow> syndrome (bit_error i) \<noteq> 0"
  using syndrome_in bit_syndromes_nonzero by metis

lemma length_bit_syndromes [simp]: "length bit_syndromes = 24"
  by (simp add: bit_syndromes_def)

lemma syndrome_2:
  assumes "i < 24" "j < 24" "i \<noteq> j"
  shows "syndrome (frame_xor (bit_error i) (bit_error j)) \<noteq> 0"
  using assms bit_syndromes_distinct
  by (simp add: syndrome_xor xor_0_iff syndrome_bit nth_eq_iff_index_eq)

lemma syndrome_3:
  assumes "i < 24" "j < 24" "k < 24"
  shows "syndrome (frame_xor (bit_error i) (frame_xor (bit_error j) (bit_error k))) \<noteq> 0"
proof -
  have "syndrome (bit_error i) XOR syndrome (bit_error j) \<noteq> syndrome (bit_error k)"
    using assms [THEN syndrome_in, THEN bit_syndromes_odd] odd_parity_xor by metis
  then show ?thesis by (simp only: syndrome_xor xor_0_iff flip: xor.assoc) simp
qed

text \<open>One step of the register is injective, so a change confined to one byte never goes unnoticed.\<close>

lemma crc8_bit_0_iff: "crc8_bit y = 0 \<longleftrightarrow> y = 0"
proof
  assume y: "crc8_bit y = 0"
  then have p: "push_bit 1 y = (if bit y 7 then 0x31 else 0)"
    by (simp only: crc8_bit_alt xor_0_iff)
  have "\<not> bit (push_bit 1 y) 0" by (simp only: bit_push_bit_iff) simp
  moreover have "bit (0x31 :: u8) 0" by simp
  ultimately have b7: "\<not> bit y 7" using p by (auto split: if_splits)
  then have z: "push_bit 1 y = 0" using p by simp
  have "\<not> bit y k" if "k < 7" for k
  proof -
    have "bit (push_bit 1 y) (Suc k) \<longleftrightarrow> bit y k"
      using that by (simp only: bit_push_bit_iff) simp
    then show ?thesis by (simp only: z) simp
  qed
  with b7 have "\<not> bit y k" if "k < 8" for k
    using that by (cases "k = 7") auto
  then show "y = 0" by (auto intro!: bit_word_eqI)
next
  assume "y = 0"
  then show "crc8_bit y = 0" by (simp add: crc8_bit_def)
qed

lemma crc8_shift_0_iff: "crc8_shift x = 0 \<longleftrightarrow> x = 0"
proof -
  have "(crc8_bit ^^ n) x = 0 \<longleftrightarrow> x = 0" for n
    by (induction n) (simp_all add: crc8_bit_0_iff)
  then show ?thesis by (simp add: crc8_shift_def)
qed

lemma syndrome_one_byte:
  assumes "w \<noteq> 0"
  shows "syndrome (w, 0, 0) \<noteq> 0" "syndrome (0, w, 0) \<noteq> 0" "syndrome (0, 0, w) \<noteq> 0"
proof -
  have z: "crc8_shift 0 = 0" by (simp only: crc8_shift_0_iff)
  show "syndrome (w, 0, 0) \<noteq> 0" "syndrome (0, w, 0) \<noteq> 0" "syndrome (0, 0, w) \<noteq> 0"
    using assms by (simp_all add: z crc8_shift_0_iff)
qed


section \<open>Physical bounds of what a measurement delivers\<close>

text \<open>A reading in range: both values finite, -45..130 degrees and 0..100 percent.\<close>

definition reading_ok :: "flt \<times> flt \<Rightarrow> bool" where
  "reading_ok r \<longleftrightarrow> f_in (- 45) 130 (fst r) \<and> f_in 0 100 (snd r)"

lemma f32_in_step:
  assumes "of_int lo \<le> x" "x \<le> of_int hi" "\<bar>lo\<bar> \<le> 2 ^ 24" "\<bar>hi\<bar> \<le> 2 ^ 24" "lo' = of_int lo" "hi' = of_int hi"
  shows "f_in lo' hi' (f32 x)"
  using f32_in_int [OF assms(1-4)] assms(5,6) by simp

lemma sht4x_scale:
  assumes c: "0 \<le> c" "c \<le> 200"
  shows "f_in 0 (of_int c) (f_div f32 (f_mul f32 (f_int f32 (uint (raw :: u16))) (Fin (of_int c))) (Fin 65535))"
proof -
  define k where "k = uint raw"
  have r: "0 \<le> k" "k \<le> 65535"
    using uint_bounded [of raw] by (auto simp: k_def)
  have "k * c \<le> 65535 * c" and k0: "0 \<le> k * c" using r c by (auto intro: mult_right_mono)
  then have p: "f32 (of_int (k * c)) = Fin (of_int (k * c))"
    using c by (intro f32_int) simp
  have "(of_int (k * c) :: rat) \<le> of_int (65535 * c)" "(0 :: rat) \<le> of_int (k * c)"
    using \<open>k * c \<le> 65535 * c\<close> k0 by (simp_all only: of_int_le_iff of_int_0_le_iff)
  then have "of_int (k * c) / (65535 :: rat) \<le> of_int c" "0 \<le> of_int (k * c) / (65535 :: rat)"
    by (simp_all add: pos_divide_le_eq mult.commute del: of_int_mult)
  then have "f_in 0 (of_int c) (f32 (of_int (k * c) / 65535))"
    using c by (intro f32_in_step [of 0 _ c]) auto
  with p r show ?thesis
    by (simp flip: k_def)
qed

lemma sht4x_temp_range: "f_in (- 45) 130 (sht4x_temp raw)"
proof -
  obtain r where r: "f_div f32 (f_mul f32 (f_int f32 (uint raw)) (Fin 175)) (Fin 65535) = Fin r"
      "0 \<le> r" "r \<le> 175"
    using sht4x_scale [of 175 raw] by (auto elim: f_inE)
  have "f_in (- 45) 130 (f32 (r + - 45))"
    by (rule f32_in_step [of "- 45" _ 130]) (use r in auto)
  then show ?thesis by (simp add: sht4x_temp_def r(1) f_sub_def del: f_int32)
qed

lemma clampf_eq: "clampf = f_clamp"
  by (intro ext) (simp add: clampf_def f_clamp_def)

lemma sht4x_hum_range: "f_in 0 100 (sht4x_hum raw)"
proof -
  obtain r where r: "f_div f32 (f_mul f32 (f_int f32 (uint raw)) (Fin 125)) (Fin 65535) = Fin r"
    using sht4x_scale [of 125 raw] by (auto elim: f_inE)
  then show ?thesis
    by (simp add: sht4x_hum_def f_sub_def clampf_eq f_clamp_in)
qed

lemma measure_sht_range: "measure_sht bus cmd us b = (Some r, b') \<Longrightarrow> reading_ok r"
  by (auto simp: measure_sht_def reading_ok_def sht4x_temp_range sht4x_hum_range
      split: prod.splits bool.splits option.splits raw6.splits if_splits)


lemma measure_sht_cases:
  "(\<And>b'. measure_sht bus cmd us b = (None, b') \<Longrightarrow> P)
    \<Longrightarrow> (\<And>t h b'. measure_sht bus cmd us b = (Some (t, h), b') \<Longrightarrow> reading_ok (t, h) \<Longrightarrow> P) \<Longrightarrow> P"
  by (metis measure_sht_range option.exhaust surj_pair)

lemma sample_loop_range:
  assumes "sample_loop bus n later sumT sumH ok b = ((sT, sH, k), b')"
    and "f_in (of_int (- 45 * int ok)) (of_int (130 * int ok)) sumT"
    and "f_in (of_int (0 * int ok)) (of_int (100 * int ok)) sumH"
    and "ok + n \<le> 100000"
  shows "ok \<le> k \<and> k \<le> ok + n \<and> f_in (of_int (- 45 * int k)) (of_int (130 * int k)) sT \<and>
    f_in (of_int (0 * int k)) (of_int (100 * int k)) sH"
  using assms
proof (induction n arbitrary: later sumT sumH ok b)
  case (Suc n)
  let ?b = "if later then delay_us bus kInterSampleDelayUs b else b"
  show ?case
  proof (cases rule: measure_sht_cases [of bus kCmdMeasureHigh kMeasureDelayUs ?b])
    case (1 b1)
    have "sample_loop bus n True sumT sumH ok b1 = ((sT, sH, k), b')" "ok + n \<le> 100000"
      using Suc.prems(1,4) 1 by simp_all
    from Suc.IH [OF this(1) Suc.prems(2,3) this(2)] show ?thesis by simp
  next
    case (2 t h b1)
    have t: "f_in (of_int (- 45)) (of_int 130) t" and h: "f_in (of_int 0) (of_int 100) h"
      using 2(2) by (simp_all add: reading_ok_def)
    have "f_in (of_int (- 45 * int (ok + 1))) (of_int (130 * int (ok + 1))) (f_add f32 sumT t)"
      using f32_add_in [OF Suc.prems(2) t] Suc.prems(4) by (simp add: algebra_simps)
    moreover have "f_in (of_int (0 * int (ok + 1))) (of_int (100 * int (ok + 1))) (f_add f32 sumH h)"
      using f32_add_in [OF Suc.prems(3) h] Suc.prems(4) by (simp add: algebra_simps)
    ultimately show ?thesis
      using Suc.IH [of True "f_add f32 sumT t" "f_add f32 sumH h" "ok + 1" b1] Suc.prems(1,4) 2(1)
      by simp
  qed
qed simp

lemma measureAveraged_range:
  assumes m: "measureAveraged bus samples b = (Some r, b')" and n: "unat samples \<le> 100000"
  shows "reading_ok r"
proof -
  define c where "c = (if samples = 0 then 1 else samples)"
  have c: "unat c \<le> 100000" using n by (simp add: c_def)
  obtain sT sH k b1 where l: "sample_loop bus (unat c) False (Fin 0) (Fin 0) 0 b = ((sT, sH, k), b1)"
    by (metis surj_pair)
  then have k: "k \<noteq> 0" and r: "r = (f_div f32 sT (f_int f32 (int k)), f_div f32 sH (f_int f32 (int k)))"
    using m by (auto simp: measureAveraged_def c_def Let_def split: if_splits)
  have "k \<le> unat c \<and> f_in (of_int (- 45 * int k)) (of_int (130 * int k)) sT \<and>
    f_in (of_int (0 * int k)) (of_int (100 * int k)) sH"
    using sample_loop_range [OF l] c by simp
  then have "0 < k" "int k \<le> 2 ^ 24"
    and t: "f_in (of_int (- 45 * int k)) (of_int (130 * int k)) sT"
    and h: "f_in (of_int (0 * int k)) (of_int (100 * int k)) sH"
    using k c by auto
  from f32_mean_in [OF this(1,2) t] f32_mean_in [OF this(1,2) h] show ?thesis
    by (simp add: reading_ok_def r del: f_int32)
qed

lemma pulse_loop_range:
  "pulse_loop bus n cmd us t0 d tr b = (r, b') \<Longrightarrow> reading_ok tr \<Longrightarrow> reading_ok r"
proof (induction n arbitrary: tr b)
  case (Suc n)
  show ?case
    by (rule measure_sht_cases [of bus cmd us b]) (use Suc in \<open>auto split: if_splits\<close>)
qed simp

lemma cooldown_loop_range:
  "cooldown_loop bus n t0 tr b = (r, b') \<Longrightarrow> reading_ok tr \<Longrightarrow> reading_ok r"
proof (induction n arbitrary: tr b)
  case (Suc n)
  show ?case
    by (rule measure_sht_cases [of bus kCmdMeasureHigh kMeasureDelayUs "delay_us bus (kCooldownPollMs * 1000) b"])
      (use Suc in \<open>auto split: if_splits\<close>)
qed simp

lemma runHeaterMaintenance_range:
  assumes "runHeaterMaintenance bus cmd us d b = (Some (t, h, dt, passed), b')"
  shows "reading_ok (t, h)" "passed = f_le d dt"
  using assms
  by (auto simp: runHeaterMaintenance_def Let_def split: option.splits prod.splits
      dest!: measure_sht_range intro: pulse_loop_range cooldown_loop_range)


section \<open>How long the program may block\<close>

text \<open>
  A clock for the bus: a busy-wait takes its argument, a bus transaction at most \<open>io\<close> microseconds
  (\<open>kI2cTimeoutCycles\<close> bounds it).
\<close>

definition bus_time :: "'b i2c \<Rightarrow> ('b \<Rightarrow> nat) \<Rightarrow> nat \<Rightarrow> bool" where
  "bus_time bus clk io \<longleftrightarrow>
     (\<forall>b us. clk (delay_us bus us b) = clk b + unat us) \<and>
     (\<forall>b c. clk (snd (i2c_write bus c b)) \<le> clk b + io) \<and>
     (\<forall>b. clk (snd (i2c_read bus b)) \<le> clk b + io)"

lemma bus_timeD:
  assumes "bus_time bus clk io"
  shows "clk (delay_us bus us b) = clk b + unat us"
    "i2c_write bus c b = (x, b') \<Longrightarrow> clk b' \<le> clk b + io"
    "i2c_read bus b = (y, b') \<Longrightarrow> clk b' \<le> clk b + io"
  using assms unfolding bus_time_def by (metis snd_conv)+

lemma measure_sht_time:
  assumes t: "bus_time bus clk io" and m: "measure_sht bus cmd us b = (r, b')"
  shows "clk b' \<le> clk b + unat us + 2 * io"
proof -
  obtain ok b1 where w: "i2c_write bus cmd b = (ok, b1)" by fastforce
  obtain rd b2 where rd: "i2c_read bus (delay_us bus us b1) = (rd, b2)" by fastforce
  have "clk b1 \<le> clk b + io" "clk b2 \<le> clk b1 + unat us + io"
    using bus_timeD(2) [OF t w] bus_timeD(3) [OF t rd] bus_timeD(1) [OF t, of us b1] by auto
  moreover have "b' = b1 \<or> b' = b2"
    using m w rd by (auto simp: measure_sht_def split: bool.splits option.splits raw6.splits if_splits)
  ultimately show ?thesis by auto
qed

lemma sample_loop_time:
  assumes t: "bus_time bus clk io"
  shows "sample_loop bus n later sT sH ok b = (r, b') \<Longrightarrow> clk b' \<le> clk b + n * (110000 + 2 * io)"
proof (induction n arbitrary: later sT sH ok b)
  case (Suc n)
  let ?b = "if later then delay_us bus kInterSampleDelayUs b else b"
  obtain x b1 where m: "measure_sht bus kCmdMeasureHigh kMeasureDelayUs ?b = (x, b1)" by fastforce
  have "clk b1 \<le> clk b + (110000 + 2 * io)"
    using measure_sht_time [OF t m] bus_timeD(1) [OF t, of kInterSampleDelayUs b]
    by (simp add: kMeasureDelayUs_def kInterSampleDelayUs_def split: if_splits)
  moreover have "clk b' \<le> clk b1 + n * (110000 + 2 * io)"
    using Suc m by (auto split: option.splits prod.splits)
  ultimately show ?case by (simp add: algebra_simps)
qed simp

lemma pulse_loop_time:
  assumes t: "bus_time bus clk io"
  shows "pulse_loop bus n cmd us t0 d tr b = (r, b') \<Longrightarrow> clk b' \<le> clk b + n * (unat us + 2 * io)"
proof (induction n arbitrary: tr b)
  case (Suc n)
  obtain x b1 where m: "measure_sht bus cmd us b = (x, b1)" by fastforce
  have "clk b1 \<le> clk b + (unat us + 2 * io)" using measure_sht_time [OF t m] by simp
  moreover have "clk b' \<le> clk b1 + n * (unat us + 2 * io)"
    using Suc m by (auto split: option.splits prod.splits if_splits)
  ultimately show ?case by (simp add: algebra_simps)
qed simp

lemma cooldown_loop_time:
  assumes t: "bus_time bus clk io"
  shows "cooldown_loop bus n t0 tr b = (r, b') \<Longrightarrow> clk b' \<le> clk b + n * (2010000 + 2 * io)"
proof (induction n arbitrary: tr b)
  case (Suc n)
  obtain x b1 where m: "measure_sht bus kCmdMeasureHigh kMeasureDelayUs
      (delay_us bus (kCooldownPollMs * 1000) b) = (x, b1)" by fastforce
  have "clk b1 \<le> clk b + (2010000 + 2 * io)"
    using measure_sht_time [OF t m] bus_timeD(1) [OF t, of "kCooldownPollMs * 1000" b]
    by (simp add: kMeasureDelayUs_def kCooldownPollMs_def)
  moreover have "clk b' \<le> clk b1 + n * (2010000 + 2 * io)"
    using Suc m by (auto split: option.splits prod.splits if_splits)
  ultimately show ?case by (simp add: algebra_simps)
qed simp

text \<open>The iteration caps of the two heater modes.\<close>

lemma heater_caps:
  "unat (kHeaterDurationMs * 1000 div kHeaterMediumShortDelayUs) = 181"
  "unat (kHeaterDurationMs * 1000 div kHeaterHighLongDelayUs) = 18"
  "unat (kCooldownMaxMs div kCooldownPollMs) = 120"
  by (simp_all add: lp_constants)

lemma runHeaterMaintenance_time:
  assumes t: "bus_time bus clk io" and m: "runHeaterMaintenance bus cmd us d b = (r, b')"
  shows "clk b' \<le> clk b + unat (kHeaterDurationMs * 1000 div us) * (unat us + 2 * io) +
    120 * (2010000 + 2 * io) + 90020000 + 4 * io"
proof -
  obtain x b1 where m1: "measure_sht bus kCmdMeasureHigh kMeasureDelayUs b = (x, b1)" by fastforce
  have b1: "clk b1 \<le> clk b + 10000 + 2 * io"
    using measure_sht_time [OF t m1] by (simp add: kMeasureDelayUs_def)
  show ?thesis
  proof (cases x)
    case None
    with m m1 b1 show ?thesis by (simp add: runHeaterMaintenance_def)
  next
    case (Some th)
    obtain t0 rh0 where th: "th = (t0, rh0)" by fastforce
    obtain tr2 b2 where l2: "pulse_loop bus (unat (kHeaterDurationMs * 1000 div us)) cmd us t0 d (t0, rh0) b1
        = (tr2, b2)" by fastforce
    obtain tr3 b3 where l3: "cooldown_loop bus 120 t0 tr2 b2 = (tr3, b3)" by fastforce
    obtain y b4 where m4: "measure_sht bus kCmdMeasureHigh kMeasureDelayUs
        (delay_us bus (kRhSettleMs * 1000) b3) = (y, b4)" by fastforce
    have b': "b' = b4"
      using m m1 Some th l2 l3 m4
      by (cases tr2; cases tr3) (auto simp: runHeaterMaintenance_def heater_caps Let_def split: option.splits)
    have "clk b4 \<le> clk b3 + 90000000 + 10000 + 2 * io"
      using measure_sht_time [OF t m4] bus_timeD(1) [OF t, of "kRhSettleMs * 1000" b3]
      by (simp add: kMeasureDelayUs_def kRhSettleMs_def)
    with b1 pulse_loop_time [OF t l2] cooldown_loop_time [OF t l3] show ?thesis
      by (simp add: b')
  qed
qed

section \<open>Averaging against a reference\<close>

text \<open>The outcomes of the reads of one averaged measurement, in order.\<close>

fun sample_outcomes :: "'b i2c \<Rightarrow> nat \<Rightarrow> bool \<Rightarrow> 'b \<Rightarrow> (flt \<times> flt) option list" where
  "sample_outcomes bus 0 later b = []"
| "sample_outcomes bus (Suc n) later b =
    (case measure_sht bus kCmdMeasureHigh kMeasureDelayUs
        (if later then delay_us bus kInterSampleDelayUs b else b) of
       (r, b) \<Rightarrow> r # sample_outcomes bus n True b)"

text \<open>The mean of a list of readings, summed from the left.\<close>

definition mean_reading :: "(flt \<times> flt) list \<Rightarrow> (flt \<times> flt) option" where
  "mean_reading rs = (if rs = [] then None else
     Some (f_div f32 (foldl (f_add f32) (Fin 0) (map fst rs)) (f_int f32 (int (length rs))),
           f_div f32 (foldl (f_add f32) (Fin 0) (map snd rs)) (f_int f32 (int (length rs)))))"

lemma sample_loop_outcomes:
  "fst (sample_loop bus n later sT sH ok b) =
    (let rs = map the (filter (\<lambda>r. r \<noteq> None) (sample_outcomes bus n later b)) in
     (foldl (f_add f32) sT (map fst rs), foldl (f_add f32) sH (map snd rs), ok + length rs))"
proof (induction n arbitrary: later sT sH ok b)
  case (Suc n)
  show ?case
    by (rule measure_sht_cases [of bus kCmdMeasureHigh kMeasureDelayUs
            "if later then delay_us bus kInterSampleDelayUs b else b"])
      (simp_all add: Suc.IH Let_def)
qed (simp add: Let_def)

lemma measureAveraged_mean:
  "fst (measureAveraged bus samples b) = mean_reading (map the (filter (\<lambda>r. r \<noteq> None)
     (sample_outcomes bus (unat (if samples = 0 then 1 else samples)) False b)))"
  using sample_loop_outcomes [of bus "unat (if samples = 0 then 1 else samples)" False "Fin 0" "Fin 0" 0 b]
  by (cases "sample_loop bus (unat (if samples = 0 then 1 else samples)) False (Fin 0) (Fin 0) 0 b")
    (auto simp: measureAveraged_def mean_reading_def Let_def split: prod.splits)


text \<open>A single reading is its own mean: its values are numbers of the format already.\<close>

definition f32_value :: "flt \<Rightarrow> bool" where
  "f32_value v \<longleftrightarrow> (\<exists>r. v = Fin r \<and> f32 r = Fin r)"

lemma f32_value_mean: "f32_value v \<Longrightarrow> f_div f32 (f_add f32 (Fin 0) v) (f_int f32 (int 1)) = v"
  by (auto simp: f32_value_def)

lemma sht4x_values: "f32_value (sht4x_temp raw)" "f32_value (sht4x_hum raw)"
proof -
  obtain r where r: "f_div f32 (f_mul f32 (f_int f32 (uint raw)) (Fin 175)) (Fin 65535) = Fin r"
    using sht4x_scale [of 175 raw] by (auto elim: f_inE)
  have "sht4x_temp raw = f32 (r - 45)" by (simp add: sht4x_temp_def f_sub_def r)
  then show "f32_value (sht4x_temp raw)"
    using sht4x_temp_range [of raw] f32_fixed [of "r - 45"] by (auto simp: f32_value_def elim: f_inE)
  obtain q where q: "f_div f32 (f_mul f32 (f_int f32 (uint raw)) (Fin 125)) (Fin 65535) = Fin q"
    using sht4x_scale [of 125 raw] by (auto elim: f_inE)
  have h: "sht4x_hum raw = clampf (f32 (q - 6)) (Fin 0) (Fin 100)" by (simp add: sht4x_hum_def f_sub_def q)
  have "f32 0 = Fin 0" "f32 100 = Fin 100" using f32_int [of 0] f32_int [of 100] by simp_all
  then show "f32_value (sht4x_hum raw)"
    using sht4x_hum_range [of raw] f32_fixed [of "q - 6"]
    unfolding h clampf_def f32_value_def by (auto split: if_splits elim!: f_inE)
qed

lemma measure_sht_values: "measure_sht bus cmd us b = (Some (t, h), b') \<Longrightarrow> f32_value t \<and> f32_value h"
  by (auto simp: measure_sht_def sht4x_values split: prod.splits bool.splits option.splits raw6.splits if_splits)

section \<open>Properties\<close>

text \<open>
  Damage to one 3-byte word of an SHT4x reply (two data bytes and their checksum): one, two or
  three flipped bits anywhere in the word, or any change of one of its bytes.
\<close>

inductive damaged :: "sht_word \<Rightarrow> sht_word \<Rightarrow> bool" for w :: sht_word where
  flip1: "i < 24 \<Longrightarrow> damaged w (flip_bit24 i w)"
| flip2: "i < 24 \<Longrightarrow> j < 24 \<Longrightarrow> i \<noteq> j \<Longrightarrow> damaged w (flip_bit24 j (flip_bit24 i w))"
| flip3: "i < 24 \<Longrightarrow> j < 24 \<Longrightarrow> k < 24 \<Longrightarrow>
    damaged w (flip_bit24 k (flip_bit24 j (flip_bit24 i w)))"
| first: "e \<noteq> 0 \<Longrightarrow> damaged w (frame_xor w (e, 0, 0))"
| second: "e \<noteq> 0 \<Longrightarrow> damaged w (frame_xor w (0, e, 0))"
| check: "e \<noteq> 0 \<Longrightarrow> damaged w (frame_xor w (0, 0, e))"

lemma damaged_not_ok: "damaged w v \<Longrightarrow> frame_ok w \<Longrightarrow> \<not> frame_ok v"
  by (induction rule: damaged.induct)
    (simp_all only: flip_bit24_def frame_xor_assoc frame_ok_error syndrome_1 syndrome_2 syndrome_3
      syndrome_one_byte simp_thms not_False_eq_True)

text \<open>
  C17: A reply in which one of the two words is damaged (up to three bits of a valid word flipped, or
  one of its bytes changed in any way) is never turned into a reading: the measurement fails.
\<close>

theorem damaged_reply_rejected:
  assumes "frame_ok w" and "damaged w v"
    and "i2c_write bus cmd b = (True, b1)"
    and "i2c_read bus (delay_us bus us b1) = (Some (Raw r0 r1 r2 r3 r4 r5), b2)"
    and "v = (r0, r1, r2) \<or> v = (r3, r4, r5)"
  shows "measure_sht bus cmd us b = (None, b2)"
  using damaged_not_ok [OF assms(2,1)] assms(3-5) by (auto simp: measure_sht_def)

definition still_bus :: "raw6 \<Rightarrow> nat i2c" where
  "still_bus raw = \<lparr>i2c_write = (\<lambda>c b. (True, b)), i2c_read = (\<lambda>b. (Some raw, b)),
     delay_us = (\<lambda>us b. b + unat us)\<rparr>"

definition quiet_bus :: "raw6 \<Rightarrow> unit i2c" where
  "quiet_bus raw = \<lparr>i2c_write = (\<lambda>c b. (True, b)), i2c_read = (\<lambda>b. (Some raw, b)),
     delay_us = (\<lambda>us b. b)\<rparr>"

definition cold_bus :: "unit i2c" where
  "cold_bus = quiet_bus (Raw 0 0 0x81 0 0 0x81)"

lemma measure_cold: "measure_sht cold_bus cmd us b = (Some (Fin (- 45), Fin 0), b)"
proof -
  have "crc8 [0, 0] = 0x81" "sht4x_temp (join16 0 0) = Fin (- 45)" "sht4x_hum (join16 0 0) = Fin 0"
    by code_simp+
  then show ?thesis by (simp add: measure_sht_def cold_bus_def quiet_bus_def)
qed

lemma measureAveraged_cold: "measureAveraged cold_bus 2 b = (Some (Fin (- 45), Fin 0), b)"
proof -
  have "f_add f32 (Fin 0) (Fin (- 45)) = Fin (- 45)" "f_add f32 (Fin (- 45)) (Fin (- 45)) = Fin (- 90)"
    "f_add f32 (Fin 0) (Fin 0) = Fin 0" "f32 (- 45) = Fin (- 45)" "f32 0 = Fin 0"
    by code_simp+
  then have "sample_loop cold_bus (Suc (Suc 0)) False (Fin 0) (Fin 0) 0 b = ((Fin (- 90), Fin 0, 2), b)"
    by (simp add: measure_cold)
  then have "sample_loop cold_bus 2 False (Fin 0) (Fin 0) 0 b = ((Fin (- 90), Fin 0, 2), b)"
    by (simp add: numeral_2_eq_2)
  with \<open>f32 (- 45) = Fin (- 45)\<close> \<open>f32 0 = Fin 0\<close> show ?thesis
    by (simp add: measureAveraged_def)
qed

theorem damaged_reply_rejected_witness:
  "measure_sht (still_bus (Raw 0xBE 0xEE 0x92 0 0 0x81)) 0xFD 10000 0 = (None, 10000)"
proof -
  have "frame_ok (0xBE, 0xEF, 0x92)" by code_simp
  moreover have "damaged (0xBE, 0xEF, 0x92) (0xBE, 0xEE, 0x92)"
    using damaged.second [of 1 "(0xBE, 0xEF, 0x92)"] by simp
  ultimately show ?thesis
    by (rule damaged_reply_rejected) (auto simp: still_bus_def)
qed

text \<open>
  With up to 100000 samples (the settings allow 16), an averaged measurement delivers a finite
  temperature between -45 and 130 degrees and a humidity between 0 and 100 percent, although every
  conversion, sum and quotient is rounded to single precision.
\<close>

theorem averaged_reading_in_range:
  assumes "unat samples \<le> 100000" and "measureAveraged bus samples b = (Some (t, h), b')"
  shows "f_in (- 45) 130 t \<and> f_in 0 100 h"
  using measureAveraged_range [OF assms(2,1)] by (simp add: reading_ok_def)

theorem averaged_reading_in_range_witness:
  "measureAveraged cold_bus 2 () = (Some (Fin (- 45), Fin 0), ()) \<and>
   f_in (- 45) 130 (Fin (- 45)) \<and> f_in 0 100 (Fin 0)"
proof -
  have m: "measureAveraged cold_bus 2 () = (Some (Fin (- 45), Fin 0), ())"
    by (rule measureAveraged_cold)
  have "unat (2 :: u32) \<le> 100000" by simp
  from averaged_reading_in_range [OF this m] m show ?thesis by blast
qed

text \<open>
  Averaging drops exactly the failed reads: the result is the left-to-right mean of the
  successful ones, and a failure only when there is none.
\<close>

theorem averaged_is_mean_of_successes:
  "fst (measureAveraged bus samples b) = mean_reading (map the (filter (\<lambda>r. r \<noteq> None)
     (sample_outcomes bus (unat (max samples 1)) False b)))"
proof -
  show ?thesis using measureAveraged_mean [of bus samples b] by (simp only: u32_max_1)
qed

text \<open>
  One sample per cycle is the plain measurement: averaging changes nothing, not even the last bit.
\<close>

theorem one_sample_is_plain_measurement:
  assumes "samples \<le> 1"
  shows "measureAveraged bus samples b = measure_sht bus kCmdMeasureHigh kMeasureDelayUs b"
proof -
  have "(if samples = 0 then 1 else samples) = 1"
    using assms by (simp only: u32_le_1_iff) auto
  then show ?thesis
    by (rule_tac measure_sht_cases [of bus kCmdMeasureHigh kMeasureDelayUs b])
      (auto simp: measureAveraged_def f32_value_mean [simplified] dest: measure_sht_values)
qed

theorem one_sample_is_plain_measurement_witness:
  "measureAveraged (still_bus (Raw 0 0 0x81 0 0 0x81)) 1 0
    = measure_sht (still_bus (Raw 0 0 0x81 0 0 0x81)) kCmdMeasureHigh kMeasureDelayUs 0"
  by (rule one_sample_is_plain_measurement) simp

text \<open>
  C29: A heater run returns after at most 351.13 s of busy-waiting plus 606 bus transactions: the
  pulse and cooldown loops are bounded in both modes, whatever the sensor answers.
\<close>

theorem heater_run_time_bound:
  assumes "bus_time bus clk io"
    and "(cmd, us, d) \<in> {(kCmdHeaterMediumShort, kHeaterMediumShortDelayUs, kSelftestDeltaT),
        (kCmdHeaterHighLong, kHeaterHighLongDelayUs, kCreepDeltaT)}"
  shows "clk (snd (runHeaterMaintenance bus cmd us d b)) \<le> clk b + 351130000 + 606 * io"
proof -
  obtain r b' where r: "runHeaterMaintenance bus cmd us d b = (r, b')" by fastforce
  from assms(2) consider "us = kHeaterMediumShortDelayUs" | "us = kHeaterHighLongDelayUs" by auto
  then show ?thesis
    using runHeaterMaintenance_time [OF assms(1) r]
    unfolding r snd_conv by cases (simp_all add: heater_caps, simp_all add: lp_constants)
qed

theorem heater_run_time_bound_witness:
  "bus_time (still_bus (Raw 0 0 0x81 0 0 0x81)) id 0 \<and>
   snd (runHeaterMaintenance (still_bus (Raw 0 0 0x81 0 0 0x81)) kCmdHeaterHighLong kHeaterHighLongDelayUs kCreepDeltaT 0)
     \<le> 351130000"
proof -
  have t: "bus_time (still_bus (Raw 0 0 0x81 0 0 0x81)) id 0" by (simp add: bus_time_def still_bus_def)
  with heater_run_time_bound [OF t, of kCmdHeaterHighLong kHeaterHighLongDelayUs kCreepDeltaT 0]
  show ?thesis by simp
qed

end
