(* ===== verification/LpCore.thy ===== *)
theory LpCore
  imports LpMeasure
begin

text \<open>
  The LP program's \<open>main()\<close>, \<open>components/lp_sensor_core/lp_core/main.cpp\<close>: consuming the delivery
  acknowledgement, the measurement, heater scheduling, calibration and the skip-threshold decision,
  composed as the code composes them.

  The shared memory is kept as the list of all its values, newest first, so that the theorems can
  speak of what the HP side sees while the program runs. \<open>hp k s\<close> is what the HP side makes of the
  memory at moment \<open>k\<close>: it may act after every store of the LP program, which covers the long waits
  too, since the program stores nothing while it waits.
\<close>

section \<open>The shared memory as the LP program drives it\<close>

type_synonym hp_acts = "nat \<Rightarrow> lp_shared_state \<Rightarrow> lp_shared_state"

record 'b lp =
  lp_hist :: "lp_shared_state list"
  g_lastConsumedAckSeq :: u32
  lp_env :: 'b

abbreviation g_shared :: "('b, 'm) lp_scheme \<Rightarrow> lp_shared_state" where
  "g_shared l \<equiv> hd (lp_hist l)"

definition store :: "hp_acts \<Rightarrow> (lp_shared_state \<Rightarrow> lp_shared_state) \<Rightarrow> 'b lp \<Rightarrow> 'b lp" where
  "store hp f l = (let s = f (g_shared l) in
     l\<lparr>lp_hist := hp (length (lp_hist l)) s # s # lp_hist l\<rparr>)"

definition bump_seq :: "hp_acts \<Rightarrow> 'b lp \<Rightarrow> 'b lp" where
  "bump_seq hp = store hp (\<lambda>s. s\<lparr>result_seq := result_seq s + 1\<rparr>)"

section \<open>\<open>main()\<close>, phase by phase\<close>

definition consume_ack :: "hp_acts \<Rightarrow> 'b lp \<Rightarrow> 'b lp" where
  "consume_ack hp l =
    (if hp_ack_seq (g_shared l) \<noteq> g_lastConsumedAckSeq l then
       (let l = store hp (\<lambda>s. s\<lparr>prev_delivered_temp_c := hp_acked_temp_c s\<rparr>) l;
            l = store hp (\<lambda>s. s\<lparr>prev_delivered_hum_pct := hp_acked_hum_pct s\<rparr>) l;
            l = store hp (\<lambda>s. s\<lparr>skipped_cycles := 0\<rparr>) l
        in l\<lparr>g_lastConsumedAckSeq := hp_ack_seq (g_shared l)\<rparr>)
     else l)"

definition record_status :: "hp_acts \<Rightarrow> bool \<Rightarrow> 'b lp \<Rightarrow> 'b lp" where
  "record_status hp ok l =
    (let l = store hp (\<lambda>s. s\<lparr>heartbeat_counter := heartbeat_counter s + 1\<rparr>) l;
         l = store hp (\<lambda>s. s\<lparr>sensor_ok := if ok then 1 else 0\<rparr>) l
     in store hp (\<lambda>s. s\<lparr>consec_fail_count := if ok then 0 else consec_fail_count s + 1\<rparr>) l)"

definition heater_schedule :: "hp_acts \<Rightarrow> flt \<Rightarrow> flt \<Rightarrow> 'b lp \<Rightarrow> bool \<times> bool \<times> 'b lp" where
  "heater_schedule hp tempC humPct l =
    (let l = store hp (\<lambda>s. s\<lparr>raw_temp_c := tempC\<rparr>) l;
         l = store hp (\<lambda>s. s\<lparr>raw_hum_pct := humPct\<rparr>) l;
         l = store hp (\<lambda>s. s\<lparr>cycles_since_heater := cycles_since_heater s + 1\<rparr>) l;
         precalHum = clampf (f_add f32 humPct (rh_offset_pct (g_shared l))) (Fin 0) (Fin 100);
         l = store hp (\<lambda>s. s\<lparr>high_rh_cycles :=
               if f_lt kHighRhThreshold precalHum then high_rh_cycles s + 1 else 0\<rparr>) l;
         s = g_shared l;
         periodicDue = (heater_period_cycles s > 0 \<and> cycles_since_heater s \<ge> heater_period_cycles s);
         humidityDue = (high_rh_trigger_cycles s > 0 \<and> high_rh_cycles s \<ge> high_rh_trigger_cycles s)
     in (periodicDue, humidityDue, l))"

definition heater_record :: "hp_acts \<Rightarrow> flt \<times> flt \<times> flt \<times> bool \<Rightarrow> 'b lp \<Rightarrow> 'b lp" where
  "heater_record hp r l =
    (let (cleanTemp, cleanHum, deltaT, passed) = r;
         l = bump_seq hp l;
         l = store hp (\<lambda>s. s\<lparr>raw_temp_c := cleanTemp\<rparr>) l;
         l = store hp (\<lambda>s. s\<lparr>raw_hum_pct := cleanHum\<rparr>) l;
         l = store hp (\<lambda>s. s\<lparr>last_heater_run_cycle := heartbeat_counter s\<rparr>) l;
         l = store hp (\<lambda>s. s\<lparr>last_heater_delta_t := deltaT\<rparr>) l;
         l = store hp (\<lambda>s. s\<lparr>last_heater_passed := if passed then 1 else 0\<rparr>) l
     in store hp (\<lambda>s. s\<lparr>heater_run_count := heater_run_count s + 1\<rparr>) l)"

definition heater_phase ::
  "hp_acts \<Rightarrow> 'b i2c \<Rightarrow> bool \<Rightarrow> flt \<Rightarrow> flt \<Rightarrow> 'b lp \<Rightarrow> flt \<times> flt \<times> 'b lp" where
  "heater_phase hp bus creep tempC humPct l =
    (let heaterCmd = (if creep then kCmdHeaterHighLong else kCmdHeaterMediumShort);
         heaterDelayUs = (if creep then kHeaterHighLongDelayUs else kHeaterMediumShortDelayUs);
         minDeltaT = (if creep then kCreepDeltaT else kSelftestDeltaT);
         l = store hp (\<lambda>s. s\<lparr>heater_active := 1\<rparr>) l;
         l = bump_seq hp l;
         (r, b) = runHeaterMaintenance bus heaterCmd heaterDelayUs minDeltaT (lp_env l);
         l = l\<lparr>lp_env := b\<rparr>;
         (tempC, humPct, l) =
           (case r of
              Some (cleanTemp, cleanHum, deltaT, passed) \<Rightarrow>
                (cleanTemp, cleanHum, heater_record hp (cleanTemp, cleanHum, deltaT, passed) l)
            | None \<Rightarrow> (tempC, humPct, bump_seq hp l));
         l = store hp (\<lambda>s. s\<lparr>heater_active := 0\<rparr>) l;
         l = store hp (\<lambda>s. s\<lparr>cycles_since_heater := 0\<rparr>) l;
         l = store hp (\<lambda>s. s\<lparr>high_rh_cycles := 0\<rparr>) l
     in (tempC, humPct, l))"

definition calibrate_temp :: "flt \<Rightarrow> flt \<Rightarrow> flt" where
  "calibrate_temp tempC off = clampf (f_add f32 tempC off) (f32 (- 27315 / 100)) (Fin 3000)"

definition calibrate_hum :: "flt \<Rightarrow> flt \<Rightarrow> flt" where
  "calibrate_hum humPct off = clampf (f_add f32 humPct off) (Fin 0) (Fin 100)"

definition calibrate :: "hp_acts \<Rightarrow> flt \<Rightarrow> flt \<Rightarrow> 'b lp \<Rightarrow> flt \<times> flt \<times> 'b lp" where
  "calibrate hp tempC humPct l =
    (let calTemp = calibrate_temp tempC (temp_offset_c (g_shared l));
         calHum = calibrate_hum humPct (rh_offset_pct (g_shared l));
         l = store hp (\<lambda>s. s\<lparr>cal_temp_c := calTemp\<rparr>) l;
         l = store hp (\<lambda>s. s\<lparr>cal_hum_pct := calHum\<rparr>) l
     in (calTemp, calHum, l))"

text \<open>The compare block: is the value within the thresholds of the delivered one, and is there budget left?\<close>

definition same_as_delivered :: "flt \<Rightarrow> flt \<Rightarrow> lp_shared_state \<Rightarrow> bool" where
  "same_as_delivered calTemp calHum s \<longleftrightarrow>
     f_lt (absf (f_sub f32 calTemp (prev_delivered_temp_c s))) (temp_min_change_c s) \<and>
     f_lt (absf (f_sub f32 calHum (prev_delivered_hum_pct s))) (rh_min_change_pct s)"

definition skip_this_cycle :: "flt \<Rightarrow> flt \<Rightarrow> lp_shared_state \<Rightarrow> bool" where
  "skip_this_cycle calTemp calHum s \<longleftrightarrow>
     same_as_delivered calTemp calHum s \<and> skipped_cycles s < max_skip_cycles s"

definition skip_decision :: "hp_acts \<Rightarrow> flt \<Rightarrow> flt \<Rightarrow> 'b lp \<Rightarrow> bool \<times> 'b lp" where
  "skip_decision hp calTemp calHum l =
    (if skip_this_cycle calTemp calHum (g_shared l)
     then (False, store hp (\<lambda>s. s\<lparr>skipped_cycles := skipped_cycles s + 1\<rparr>) l)
     else (True, l))"

definition lp_process :: "hp_acts \<Rightarrow> 'b i2c \<Rightarrow> flt \<Rightarrow> flt \<Rightarrow> 'b lp \<Rightarrow> bool \<times> 'b lp" where
  "lp_process hp bus tempC humPct l =
    (let (periodicDue, humidityDue, l) = heater_schedule hp tempC humPct l;
         (tempC, humPct, l) =
           (if periodicDue \<or> humidityDue then heater_phase hp bus humidityDue tempC humPct l
            else (tempC, humPct, l));
         (calTemp, calHum, l) = calibrate hp tempC humPct l
     in skip_decision hp calTemp calHum l)"

definition lp_finish :: "hp_acts \<Rightarrow> bool \<Rightarrow> 'b lp \<Rightarrow> bool \<times> 'b lp" where
  "lp_finish hp wake l =
    (let l = store hp (\<lambda>s. s\<lparr>should_wake_hp := if wake then 1 else 0\<rparr>) l;
         l = bump_seq hp l
     in (should_wake_hp (g_shared l) \<noteq> 0, l))"

text \<open>\<open>main()\<close>: the result says whether the HP core is woken.\<close>

definition lp_main :: "hp_acts \<Rightarrow> 'b i2c \<Rightarrow> 'b lp \<Rightarrow> bool \<times> 'b lp" where
  "lp_main hp bus l =
    (let l = consume_ack hp l;
         wasOk = sensor_ok (g_shared l);
         l = bump_seq hp l;
         (m, b) = measureAveraged bus (sensor_samples (g_shared l)) (lp_env l);
         l = record_status hp (m \<noteq> None) (l\<lparr>lp_env := b\<rparr>);
         (valueDriven, l) =
           (case m of None \<Rightarrow> (False, l) | Some (tempC, humPct) \<Rightarrow> lp_process hp bus tempC humPct l)
     in lp_finish hp (valueDriven \<or> wasOk \<noteq> 0 \<and> m = None) l)"

section \<open>Working against the HP side\<close>

text \<open>The HP side only writes what it owns.\<close>

definition hp_ok :: "hp_acts \<Rightarrow> bool" where
  "hp_ok hp \<longleftrightarrow> (\<forall>k s. hp_frame s (hp k s))"

lemma g_shared_store: "g_shared (store hp f l) = hp (length (lp_hist l)) (f (g_shared l))"
  by (simp add: store_def Let_def)

lemma store_rest [simp]:
  "g_lastConsumedAckSeq (store hp f l) = g_lastConsumedAckSeq l" "lp_env (store hp f l) = lp_env l"
  by (simp_all add: store_def Let_def)

lemmas lp_steps = consume_ack_def record_status_def heater_schedule_def heater_record_def
  heater_phase_def calibrate_def skip_decision_def lp_process_def lp_finish_def bump_seq_def

text \<open>The fields no phase between the two ends of a cycle touches, and the two that keep the parity.\<close>

definition mid_view :: "'b lp \<Rightarrow> _" where
  "mid_view l = (heartbeat_counter (g_shared l), sensor_ok (g_shared l), consec_fail_count (g_shared l),
     should_wake_hp (g_shared l), prev_delivered_temp_c (g_shared l), prev_delivered_hum_pct (g_shared l),
     g_lastConsumedAckSeq l)"

text \<open>
  The interface the LP program has to the HP side: a second writer that stays within its fields. The
  lemmas below hold for every such writer, whenever it acts.
\<close>

locale hp_side =
  fixes hp :: hp_acts
  assumes hp_ok: "hp_ok hp"
begin

lemma hp_fields [simp]:
  "heartbeat_counter (hp k s) = heartbeat_counter s" "result_seq (hp k s) = result_seq s"
  "sensor_ok (hp k s) = sensor_ok s" "consec_fail_count (hp k s) = consec_fail_count s"
  "raw_temp_c (hp k s) = raw_temp_c s" "raw_hum_pct (hp k s) = raw_hum_pct s"
  "cal_temp_c (hp k s) = cal_temp_c s" "cal_hum_pct (hp k s) = cal_hum_pct s"
  "should_wake_hp (hp k s) = should_wake_hp s"
  "prev_delivered_temp_c (hp k s) = prev_delivered_temp_c s"
  "prev_delivered_hum_pct (hp k s) = prev_delivered_hum_pct s" "skipped_cycles (hp k s) = skipped_cycles s"
  "cycles_since_heater (hp k s) = cycles_since_heater s" "high_rh_cycles (hp k s) = high_rh_cycles s"
  "heater_active (hp k s) = heater_active s" "last_heater_run_cycle (hp k s) = last_heater_run_cycle s"
  "last_heater_delta_t (hp k s) = last_heater_delta_t s" "last_heater_passed (hp k s) = last_heater_passed s"
  "heater_run_count (hp k s) = heater_run_count s"
  using hp_ok hp_frame_fields [of s "hp k s"] by (simp_all add: hp_ok_def)

text \<open>What each phase does to the fields the program owns.\<close>

lemma bump_seq_fields [simp]:
  "result_seq (g_shared (bump_seq hp l)) = result_seq (g_shared l) + 1"
  "seq_view (g_shared (bump_seq hp l)) = seq_view (g_shared l)"
  "skipped_cycles (g_shared (bump_seq hp l)) = skipped_cycles (g_shared l)"
  "prev_delivered_temp_c (g_shared (bump_seq hp l)) = prev_delivered_temp_c (g_shared l)"
  "prev_delivered_hum_pct (g_shared (bump_seq hp l)) = prev_delivered_hum_pct (g_shared l)"
  by (simp_all add: bump_seq_def g_shared_store seq_view_def)

lemma consume_ack_fields:
  "result_seq (g_shared (consume_ack hp l)) = result_seq (g_shared l)"
  "seq_view (g_shared (consume_ack hp l)) = seq_view (g_shared l)"
  "lp_env (consume_ack hp l) = lp_env l"
  by (simp_all add: consume_ack_def g_shared_store seq_view_def Let_def)

lemma record_status_fields:
  "result_seq (g_shared (record_status hp ok l)) = result_seq (g_shared l)"
  "heartbeat_counter (g_shared (record_status hp ok l)) = heartbeat_counter (g_shared l) + 1"
  "sensor_ok (g_shared (record_status hp ok l)) = (if ok then 1 else 0)"
  "consec_fail_count (g_shared (record_status hp ok l))
     = (if ok then 0 else consec_fail_count (g_shared l) + 1)"
  "raw_temp_c (g_shared (record_status hp ok l)) = raw_temp_c (g_shared l)"
  "raw_hum_pct (g_shared (record_status hp ok l)) = raw_hum_pct (g_shared l)"
  "cal_temp_c (g_shared (record_status hp ok l)) = cal_temp_c (g_shared l)"
  "cal_hum_pct (g_shared (record_status hp ok l)) = cal_hum_pct (g_shared l)"
  "prev_delivered_temp_c (g_shared (record_status hp ok l)) = prev_delivered_temp_c (g_shared l)"
  "prev_delivered_hum_pct (g_shared (record_status hp ok l)) = prev_delivered_hum_pct (g_shared l)"
  "skipped_cycles (g_shared (record_status hp ok l)) = skipped_cycles (g_shared l)"
  "heater_active (g_shared (record_status hp ok l)) = heater_active (g_shared l)"
  "cycles_since_heater (g_shared (record_status hp ok l)) = cycles_since_heater (g_shared l)"
  "high_rh_cycles (g_shared (record_status hp ok l)) = high_rh_cycles (g_shared l)"
  "heater_run_count (g_shared (record_status hp ok l)) = heater_run_count (g_shared l)"
  "lp_env (record_status hp ok l) = lp_env l"
  "g_lastConsumedAckSeq (record_status hp ok l) = g_lastConsumedAckSeq l"
  by (simp_all add: record_status_def g_shared_store Let_def)

lemma heater_schedule_mid:
  "heater_schedule hp t h l = (pd, hd', l') \<Longrightarrow> mid_view l' = mid_view l \<and>
     result_seq (g_shared l') = result_seq (g_shared l) \<and> lp_env l' = lp_env l \<and>
     skipped_cycles (g_shared l') = skipped_cycles (g_shared l) \<and>
     heater_active (g_shared l') = heater_active (g_shared l) \<and>
     heater_run_count (g_shared l') = heater_run_count (g_shared l) \<and>
     raw_temp_c (g_shared l') = t \<and> raw_hum_pct (g_shared l') = h \<and>
     cal_temp_c (g_shared l') = cal_temp_c (g_shared l) \<and> cal_hum_pct (g_shared l') = cal_hum_pct (g_shared l) \<and>
     cycles_since_heater (g_shared l') = cycles_since_heater (g_shared l) + 1"
  by (auto simp: heater_schedule_def g_shared_store mid_view_def Let_def)

lemma heater_phase_mid:
  assumes "heater_phase hp bus creep t h l = (t', h', l')"
  shows "mid_view l' = mid_view l \<and>
     (result_seq (g_shared l') = result_seq (g_shared l) + 2) \<and>
     skipped_cycles (g_shared l') = skipped_cycles (g_shared l) \<and>
     heater_active (g_shared l') = 0 \<and> cycles_since_heater (g_shared l') = 0 \<and>
     high_rh_cycles (g_shared l') = 0 \<and>
     cal_temp_c (g_shared l') = cal_temp_c (g_shared l) \<and> cal_hum_pct (g_shared l') = cal_hum_pct (g_shared l)"
  using assms
  by (cases "runHeaterMaintenance bus (if creep then kCmdHeaterHighLong else kCmdHeaterMediumShort)
        (if creep then kHeaterHighLongDelayUs else kHeaterMediumShortDelayUs)
        (if creep then kCreepDeltaT else kSelftestDeltaT) (lp_env l)")
    (auto simp: heater_phase_def heater_record_def bump_seq_def g_shared_store mid_view_def Let_def
      split: option.splits prod.splits)

lemma calibrate_mid:
  "calibrate hp t h l = (ct, ch, l') \<Longrightarrow> mid_view l' = mid_view l \<and>
     result_seq (g_shared l') = result_seq (g_shared l) \<and>
     skipped_cycles (g_shared l') = skipped_cycles (g_shared l) \<and>
     heater_active (g_shared l') = heater_active (g_shared l) \<and>
     raw_temp_c (g_shared l') = raw_temp_c (g_shared l) \<and> raw_hum_pct (g_shared l') = raw_hum_pct (g_shared l) \<and>
     cal_temp_c (g_shared l') = ct \<and> cal_hum_pct (g_shared l') = ch \<and>
     cycles_since_heater (g_shared l') = cycles_since_heater (g_shared l) \<and>
     high_rh_cycles (g_shared l') = high_rh_cycles (g_shared l) \<and>
     heater_run_count (g_shared l') = heater_run_count (g_shared l)"
  by (auto simp: calibrate_def g_shared_store mid_view_def Let_def)

lemma skip_decision_mid:
  "skip_decision hp ct ch l = (v, l') \<Longrightarrow> mid_view l' = mid_view l \<and>
     v = (\<not> skip_this_cycle ct ch (g_shared l)) \<and>
     result_seq (g_shared l') = result_seq (g_shared l) \<and>
     skipped_cycles (g_shared l') = skipped_cycles (g_shared l) + (if v then 0 else 1) \<and>
     heater_active (g_shared l') = heater_active (g_shared l) \<and>
     raw_temp_c (g_shared l') = raw_temp_c (g_shared l) \<and> raw_hum_pct (g_shared l') = raw_hum_pct (g_shared l) \<and>
     cal_temp_c (g_shared l') = cal_temp_c (g_shared l) \<and> cal_hum_pct (g_shared l') = cal_hum_pct (g_shared l)"
  by (auto simp: skip_decision_def g_shared_store mid_view_def split: if_splits)

text \<open>\<open>main()\<close> taken apart.\<close>

lemma lp_main_cases:
  assumes "lp_main hp bus l = (w, l')"
  obtains (fail) l1 b where "consume_ack hp l = l1"
      "measureAveraged bus (sensor_samples (g_shared (bump_seq hp l1))) (lp_env l) = (None, b)"
      "lp_finish hp (sensor_ok (g_shared l) \<noteq> 0) (record_status hp False ((bump_seq hp l1)\<lparr>lp_env := b\<rparr>)) = (w, l')"
  | (ok) l1 b t h v l3 where "consume_ack hp l = l1"
      "measureAveraged bus (sensor_samples (g_shared (bump_seq hp l1))) (lp_env l) = (Some (t, h), b)"
      "lp_process hp bus t h (record_status hp True ((bump_seq hp l1)\<lparr>lp_env := b\<rparr>)) = (v, l3)"
      "lp_finish hp v l3 = (w, l')"
proof -
  define l1 where "l1 = consume_ack hp l"
  have s: "sensor_ok (g_shared l1) = sensor_ok (g_shared l)" "lp_env l1 = lp_env l"
    using consume_ack_fields [of l] by (simp_all add: l1_def seq_view_def)
  obtain m b where m: "measureAveraged bus (sensor_samples (g_shared (bump_seq hp l1))) (lp_env l) = (m, b)"
    by (metis surj_pair)
  have e: "lp_env (bump_seq hp l1) = lp_env l" by (simp add: bump_seq_def s)
  show thesis
  proof (cases m)
    case None
    with assms m e s show thesis
      by (intro fail [of l1 b]) (simp_all add: lp_main_def l1_def [symmetric] Let_def)
  next
    case (Some r)
    obtain t h where r: "r = (t, h)" by fastforce
    obtain v l3 where p: "lp_process hp bus t h (record_status hp True ((bump_seq hp l1)\<lparr>lp_env := b\<rparr>)) = (v, l3)"
      by (metis surj_pair)
    with assms m e s Some r show thesis
      by (intro ok [of l1 t h b v l3]) (simp_all add: lp_main_def l1_def [symmetric] Let_def)
  qed
qed

lemma lp_finish_fields:
  assumes "lp_finish hp v l = (w, l')"
  shows "w = v" "should_wake_hp (g_shared l') = (if v then 1 else 0)"
    "result_seq (g_shared l') = result_seq (g_shared l) + 1"
    "heartbeat_counter (g_shared l') = heartbeat_counter (g_shared l)"
    "sensor_ok (g_shared l') = sensor_ok (g_shared l)"
    "consec_fail_count (g_shared l') = consec_fail_count (g_shared l)"
    "raw_temp_c (g_shared l') = raw_temp_c (g_shared l)" "raw_hum_pct (g_shared l') = raw_hum_pct (g_shared l)"
    "cal_temp_c (g_shared l') = cal_temp_c (g_shared l)" "cal_hum_pct (g_shared l') = cal_hum_pct (g_shared l)"
    "prev_delivered_temp_c (g_shared l') = prev_delivered_temp_c (g_shared l)"
    "prev_delivered_hum_pct (g_shared l') = prev_delivered_hum_pct (g_shared l)"
    "skipped_cycles (g_shared l') = skipped_cycles (g_shared l)"
    "heater_active (g_shared l') = heater_active (g_shared l)"
    "cycles_since_heater (g_shared l') = cycles_since_heater (g_shared l)"
    "high_rh_cycles (g_shared l') = high_rh_cycles (g_shared l)"
    "g_lastConsumedAckSeq l' = g_lastConsumedAckSeq l"
  using assms by (auto simp: lp_finish_def bump_seq_def g_shared_store Let_def split: if_splits)

end

section \<open>The values stay in range\<close>

text \<open>
  A usable configuration (what \<open>runtime_config.cpp\<close> and \<open>main.cpp\<close> write), and the LP-owned values in
  their physical ranges. The zeroed memory satisfies the second.
\<close>

definition cfg_ok :: "lp_shared_state \<Rightarrow> bool" where
  "cfg_ok s \<longleftrightarrow> unat (sensor_samples s) \<le> 100000 \<and> temp_offset_c s \<noteq> NaN \<and> rh_offset_pct s \<noteq> NaN"

definition values_ok :: "lp_shared_state \<Rightarrow> bool" where
  "values_ok s \<longleftrightarrow> reading_ok (raw_temp_c s, raw_hum_pct s) \<and>
     f_in (- 27315 / 100) 3000 (cal_temp_c s) \<and> f_in 0 100 (cal_hum_pct s)"

fun cfg_view_ok :: "hp_fields \<Rightarrow> bool" where
  "cfg_view_ok ((n, t_off, t_min, rh_off, rh_min, skip, period, trigger), ack, acked_t, acked_h) \<longleftrightarrow>
     unat n \<le> 100000 \<and> t_off \<noteq> NaN \<and> rh_off \<noteq> NaN"

lemma cfg_view_ok: "cfg_view_ok (hp_view s) = cfg_ok s"
  by (simp add: hp_view_def cfg_ok_def)

lemma f_add_not_NaN: "f_in lo hi x \<Longrightarrow> y \<noteq> NaN \<Longrightarrow> f_add f32 x y \<noteq> NaN"
  by (cases y) (auto elim!: f_inE)

lemma calibrate_hum_range: "f_in lo hi h \<Longrightarrow> off \<noteq> NaN \<Longrightarrow> f_in 0 100 (calibrate_hum h off)"
  by (simp add: calibrate_hum_def clampf_eq f_clamp_in f_add_not_NaN)

lemma calibrate_temp_range:
  assumes "f_in lo hi t" "off \<noteq> NaN"
  shows "f_in (- 27315 / 100) 3000 (calibrate_temp t off)"
proof -
  have lo: "f32 (- 27315 / 100) = Fin (- 8950579 / 32768)" by code_simp
  have "f_in (- 8950579 / 32768) 3000 (calibrate_temp t off)"
    unfolding calibrate_temp_def clampf_eq lo using assms by (simp add: f_clamp_in f_add_not_NaN)
  then show ?thesis by (rule f_in_mono) simp_all
qed

text \<open>A predicate on the HP-owned fields that the HP side maintains holds throughout a cycle.\<close>

definition hp_keeps :: "hp_acts \<Rightarrow> (hp_fields \<Rightarrow> bool) \<Rightarrow> bool" where
  "hp_keeps hp Q \<longleftrightarrow> (\<forall>k s. Q (hp_view s) \<longrightarrow> Q (hp_view (hp k s)))"

locale hp_side_keeps = hp_side hp for hp +
  fixes Q
  assumes hp_keeps: "hp_keeps hp Q"
begin

lemma Q_hp [simp]: "Q (hp_view s) \<Longrightarrow> Q (hp_view (hp k s))"
  using hp_keeps by (simp add: hp_keeps_def)

lemma Q_phases:
  assumes "Q (hp_view (g_shared l))"
  shows "Q (hp_view (g_shared (consume_ack hp l)))" "Q (hp_view (g_shared (bump_seq hp l)))"
    "Q (hp_view (g_shared (record_status hp ok l)))"
    "heater_schedule hp t h l = (p, q, l1) \<Longrightarrow> Q (hp_view (g_shared l1))"
    "heater_phase hp bus creep t h l = (t', h', l2) \<Longrightarrow> Q (hp_view (g_shared l2))"
    "calibrate hp t h l = (ct, ch, l3) \<Longrightarrow> Q (hp_view (g_shared l3))"
    "skip_decision hp ct ch l = (v, l4) \<Longrightarrow> Q (hp_view (g_shared l4))"
    "lp_finish hp v l = (w, l5) \<Longrightarrow> Q (hp_view (g_shared l5))"
  using assms
  by (auto simp: lp_steps g_shared_store Let_def split: if_splits option.splits prod.splits)

text \<open>The processing of one successful measurement, composed.\<close>

lemma lp_process_mid:
  assumes "lp_process hp bus t h l = (v, l')"
  obtains s where "mid_view l' = mid_view l"
    "result_seq (g_shared l') = result_seq (g_shared l) \<or>
     result_seq (g_shared l') = result_seq (g_shared l) + 2"
    "v = (\<not> skip_this_cycle (cal_temp_c (g_shared l')) (cal_hum_pct (g_shared l')) s)"
    "prev_delivered_temp_c s = prev_delivered_temp_c (g_shared l)"
    "prev_delivered_hum_pct s = prev_delivered_hum_pct (g_shared l)"
    "skipped_cycles s = skipped_cycles (g_shared l)"
    "skipped_cycles (g_shared l') = skipped_cycles (g_shared l) + (if v then 0 else 1)"
    "heater_active (g_shared l) = 0 \<Longrightarrow> heater_active (g_shared l') = 0"
    "Q (hp_view (g_shared l)) \<Longrightarrow> Q (hp_view s) \<and> Q (hp_view (g_shared l'))"
proof -
  obtain pd hd' l1 where 1: "heater_schedule hp t h l = (pd, hd', l1)" by (metis surj_pair)
  obtain t' h' l2 where 2: "(if pd \<or> hd' then heater_phase hp bus hd' t h l1 else (t, h, l1)) = (t', h', l2)"
    by (metis surj_pair)
  obtain ct ch l3 where 3: "calibrate hp t' h' l2 = (ct, ch, l3)" by (metis surj_pair)
  have 4: "skip_decision hp ct ch l3 = (v, l')"
    using assms by (simp add: lp_process_def 1 2 3 split: if_splits)
  have b: "mid_view l2 = mid_view l1" "skipped_cycles (g_shared l2) = skipped_cycles (g_shared l1)"
    "result_seq (g_shared l2) = result_seq (g_shared l1) \<or> result_seq (g_shared l2) = result_seq (g_shared l1) + 2"
    "heater_active (g_shared l1) = 0 \<Longrightarrow> heater_active (g_shared l2) = 0"
    using 2 by (auto split: if_splits dest: heater_phase_mid)
  have q: "Q (hp_view (g_shared l3)) \<and> Q (hp_view (g_shared l'))" if "Q (hp_view (g_shared l))"
  proof -
    have "Q (hp_view (g_shared l2))"
      using Q_phases(4) [OF that 1] 2 by (auto split: if_splits dest: Q_phases(5))
    with Q_phases(6) [OF _ 3] Q_phases(7) [OF _ 4] show ?thesis by blast
  qed
  show thesis
    using that [of "g_shared l3"] q heater_schedule_mid [OF 1] b calibrate_mid [OF 3] skip_decision_mid [OF 4]
    by (auto simp: mid_view_def)
qed

end

locale hp_side_cfg = hp_side_keeps hp cfg_view_ok for hp
begin

lemmas cfg_ok_phases = Q_phases [unfolded cfg_view_ok]

lemma heater_phase_values:
  assumes "heater_phase hp bus creep t h l = (t', h', l')" "reading_ok (t, h)"
    "raw_temp_c (g_shared l) = t" "raw_hum_pct (g_shared l) = h"
  shows "reading_ok (t', h') \<and> raw_temp_c (g_shared l') = t' \<and> raw_hum_pct (g_shared l') = h'"
  using assms
  by (cases "runHeaterMaintenance bus (if creep then kCmdHeaterHighLong else kCmdHeaterMediumShort)
        (if creep then kHeaterHighLongDelayUs else kHeaterMediumShortDelayUs)
        (if creep then kCreepDeltaT else kSelftestDeltaT) (lp_env l)")
    (auto simp: heater_phase_def heater_record_def bump_seq_def g_shared_store Let_def
      dest: runHeaterMaintenance_range(1) split: option.splits prod.splits)

lemma lp_process_values:
  assumes p: "lp_process hp bus t h l = (v, l')" and r: "reading_ok (t, h)" and c: "cfg_ok (g_shared l)"
  shows "values_ok (g_shared l') \<and> cfg_ok (g_shared l')"
proof -
  obtain pd hd' l1 where 1: "heater_schedule hp t h l = (pd, hd', l1)" by (metis surj_pair)
  obtain t' h' l2 where 2: "(if pd \<or> hd' then heater_phase hp bus hd' t h l1 else (t, h, l1)) = (t', h', l2)"
    by (metis surj_pair)
  obtain ct ch l3 where 3: "calibrate hp t' h' l2 = (ct, ch, l3)" by (metis surj_pair)
  have 4: "skip_decision hp ct ch l3 = (v, l')"
    using p by (simp add: lp_process_def 1 2 3 split: if_splits)
  have c1: "cfg_ok (g_shared l1)" using cfg_ok_phases(4) [OF c 1] .
  have raw1: "raw_temp_c (g_shared l1) = t" "raw_hum_pct (g_shared l1) = h"
    using heater_schedule_mid [OF 1] by auto
  have 22: "reading_ok (t', h') \<and> raw_temp_c (g_shared l2) = t' \<and> raw_hum_pct (g_shared l2) = h'"
    "cfg_ok (g_shared l2)"
    using 2 r raw1 c1 heater_phase_values [of bus hd' t h l1 t' h' l2] cfg_ok_phases(5) [OF c1]
    by (auto split: if_splits)
  have "ct = calibrate_temp t' (temp_offset_c (g_shared l2))" "ch = calibrate_hum h' (rh_offset_pct (g_shared l2))"
    using 3 by (auto simp: calibrate_def Let_def)
  then have "f_in (- 27315 / 100) 3000 ct" "f_in 0 100 ch"
    using 22 calibrate_temp_range calibrate_hum_range by (auto simp: reading_ok_def cfg_ok_def)
  with 22 calibrate_mid [OF 3] skip_decision_mid [OF 4] cfg_ok_phases(7) [OF _ 4]
    cfg_ok_phases(6) [OF 22(2) 3]
  show ?thesis by (auto simp: values_ok_def)
qed

lemma lp_main_values:
  assumes r: "lp_main hp bus l = (w, l')" and v: "values_ok (g_shared l)" and c: "cfg_ok (g_shared l)"
  shows "values_ok (g_shared l') \<and> cfg_ok (g_shared l')"
  using r
proof (cases rule: lp_main_cases)
  case (fail l1 b)
  have "seq_view (g_shared (bump_seq hp l1)) = seq_view (g_shared l)"
    using consume_ack_fields [of l] fail(1) by simp
  then have "values_ok (g_shared (record_status hp False ((bump_seq hp l1)\<lparr>lp_env := b\<rparr>)))"
    using v by (simp add: values_ok_def record_status_fields seq_view_def)
  moreover have "cfg_ok (g_shared (bump_seq hp l1))" using c fail(1) cfg_ok_phases by blast
  ultimately show ?thesis
    using lp_finish_fields [OF fail(3)] cfg_ok_phases(8) [OF _ fail(3)]
      cfg_ok_phases(3) [of "(bump_seq hp l1)\<lparr>lp_env := b\<rparr>" False]
    by (simp add: values_ok_def)
next
  case (ok l1 b t h vd l3)
  have c1: "cfg_ok (g_shared (bump_seq hp l1))" using c ok(1) cfg_ok_phases by blast
  then have "reading_ok (t, h)"
    using measureAveraged_range [OF ok(2)] by (simp add: cfg_ok_def)
  then have "values_ok (g_shared l3) \<and> cfg_ok (g_shared l3)"
    using lp_process_values [OF ok(3)] c1 cfg_ok_phases(3) [of "(bump_seq hp l1)\<lparr>lp_env := b\<rparr>" True]
    by simp
  then show ?thesis
    using lp_finish_fields [OF ok(4)] cfg_ok_phases(8) [OF _ ok(4)] by (simp add: values_ok_def)
qed

end

section \<open>The outcome of one cycle\<close>

context hp_side_keeps
begin

lemma lp_main_counters:
  assumes "lp_main hp bus l = (w, l')"
  shows "(result_seq (g_shared l') = result_seq (g_shared l) + 2 \<or>
      result_seq (g_shared l') = result_seq (g_shared l) + 4) \<and>
    heartbeat_counter (g_shared l') = heartbeat_counter (g_shared l) + 1 \<and>
    should_wake_hp (g_shared l') = (if w then 1 else 0) \<and>
    (heater_active (g_shared l) = 0 \<longrightarrow> heater_active (g_shared l') = 0)"
  using assms
proof (cases rule: lp_main_cases)
  case (fail l1 b)
  with lp_finish_fields [OF fail(3)] consume_ack_fields [of l] show ?thesis
    by (auto simp: record_status_fields seq_view_def bump_seq_def g_shared_store)
next
  case (ok l1 b t h v l3)
  from ok(3) obtain s where "mid_view l3 = mid_view (record_status hp True ((bump_seq hp l1)\<lparr>lp_env := b\<rparr>))"
    "result_seq (g_shared l3) = result_seq (g_shared l) + 1 \<or> result_seq (g_shared l3) = result_seq (g_shared l) + 3"
    "heater_active (g_shared l) = 0 \<Longrightarrow> heater_active (g_shared l3) = 0"
    using consume_ack_fields [of l] ok(1)
    by (rule_tac lp_process_mid [OF ok(3)])
      (auto simp: record_status_fields seq_view_def bump_seq_def g_shared_store)
  with lp_finish_fields [OF ok(4)] consume_ack_fields [of l] ok(1) show ?thesis
    by (auto simp: record_status_fields seq_view_def mid_view_def bump_seq_def g_shared_store)
qed

lemma lp_main_fail:
  assumes "lp_main hp bus l = (w, l')" "sensor_ok (g_shared l') = 0"
  shows "w = (sensor_ok (g_shared l) \<noteq> 0) \<and>
    consec_fail_count (g_shared l') = consec_fail_count (g_shared l) + 1 \<and>
    raw_temp_c (g_shared l') = raw_temp_c (g_shared l) \<and> raw_hum_pct (g_shared l') = raw_hum_pct (g_shared l) \<and>
    cal_temp_c (g_shared l') = cal_temp_c (g_shared l) \<and> cal_hum_pct (g_shared l') = cal_hum_pct (g_shared l)"
  using assms(1)
proof (cases rule: lp_main_cases)
  case (fail l1 b)
  with lp_finish_fields [OF fail(3)] consume_ack_fields [of l] show ?thesis
    by (auto simp: record_status_fields seq_view_def bump_seq_def g_shared_store)
next
  case (ok l1 b t h v l3)
  from lp_process_mid [OF ok(3)] have "sensor_ok (g_shared l3) = 1"
    by (auto simp: record_status_fields mid_view_def)
  with lp_finish_fields [OF ok(4)] assms(2) show ?thesis by simp
qed

lemma lp_main_ok:
  assumes "lp_main hp bus l = (w, l')" "sensor_ok (g_shared l') \<noteq> 0"
  obtains s where "consec_fail_count (g_shared l') = 0"
    "w = (\<not> skip_this_cycle (cal_temp_c (g_shared l')) (cal_hum_pct (g_shared l')) s)"
    "prev_delivered_temp_c s = prev_delivered_temp_c (g_shared (consume_ack hp l))"
    "prev_delivered_hum_pct s = prev_delivered_hum_pct (g_shared (consume_ack hp l))"
    "skipped_cycles s = skipped_cycles (g_shared (consume_ack hp l))"
    "prev_delivered_temp_c (g_shared l') = prev_delivered_temp_c (g_shared (consume_ack hp l))"
    "prev_delivered_hum_pct (g_shared l') = prev_delivered_hum_pct (g_shared (consume_ack hp l))"
    "skipped_cycles (g_shared l') = skipped_cycles (g_shared (consume_ack hp l)) + (if w then 0 else 1)"
    "g_lastConsumedAckSeq l' = g_lastConsumedAckSeq (consume_ack hp l)"
    "Q (hp_view (g_shared l)) \<Longrightarrow> Q (hp_view s) \<and> Q (hp_view (g_shared l'))"
  using assms(1)
proof (cases rule: lp_main_cases)
  case (fail l1 b)
  with lp_finish_fields [OF fail(3)] assms(2) show ?thesis by (simp add: record_status_fields)
next
  case (ok l1 b t h v l3)
  have q: "Q (hp_view (g_shared (record_status hp True ((bump_seq hp l1)\<lparr>lp_env := b\<rparr>))))"
    if "Q (hp_view (g_shared l))"
    using Q_phases(3) [of "(bump_seq hp l1)\<lparr>lp_env := b\<rparr>" True] Q_phases(2) [of l1]
      Q_phases(1) [OF that] ok(1) by simp
  from ok(1) q Q_phases(8) [OF _ ok(4)] show ?thesis
    by (rule_tac lp_process_mid [OF ok(3)], rule_tac s = s in that)
      (auto simp: lp_finish_fields [OF ok(4)] record_status_fields mid_view_def bump_seq_def g_shared_store)
qed

text \<open>With no new acknowledgement pending the first phase does nothing.\<close>

lemma consume_ack_idle: "hp_ack_seq (g_shared l) = g_lastConsumedAckSeq l \<Longrightarrow> consume_ack hp l = l"
  by (simp add: consume_ack_def)

text \<open>With one pending it restarts the skip budget.\<close>

lemma consume_ack_skipped:
  "skipped_cycles (g_shared (consume_ack hp l)) =
     (if hp_ack_seq (g_shared l) = g_lastConsumedAckSeq l then skipped_cycles (g_shared l) else 0)"
  by (simp add: consume_ack_def g_shared_store Let_def)

text \<open>
  What any cycle, failed or not, makes of the delivery baseline and of the skip count: the baseline is
  the one the first phase left, and the count only rises while there is budget.
\<close>

lemma lp_main_baseline:
  assumes r: "lp_main hp bus l = (w, l')" and q: "Q (hp_view (g_shared l))"
  obtains s where
    "prev_delivered_temp_c (g_shared l') = prev_delivered_temp_c (g_shared (consume_ack hp l))"
    "prev_delivered_hum_pct (g_shared l') = prev_delivered_hum_pct (g_shared (consume_ack hp l))"
    "skipped_cycles (g_shared l') = skipped_cycles (g_shared (consume_ack hp l)) \<or>
     skipped_cycles (g_shared l') = skipped_cycles (g_shared (consume_ack hp l)) + 1 \<and>
     skipped_cycles (g_shared (consume_ack hp l)) < max_skip_cycles s"
    "g_lastConsumedAckSeq l' = g_lastConsumedAckSeq (consume_ack hp l)"
    "Q (hp_view s)" "Q (hp_view (g_shared l'))"
  using r
proof (cases rule: lp_main_cases)
  case (fail l1 b)
  have f: "prev_delivered_temp_c (g_shared l') = prev_delivered_temp_c (g_shared l1)"
    "prev_delivered_hum_pct (g_shared l') = prev_delivered_hum_pct (g_shared l1)"
    "skipped_cycles (g_shared l') = skipped_cycles (g_shared l1)" "g_lastConsumedAckSeq l' = g_lastConsumedAckSeq l1"
    using lp_finish_fields [OF fail(3)]
    by (auto simp: record_status_fields bump_seq_def g_shared_store)
  have "Q (hp_view (g_shared (record_status hp False ((bump_seq hp l1)\<lparr>lp_env := b\<rparr>))))"
    using Q_phases(3) [of "(bump_seq hp l1)\<lparr>lp_env := b\<rparr>" False] Q_phases(2) [of l1]
      Q_phases(1) [OF q] fail(1) by simp
  from Q_phases(8) [OF this fail(3)] show ?thesis
    using f fail(1) q by (intro that [of "g_shared l"]) auto
next
  case (ok l1 b t h v l3)
  have "sensor_ok (g_shared l') = 1"
    by (rule lp_process_mid [OF ok(3)])
      (auto simp: lp_finish_fields [OF ok(4)] record_status_fields mid_view_def)
  then have "sensor_ok (g_shared l') \<noteq> 0" by simp
  from lp_main_ok [OF r this] obtain s where s:
    "w = (\<not> skip_this_cycle (cal_temp_c (g_shared l')) (cal_hum_pct (g_shared l')) s)"
    "skipped_cycles s = skipped_cycles (g_shared (consume_ack hp l))"
    "prev_delivered_temp_c (g_shared l') = prev_delivered_temp_c (g_shared (consume_ack hp l))"
    "prev_delivered_hum_pct (g_shared l') = prev_delivered_hum_pct (g_shared (consume_ack hp l))"
    "skipped_cycles (g_shared l') = skipped_cycles (g_shared (consume_ack hp l)) + (if w then 0 else 1)"
    "g_lastConsumedAckSeq l' = g_lastConsumedAckSeq (consume_ack hp l)"
    "Q (hp_view s)" "Q (hp_view (g_shared l'))"
    using q by metis
  show ?thesis
    by (rule that [OF s(3,4) _ s(6-8)]) (use s in \<open>auto simp: skip_this_cycle_def\<close>)
qed

end

section \<open>Sequences of cycles\<close>

text \<open>\<open>n\<close> runs of the LP program, one per timer period; the list says which of them woke the HP core.\<close>

fun lp_cycles :: "hp_acts \<Rightarrow> 'b i2c \<Rightarrow> nat \<Rightarrow> 'b lp \<Rightarrow> (bool \<times> 'b lp) list" where
  "lp_cycles hp bus 0 l = []"
| "lp_cycles hp bus (Suc n) l = (let r = lp_main hp bus l in r # lp_cycles hp bus n (snd r))"

lemma lp_cycles_length [simp]: "length (lp_cycles hp bus n l) = n"
  by (induction n arbitrary: l) (simp_all add: Let_def)

lemma lp_cycles_nth:
  "i < n \<Longrightarrow> lp_cycles hp bus n l ! i =
     lp_main hp bus (if i = 0 then l else snd (lp_cycles hp bus n l ! (i - 1)))"
proof (induction n arbitrary: l i)
  case (Suc n)
  then show ?case by (cases i; cases "i - 1") (simp_all add: Let_def)
qed simp

text \<open>An invariant of the cycle holds after every cycle of a run.\<close>

lemma lp_cycles_invariant:
  assumes step: "\<And>l w l'. lp_main hp bus l = (w, l') \<Longrightarrow> P l \<Longrightarrow> P l'"
  shows "P l \<Longrightarrow> (w, l') \<in> set (lp_cycles hp bus n l) \<Longrightarrow> P l'"
proof (induction n arbitrary: l)
  case (Suc n)
  then show ?case using step [of l] by (cases "lp_main hp bus l") auto
qed simp

text \<open>A run of cycles in which every read succeeded and none woke the HP core.\<close>

definition quiet_run :: "(bool \<times> 'b lp) list \<Rightarrow> bool" where
  "quiet_run rs \<longleftrightarrow> list_all (\<lambda>(w, l). \<not> w \<and> sensor_ok (g_shared l) \<noteq> 0) rs"

text \<open>The skip budget is \<open>M\<close> and the HP side has acknowledged nothing since \<open>A\<close>.\<close>

fun budget_view :: "u32 \<Rightarrow> u32 \<Rightarrow> hp_fields \<Rightarrow> bool" where
  "budget_view M A ((n, t_off, t_min, rh_off, rh_min, skip, period, trigger), ack, acked_t, acked_h)
     \<longleftrightarrow> skip = M \<and> ack = A"

lemma budget_view: "budget_view M A (hp_view s) \<longleftrightarrow> max_skip_cycles s = M \<and> hp_ack_seq s = A"
  by (simp add: hp_view_def)

text \<open>The cycles the budget has already spent, as the next run of the program will count them.\<close>

definition budget_spent :: "'b lp \<Rightarrow> nat" where
  "budget_spent l = (if hp_ack_seq (g_shared l) = g_lastConsumedAckSeq l then unat (skipped_cycles (g_shared l)) else 0)"

context hp_side_keeps
begin

text \<open>With the acknowledgement counter at rest, every cycle ends with that count consumed.\<close>

lemma consume_ack_consumed:
  assumes "\<And>v. Q v \<Longrightarrow> fst (snd v) = A" "Q (hp_view (g_shared l))"
  shows "g_lastConsumedAckSeq (consume_ack hp l) = A"
proof -
  have ack: "hp_ack_seq (g_shared l) = A" using assms by (fastforce simp: hp_view_def)
  let ?l = "store hp (\<lambda>s. s\<lparr>skipped_cycles := 0\<rparr>) (store hp (\<lambda>s. s\<lparr>prev_delivered_hum_pct := hp_acked_hum_pct s\<rparr>)
    (store hp (\<lambda>s. s\<lparr>prev_delivered_temp_c := hp_acked_temp_c s\<rparr>) l))"
  have "Q (hp_view (g_shared ?l))" using assms(2) by (simp add: g_shared_store)
  from assms(1) [OF this] have "hp_ack_seq (g_shared ?l) = A" by (simp add: hp_view_def)
  with ack show ?thesis by (simp add: consume_ack_def Let_def)
qed

lemma budget_spent_consume: "unat (skipped_cycles (g_shared (consume_ack hp l))) = budget_spent l"
  by (simp add: consume_ack_skipped budget_spent_def)

lemma quiet_cycle_counts:
  assumes Q: "Q = budget_view M A" and r: "lp_main hp bus l = (False, l')" and ok: "sensor_ok (g_shared l') \<noteq> 0"
    and b: "budget_view M A (hp_view (g_shared l))"
  shows "budget_spent l' = budget_spent l + 1" "budget_spent l' \<le> unat M"
    "budget_view M A (hp_view (g_shared l'))"
proof -
  let ?c = "consume_ack hp l"
  have a: "g_lastConsumedAckSeq ?c = A"
    by (rule consume_ack_consumed) (use b in \<open>auto simp: Q\<close>)
  obtain s where s: "skip_this_cycle (cal_temp_c (g_shared l')) (cal_hum_pct (g_shared l')) s"
      "skipped_cycles s = skipped_cycles (g_shared ?c)"
      "skipped_cycles (g_shared l') = skipped_cycles (g_shared ?c) + 1"
      "g_lastConsumedAckSeq l' = A"
      "budget_view M A (hp_view s)" "budget_view M A (hp_view (g_shared l'))"
    using b a by (rule_tac lp_main_ok [OF r ok]) (auto simp: Q)
  then have less: "unat (skipped_cycles (g_shared ?c)) < unat M"
    by (simp add: skip_this_cycle_def budget_view word_less_nat_alt)
  then have "unat (skipped_cycles (g_shared ?c) + 1) = unat (skipped_cycles (g_shared ?c)) + 1"
    using unat_u32_less [of M] by (intro unat_Suc_u32) (simp del: unat_u32_less)
  moreover have "budget_spent l' = unat (skipped_cycles (g_shared l'))"
    using s(4,6) by (simp add: budget_spent_def budget_view)
  ultimately show "budget_spent l' = budget_spent l + 1" "budget_spent l' \<le> unat M"
    "budget_view M A (hp_view (g_shared l'))"
    using s(3,6) less by (simp_all add: budget_spent_consume)
qed

lemma quiet_run_bound:
  assumes Q: "Q = budget_view M A"
  shows "quiet_run (lp_cycles hp bus n l) \<Longrightarrow> budget_view M A (hp_view (g_shared l)) \<Longrightarrow>
    n = 0 \<or> budget_spent l + n \<le> unat M"
proof (induction n arbitrary: l)
  case (Suc n)
  obtain w l' where r: "lp_main hp bus l = (w, l')" by fastforce
  with Suc.prems(1) have q: "\<not> w" "sensor_ok (g_shared l') \<noteq> 0" "quiet_run (lp_cycles hp bus n l')"
    by (auto simp: quiet_run_def)
  with r have r': "lp_main hp bus l = (False, l')" by simp
  note k = quiet_cycle_counts [OF Q r' q(2) Suc.prems(2)]
  from Suc.IH [OF q(3) k(3)] k(1,2) show ?case by auto
qed simp

end

section \<open>The HP side at rest\<close>

definition no_hp :: hp_acts where
  "no_hp k s = s"

lemma no_hp_ok: "hp_ok no_hp"
  by (simp add: hp_ok_def no_hp_def)

lemma no_hp_keeps: "hp_keeps no_hp Q"
  by (simp add: hp_keeps_def no_hp_def)

interpretation no_hp: hp_side_keeps no_hp Q for Q
  by unfold_locales (rule no_hp_ok no_hp_keeps)+

interpretation no_hp_cfg: hp_side_cfg no_hp
  by unfold_locales

text \<open>The thresholds, the budget and the acknowledgement counter a retry depends on.\<close>

fun threshold_view :: "flt \<Rightarrow> flt \<Rightarrow> u32 \<Rightarrow> u32 \<Rightarrow> hp_fields \<Rightarrow> bool" where
  "threshold_view T H M A ((n, t_off, t_min, rh_off, rh_min, skip, period, trigger), ack, acked_t, acked_h)
     \<longleftrightarrow> t_min = T \<and> rh_min = H \<and> skip = M \<and> ack = A"

lemma threshold_view: "threshold_view T H M A (hp_view s) \<longleftrightarrow>
    temp_min_change_c s = T \<and> rh_min_change_pct s = H \<and> max_skip_cycles s = M \<and> hp_ack_seq s = A"
  by (simp add: hp_view_def)

lemma skip_this_cycle_cong:
  "threshold_view T H M A (hp_view s) \<Longrightarrow> threshold_view T H M A (hp_view s') \<Longrightarrow>
   prev_delivered_temp_c s' = prev_delivered_temp_c s \<Longrightarrow> prev_delivered_hum_pct s' = prev_delivered_hum_pct s \<Longrightarrow>
   skipped_cycles s' = skipped_cycles s \<Longrightarrow> skip_this_cycle t h s' = skip_this_cycle t h s"
  by (simp add: threshold_view skip_this_cycle_def same_as_delivered_def)

text \<open>The heater switched off: both schedules zero.\<close>

fun heater_off_view :: "hp_fields \<Rightarrow> bool" where
  "heater_off_view ((n, t_off, t_min, rh_off, rh_min, skip, period, trigger), ack, acked_t, acked_h)
     \<longleftrightarrow> period = 0 \<and> trigger = 0"

lemma heater_off_view:
  "heater_off_view (hp_view s) \<longleftrightarrow> heater_period_cycles s = 0 \<and> high_rh_trigger_cycles s = 0"
  by (simp add: hp_view_def)

text \<open>
  A state that owes the value \<open>t\<close>, \<open>h\<close> to the HP core: under the thresholds \<open>T\<close>, \<open>H\<close> and the budget
  \<open>M\<close> the program would wake for it, and no acknowledgement is pending.
\<close>

definition owes :: "flt \<Rightarrow> flt \<Rightarrow> u32 \<Rightarrow> u32 \<Rightarrow> flt \<Rightarrow> flt \<Rightarrow> 'b lp \<Rightarrow> bool" where
  "owes T H M A t h l \<longleftrightarrow> g_lastConsumedAckSeq l = A \<and> threshold_view T H M A (hp_view (g_shared l)) \<and>
     \<not> skip_this_cycle t h (g_shared l)"

context hp_side_keeps
begin

text \<open>A debt comes about in a cycle that wakes for the value, and lasts through every further cycle.\<close>

lemma owes_begin:
  assumes Q: "Q = threshold_view T H M A" and r: "lp_main hp bus l = (True, l')"
    and ok: "sensor_ok (g_shared l') \<noteq> 0" and v: "threshold_view T H M A (hp_view (g_shared l))"
  shows "owes T H M A (cal_temp_c (g_shared l')) (cal_hum_pct (g_shared l')) l'"
proof -
  have a: "g_lastConsumedAckSeq (consume_ack hp l) = A"
    by (rule consume_ack_consumed) (use v in \<open>auto simp: Q\<close>)
  obtain s where s: "\<not> skip_this_cycle (cal_temp_c (g_shared l')) (cal_hum_pct (g_shared l')) s"
      "prev_delivered_temp_c s = prev_delivered_temp_c (g_shared l')"
      "prev_delivered_hum_pct s = prev_delivered_hum_pct (g_shared l')"
      "skipped_cycles s = skipped_cycles (g_shared l')" "g_lastConsumedAckSeq l' = A"
      "threshold_view T H M A (hp_view s)" "threshold_view T H M A (hp_view (g_shared l'))"
    using v a by (rule_tac lp_main_ok [OF r ok]) (auto simp: Q)
  with skip_this_cycle_cong [OF s(6,7)] show ?thesis by (simp add: owes_def)
qed

lemma owes_cycle:
  assumes Q: "Q = threshold_view T H M A" and o: "owes T H M A t h l" and r: "lp_main hp bus l = (w, l')"
  shows "owes T H M A t h l'"
proof -
  have v: "threshold_view T H M A (hp_view (g_shared l))" and a: "g_lastConsumedAckSeq l = A"
    using o by (simp_all add: owes_def)
  have i: "consume_ack hp l = l" using a v by (intro consume_ack_idle) (simp add: threshold_view)
  have q: "Q (hp_view (g_shared l))" using v Q by simp
  obtain s where "prev_delivered_temp_c (g_shared l') = prev_delivered_temp_c (g_shared l)"
      "prev_delivered_hum_pct (g_shared l') = prev_delivered_hum_pct (g_shared l)"
      "skipped_cycles (g_shared l') = skipped_cycles (g_shared l) \<or>
       skipped_cycles (g_shared l') = skipped_cycles (g_shared l) + 1 \<and> skipped_cycles (g_shared l) < M"
      "g_lastConsumedAckSeq l' = A" "threshold_view T H M A (hp_view (g_shared l'))"
    using a by (rule_tac lp_main_baseline [OF r q]) (auto simp: i Q threshold_view)
  with o show ?thesis
    by (auto simp: owes_def threshold_view skip_this_cycle_def same_as_delivered_def)
qed

lemma owes_paid:
  assumes Q: "Q = threshold_view T H M A" and o: "owes T H M A t h l" and r: "lp_main hp bus l = (w, l')"
    and ok: "sensor_ok (g_shared l') \<noteq> 0" "cal_temp_c (g_shared l') = t" "cal_hum_pct (g_shared l') = h"
  shows w
proof -
  have v: "threshold_view T H M A (hp_view (g_shared l))" and a: "g_lastConsumedAckSeq l = A"
    using o by (simp_all add: owes_def)
  have i: "consume_ack hp l = l" using a v by (intro consume_ack_idle) (simp add: threshold_view)
  obtain s where s: "w = (\<not> skip_this_cycle t h s)" "threshold_view T H M A (hp_view s)"
      "prev_delivered_temp_c s = prev_delivered_temp_c (g_shared l)"
      "prev_delivered_hum_pct s = prev_delivered_hum_pct (g_shared l)"
      "skipped_cycles s = skipped_cycles (g_shared l)"
    using v ok(2,3) by (rule_tac lp_main_ok [OF r ok(1)]) (auto simp: i Q)
  with skip_this_cycle_cong [OF v s(2-5)] o show ?thesis by (simp add: owes_def)
qed

lemma owes_run:
  assumes Q: "Q = threshold_view T H M A" and v: "threshold_view T H M A (hp_view (g_shared l))"
    and i: "lp_cycles hp bus n l ! i = (True, li)" "sensor_ok (g_shared li) \<noteq> 0"
  shows "i < j \<Longrightarrow> j < n \<Longrightarrow>
    owes T H M A (cal_temp_c (g_shared li)) (cal_hum_pct (g_shared li)) (snd (lp_cycles hp bus n l ! (j - 1)))"
proof (induction j)
  case (Suc j)
  have view: "threshold_view T H M A (hp_view (g_shared l'))" if "(w, l') \<in> set (lp_cycles hp bus n l)" for w l'
    using lp_cycles_invariant [where P = "\<lambda>l. Q (hp_view (g_shared l))", OF _ _ that] v lp_main_baseline
    unfolding Q by blast
  show ?case
  proof (cases "i = j")
    case True
    let ?p = "if j = 0 then l else snd (lp_cycles hp bus n l ! (j - 1))"
    have "threshold_view T H M A (hp_view (g_shared ?p))"
      using v view [of "fst (lp_cycles hp bus n l ! (j - 1))" ?p] Suc.prems
      by (cases "j = 0") (auto intro: nth_mem simp del: lp_cycles.simps)
    moreover have "lp_main hp bus ?p = (True, li)"
      using i(1) True Suc.prems lp_cycles_nth [of j n hp bus l] by simp
    ultimately show ?thesis using owes_begin [OF Q _ i(2)] True i(1) by simp
  next
    case False
    then have j: "i < j" "j < n" "j \<noteq> 0" using Suc.prems by auto
    have "lp_main hp bus (snd (lp_cycles hp bus n l ! (j - 1))) = lp_cycles hp bus n l ! j"
      using lp_cycles_nth [of j n hp bus l] j by simp
    from owes_cycle [OF Q Suc.IH [OF j(1,2)], of bus "fst (lp_cycles hp bus n l ! j)"] this
    show ?thesis by simp
  qed
qed simp

end

text \<open>Two buses that treat the plain measurement command alike.\<close>

definition same_plain :: "'b i2c \<Rightarrow> 'b i2c \<Rightarrow> bool" where
  "same_plain bus bus' \<longleftrightarrow> i2c_write bus kCmdMeasureHigh = i2c_write bus' kCmdMeasureHigh \<and>
     i2c_read bus = i2c_read bus' \<and> delay_us bus = delay_us bus'"

lemma measure_plain: "same_plain bus bus' \<Longrightarrow>
    measure_sht bus kCmdMeasureHigh us = measure_sht bus' kCmdMeasureHigh us"
proof (intro ext)
  fix b
  assume "same_plain bus bus'"
  then have e: "i2c_write bus kCmdMeasureHigh = i2c_write bus' kCmdMeasureHigh"
    "i2c_read bus = i2c_read bus'" "delay_us bus = delay_us bus'"
    by (simp_all add: same_plain_def)
  show "measure_sht bus kCmdMeasureHigh us b = measure_sht bus' kCmdMeasureHigh us b"
    unfolding measure_sht_def e by (rule refl)
qed

lemma sample_loop_plain:
  assumes "same_plain bus bus'"
  shows "sample_loop bus n later sT sH ok b = sample_loop bus' n later sT sH ok b"
proof (induction n arbitrary: later sT sH ok b)
  case (Suc n)
  have "delay_us bus = delay_us bus'" using assms by (simp add: same_plain_def)
  then show ?case by (simp add: measure_plain [OF assms] Suc.IH split: option.split prod.split)
qed simp

context hp_side_keeps
begin

lemma lp_process_heater_off:
  assumes "Q = heater_off_view" "heater_off_view (hp_view (g_shared l))"
  shows "lp_process hp bus t h l = lp_process hp bus' t h l"
proof -
  obtain pd hd' l1 where 1: "heater_schedule hp t h l = (pd, hd', l1)" by (metis surj_pair)
  have "heater_off_view (hp_view (g_shared l1))"
    using Q_phases(4) [OF _ 1] assms by simp
  then have "\<not> pd" "\<not> hd'"
    using 1 unfolding heater_off_view heater_schedule_def Let_def by auto
  then show ?thesis by (simp add: lp_process_def 1)
qed

lemma lp_main_heater_off:
  assumes Q: "Q = heater_off_view" and v: "heater_off_view (hp_view (g_shared l))" and b: "same_plain bus bus'"
  shows "lp_main hp bus l = lp_main hp bus' l"
proof -
  have "Q (hp_view (g_shared (record_status hp ok ((bump_seq hp (consume_ack hp l))\<lparr>lp_env := e\<rparr>))))" for ok e
    using Q_phases(3) [of "(bump_seq hp (consume_ack hp l))\<lparr>lp_env := e\<rparr>" ok]
      Q_phases(2) [of "consume_ack hp l"] Q_phases(1) [of l] v Q by simp
  then have "lp_process hp bus t h (record_status hp ok ((bump_seq hp (consume_ack hp l))\<lparr>lp_env := e\<rparr>)) =
     lp_process hp bus' t h (record_status hp ok ((bump_seq hp (consume_ack hp l))\<lparr>lp_env := e\<rparr>))" for ok e t h
    unfolding Q by (rule lp_process_heater_off [OF Q])
  moreover have "measureAveraged bus = measureAveraged bus'"
    by (intro ext) (simp add: measureAveraged_def sample_loop_plain [OF b])
  ultimately show ?thesis
    by (simp add: lp_main_def Let_def split: option.split prod.split)
qed

end

section \<open>A concrete device\<close>

text \<open>
  A sensor that always answers with the lowest reading (-45 degrees, 0 percent), averaged twice, no
  offsets, the heater off. Its cycles are the inputs the properties are exercised on.
\<close>

definition cold_shared :: "flt \<Rightarrow> u32 \<Rightarrow> lp_shared_state" where
  "cold_shared threshold budget = zero_shared\<lparr>sensor_samples := 2, temp_min_change_c := threshold,
     rh_min_change_pct := threshold, max_skip_cycles := budget\<rparr>"

definition cold_lp :: "lp_shared_state \<Rightarrow> unit lp" where
  "cold_lp s = \<lparr>lp_hist = [s], g_lastConsumedAckSeq = 0, lp_env = ()\<rparr>"

definition cold_state :: "unit lp \<Rightarrow> bool" where
  "cold_state l \<longleftrightarrow> sensor_samples (g_shared l) = 2 \<and> temp_offset_c (g_shared l) = Fin 0 \<and>
     rh_offset_pct (g_shared l) = Fin 0 \<and> heater_period_cycles (g_shared l) = 0 \<and>
     high_rh_trigger_cycles (g_shared l) = 0 \<and> hp_ack_seq (g_shared l) = g_lastConsumedAckSeq l"

lemma cold_start: "cold_state (cold_lp (cold_shared d n))"
  by (simp add: cold_state_def cold_lp_def cold_shared_def zero_shared_def)

lemma cold_calibrate: "calibrate_temp (Fin (- 45)) (Fin 0) = Fin (- 45)" "calibrate_hum (Fin 0) (Fin 0) = Fin 0"
  by code_simp+

lemma cold_arith: "f_sub f32 (Fin (- 45)) (Fin 0) = Fin (- 45)" "f_sub f32 (Fin 0) (Fin 0) = Fin 0"
  by code_simp+

lemma cold_cycle:
  assumes c: "cold_state l" and r: "lp_main no_hp cold_bus l = (w, l')"
  shows "cold_state l' \<and> sensor_ok (g_shared l') = 1 \<and> cal_temp_c (g_shared l') = Fin (- 45) \<and>
    cal_hum_pct (g_shared l') = Fin 0 \<and> hp_view (g_shared l') = hp_view (g_shared l) \<and>
    w = (\<not> skip_this_cycle (Fin (- 45)) (Fin 0) (g_shared l)) \<and>
    prev_delivered_temp_c (g_shared l') = prev_delivered_temp_c (g_shared l) \<and>
    prev_delivered_hum_pct (g_shared l') = prev_delivered_hum_pct (g_shared l) \<and>
    skipped_cycles (g_shared l') = skipped_cycles (g_shared l) + (if w then 0 else 1)"
proof -
  have i: "consume_ack no_hp l = l" using c by (simp add: consume_ack_def cold_state_def)
  define l1 where "l1 = record_status no_hp True (bump_seq no_hp l)"
  have h1: "hp_view (g_shared l1) = hp_view (g_shared l)"
    by (simp add: l1_def record_status_def bump_seq_def g_shared_store no_hp_def Let_def)
  obtain p q l2 where 2: "heater_schedule no_hp (Fin (- 45)) (Fin 0) l1 = (p, q, l2)" by (metis surj_pair)
  have h2: "hp_view (g_shared l2) = hp_view (g_shared l)"
    using 2 h1 by (auto simp: heater_schedule_def g_shared_store no_hp_def Let_def)
  then have off: "heater_period_cycles (g_shared l2) = 0" "high_rh_trigger_cycles (g_shared l2) = 0"
    "temp_offset_c (g_shared l2) = Fin 0" "rh_offset_pct (g_shared l2) = Fin 0"
    using c by (simp_all add: hp_view_def cold_state_def)
  have pq: "\<not> p" "\<not> q" using 2 off(1,2) by (auto simp: heater_schedule_def Let_def)
  define l3 where "l3 = store no_hp (\<lambda>s. s\<lparr>cal_hum_pct := Fin 0\<rparr>) (store no_hp (\<lambda>s. s\<lparr>cal_temp_c := Fin (- 45)\<rparr>) l2)"
  have 3: "calibrate no_hp (Fin (- 45)) (Fin 0) l2 = (Fin (- 45), Fin 0, l3)"
    by (simp add: calibrate_def off cold_calibrate l3_def Let_def)
  obtain v l4 where 4: "skip_decision no_hp (Fin (- 45)) (Fin 0) l3 = (v, l4)" by (metis surj_pair)
  have p: "lp_process no_hp cold_bus (Fin (- 45)) (Fin 0) l1 = (v, l4)"
    by (simp add: lp_process_def 2 3 4 pq)
  have env: "(bump_seq no_hp l)\<lparr>lp_env := lp_env l\<rparr> = bump_seq no_hp l"
    by (simp add: bump_seq_def store_def Let_def)
  have s2: "sensor_samples (g_shared (bump_seq no_hp l)) = 2" "lp_env (bump_seq no_hp l) = lp_env l"
    using c by (simp_all add: bump_seq_def g_shared_store no_hp_def cold_state_def)
  have f: "lp_finish no_hp v l4 = (w, l')"
    using r unfolding lp_main_def i Let_def s2 measureAveraged_cold prod.case env
    by (simp add: l1_def [symmetric] p)
  have h4: "hp_view (g_shared l4) = hp_view (g_shared l)"
    using 4 h2 by (auto simp: skip_decision_def g_shared_store no_hp_def l3_def split: if_splits)
  have h5: "hp_view (g_shared l') = hp_view (g_shared l4)"
    using f by (auto simp: lp_finish_def bump_seq_def g_shared_store no_hp_def Let_def)
  have m1: "prev_delivered_temp_c (g_shared l1) = prev_delivered_temp_c (g_shared l)"
    "prev_delivered_hum_pct (g_shared l1) = prev_delivered_hum_pct (g_shared l)"
    "skipped_cycles (g_shared l1) = skipped_cycles (g_shared l)" "sensor_ok (g_shared l1) = 1"
    "g_lastConsumedAckSeq l1 = g_lastConsumedAckSeq l"
    by (simp_all add: l1_def no_hp.record_status_fields) (simp add: bump_seq_def)
  have m2: "mid_view l2 = mid_view l1" "skipped_cycles (g_shared l2) = skipped_cycles (g_shared l1)"
    using no_hp.heater_schedule_mid [OF 2] by auto
  have m3: "mid_view l3 = mid_view l2" "skipped_cycles (g_shared l3) = skipped_cycles (g_shared l2)"
    using no_hp.calibrate_mid [OF 3] by auto
  have sk: "skip_this_cycle (Fin (- 45)) (Fin 0) (g_shared l3) = skip_this_cycle (Fin (- 45)) (Fin 0) (g_shared l)"
    using m1 m2 m3 h2 no_hp.calibrate_mid [OF 3]
    by (auto simp: l3_def g_shared_store no_hp_def hp_view_def mid_view_def skip_this_cycle_def same_as_delivered_def)
  show ?thesis
    using no_hp.skip_decision_mid [OF 4] no_hp.calibrate_mid [OF 3] no_hp.lp_finish_fields [OF f]
      m1 m2 m3 sk h4 h5 c
    by (auto simp: mid_view_def hp_view_def cold_state_def)
qed

section \<open>Properties\<close>

text \<open>
  C1: A value the LP program woke the HP core for keeps waking it until it is acknowledged. While the
  change thresholds and the skip budget stay as they are and the HP side acknowledges nothing new, in
  any run of cycles: once a successful cycle \<open>i\<close> has woken the HP core, every later successful cycle
  \<open>j\<close> of the run that measures the same calibrated value wakes it too, however many cycles lie
  between, whether those failed, measured something else, woke or were skipped. An acknowledgement
  made before the run may still be pending at its start, and the HP side may write anything else at
  any moment.
\<close>

theorem retry_until_acknowledged:
  assumes hp: "hp_ok hp" "hp_keeps hp (threshold_view T H M A)"
    and v: "threshold_view T H M A (hp_view (g_shared l))"
    and ij: "i < j" "j < n"
    and i: "lp_cycles hp bus n l ! i = (True, li)" "sensor_ok (g_shared li) \<noteq> 0"
    and j: "lp_cycles hp bus n l ! j = (w, lj)" "sensor_ok (g_shared lj) \<noteq> 0"
    and same: "cal_temp_c (g_shared lj) = cal_temp_c (g_shared li)"
      "cal_hum_pct (g_shared lj) = cal_hum_pct (g_shared li)"
  shows "w"
proof -
  have loc: "hp_side_keeps hp (threshold_view T H M A)"
    using hp by (simp add: hp_side_keeps_def hp_side_def hp_side_keeps_axioms_def)
  have "lp_main hp bus (snd (lp_cycles hp bus n l ! (j - 1))) = (w, lj)"
    using lp_cycles_nth [of j n hp bus l] j(1) ij by simp
  from hp_side_keeps.owes_paid [OF loc refl hp_side_keeps.owes_run [OF loc refl v i ij] this j(2) same]
  show ?thesis .
qed

theorem retry_until_acknowledged_witness:
  "fst (lp_cycles no_hp cold_bus 3 (cold_lp (cold_shared (Fin 0) 9)) ! 2)"
proof -
  let ?l = "cold_lp (cold_shared (Fin 0) 9)"
  obtain w1 l1 where r1: "lp_main no_hp cold_bus ?l = (w1, l1)" by fastforce
  note c1 = cold_cycle [OF cold_start r1]
  have s: "\<not> skip_this_cycle (Fin (- 45)) (Fin 0) (g_shared ?l)"
    by (simp add: skip_this_cycle_def same_as_delivered_def cold_lp_def cold_shared_def zero_shared_def
        cold_arith absf_def)
  obtain w2 l2 where r2: "lp_main no_hp cold_bus l1 = (w2, l2)" by fastforce
  note c2 = cold_cycle [OF conjunct1 [OF c1] r2]
  obtain w3 l3 where r3: "lp_main no_hp cold_bus l2 = (w3, l3)" by fastforce
  note c3 = cold_cycle [OF conjunct1 [OF c2] r3]
  have v: "threshold_view (Fin 0) (Fin 0) 9 0 (hp_view (g_shared ?l))"
    by (simp add: threshold_view cold_lp_def cold_shared_def zero_shared_def)
  have run: "lp_cycles no_hp cold_bus 3 ?l = [(True, l1), (w2, l2), (w3, l3)]"
    using r1 r2 r3 c1 s by (simp add: numeral_3_eq_3)
  have w3
    by (rule retry_until_acknowledged [OF no_hp_ok no_hp_keeps v, where n = 3 and i = 0 and j = 2 and bus = cold_bus
        and li = l1 and lj = l3])
      (use c1 c3 in \<open>simp_all add: run\<close>)
  with run show ?thesis by simp
qed

text \<open>
  C14: The skip budget bounds the silence. While the budget stays \<open>M\<close> and the HP side acknowledges
  nothing new (an acknowledgement restarts the budget), a run of consecutive cycles that all read the
  sensor successfully and none of which wakes the HP core is at most as long as what the budget has
  left: \<open>M\<close> less the cycles already skipped, or all of \<open>M\<close> when an earlier acknowledgement is still to
  be consumed. The thresholds may change at any moment.
\<close>

theorem skip_budget_bounds_silence:
  assumes "hp_ok hp" "hp_keeps hp (budget_view M A)"
    and "budget_view M A (hp_view (g_shared l))"
    and "quiet_run (lp_cycles hp bus n l)"
  shows "n \<le> unat M - (if g_lastConsumedAckSeq l = A then unat (skipped_cycles (g_shared l)) else 0)"
proof -
  have "hp_side_keeps hp (budget_view M A)"
    using assms(1,2) by (simp add: hp_side_keeps_def hp_side_def hp_side_keeps_axioms_def)
  from hp_side_keeps.quiet_run_bound [OF this refl assms(4,3)] assms(3) show ?thesis
    by (auto simp: budget_spent_def budget_view)
qed

theorem skip_budget_bounds_silence_witness:
  "quiet_run (lp_cycles no_hp cold_bus 2 (cold_lp (cold_shared (Fin 100) 2))) \<and> 2 \<le> unat (2 :: u32) - unat (0 :: u32)"
proof -
  let ?l = "cold_lp (cold_shared (Fin 100) 2)"
  obtain w1 l1 where r1: "lp_main no_hp cold_bus ?l = (w1, l1)" by fastforce
  note c1 = cold_cycle [OF cold_start r1]
  obtain w2 l2 where r2: "lp_main no_hp cold_bus l1 = (w2, l2)" by fastforce
  note c2 = cold_cycle [OF conjunct1 [OF c1] r2]
  have s1: "skip_this_cycle (Fin (- 45)) (Fin 0) (g_shared ?l)"
    by (simp add: skip_this_cycle_def same_as_delivered_def cold_lp_def cold_shared_def zero_shared_def
        cold_arith absf_def)
  then have "skip_this_cycle (Fin (- 45)) (Fin 0) (g_shared l1)"
    using c1 by (simp add: skip_this_cycle_def same_as_delivered_def cold_lp_def cold_shared_def
        zero_shared_def hp_view_def)
  with c1 c2 s1 r1 r2 have q: "quiet_run (lp_cycles no_hp cold_bus 2 ?l)"
    by (simp add: numeral_2_eq_2 quiet_run_def)
  have "2 \<le> unat (2 :: u32) - unat (skipped_cycles (g_shared ?l))"
    using skip_budget_bounds_silence [OF no_hp_ok no_hp_keeps _ q, of 2 0]
    by (simp add: budget_view cold_lp_def cold_shared_def zero_shared_def)
  with q show ?thesis by (simp add: cold_lp_def cold_shared_def zero_shared_def)
qed

text \<open>
  C28: One run of the LP program leaves \<open>result_seq\<close> even if it was even, counts the heartbeat up by one,
  leaves the heater flag cleared, and the flag \<open>should_wake_hp\<close> says whether it woke the HP core,
  whatever the sensor answers and whatever the HP side writes meanwhile.
\<close>

theorem lp_main_leaves_stable_snapshot:
  assumes "hp_ok hp" "lp_main hp bus l = (w, l')"
    and "even (result_seq (g_shared l))" "heater_active (g_shared l) = 0"
  shows "even (result_seq (g_shared l')) \<and> result_seq (g_shared l') \<noteq> result_seq (g_shared l) \<and>
    heartbeat_counter (g_shared l') = heartbeat_counter (g_shared l) + 1 \<and>
    heater_active (g_shared l') = 0 \<and> (should_wake_hp (g_shared l') \<noteq> 0) = w"
proof -
  have "hp_side_keeps hp (\<lambda>_. True)"
    using assms(1) by (simp add: hp_side_keeps_def hp_side_def hp_side_keeps_axioms_def hp_keeps_def)
  from hp_side_keeps.lp_main_counters [OF this assms(2)] assms(3,4) show ?thesis by auto
qed

theorem lp_main_leaves_stable_snapshot_witness:
  "even (result_seq (g_shared (snd (lp_main no_hp cold_bus (cold_lp (cold_shared (Fin 0) 9))))))"
proof -
  let ?l = "cold_lp (cold_shared (Fin 0) 9)"
  obtain w l' where r: "lp_main no_hp cold_bus ?l = (w, l')" by fastforce
  have "even (result_seq (g_shared ?l))" "heater_active (g_shared ?l) = 0"
    by (simp_all add: cold_lp_def cold_shared_def zero_shared_def)
  from lp_main_leaves_stable_snapshot [OF no_hp_ok r this] r show ?thesis by simp
qed

text \<open>
  A failed cycle (no read succeeded) keeps the last values, counts the failure, and wakes the HP
  core exactly when the previous cycle had succeeded: a fault is reported once, not every cycle.
\<close>

theorem failed_cycle_reported_once:
  assumes "hp_ok hp" "lp_main hp bus l = (w, l')" "sensor_ok (g_shared l') = 0"
  shows "w = (sensor_ok (g_shared l) \<noteq> 0) \<and>
    consec_fail_count (g_shared l') = consec_fail_count (g_shared l) + 1 \<and>
    raw_temp_c (g_shared l') = raw_temp_c (g_shared l) \<and> raw_hum_pct (g_shared l') = raw_hum_pct (g_shared l) \<and>
    cal_temp_c (g_shared l') = cal_temp_c (g_shared l) \<and> cal_hum_pct (g_shared l') = cal_hum_pct (g_shared l)"
proof -
  have "hp_side_keeps hp (\<lambda>_. True)"
    using assms(1) by (simp add: hp_side_keeps_def hp_side_def hp_side_keeps_axioms_def hp_keeps_def)
  from hp_side_keeps.lp_main_fail [OF this assms(2,3)] show ?thesis .
qed

definition dead_bus :: "unit i2c" where
  "dead_bus = \<lparr>i2c_write = (\<lambda>c b. (False, b)), i2c_read = (\<lambda>b. (None, b)), delay_us = (\<lambda>us b. b)\<rparr>"

lemma measureAveraged_dead: "measureAveraged dead_bus n b = (None, b)"
proof -
  have "sample_loop dead_bus k f (Fin 0) (Fin 0) 0 b = ((Fin 0, Fin 0, 0), b)" for k f
    by (induction k arbitrary: f) (simp_all add: measure_sht_def dead_bus_def)
  then show ?thesis by (simp add: measureAveraged_def Let_def)
qed

theorem failed_cycle_reported_once_witness:
  "\<not> fst (lp_main no_hp dead_bus (cold_lp (cold_shared (Fin 0) 9)))"
proof -
  let ?l = "cold_lp (cold_shared (Fin 0) 9)"
  obtain w l' where r: "lp_main no_hp dead_bus ?l = (w, l')" by fastforce
  have "sensor_ok (g_shared l') = 0"
    using r by (rule no_hp.lp_main_cases)
      (auto simp: measureAveraged_dead no_hp.record_status_fields dest: no_hp.lp_finish_fields(5))
  from failed_cycle_reported_once [OF no_hp_ok r this] r show ?thesis
    by (simp add: cold_lp_def cold_shared_def zero_shared_def)
qed

text \<open>
  C27: Provided the HP side only ever configures calibration offsets that are numbers (an offset that
  is no number reaches the values, and the payload clamp lets one through) and at most 100000
  samples per cycle, every value the program publishes in any run of cycles stays physical: raw
  values within the sensor's range, the calibrated temperature within -273.15..3000 degrees and the
  calibrated humidity within 0..100 percent, from any memory where they already are (the zeroed one is
  such), whatever the sensor answers and whenever the HP side writes what.
\<close>

theorem published_values_stay_in_range:
  assumes "hp_ok hp" "hp_keeps hp cfg_view_ok"
    and "values_ok (g_shared l)" "cfg_ok (g_shared l)"
    and "(w, l') \<in> set (lp_cycles hp bus n l)"
  shows "values_ok (g_shared l') \<and> cfg_ok (g_shared l')"
proof -
  have loc: "hp_side_cfg hp"
    using assms(1,2) by (simp add: hp_side_cfg_def hp_side_keeps_def hp_side_def hp_side_keeps_axioms_def)
  show ?thesis
    by (rule lp_cycles_invariant [OF _ _ assms(5), of "\<lambda>l. values_ok (g_shared l) \<and> cfg_ok (g_shared l)"])
      (use hp_side_cfg.lp_main_values [OF loc] assms(3,4) in blast)+
qed

theorem published_values_stay_in_range_witness:
  "let l = cold_lp (cold_shared (Fin 0) 9); l2 = snd (lp_cycles no_hp cold_bus 2 l ! 1)
   in values_ok (g_shared l) \<and> values_ok (g_shared l2)"
proof -
  let ?l = "cold_lp (cold_shared (Fin 0) 9)"
  have v: "values_ok (g_shared ?l)" "cfg_ok (g_shared ?l)"
    by (simp_all add: values_ok_def cfg_ok_def reading_ok_def cold_lp_def cold_shared_def zero_shared_def)
  have "lp_cycles no_hp cold_bus 2 ?l ! 1 \<in> set (lp_cycles no_hp cold_bus 2 ?l)"
    by (rule nth_mem) simp
  then show ?thesis
    using v published_values_stay_in_range [OF no_hp_ok no_hp_keeps v] by (metis surjective_pairing)
qed

text \<open>
  With both heater schedules zero the heater is never driven: a cycle runs exactly as on any other
  bus that treats the plain measurement command alike, so no other command is ever sent.
\<close>

theorem heater_off_sends_plain_commands_only:
  assumes "hp_ok hp" "hp_keeps hp heater_off_view" "heater_off_view (hp_view (g_shared l))"
    and "same_plain bus bus'"
  shows "lp_main hp bus l = lp_main hp bus' l"
proof -
  have "hp_side_keeps hp heater_off_view"
    using assms(1,2) by (simp add: hp_side_keeps_def hp_side_def hp_side_keeps_axioms_def)
  from hp_side_keeps.lp_main_heater_off [OF this refl assms(3,4)] show ?thesis .
qed

text \<open>The cold bus, but with every command other than the plain measurement refused.\<close>

definition plain_only_bus :: "unit i2c" where
  "plain_only_bus = cold_bus\<lparr>i2c_write := (\<lambda>c b. (c = kCmdMeasureHigh, b))\<rparr>"

theorem heater_off_sends_plain_commands_only_witness:
  "lp_main no_hp cold_bus (cold_lp (cold_shared (Fin 0) 9)) =
   lp_main no_hp plain_only_bus (cold_lp (cold_shared (Fin 0) 9))"
  by (rule heater_off_sends_plain_commands_only [OF no_hp_ok no_hp_keeps])
    (simp_all add: heater_off_view same_plain_def plain_only_bus_def cold_bus_def quiet_bus_def
      cold_lp_def cold_shared_def zero_shared_def)

text \<open>
  An acknowledgement is applied exactly once: with the HP side at rest during a cycle, the cycle
  that finds a new acknowledgement makes the acknowledged values the delivered baseline (restarting
  the skip budget, which a quiet cycle then draws on), and leaves no acknowledgement pending, so the
  next run of the first phase changes nothing.
\<close>

theorem acknowledgement_applied_once:
  assumes "lp_main no_hp bus l = (w, l')" "hp_ack_seq (g_shared l) \<noteq> g_lastConsumedAckSeq l"
    and "sensor_ok (g_shared l') \<noteq> 0"
  shows "prev_delivered_temp_c (g_shared l') = hp_acked_temp_c (g_shared l) \<and>
    prev_delivered_hum_pct (g_shared l') = hp_acked_hum_pct (g_shared l) \<and>
    skipped_cycles (g_shared l') = (if w then 0 else 1) \<and>
    consume_ack no_hp l' = l'"
proof -
  let ?c = "consume_ack no_hp l"
  have c: "prev_delivered_temp_c (g_shared ?c) = hp_acked_temp_c (g_shared l)"
    "prev_delivered_hum_pct (g_shared ?c) = hp_acked_hum_pct (g_shared l)"
    "skipped_cycles (g_shared ?c) = 0" "g_lastConsumedAckSeq ?c = hp_ack_seq (g_shared l)"
    using assms(2) by (simp_all add: consume_ack_def g_shared_store no_hp_def Let_def)
  obtain s where "prev_delivered_temp_c (g_shared l') = prev_delivered_temp_c (g_shared ?c)"
      "prev_delivered_hum_pct (g_shared l') = prev_delivered_hum_pct (g_shared ?c)"
      "skipped_cycles (g_shared l') = skipped_cycles (g_shared ?c) + (if w then 0 else 1)"
      "g_lastConsumedAckSeq l' = g_lastConsumedAckSeq ?c"
    by (rule no_hp.lp_main_ok [OF assms(1,3), of "\<lambda>_. True"]) auto
  moreover have "hp_ack_seq (g_shared l') = hp_ack_seq (g_shared l)"
    by (rule no_hp.lp_main_ok [OF assms(1,3), of "\<lambda>v. fst (snd v) = hp_ack_seq (g_shared l)"])
      (simp add: hp_view_def)
  ultimately show ?thesis using c by (simp add: consume_ack_def)
qed

definition acked_shared :: lp_shared_state where
  "acked_shared = (cold_shared (Fin 0) 9)\<lparr>hp_ack_seq := 1, hp_acked_temp_c := Fin 20, hp_acked_hum_pct := Fin 50\<rparr>"

theorem acknowledgement_applied_once_witness:
  "prev_delivered_temp_c (g_shared (snd (lp_main no_hp cold_bus (cold_lp acked_shared)))) = Fin 20"
proof -
  let ?l = "cold_lp acked_shared"
  obtain w l' where r: "lp_main no_hp cold_bus ?l = (w, l')" by fastforce
  have n: "hp_ack_seq (g_shared ?l) \<noteq> g_lastConsumedAckSeq ?l"
    by (simp add: cold_lp_def acked_shared_def)
  have ss: "sensor_samples (g_shared (bump_seq no_hp (consume_ack no_hp ?l))) = 2"
    by (simp add: bump_seq_def consume_ack_def g_shared_store no_hp_def Let_def cold_lp_def acked_shared_def
        cold_shared_def)
  have "sensor_ok (g_shared l') \<noteq> 0"
    using r
  proof (cases rule: no_hp.lp_main_cases)
    case (fail l1 b)
    with ss show ?thesis by (simp add: measureAveraged_cold)
  next
    case (ok l1 b t h v l3)
    have "sensor_ok (g_shared l3) = 1"
      by (rule no_hp.lp_process_mid [OF ok(3), of "\<lambda>_. True"])
        (auto simp: mid_view_def no_hp.record_status_fields)
    then show ?thesis using no_hp.lp_finish_fields(5) [OF ok(4)] by simp
  qed
  from acknowledgement_applied_once [OF r n this] r show ?thesis
    by (simp add: cold_lp_def acked_shared_def)
qed

definition late_ack :: "nat \<Rightarrow> flt \<Rightarrow> flt \<Rightarrow> hp_acts" where
  "late_ack k0 t h k s = (if k = k0 then
     s\<lparr>hp_acked_temp_c := t, hp_acked_hum_pct := h, hp_ack_seq := hp_ack_seq s + 1\<rparr> else s)"

text \<open>
  The first phase reads \<open>hp_ack_seq\<close> twice, at its start and when it records it as consumed. An
  acknowledgement the HP side completes between the two is recorded as consumed although its values
  were never copied: the next run of the phase does not apply it.
\<close>

theorem late_acknowledgement_is_lost:
  assumes "hp_ack_seq (g_shared l) \<noteq> g_lastConsumedAckSeq l"
    and "l1 = consume_ack (late_ack (length (lp_hist l) + 2) t h) l"
  shows "hp_ok (late_ack (length (lp_hist l) + 2) t h) \<and>
    hp_acked_temp_c (g_shared l1) = t \<and>
    prev_delivered_temp_c (g_shared l1) = hp_acked_temp_c (g_shared l) \<and>
    consume_ack no_hp l1 = l1"
  using assms
  by (auto simp: consume_ack_def store_def late_ack_def Let_def hp_ok_def hp_frame_def lp_view_def seq_view_def)

theorem late_acknowledgement_is_lost_witness:
  "prev_delivered_temp_c (g_shared (consume_ack (late_ack 3 (Fin 25) (Fin 40)) (cold_lp acked_shared))) = Fin 20"
  using late_acknowledgement_is_lost [of "cold_lp acked_shared" _ "Fin 25" "Fin 40", OF _ refl]
  by (simp add: cold_lp_def acked_shared_def numeral_3_eq_3)

end
