(* ===== verification/SeqLock.thy ===== *)
theory SeqLock
  imports LpCore
begin

text \<open>
  The HP side of the shared memory, \<open>components/lp_sensor_core/lp_sensor_core.c\<close>: applying a
  configuration, acknowledging a delivery, taking a snapshot under the sequence lock, and waiting for
  the LP program's wake. Each store and each load of a field is one step, so that the two sides can
  interleave; the writes of the HP side are shown to be the second writer \<open>LpCore\<close> assumes, and the
  LP program to be the writer the snapshot relies on.
\<close>

section \<open>The HP side's writes\<close>

definition apply_config_writes ::
  "lp_sensor_core_config \<Rightarrow> (lp_shared_state \<Rightarrow> lp_shared_state) list" where
  "apply_config_writes config =
    [\<lambda>s. s\<lparr>sensor_samples := sensor_samples config\<rparr>,
     \<lambda>s. s\<lparr>temp_offset_c := temp_offset_c config\<rparr>,
     \<lambda>s. s\<lparr>temp_min_change_c := temp_min_change_c config\<rparr>,
     \<lambda>s. s\<lparr>rh_offset_pct := rh_offset_pct config\<rparr>,
     \<lambda>s. s\<lparr>rh_min_change_pct := rh_min_change_pct config\<rparr>,
     \<lambda>s. s\<lparr>max_skip_cycles := max_skip_cycles config\<rparr>,
     \<lambda>s. s\<lparr>heater_period_cycles := heater_period_cycles config\<rparr>,
     \<lambda>s. s\<lparr>high_rh_trigger_cycles := high_rh_trigger_cycles config\<rparr>]"

definition ack_writes :: "flt \<Rightarrow> flt \<Rightarrow> (lp_shared_state \<Rightarrow> lp_shared_state) list" where
  "ack_writes temp_c hum_pct =
    [\<lambda>s. s\<lparr>hp_acked_temp_c := temp_c\<rparr>,
     \<lambda>s. s\<lparr>hp_acked_hum_pct := hum_pct\<rparr>,
     \<lambda>s. s\<lparr>hp_ack_seq := hp_ack_seq s + 1\<rparr>]"

definition run_writes :: "(lp_shared_state \<Rightarrow> lp_shared_state) list \<Rightarrow> lp_shared_state \<Rightarrow> lp_shared_state" where
  "run_writes ws s = fold (\<lambda>w s. w s) ws s"

definition lp_sensor_core_apply_config :: "lp_sensor_core_config \<Rightarrow> lp_shared_state \<Rightarrow> lp_shared_state" where
  "lp_sensor_core_apply_config config = run_writes (apply_config_writes config)"

definition lp_sensor_core_ack_delivered :: "flt \<Rightarrow> flt \<Rightarrow> lp_shared_state \<Rightarrow> lp_shared_state" where
  "lp_sensor_core_ack_delivered temp_c hum_pct = run_writes (ack_writes temp_c hum_pct)"

text \<open>
  The HP side as the LP program meets it: a list of operations in progress, each with the writes it
  has left, and a schedule of how many writes land at which moment.
\<close>

datatype hp_op = ApplyConfig lp_sensor_core_config | AckDelivered flt flt

fun op_writes :: "hp_op \<Rightarrow> (lp_shared_state \<Rightarrow> lp_shared_state) list" where
  "op_writes (ApplyConfig config) = apply_config_writes config"
| "op_writes (AckDelivered temp_c hum_pct) = ack_writes temp_c hum_pct"

definition hp_run :: "hp_op list \<Rightarrow> (nat \<Rightarrow> nat \<times> nat) \<Rightarrow> hp_acts" where
  "hp_run ops sched k s =
    (let (from, upto) = sched k; ws = concat (map op_writes ops)
     in run_writes (take (upto - from) (drop from ws)) s)"

lemma op_writes_frame: "w \<in> set (op_writes o') \<Longrightarrow> hp_frame s (w s)"
  by (cases o') (auto simp: apply_config_writes_def ack_writes_def hp_frame_def lp_view_def seq_view_def)

lemma run_writes_frame: "(\<And>w s. w \<in> set ws \<Longrightarrow> hp_frame s (w s)) \<Longrightarrow> hp_frame s (run_writes ws s)"
proof (induction ws arbitrary: s)
  case (Cons w ws)
  have "hp_frame s (w s)" "hp_frame (w s) (run_writes ws (w s))" using Cons by auto
  then show ?case by (simp add: hp_frame_def run_writes_def)
qed (simp add: run_writes_def)

lemma hp_run_ok: "hp_ok (hp_run ops sched)"
  unfolding hp_ok_def hp_run_def
  by (auto simp: Let_def intro!: run_writes_frame dest!: in_set_takeD in_set_dropD
      intro: op_writes_frame split: prod.split)

text \<open>So the LP program's lemmas hold against the HP side's own operations, however they are timed.\<close>

interpretation hp_run: hp_side "hp_run ops sched" for ops sched
  by unfold_locales (rule hp_run_ok)

section \<open>Bringing the LP core up\<close>

text \<open>
  What the platform calls of \<open>lp_sensor_core_init\<close> return, in their order: the I2C driver, the binary
  loader (which zeroes the shared memory), arming the wakeup source, creating the event group, and
  registering the light-sleep callback.
\<close>

record lp_platform =
  p_i2c_init :: esp_err
  p_load_binary :: esp_err
  p_enable_ulp_wakeup :: esp_err
  p_event_group :: bool
  p_register_cbs :: esp_err

record hp_glue =
  hg_shared :: lp_shared_state
  s_wake_eg :: bool

definition lp_sensor_core_init :: "lp_platform \<Rightarrow> lp_sensor_core_config \<Rightarrow> hp_glue \<Rightarrow> esp_err \<times> hp_glue" where
  "lp_sensor_core_init p config g =
    (if p_i2c_init p \<noteq> ESP_OK then (p_i2c_init p, g)
     else if p_load_binary p \<noteq> ESP_OK then (p_load_binary p, g)
     else
       (let g = g\<lparr>hg_shared := run_writes (apply_config_writes config) zero_shared\<rparr> in
        if p_enable_ulp_wakeup p \<noteq> ESP_OK then (p_enable_ulp_wakeup p, g)
        else if \<not> p_event_group p then (ESP_ERR_NO_MEM, g)
        else
          (let g = g\<lparr>s_wake_eg := True\<rparr> in
           if p_register_cbs p \<noteq> ESP_OK then (p_register_cbs p, g) else (ESP_OK, g))))"

text \<open>Starting the LP program: \<open>ulp_lp_core_run\<close> gets the timer as wakeup source and its period.\<close>

datatype ulp_wakeup_source = ULP_LP_CORE_WAKEUP_SOURCE_LP_TIMER | ULP_LP_CORE_WAKEUP_SOURCE_OTHER

definition lp_sensor_core_start :: "(ulp_wakeup_source \<Rightarrow> u32 \<Rightarrow> esp_err) \<Rightarrow> u32 \<Rightarrow> esp_err" where
  "lp_sensor_core_start ulp_run poll_interval_us = ulp_run ULP_LP_CORE_WAKEUP_SOURCE_LP_TIMER poll_interval_us"

text \<open>
  The wait: \<open>ticks\<close> is the platform's \<open>pdMS_TO_TICKS\<close> and \<open>woken t\<close> says whether the callback sets the
  early-wake bit within \<open>t\<close> ticks.
\<close>

definition lp_sensor_core_wait_for_wake :: "hp_glue \<Rightarrow> (u32 \<Rightarrow> u32) \<Rightarrow> (u32 \<Rightarrow> bool) \<Rightarrow> u32 \<Rightarrow> bool" where
  "lp_sensor_core_wait_for_wake g ticks woken timeout_ms = (s_wake_eg g \<and> woken (ticks timeout_ms))"

text \<open>The callback after a light sleep: the new value of the early-wake bit.\<close>

definition on_light_sleep_exit :: "bool \<Rightarrow> bool \<Rightarrow> bool" where
  "on_light_sleep_exit woken_by_ulp early = (early \<or> woken_by_ulp)"

section \<open>The snapshot\<close>

text \<open>
  \<open>mem t\<close> is the shared memory at time \<open>t\<close>, \<open>clk k\<close> the time of the reader's \<open>k\<close>-th access. Copying the
  struct reads its thirty fields one after the other.
\<close>

definition copy_struct :: "(nat \<Rightarrow> lp_shared_state) \<Rightarrow> (nat \<Rightarrow> nat) \<Rightarrow> nat \<Rightarrow> lp_shared_state" where
  "copy_struct mem clk k =
    \<lparr>sensor_samples = sensor_samples (mem (clk k)),
     temp_offset_c = temp_offset_c (mem (clk (k + 1))),
     temp_min_change_c = temp_min_change_c (mem (clk (k + 2))),
     rh_offset_pct = rh_offset_pct (mem (clk (k + 3))),
     rh_min_change_pct = rh_min_change_pct (mem (clk (k + 4))),
     max_skip_cycles = max_skip_cycles (mem (clk (k + 5))),
     heater_period_cycles = heater_period_cycles (mem (clk (k + 6))),
     high_rh_trigger_cycles = high_rh_trigger_cycles (mem (clk (k + 7))),
     heartbeat_counter = heartbeat_counter (mem (clk (k + 8))),
     result_seq = result_seq (mem (clk (k + 9))),
     sensor_ok = sensor_ok (mem (clk (k + 10))),
     consec_fail_count = consec_fail_count (mem (clk (k + 11))),
     raw_temp_c = raw_temp_c (mem (clk (k + 12))),
     raw_hum_pct = raw_hum_pct (mem (clk (k + 13))),
     cal_temp_c = cal_temp_c (mem (clk (k + 14))),
     cal_hum_pct = cal_hum_pct (mem (clk (k + 15))),
     should_wake_hp = should_wake_hp (mem (clk (k + 16))),
     prev_delivered_temp_c = prev_delivered_temp_c (mem (clk (k + 17))),
     prev_delivered_hum_pct = prev_delivered_hum_pct (mem (clk (k + 18))),
     skipped_cycles = skipped_cycles (mem (clk (k + 19))),
     hp_ack_seq = hp_ack_seq (mem (clk (k + 20))),
     hp_acked_temp_c = hp_acked_temp_c (mem (clk (k + 21))),
     hp_acked_hum_pct = hp_acked_hum_pct (mem (clk (k + 22))),
     cycles_since_heater = cycles_since_heater (mem (clk (k + 23))),
     high_rh_cycles = high_rh_cycles (mem (clk (k + 24))),
     heater_active = heater_active (mem (clk (k + 25))),
     last_heater_run_cycle = last_heater_run_cycle (mem (clk (k + 26))),
     last_heater_delta_t = last_heater_delta_t (mem (clk (k + 27))),
     last_heater_passed = last_heater_passed (mem (clk (k + 28))),
     heater_run_count = heater_run_count (mem (clk (k + 29)))\<rparr>"

text \<open>
  The attempts left, the number of the next access, and the caller's buffer; the first component of
  the result says whether the read was clean (the code does not report it).
\<close>

fun get_state_loop ::
  "(nat \<Rightarrow> lp_shared_state) \<Rightarrow> (nat \<Rightarrow> nat) \<Rightarrow> nat \<Rightarrow> nat \<Rightarrow> lp_shared_state \<Rightarrow> bool \<times> lp_shared_state" where
  "get_state_loop mem clk 0 k out = (False, out)"
| "get_state_loop mem clk (Suc n) k out =
    (let seq_before = result_seq (mem (clk k)) in
     if odd seq_before then get_state_loop mem clk n (k + 1) out
     else
       (let out = copy_struct mem clk (k + 1);
            seq_after = result_seq (mem (clk (k + 31)))
        in if seq_before = seq_after then (True, out) else get_state_loop mem clk n (k + 32) out))"

definition lp_sensor_core_get_state ::
  "(nat \<Rightarrow> lp_shared_state) \<Rightarrow> (nat \<Rightarrow> nat) \<Rightarrow> lp_shared_state \<Rightarrow> bool \<times> lp_shared_state" where
  "lp_sensor_core_get_state mem clk out = get_state_loop mem clk 10 0 out"

section \<open>The writer's protocol\<close>

text \<open>
  One step of the memory under the protocol: the counter advances by one and nothing else changes, or
  the counter stays and the protected fields change only while it is odd.
\<close>

definition seq_step :: "lp_shared_state \<Rightarrow> lp_shared_state \<Rightarrow> bool" where
  "seq_step s t \<longleftrightarrow>
     result_seq t = result_seq s + 1 \<and> seq_view t = seq_view s \<or>
     result_seq t = result_seq s \<and> (odd (result_seq s) \<or> seq_view t = seq_view s)"

text \<open>
  The interface between the two sides: a memory whose every step obeys the protocol. The reader's
  guarantee is proved once, inside it.
\<close>

locale seq_memory =
  fixes mem :: "nat \<Rightarrow> lp_shared_state"
  assumes step: "seq_step (mem t) (mem (Suc t))"
begin

lemma seq_counts:
  "\<exists>c \<le> n. result_seq (mem (a + n)) = result_seq (mem a) + of_nat c \<and>
     (c = 0 \<longrightarrow> (\<forall>i \<le> n. result_seq (mem (a + i)) = result_seq (mem a)) \<and>
       (even (result_seq (mem a)) \<longrightarrow> (\<forall>i \<le> n. seq_view (mem (a + i)) = seq_view (mem a))))"
proof (induction n)
  case (Suc n)
  then obtain c where c: "c \<le> n" "result_seq (mem (a + n)) = result_seq (mem a) + of_nat c"
    and z: "c = 0 \<longrightarrow> (\<forall>i \<le> n. result_seq (mem (a + i)) = result_seq (mem a)) \<and>
       (even (result_seq (mem a)) \<longrightarrow> (\<forall>i \<le> n. seq_view (mem (a + i)) = seq_view (mem a)))" by blast
  from step [of "a + n"] consider
      (bump) "result_seq (mem (a + Suc n)) = result_seq (mem (a + n)) + 1"
    | (stay) "result_seq (mem (a + Suc n)) = result_seq (mem (a + n))"
        "odd (result_seq (mem (a + n))) \<or> seq_view (mem (a + Suc n)) = seq_view (mem (a + n))"
    by (auto simp: seq_step_def)
  then show ?case
  proof cases
    case bump
    with c show ?thesis by (intro exI [of _ "Suc c"]) simp
  next
    case stay
    with c z show ?thesis by (intro exI [of _ c]) (auto simp: le_Suc_eq)
  qed
qed simp

lemma equal_counter_means_still:
  assumes "a \<le> b" "b - a < 2 ^ 32" "even (result_seq (mem a))" "result_seq (mem b) = result_seq (mem a)"
    and "a \<le> t" "t \<le> b"
  shows "seq_view (mem t) = seq_view (mem a) \<and> result_seq (mem t) = result_seq (mem a)"
proof -
  obtain c where c: "c \<le> b - a" "result_seq (mem b) = result_seq (mem a) + of_nat c"
    and z: "c = 0 \<longrightarrow> (\<forall>i \<le> b - a. result_seq (mem (a + i)) = result_seq (mem a)) \<and>
       (even (result_seq (mem a)) \<longrightarrow> (\<forall>i \<le> b - a. seq_view (mem (a + i)) = seq_view (mem a)))"
    using seq_counts [of "b - a" a] assms(1) by auto
  have "(of_nat c :: u32) = 0" using c(2) assms(4) by simp
  then have "c mod 2 ^ 32 = 0" by (simp add: of_nat_eq_0_iff dvd_eq_mod_eq_0 word_of_nat_eq_0_iff)
  then have "c = 0" using c(1) assms(2) by simp
  moreover have "t = a + (t - a)" "t - a \<le> b - a" using assms(5,6) by auto
  ultimately show ?thesis using z assms(3) by metis
qed

lemma copy_struct_view:
  assumes clk: "\<And>i j. i \<le> j \<Longrightarrow> clk i \<le> clk j" and short: "clk (k + 31) - clk k < 2 ^ 32"
    and even: "even (result_seq (mem (clk k)))"
    and eq: "result_seq (mem (clk (k + 31))) = result_seq (mem (clk k))"
  shows "seq_view (copy_struct mem clk (k + 1)) = seq_view (mem (clk k)) \<and>
    result_seq (copy_struct mem clk (k + 1)) = result_seq (mem (clk k))"
proof -
  have "seq_view (mem (clk (k + 1 + i))) = seq_view (mem (clk k)) \<and>
      result_seq (mem (clk (k + 1 + i))) = result_seq (mem (clk k))" if "i \<le> 30" for i
    using that by (intro equal_counter_means_still [OF clk short even eq] clk) auto
  note v = this [unfolded seq_view_def]
  show ?thesis
    using v [of 8] v [of 9] v [of 10] v [of 11] v [of 12] v [of 13] v [of 14] v [of 15] v [of 16]
      v [of 23] v [of 24] v [of 25] v [of 26] v [of 27] v [of 28] v [of 29]
    by (simp add: copy_struct_def seq_view_def)
qed

lemma get_state_loop_view:
  assumes clk: "\<And>i j. i \<le> j \<Longrightarrow> clk i \<le> clk j" and short: "\<And>k. clk (k + 31) - clk k < 2 ^ 32"
  shows "get_state_loop mem clk n k out = (True, r) \<Longrightarrow>
    \<exists>t. seq_view r = seq_view (mem t) \<and> result_seq r = result_seq (mem t) \<and>
      even (result_seq (mem t)) \<and> (\<exists>j \<ge> k. t = clk j)"
proof (induction n arbitrary: k out)
  case (Suc n)
  show ?case
  proof (cases "odd (result_seq (mem (clk k)))")
    case True
    with Suc show ?thesis by (auto simp: Let_def) (metis Suc_leD)
  next
    case ev: False
    show ?thesis
    proof (cases "result_seq (mem (clk (k + 31))) = result_seq (mem (clk k))")
      case True
      with Suc.prems ev have "r = copy_struct mem clk (k + 1)" by (simp add: Let_def)
      with copy_struct_view [OF clk short _ True] ev show ?thesis by auto
    next
      case False
      with Suc.prems ev have "get_state_loop mem clk n (k + 32) (copy_struct mem clk (k + 1)) = (True, r)"
        by (auto simp: Let_def)
      from Suc.IH [OF this] obtain t j where "seq_view r = seq_view (mem t)" "result_seq r = result_seq (mem t)"
        "even (result_seq (mem t))" "k + 32 \<le> j" "t = clk j" by blast
      then show ?thesis by (intro exI [of _ t] conjI exI [of _ j]) auto
    qed
  qed
qed simp

end

section \<open>The LP program obeys the protocol\<close>

text \<open>A history, newest first, in which every step obeys the protocol.\<close>

fun trace_ok :: "lp_shared_state list \<Rightarrow> bool" where
  "trace_ok [] \<longleftrightarrow> False"
| "trace_ok [s] \<longleftrightarrow> True"
| "trace_ok (t # s # h) \<longleftrightarrow> seq_step s t \<and> trace_ok (s # h)"

definition odd_trace :: "'b lp \<Rightarrow> bool" where
  "odd_trace l \<longleftrightarrow> trace_ok (lp_hist l) \<and> odd (result_seq (g_shared l))"

definition even_trace :: "'b lp \<Rightarrow> bool" where
  "even_trace l \<longleftrightarrow> trace_ok (lp_hist l) \<and> even (result_seq (g_shared l))"

lemma trace_rest [simp]:
  "odd_trace (l\<lparr>lp_env := b\<rparr>) = odd_trace l" "odd_trace (l\<lparr>g_lastConsumedAckSeq := a\<rparr>) = odd_trace l"
  "even_trace (l\<lparr>lp_env := b\<rparr>) = even_trace l" "even_trace (l\<lparr>g_lastConsumedAckSeq := a\<rparr>) = even_trace l"
  by (simp_all add: odd_trace_def even_trace_def)

context hp_side
begin

lemma seq_step_hp: "seq_step s (hp k s)"
  using hp_ok by (auto simp: seq_step_def hp_ok_def hp_frame_def lp_view_def)

lemma trace_ok_store:
  assumes "trace_ok (lp_hist l)" "seq_step (g_shared l) (f (g_shared l))"
  shows "trace_ok (lp_hist (store hp f l))"
  using assms by (cases "lp_hist l") (simp_all add: store_def Let_def seq_step_hp)

lemma odd_store:
  "odd_trace l \<Longrightarrow> result_seq (f (g_shared l)) = result_seq (g_shared l) \<Longrightarrow> odd_trace (store hp f l)"
  by (simp add: odd_trace_def trace_ok_store seq_step_def g_shared_store)

lemma even_store:
  "even_trace l \<Longrightarrow> result_seq (f (g_shared l)) = result_seq (g_shared l) \<Longrightarrow>
   seq_view (f (g_shared l)) = seq_view (g_shared l) \<Longrightarrow> even_trace (store hp f l)"
  by (simp add: even_trace_def trace_ok_store seq_step_def g_shared_store)

lemma bump_trace:
  "odd_trace l \<Longrightarrow> even_trace (bump_seq hp l)" "even_trace l \<Longrightarrow> odd_trace (bump_seq hp l)"
  by (simp_all add: odd_trace_def even_trace_def bump_seq_def trace_ok_store seq_step_def g_shared_store
      seq_view_def)

lemma consume_ack_trace: "even_trace l \<Longrightarrow> even_trace (consume_ack hp l)"
  by (auto simp: consume_ack_def Let_def seq_view_def intro!: even_store)

lemma record_status_trace: "odd_trace l \<Longrightarrow> odd_trace (record_status hp ok l)"
  by (auto simp: record_status_def Let_def intro!: odd_store)

lemma heater_schedule_trace: "heater_schedule hp t h l = (p, q, l') \<Longrightarrow> odd_trace l \<Longrightarrow> odd_trace l'"
  by (auto simp: heater_schedule_def Let_def intro!: odd_store)

lemma heater_phase_trace:
  "heater_phase hp bus creep t h l = (t', h', l') \<Longrightarrow> odd_trace l \<Longrightarrow> odd_trace l'"
  by (cases "runHeaterMaintenance bus (if creep then kCmdHeaterHighLong else kCmdHeaterMediumShort)
        (if creep then kHeaterHighLongDelayUs else kHeaterMediumShortDelayUs)
        (if creep then kCreepDeltaT else kSelftestDeltaT) (lp_env l)")
    (auto simp: heater_phase_def heater_record_def Let_def bump_seq_def [symmetric]
      intro!: odd_store bump_trace split: option.splits prod.splits)

lemma calibrate_trace: "calibrate hp t h l = (ct, ch, l') \<Longrightarrow> odd_trace l \<Longrightarrow> odd_trace l'"
  by (auto simp: calibrate_def Let_def intro!: odd_store)

lemma skip_decision_trace: "skip_decision hp t h l = (v, l') \<Longrightarrow> odd_trace l \<Longrightarrow> odd_trace l'"
  by (auto simp: skip_decision_def intro!: odd_store split: if_splits)

lemma lp_finish_trace: "lp_finish hp v l = (w, l') \<Longrightarrow> odd_trace l \<Longrightarrow> even_trace l'"
  by (auto simp: lp_finish_def Let_def intro!: odd_store bump_trace)

lemma lp_process_trace:
  assumes "lp_process hp bus t h l = (v, l')" "odd_trace l"
  shows "odd_trace l'"
proof -
  obtain p q l1 where 1: "heater_schedule hp t h l = (p, q, l1)" by (metis surj_pair)
  obtain t' h' l2 where 2: "(if p \<or> q then heater_phase hp bus q t h l1 else (t, h, l1)) = (t', h', l2)"
    by (metis surj_pair)
  obtain ct ch l3 where 3: "calibrate hp t' h' l2 = (ct, ch, l3)" by (metis surj_pair)
  have 4: "skip_decision hp ct ch l3 = (v, l')"
    using assms(1) by (simp add: lp_process_def 1 2 3 split: if_splits)
  have "odd_trace l2"
    using 2 heater_schedule_trace [OF 1 assms(2)] by (auto split: if_splits dest: heater_phase_trace)
  with calibrate_trace [OF 3] skip_decision_trace [OF 4] show ?thesis by blast
qed

lemma lp_main_trace:
  assumes "lp_main hp bus l = (w, l')" "even_trace l"
  shows "even_trace l'"
  using assms(1)
proof (cases rule: lp_main_cases)
  case (fail l1 b)
  have "odd_trace (record_status hp False ((bump_seq hp l1)\<lparr>lp_env := b\<rparr>))"
    using assms(2) fail(1) by (auto intro!: record_status_trace bump_trace consume_ack_trace)
  then show ?thesis using lp_finish_trace [OF fail(3)] by blast
next
  case (ok l1 b t h v l3)
  have "odd_trace (record_status hp True ((bump_seq hp l1)\<lparr>lp_env := b\<rparr>))"
    using assms(2) ok(1) by (auto intro!: record_status_trace bump_trace consume_ack_trace)
  then show ?thesis using lp_process_trace [OF ok(3)] lp_finish_trace [OF ok(4)] by blast
qed

end

text \<open>
  The device from boot: the zeroed memory with the configuration written, then \<open>n\<close> timer periods of the
  LP program against any operations of the HP side.
\<close>

definition lp_boot :: "lp_sensor_core_config \<Rightarrow> 'b \<Rightarrow> 'b lp" where
  "lp_boot config env = \<lparr>lp_hist = [lp_sensor_core_apply_config config zero_shared],
     g_lastConsumedAckSeq = 0, lp_env = env\<rparr>"

fun lp_after :: "hp_acts \<Rightarrow> 'b i2c \<Rightarrow> nat \<Rightarrow> 'b lp \<Rightarrow> 'b lp" where
  "lp_after hp bus 0 l = l"
| "lp_after hp bus (Suc n) l = snd (lp_main hp bus (lp_after hp bus n l))"

text \<open>A history as a function of time; the last value persists.\<close>

definition hist_mem :: "lp_shared_state list \<Rightarrow> nat \<Rightarrow> lp_shared_state" where
  "hist_mem h t = (if t < length h then rev h ! t else hd h)"

lemma hp_run_trace: "even_trace l \<Longrightarrow> even_trace (lp_after (hp_run ops sched) bus n l)"
  by (induction n) (auto intro: hp_run.lp_main_trace [OF surjective_pairing])

lemma lp_boot_trace: "even_trace (lp_boot config env)"
  by (simp add: even_trace_def lp_boot_def lp_sensor_core_apply_config_def apply_config_writes_def
      run_writes_def zero_shared_def)

lemma trace_ok_nth: "trace_ok h \<Longrightarrow> Suc i < length h \<Longrightarrow> seq_step (h ! Suc i) (h ! i)"
proof (induction h arbitrary: i rule: trace_ok.induct)
  case (3 t s h)
  then show ?case by (cases i) auto
qed auto

lemma hist_mem_step:
  assumes "trace_ok h"
  shows "seq_step (hist_mem h t) (hist_mem h (Suc t))"
proof -
  have h: "h \<noteq> []" using assms by auto
  consider "Suc t < length h" | "Suc t = length h" | "length h < Suc t" by linarith
  then show ?thesis
  proof cases
    case 1
    define i where "i = length h - 2 - t"
    have "rev h ! t = h ! Suc i" "rev h ! Suc t = h ! i" "Suc i < length h"
      using 1 by (auto simp: rev_nth i_def Suc_diff_Suc intro: arg_cong2 [where f = nth])
    with 1 trace_ok_nth [OF assms] show ?thesis by (simp add: hist_mem_def)
  next
    case 2
    then have "rev h ! t = hd h" using h by (simp add: rev_nth hd_conv_nth)
    with 2 show ?thesis by (simp add: hist_mem_def seq_step_def)
  next
    case 3
    then show ?thesis by (simp add: hist_mem_def seq_step_def)
  qed
qed

definition boot_memory ::
  "hp_op list \<Rightarrow> (nat \<Rightarrow> nat \<times> nat) \<Rightarrow> 'b i2c \<Rightarrow> nat \<Rightarrow> lp_sensor_core_config \<Rightarrow> 'b \<Rightarrow> nat \<Rightarrow> lp_shared_state" where
  "boot_memory ops sched bus n config env =
     hist_mem (lp_hist (lp_after (hp_run ops sched) bus n (lp_boot config env)))"

interpretation boot_memory: seq_memory "boot_memory ops sched bus n config env"
  for ops sched bus n config env
proof unfold_locales
  have "trace_ok (lp_hist (lp_after (hp_run ops sched) bus n (lp_boot config env)))"
    by (rule hp_run_trace [OF lp_boot_trace, unfolded even_trace_def, THEN conjunct1])
  then show "seq_step (boot_memory ops sched bus n config env t) (boot_memory ops sched bus n config env (Suc t))" for t
    unfolding boot_memory_def by (rule hist_mem_step)
qed

section \<open>Properties\<close>

text \<open>
  C8: A snapshot the sequence lock accepts holds the published values of one instant: from boot, over
  any number of cycles of the LP program, any sensor, and any interleaving with the HP side's own
  configuration writes and acknowledgements, there is a moment within the read at which the counter
  was even and at which \<open>result_seq\<close> and all the fields of \<open>seq_view\<close> had the values returned: the
  heartbeat, \<open>sensor_ok\<close>, \<open>consec_fail_count\<close>, the raw and the calibrated values, \<open>should_wake_hp\<close>
  and the heater's fields. The rest of the struct is not covered by the lock: the configuration and
  acknowledgement fields are the HP side's own, and the delivery baseline and \<open>skipped_cycles\<close> are
  written by the LP program while the counter is even, so a snapshot may mix those. The reader may be
  delayed between any two loads (for less than \<open>2 ^ 32\<close> steps of the memory over one attempt).
\<close>

theorem accepted_snapshot_is_one_instant:
  assumes "\<And>i j. i \<le> j \<Longrightarrow> clk i \<le> clk j" and "\<And>k. clk (k + 31) - clk k < 2 ^ 32"
    and "lp_sensor_core_get_state (boot_memory ops sched bus n config env) clk out = (True, r)"
  shows "\<exists>k. seq_view r = seq_view (boot_memory ops sched bus n config env (clk k)) \<and>
    result_seq r = result_seq (boot_memory ops sched bus n config env (clk k)) \<and> even (result_seq r)"
proof -
  have "get_state_loop (boot_memory ops sched bus n config env) clk 10 0 out = (True, r)"
    using assms(3) by (simp add: lp_sensor_core_get_state_def)
  from boot_memory.get_state_loop_view [where clk = clk, OF _ _ this] assms(1,2) show ?thesis by metis
qed

text \<open>
  The device of the witness: one cycle on the cold sensor. The reader's first load is before the
  cycle and all its further ones after it, so that its first attempt copies a later memory than the
  one whose counter it read, and is rejected; the second is accepted.
\<close>

definition plain_config :: lp_sensor_core_config where
  "plain_config = \<lparr>sensor_samples = 2, temp_offset_c = Fin 0, temp_min_change_c = Fin 1,
     rh_offset_pct = Fin 0, rh_min_change_pct = Fin 1, max_skip_cycles = 4,
     heater_period_cycles = 0, high_rh_trigger_cycles = 0\<rparr>"

definition late_clk :: "nat \<Rightarrow> nat" where
  "late_clk i = (if i = 0 then 0 else 64 + i)"

lemma second_attempt_read:
  assumes later: "\<And>i. 0 < i \<Longrightarrow> mem (clk i) = s" and "even (result_seq (mem (clk 0)))" "even (result_seq s)"
    and "result_seq s \<noteq> result_seq (mem (clk 0))"
  shows "lp_sensor_core_get_state mem clk out = (True, s)"
proof -
  have "copy_struct mem clk 33 = s"
    by (cases s) (simp add: copy_struct_def later)
  then show ?thesis
    using assms(2-4) by (simp add: lp_sensor_core_get_state_def eval_nat_numeral later Let_def)
qed

lemma hp_run_nothing: "hp_run [] sched = no_hp"
  by (intro ext) (simp add: hp_run_def no_hp_def run_writes_def split: prod.split)

text \<open>A cycle only adds to the history, and at most 58 entries.\<close>

definition grows :: "nat \<Rightarrow> 'b lp \<Rightarrow> 'b lp \<Rightarrow> bool" where
  "grows n l l' \<longleftrightarrow> (\<exists>p. lp_hist l' = p @ lp_hist l \<and> length p \<le> n)"

lemma grows_refl: "grows n l l"
  by (simp add: grows_def)

lemma grows_trans: "grows a l l1 \<Longrightarrow> grows b l1 l2 \<Longrightarrow> a + b \<le> c \<Longrightarrow> grows c l l2"
  by (auto simp: grows_def)

lemma grows_store: "grows n l l1 \<Longrightarrow> grows (n + 2) l (store hp f l1)"
  by (auto simp: grows_def store_def Let_def)

lemma grows_env [simp]: "grows n l (l1\<lparr>lp_env := b\<rparr>) = grows n l l1" "grows n (l\<lparr>lp_env := b\<rparr>) l1 = grows n l l1"
  "grows n l (l1\<lparr>g_lastConsumedAckSeq := a\<rparr>) = grows n l l1"
  by (simp_all add: grows_def)

lemma stores_grow:
  "grows 2 l (store hp f l)"
  "grows 4 l (store hp f2 (store hp f l))"
  "grows 6 l (store hp f3 (store hp f2 (store hp f l)))"
  "grows 8 l (store hp f4 (store hp f3 (store hp f2 (store hp f l))))"
  by (auto simp: grows_def store_def Let_def)

lemma heater_phase_grows:
  assumes "heater_phase hp bus creep t h l = (t', h', l')"
  shows "grows 26 l l'"
proof -
  have b: "grows 4 l ((bump_seq hp (store hp f l))\<lparr>lp_env := e\<rparr>)" for f e
    by (simp add: bump_seq_def stores_grow)
  have r: "grows 14 l1 (heater_record hp x l1)" for x l1
    by (auto simp: heater_record_def bump_seq_def Let_def grows_def store_def split: prod.split)
  have n: "grows 14 l1 (bump_seq hp l1)" for l1 by (auto simp: bump_seq_def grows_def store_def Let_def)
  have "grows 18 l (bump_seq hp ((bump_seq hp (store hp f l))\<lparr>lp_env := e\<rparr>))"
    "grows 18 l (heater_record hp x ((bump_seq hp (store hp f l))\<lparr>lp_env := e\<rparr>))" for x f e
    by (rule grows_trans [OF b n] grows_trans [OF b r], simp)+
  note mid = this [THEN grows_trans, OF stores_grow(3), where c = 26, simplified]
  show ?thesis
    using assms mid by (auto simp: heater_phase_def Let_def split: option.splits prod.splits)
qed

lemma lp_process_grows:
  assumes "lp_process hp bus t h l = (v, l')"
  shows "grows 40 l l'"
proof -
  obtain pd hd' l1 where 1: "heater_schedule hp t h l = (pd, hd', l1)" by (metis surj_pair)
  obtain t' h' l2 where 2: "(if pd \<or> hd' then heater_phase hp bus hd' t h l1 else (t, h, l1)) = (t', h', l2)"
    by (metis surj_pair)
  obtain ct ch l3 where 3: "calibrate hp t' h' l2 = (ct, ch, l3)" by (metis surj_pair)
  have 4: "skip_decision hp ct ch l3 = (v, l')"
    using assms by (simp add: lp_process_def 1 2 3 split: if_splits)
  have g1: "grows 8 l l1" using 1 unfolding heater_schedule_def Let_def by (auto intro: stores_grow)
  have g2: "grows 26 l1 l2" using 2 by (auto split: if_splits intro: grows_refl dest: heater_phase_grows)
  have g3: "grows 4 l2 l3" using 3 by (auto simp: calibrate_def Let_def intro: stores_grow)
  have g4: "grows 2 l3 l'" using 4 by (auto simp: skip_decision_def intro: stores_grow grows_refl split: if_splits)
  show ?thesis
    by (rule grows_trans [OF grows_trans [OF grows_trans [OF g1 g2 order_refl] g3 order_refl] g4]) simp
qed

lemma no_hp_cycle_grows:
  assumes "lp_main no_hp bus l = (w, l')"
  shows "grows 58 l l'"
proof -
  have c: "grows 6 l (consume_ack no_hp l)"
    by (auto simp: consume_ack_def Let_def intro: stores_grow grows_refl)
  have s: "grows 8 l1 (record_status no_hp ok ((bump_seq no_hp l1)\<lparr>lp_env := b\<rparr>))" for ok l1 b
    by (auto simp: record_status_def bump_seq_def Let_def grows_def store_def)
  have f: "grows 4 l3 l'" if "lp_finish no_hp v l3 = (w, l')" for v l3
    using that by (auto simp: lp_finish_def bump_seq_def Let_def intro: stores_grow)
  from assms show ?thesis
  proof (cases rule: no_hp.lp_main_cases)
    case (fail l1 b)
    show ?thesis
      using c grows_trans [OF grows_trans [OF _ s order_refl] f [OF fail(3)]] fail(1) by simp
  next
    case (ok l1 b t h v l3)
    show ?thesis
      using c ok(1)
        grows_trans [OF grows_trans [OF grows_trans [OF _ s order_refl] lp_process_grows [OF ok(3)] order_refl] f [OF ok(4)]]
      by simp
  qed
qed

lemma cold_boot:
  assumes "l' = lp_after (hp_run [] sched) cold_bus 1 (lp_boot plain_config ())"
  shows "grows 58 (lp_boot plain_config ()) l'" "result_seq (g_shared l') \<in> {2, 4}"
    "heartbeat_counter (g_shared l') = 1" "cal_temp_c (g_shared l') = Fin (- 45)"
proof -
  let ?l = "lp_boot plain_config () :: unit lp"
  have f: "cold_state ?l" "result_seq (g_shared ?l) = 0" "heartbeat_counter (g_shared ?l) = 0"
    by (simp_all add: lp_boot_def lp_sensor_core_apply_config_def apply_config_writes_def run_writes_def
        zero_shared_def plain_config_def cold_state_def)
  obtain w where r: "lp_main no_hp cold_bus ?l = (w, l')" using assms by (simp add: hp_run_nothing prod_eq_iff)
  show "grows 58 ?l l'" by (rule no_hp_cycle_grows [OF r])
  show "result_seq (g_shared l') \<in> {2, 4}" "heartbeat_counter (g_shared l') = 1" "cal_temp_c (g_shared l') = Fin (- 45)"
    using cold_cycle [OF f(1) r] no_hp.lp_main_counters [OF r] f by auto
qed

theorem accepted_snapshot_is_one_instant_witness:
  "let mem = boot_memory [] (\<lambda>k. (0, 0)) cold_bus 1 plain_config () in
   \<exists>r k. lp_sensor_core_get_state mem late_clk zero_shared = (True, r) \<and> heartbeat_counter r = 1 \<and>
     cal_temp_c r = Fin (- 45) \<and> seq_view r = seq_view (mem (late_clk k))"
proof -
  let ?m = "boot_memory [] (\<lambda>k. (0, 0)) cold_bus 1 plain_config ()"
  define l where "l = lp_after (hp_run [] (\<lambda>k. (0, 0))) cold_bus 1 (lp_boot plain_config ())"
  note l = cold_boot [OF l_def]
  have mem: "?m = hist_mem (lp_hist l)" by (simp add: boot_memory_def l_def)
  obtain p where p: "lp_hist l = p @ [lp_sensor_core_apply_config plain_config zero_shared]" "length p \<le> 58"
    using l(1) by (auto simp: grows_def lp_boot_def)
  have m: "?m (late_clk i) = g_shared l" if "0 < i" for i
    using that p unfolding mem by (simp add: hist_mem_def late_clk_def)
  have z: "result_seq (?m 0) = 0"
    unfolding mem using p by (simp add: hist_mem_def lp_sensor_core_apply_config_def apply_config_writes_def
      run_writes_def zero_shared_def)
  have r: "lp_sensor_core_get_state ?m late_clk zero_shared = (True, g_shared l)"
    by (rule second_attempt_read [where mem = ?m and clk = late_clk, OF m]) (use l(2) z in \<open>auto simp: late_clk_def\<close>)
  have "\<exists>k. seq_view (g_shared l) = seq_view (?m (late_clk k)) \<and>
     result_seq (g_shared l) = result_seq (?m (late_clk k)) \<and> even (result_seq (g_shared l))"
    by (rule accepted_snapshot_is_one_instant [OF _ _ r]) (simp_all add: late_clk_def)
  with r l show ?thesis by (auto simp: Let_def)
qed

text \<open>
  The reader has no wait between its attempts, and the LP program keeps the counter odd for the
  whole measurement. If all ten attempts fall into that window, the caller's buffer comes back as it
  was handed in, not as a stale snapshot.
\<close>

theorem measurement_window_leaves_buffer:
  assumes "\<And>k. k < 10 \<Longrightarrow> mem (clk k) = g_shared (bump_seq no_hp (consume_ack no_hp l))"
    and "even (result_seq (g_shared l))"
  shows "lp_sensor_core_get_state mem clk out = (False, out)"
proof -
  have o: "odd (result_seq (mem (clk k)))" if "k < 10" for k
    using assms that no_hp.consume_ack_fields(1) [of l] by simp
  have "n + k \<le> 10 \<Longrightarrow> get_state_loop mem clk n k out = (False, out)" for n k
    by (induction n arbitrary: k) (simp_all add: o Let_def)
  then show ?thesis by (simp add: lp_sensor_core_get_state_def)
qed

theorem measurement_window_leaves_buffer_witness:
  "lp_sensor_core_get_state (\<lambda>t. g_shared (bump_seq no_hp (consume_ack no_hp (cold_lp acked_shared)))) id zero_shared
    = (False, zero_shared)"
  by (rule measurement_window_leaves_buffer [where l = "cold_lp acked_shared"])
    (simp_all add: cold_lp_def acked_shared_def cold_shared_def zero_shared_def)

text \<open>
  A configuration write changes exactly the eight configuration fields, to the given values, and an
  acknowledgement exactly the three acknowledgement fields, counting up; neither touches what the LP
  program owns, at any point of the write.
\<close>

theorem hp_writes_stay_in_their_fields:
  shows "hp_view (lp_sensor_core_apply_config config s) =
      ((sensor_samples config, temp_offset_c config, temp_min_change_c config, rh_offset_pct config,
        rh_min_change_pct config, max_skip_cycles config, heater_period_cycles config,
        high_rh_trigger_cycles config), hp_ack_seq s, hp_acked_temp_c s, hp_acked_hum_pct s) \<and>
    hp_view (lp_sensor_core_ack_delivered t h s) = (fst (hp_view s), hp_ack_seq s + 1, t, h) \<and>
    lp_view (run_writes (take i (apply_config_writes config)) s) = lp_view s \<and>
    lp_view (run_writes (take i (ack_writes t h)) s) = lp_view s"
proof (intro conjI)
  have "hp_frame s (run_writes (take i (apply_config_writes config)) s)"
    by (rule run_writes_frame) (auto dest!: in_set_takeD intro: op_writes_frame [of _ "ApplyConfig config"])
  then show "lp_view (run_writes (take i (apply_config_writes config)) s) = lp_view s"
    by (simp add: hp_frame_def)
  have "hp_frame s (run_writes (take i (ack_writes t h)) s)"
    by (rule run_writes_frame) (auto dest!: in_set_takeD intro: op_writes_frame [of _ "AckDelivered t h"])
  then show "lp_view (run_writes (take i (ack_writes t h)) s) = lp_view s"
    by (simp add: hp_frame_def)
qed (simp_all add: hp_view_def lp_sensor_core_apply_config_def lp_sensor_core_ack_delivered_def
    apply_config_writes_def ack_writes_def run_writes_def)

end
