(* ===== verification/HistoryLog.thy ===== *)
theory HistoryLog
  imports Floats
begin

text \<open>
  The store-and-forward log of readings that could not be published, \<open>main/history_log.cpp\<close>: a ring of
  8192 records with two 32-bit counters that only ever count up. The producer never looks at the
  consumer's counter, so it may lap it; the consumer corrects its counter when it next looks.

  The abstraction \<open>hl_pending\<close> is the list of records a reader would be handed, oldest first. The
  operations refine a queue that holds the newest 8192 records (\<open>bounded_push\<close>), across the
  counters' wrap-around. The locale \<open>replay_queue\<close> is the interface the MQTT task drains it through.

  The array is a function of the index (below the capacity wherever the code uses it). The memory
  orders of the atomics are not modelled: an operation is one step.
\<close>

section \<open>The ring\<close>

record hl_record =
  captured_us :: int
  rec_temp_c :: flt
  rec_hum_pct :: flt

record history_entry =
  ago_sec :: u32
  ent_temp_c :: flt
  ent_hum_pct :: flt

record history_log =
  s_ring :: "nat \<Rightarrow> hl_record"
  s_head :: u32
  s_tail :: u32

definition CAPACITY :: u32 where
  "CAPACITY = 8192"

definition ringIndex :: "u32 \<Rightarrow> u32" where
  "ringIndex counter = counter AND (CAPACITY - 1)"

definition correctedTail :: "u32 \<Rightarrow> u32 \<Rightarrow> u32" where
  "correctedTail head tail = (if head - tail > CAPACITY then head - CAPACITY else tail)"

definition toEntry :: "int \<Rightarrow> hl_record \<Rightarrow> history_entry" where
  "toEntry now_us r =
    (let agoUs = now_us - captured_us r in
     \<lparr>ago_sec = word_of_int (if agoUs > 0 then agoUs div 1000000 else 0),
      ent_temp_c = rec_temp_c r, ent_hum_pct = rec_hum_pct r\<rparr>)"

definition history_log_append :: "int \<Rightarrow> flt \<Rightarrow> flt \<Rightarrow> history_log \<Rightarrow> history_log" where
  "history_log_append now_us temp_c hum_pct s =
    (let head = s_head s in
     s\<lparr>s_ring := (s_ring s)(unat (ringIndex head) :=
          \<lparr>captured_us = now_us, rec_temp_c = temp_c, rec_hum_pct = hum_pct\<rparr>),
       s_head := head + 1\<rparr>)"

definition history_log_has_pending :: "history_log \<Rightarrow> bool" where
  "history_log_has_pending s = (s_head s \<noteq> s_tail s)"

definition history_log_peek_batch :: "int \<Rightarrow> u32 \<Rightarrow> history_log \<Rightarrow> history_entry list \<times> history_log" where
  "history_log_peek_batch now_us out_size s =
    (let head = s_head s;
         tail = s_tail s;
         corrected = correctedTail head tail;
         s = (if corrected \<noteq> tail then s\<lparr>s_tail := corrected\<rparr> else s);
         tail = corrected;
         pending = head - tail;
         count = min pending out_size
     in if count = 0 then ([], s)
        else
          (let tailIdx = ringIndex tail;
               firstChunk = min count (CAPACITY - tailIdx);
               chunk1 = map (\<lambda>i. s_ring s (unat tailIdx + i)) [0..<unat firstChunk];
               chunk2 = map (\<lambda>i. s_ring s i) [0..<unat (count - firstChunk)]
           in (map (toEntry now_us) (chunk1 @ chunk2), s)))"

definition history_log_advance :: "u32 \<Rightarrow> history_log \<Rightarrow> history_log" where
  "history_log_advance count s = s\<lparr>s_tail := s_tail s + count\<rparr>"

definition empty_log :: history_log where
  "empty_log = \<lparr>s_ring = (\<lambda>_. \<lparr>captured_us = 0, rec_temp_c = Fin 0, rec_hum_pct = Fin 0\<rparr>),
     s_head = 0, s_tail = 0\<rparr>"

section \<open>Indices\<close>

lemma ringIndex_mod: "uint (ringIndex c) = uint c mod 8192"
proof -
  have "(8191 :: u32) = mask 13" by (simp add: mask_eq_exp_minus_1)
  then have "ringIndex c = take_bit 13 c"
    by (simp add: ringIndex_def CAPACITY_def take_bit_eq_mask)
  then have "uint (ringIndex c) = take_bit 13 (uint c)" by (simp only: unsigned_take_bit_eq)
  then show ?thesis by (simp add: take_bit_eq_mod)
qed

lemma ringIndex_less: "unat (ringIndex c) < 8192"
proof -
  have "nat (uint (ringIndex c)) < 8192" by (simp add: ringIndex_mod nat_less_iff)
  then show ?thesis by (simp only: nat_uint_eq)
qed

definition ix :: "u32 \<Rightarrow> nat" where
  "ix c = unat (ringIndex c)"

lemma ix_less: "ix c < 8192"
  by (simp add: ix_def ringIndex_less)

lemma int_ix: "int (ix c) = uint c mod 8192"
  by (simp add: ix_def ringIndex_mod flip: uint_nat)

lemma int_ix_add: "int (ix (c + of_nat k)) = (uint c + int k) mod 8192"
proof -
  have u: "uint (c + of_nat k) = (uint c + int k) mod 2 ^ 32"
    by (simp add: uint_word_ariths unsigned_of_nat take_bit_eq_mod mod_add_right_eq zmod_int)
  show ?thesis unfolding int_ix u by (rule mod_mod_cancel) simp
qed

lemma ix_add_eq: "ix (c + of_nat k) = (ix c + k) mod 8192"
proof -
  have "int (ix (c + of_nat k)) = int ((ix c + k) mod 8192)"
    by (simp only: int_ix_add) (simp add: zmod_int int_ix mod_add_left_eq)
  then show ?thesis by simp
qed

lemma ix_neq:
  assumes "0 < k" "k < 8192"
  shows "ix (c + of_nat k) \<noteq> ix c"
proof
  assume "ix (c + of_nat k) = ix c"
  then have "(uint c + int k) mod 8192 = uint c mod 8192" by (metis int_ix int_ix_add)
  then have "8192 dvd int k" using mod_eq_dvd_iff [of "uint c + int k" 8192 "uint c"] by simp
  with assms show False by (auto dest!: zdvd_imp_le)
qed

section \<open>The pending records\<close>

text \<open>How far the counters are apart, and how many records of that the ring still holds.\<close>

definition hl_distance :: "history_log \<Rightarrow> nat" where
  "hl_distance s = unat (s_head s - s_tail s)"

definition hl_count :: "history_log \<Rightarrow> nat" where
  "hl_count s = min (hl_distance s) 8192"

definition hl_pending :: "history_log \<Rightarrow> hl_record list" where
  "hl_pending s = map (\<lambda>i. s_ring s (ix (s_head s - of_nat (hl_count s) + of_nat i))) [0..<hl_count s]"

lemma length_hl_pending [simp]: "length (hl_pending s) = hl_count s"
  by (simp add: hl_pending_def)

lemma correctedTail_eq: "correctedTail (s_head s) (s_tail s) = s_head s - of_nat (hl_count s)"
proof (cases "hl_distance s > 8192")
  case True
  then have "s_head s - s_tail s > CAPACITY"
    by (simp add: hl_distance_def CAPACITY_def word_less_nat_alt)
  with True show ?thesis by (simp add: correctedTail_def hl_count_def CAPACITY_def)
next
  case False
  then have "\<not> s_head s - s_tail s > CAPACITY"
    by (simp add: hl_distance_def CAPACITY_def word_less_nat_alt)
  moreover have "of_nat (hl_distance s) = s_head s - s_tail s"
    by (simp add: hl_distance_def)
  ultimately show ?thesis using False by (simp add: correctedTail_def hl_count_def)
qed

lemma hl_pending_corrected:
  "hl_pending (s\<lparr>s_tail := correctedTail (s_head s) (s_tail s)\<rparr>) = hl_pending s"
  "hl_distance (s\<lparr>s_tail := correctedTail (s_head s) (s_tail s)\<rparr>) = hl_count s"
proof -
  have "hl_count s < 4294967296" by (simp add: hl_count_def)
  then have d: "hl_distance (s\<lparr>s_tail := correctedTail (s_head s) (s_tail s)\<rparr>) = hl_count s"
    by (simp add: hl_distance_def correctedTail_eq unat_of_nat_u32)
  then show "hl_distance (s\<lparr>s_tail := correctedTail (s_head s) (s_tail s)\<rparr>) = hl_count s" .
  have "hl_count (s\<lparr>s_tail := correctedTail (s_head s) (s_tail s)\<rparr>) = hl_count s"
    unfolding hl_count_def [of "s\<lparr>s_tail := _\<rparr>"] d by (simp add: hl_count_def)
  then show "hl_pending (s\<lparr>s_tail := correctedTail (s_head s) (s_tail s)\<rparr>) = hl_pending s"
    by (simp add: hl_pending_def)
qed

section \<open>The abstract queue\<close>

definition bounded_push :: "'a list \<Rightarrow> 'a \<Rightarrow> 'a list" where
  "bounded_push xs x = drop (length xs + 1 - 8192) (xs @ [x])"

lemma hl_append_pending:
  assumes "hl_distance s + 1 < 2 ^ 32"
  shows "hl_pending (history_log_append now t h s) =
      bounded_push (hl_pending s) \<lparr>captured_us = now, rec_temp_c = t, rec_hum_pct = h\<rparr>"
    "hl_distance (history_log_append now t h s) = hl_distance s + 1"
proof -
  let ?r = "\<lparr>captured_us = now, rec_temp_c = t, rec_hum_pct = h\<rparr>"
  let ?s' = "history_log_append now t h s"
  have "s_head ?s' - s_tail ?s' = (s_head s - s_tail s) + 1"
    by (simp add: history_log_append_def Let_def)
  then show d: "hl_distance ?s' = hl_distance s + 1"
    using assms by (simp add: hl_distance_def unat_word_ariths)
  have ring: "s_ring ?s' j = (if j = ix (s_head s) then ?r else s_ring s j)" for j
    by (simp add: history_log_append_def ix_def Let_def)
  have head: "s_head ?s' = s_head s + 1" by (simp add: history_log_append_def Let_def)
  have other: "ix (s_head s - of_nat p + of_nat i) \<noteq> ix (s_head s)" if "i < p" "p \<le> i + 8191" for p i
  proof -
    have "0 < p - i" "p - i < 8192" using that by auto
    from ix_neq [OF this, of "s_head s - of_nat p + of_nat i"] that show ?thesis
      by (auto simp: of_nat_diff)
  qed
  show "hl_pending ?s' = bounded_push (hl_pending s) ?r"
  proof (cases "hl_distance s < 8192")
    case True
    then have c: "hl_count s = hl_distance s" "hl_count ?s' = hl_distance s + 1"
      by (simp_all add: hl_count_def d)
    have "hl_pending ?s' = hl_pending s @ [?r]"
      unfolding hl_pending_def c using True other [of _ "hl_distance s"]
      by (simp add: head ring cong: map_cong)
    with True show ?thesis by (simp add: bounded_push_def c)
  next
    case False
    then have c: "hl_count s = Suc 8191" "hl_count ?s' = Suc 8191"
      by (simp_all add: hl_count_def d)
    define b where "b = s_head s - of_nat (Suc 8191)"
    have b: "s_head s + 1 - of_nat (Suc 8191) + of_nat i = b + of_nat (Suc i)" for i
      by (simp add: b_def)
    have last: "b + of_nat (Suc 8191) = s_head s" by (simp add: b_def)
    have p: "hl_pending ?s' = map (\<lambda>i. s_ring s (ix (b + of_nat (Suc i)))) [0..<8191] @ [?r]"
    proof -
      have "ix (b + of_nat (Suc i)) \<noteq> ix (s_head s)" if "i < 8191" for i
        using other [of "Suc i" "Suc 8191"] that unfolding b_def by auto
      then show ?thesis
        unfolding hl_pending_def c head ring b upt_Suc_append [OF le0] map_append list.map
        by (auto simp only: last if_True map_eq_conv set_upt atLeastLessThan_iff if_False simp_thms)
    qed
    have q: "hl_pending s = s_ring s (ix b) # map (\<lambda>i. s_ring s (ix (b + of_nat (Suc i)))) [0..<8191]"
      unfolding hl_pending_def c b_def [symmetric] map_upt_Suc by simp
    show ?thesis by (simp add: bounded_push_def p q)
  qed
qed


lemma hl_peek_pending:
  assumes "history_log_peek_batch now n s = (es, s')"
  shows "es = map (toEntry now) (take (unat n) (hl_pending s))" "hl_pending s' = hl_pending s"
    "hl_distance s' = hl_count s"
proof -
  let ?s = "s\<lparr>s_tail := correctedTail (s_head s) (s_tail s)\<rparr>"
  let ?t = "correctedTail (s_head s) (s_tail s)"
  define count where "count = min (s_head s - ?t) n"
  have tail: "?t = s_head s - of_nat (hl_count s)" by (rule correctedTail_eq)
  have hc: "hl_count s \<le> 8192" by (simp add: hl_count_def)
  have up: "unat (s_head s - ?t) = hl_count s"
    using hc by (simp add: tail unat_of_nat_u32)
  then have uc: "unat count = min (hl_count s) (unat n)"
    by (simp add: count_def min_def word_le_nat_alt)
  have s': "s' = ?s"
    using assms by (auto simp: history_log_peek_batch_def Let_def split: if_splits)
  then show "hl_pending s' = hl_pending s" "hl_distance s' = hl_count s"
    using hl_pending_corrected by simp_all
  have tk: "take (unat n) (hl_pending s) = map (\<lambda>i. s_ring s (ix (?t + of_nat i))) [0..<unat count]"
    by (rule nth_equalityI) (auto simp: hl_pending_def tail uc)
  show "es = map (toEntry now) (take (unat n) (hl_pending s))"
  proof (cases "count = 0")
    case True
    with assms tk show ?thesis
      by (auto simp: history_log_peek_batch_def Let_def count_def split: if_splits)
  next
    case False
    let ?i = "ringIndex ?t"
    let ?f = "min count (CAPACITY - ?i)"
    have i: "unat ?i = ix ?t" by (simp add: ix_def)
    have "?i \<le> CAPACITY"
      using ringIndex_less [of ?t] by (simp add: CAPACITY_def word_le_nat_alt)
    then have uf0: "unat (CAPACITY - ?i) = 8192 - ix ?t"
      by (simp add: unat_sub i CAPACITY_def)
    then have uf: "unat ?f = min (unat count) (8192 - ix ?t)"
      by (simp add: min_def word_le_nat_alt)
    have ur: "unat (count - ?f) = unat count - unat ?f" by (rule unat_sub) simp
    have es: "es = map (toEntry now) (map (\<lambda>i. s_ring s (ix ?t + i)) [0..<unat ?f] @
        map (\<lambda>i. s_ring s i) [0..<unat count - unat ?f])"
      using assms False unfolding history_log_peek_batch_def Let_def count_def [symmetric]
      by (auto simp: ur i split: if_splits)
    have split: "[0..<unat count] = [0..<unat ?f] @ map (\<lambda>i. i + unat ?f) [0..<unat count - unat ?f]"
      using upt_add_eq_append [of 0 "unat ?f" "unat count - unat ?f"] uf by (simp add: map_add_upt)
    have "ix (?t + of_nat j) = ix ?t + j" if "j < unat ?f" for j
    proof -
      have "j < 8192 - ix ?t" using that unfolding uf by simp
      then have "ix ?t + j < 8192" by linarith
      then show ?thesis by (simp only: ix_add_eq mod_less)
    qed
    moreover have "ix (?t + of_nat (j + unat ?f)) = j" if "j < unat count - unat ?f" for j
    proof -
      have "j < unat count - min (unat count) (8192 - ix ?t)" using that by (simp only: uf)
      then have "8192 - ix ?t \<le> unat count" "j < unat count" by linarith+
      then have "unat ?f = 8192 - ix ?t" "j < 8192" using uc hc by (simp_all only: uf)
      with ix_less [of ?t] show ?thesis by (simp only: ix_add_eq) simp
    qed
    ultimately show ?thesis unfolding es tk split by simp
  qed
qed

lemma hl_advance_pending:
  assumes "unat c \<le> hl_distance s"
  shows "hl_pending (history_log_advance c s) = drop (unat c - (hl_distance s - hl_count s)) (hl_pending s)"
    "hl_distance (history_log_advance c s) = hl_distance s - unat c"
proof -
  let ?s' = "history_log_advance c s"
  have "s_head ?s' - s_tail ?s' = (s_head s - s_tail s) - c"
    by (simp add: history_log_advance_def)
  moreover have "c \<le> s_head s - s_tail s" using assms by (simp add: hl_distance_def word_le_nat_alt)
  ultimately show d: "hl_distance ?s' = hl_distance s - unat c"
    by (simp add: hl_distance_def unat_sub)
  let ?k = "unat c - (hl_distance s - hl_count s)"
  have k: "hl_count ?s' = hl_count s - ?k" "?k \<le> hl_count s"
    using assms by (auto simp: hl_count_def d)
  have r: "s_ring ?s' = s_ring s" "s_head ?s' = s_head s" by (simp_all add: history_log_advance_def)
  have e: "s_head s - of_nat (hl_count s - ?k) + of_nat i = s_head s - of_nat (hl_count s) + of_nat (?k + i)" for i
    using k(2) by (simp add: of_nat_diff)
  show "hl_pending ?s' = drop ?k (hl_pending s)"
  proof (rule nth_equalityI)
    fix i
    assume "i < length (hl_pending ?s')"
    then have i: "i < hl_count s - ?k" by (simp add: k(1))
    then have "hl_pending ?s' ! i = s_ring s (ix (s_head s - of_nat (hl_count s) + of_nat (?k + i)))"
      unfolding hl_pending_def r k(1) e [symmetric] by simp
    moreover have "drop ?k (hl_pending s) ! i = s_ring s (ix (s_head s - of_nat (hl_count s) + of_nat (?k + i)))"
      using i unfolding hl_pending_def by simp
    ultimately show "hl_pending ?s' ! i = drop ?k (hl_pending s) ! i" by simp
  qed (simp add: k(1))
qed


section \<open>The interface of the replaying consumer\<close>

text \<open>
  What the MQTT task relies on when it drains the log: a peek hands out the oldest entries in order and
  keeps them, an advance drops them. \<open>q\<close> is the queue's content, \<open>valid\<close> its invariant, \<open>view\<close> how an
  element is presented at a given time. The draining loop is proved once here.
\<close>

locale replay_queue =
  fixes q :: "'s \<Rightarrow> 'a list" and valid :: "'s \<Rightarrow> bool" and view :: "int \<Rightarrow> 'a \<Rightarrow> 'e"
    and peek :: "int \<Rightarrow> u32 \<Rightarrow> 's \<Rightarrow> 'e list \<times> 's" and advance :: "u32 \<Rightarrow> 's \<Rightarrow> 's"
  assumes peek_result: "valid s \<Longrightarrow> fst (peek now n s) = map (view now) (take (unat n) (q s))"
    and peek_keeps: "valid s \<Longrightarrow> q (snd (peek now n s)) = q s \<and> valid (snd (peek now n s))"
    and advance_drops: "valid s \<Longrightarrow> unat n \<le> length (q s) \<Longrightarrow>
      q (advance n (snd (peek now m s))) = drop (unat n) (q s) \<and> valid (advance n (snd (peek now m s)))"
begin

text \<open>One round: peek a batch and, when it is confirmed, advance by its length.\<close>

definition round :: "int \<Rightarrow> u32 \<Rightarrow> bool \<Rightarrow> 's \<Rightarrow> 'e list \<times> 's" where
  "round now n confirmed s = (let (es, s1) = peek now n s in
     (es, if confirmed then advance (of_nat (length es)) s1 else s1))"

lemma round_spec:
  assumes "valid s"
  shows "fst (round now n c s) = map (view now) (take (unat n) (q s))"
    "q (snd (round now n c s)) = (if c then drop (unat n) (q s) else q s)"
    "valid (snd (round now n c s))"
proof -
  obtain es s1 where p: "peek now n s = (es, s1)" by fastforce
  have es: "es = map (view now) (take (unat n) (q s))" using peek_result [OF assms, of now n] p by simp
  then show "fst (round now n c s) = map (view now) (take (unat n) (q s))"
    by (simp add: round_def p)
  let ?k = "min (length (q s)) (unat n)"
  have "?k < 4294967296" using unat_u32_less [of n] by (simp add: min_def del: unat_u32_less)
  then have k: "unat (of_nat (length es) :: u32) = ?k"
    by (simp add: es unat_of_nat_u32)
  have a: "q (advance (of_nat (length es)) s1) = drop (unat n) (q s)" "valid (advance (of_nat (length es)) s1)"
    using advance_drops [OF assms, of "of_nat (length es)" now n] k p by (auto simp: min_def)
  show "q (snd (round now n c s)) = (if c then drop (unat n) (q s) else q s)"
    "valid (snd (round now n c s))"
    using a peek_keeps [OF assms, of now n] p by (auto simp: round_def)
qed

end

definition hl_valid :: "history_log \<Rightarrow> bool" where
  "hl_valid s \<longleftrightarrow> hl_distance s < 2 ^ 32"

lemma hl_valid: "hl_valid s"
  using unat_u32_less [of "s_head s - s_tail s"] by (simp add: hl_valid_def hl_distance_def)

interpretation hl: replay_queue hl_pending hl_valid toEntry history_log_peek_batch history_log_advance
proof unfold_locales
  fix s :: history_log and now n m
  obtain es s1 where p: "history_log_peek_batch now n s = (es, s1)" by fastforce
  show "fst (history_log_peek_batch now n s) = map (toEntry now) (take (unat n) (hl_pending s))"
    using hl_peek_pending(1) [OF p] by (simp add: p)
  show "hl_pending (snd (history_log_peek_batch now n s)) = hl_pending s \<and>
      hl_valid (snd (history_log_peek_batch now n s))"
    using hl_peek_pending(2) [OF p] by (simp add: p hl_valid)
  assume n: "unat n \<le> length (hl_pending s)"
  obtain es' s2 where p': "history_log_peek_batch now m s = (es', s2)" by fastforce
  note h = hl_peek_pending [OF p']
  have c: "hl_count s2 = hl_distance s2" using h(3) by (simp add: hl_count_def)
  then show "hl_pending (history_log_advance n (snd (history_log_peek_batch now m s))) = drop (unat n) (hl_pending s) \<and>
      hl_valid (history_log_advance n (snd (history_log_peek_batch now m s)))"
    using hl_advance_pending(1) [of n s2] n h by (simp add: p' hl_valid)
qed

section \<open>Properties\<close>

text \<open>
  C6: The ring refines a queue of the newest 8192 readings, also where its 32-bit counters wrap: an
  append adds the reading at the end and drops the oldest one exactly when the queue is full. (The
  producer must not append 2^32 readings without the consumer ever looking.)
\<close>

theorem append_refines_bounded_queue:
  assumes "hl_distance s + 1 < 2 ^ 32"
  shows "hl_pending (history_log_append now t h s) =
    bounded_push (hl_pending s) \<lparr>captured_us = now, rec_temp_c = t, rec_hum_pct = h\<rparr> \<and>
    length (hl_pending (history_log_append now t h s)) = min (length (hl_pending s) + 1) 8192"
proof
  show "hl_pending (history_log_append now t h s) =
      bounded_push (hl_pending s) \<lparr>captured_us = now, rec_temp_c = t, rec_hum_pct = h\<rparr>"
    by (rule hl_append_pending(1) [OF assms])
  show "length (hl_pending (history_log_append now t h s)) = min (length (hl_pending s) + 1) 8192"
    unfolding length_hl_pending hl_count_def hl_append_pending(2) [OF assms] by simp
qed

text \<open>The counters about to wrap: 0xFFFFFFFF appended, all but the last two replayed.\<close>

definition wrapping_log :: history_log where
  "wrapping_log = empty_log\<lparr>s_head := 0xFFFFFFFF, s_tail := 0xFFFFFFFD\<rparr>"

lemma wrapping_distance: "hl_distance wrapping_log = 2"
  by (simp add: hl_distance_def wrapping_log_def empty_log_def)

theorem append_refines_bounded_queue_witness:
  "hl_pending (history_log_append 7 (Fin 20) (Fin 50) wrapping_log) =
     bounded_push (hl_pending wrapping_log) \<lparr>captured_us = 7, rec_temp_c = Fin 20, rec_hum_pct = Fin 50\<rparr> \<and>
   s_head (history_log_append 7 (Fin 20) (Fin 50) wrapping_log) = 0"
proof
  have "hl_distance wrapping_log + 1 < 2 ^ 32" by (simp add: wrapping_distance)
  from append_refines_bounded_queue [OF this, of 7 "Fin 20" "Fin 50"]
  show "hl_pending (history_log_append 7 (Fin 20) (Fin 50) wrapping_log) =
     bounded_push (hl_pending wrapping_log) \<lparr>captured_us = 7, rec_temp_c = Fin 20, rec_hum_pct = Fin 50\<rparr>"
    by blast
  show "s_head (history_log_append 7 (Fin 20) (Fin 50) wrapping_log) = 0"
    by (simp add: history_log_append_def wrapping_log_def Let_def)
qed

text \<open>
  A replay round hands out the oldest readings in the order they were taken, across the seam of
  the ring; a confirmed batch is removed as a whole and an unconfirmed one is kept as a whole.
\<close>

theorem replay_round_is_fifo:
  "let (es, s1) = history_log_peek_batch now n s;
       s2 = (if confirmed then history_log_advance (of_nat (length es)) s1 else s1)
   in es = map (toEntry now) (take (unat n) (hl_pending s)) \<and>
      hl_pending s2 = (if confirmed then drop (unat n) (hl_pending s) else hl_pending s)"
  using hl.round_spec [OF hl_valid, of now n confirmed s]
  unfolding hl.round_def by (auto simp: Let_def split: prod.split)

text \<open>
  A reading the producer overwrites while a batch is in flight is not dropped twice: advancing by
  the batch after the ring was lapped removes only those of its readings that are still there.
\<close>

theorem advance_after_lapping:
  assumes "unat n \<le> hl_distance s"
  shows "hl_pending (history_log_advance n s) =
    drop (unat n - (hl_distance s - length (hl_pending s))) (hl_pending s)"
  using hl_advance_pending(1) [OF assms] by simp

theorem advance_after_lapping_witness:
  "hl_pending (history_log_advance 10 (empty_log\<lparr>s_head := 8200\<rparr>)) =
   drop 2 (hl_pending (empty_log\<lparr>s_head := 8200\<rparr>))"
proof -
  have "hl_distance (empty_log\<lparr>s_head := 8200\<rparr>) = 8200"
    by (simp add: hl_distance_def empty_log_def)
  with advance_after_lapping [of 10 "empty_log\<lparr>s_head := 8200\<rparr>"] show ?thesis
    by (simp add: hl_count_def)
qed

text \<open>
  \<open>history_log_has_pending\<close> says whether there is anything to replay.
\<close>

theorem has_pending_iff:
  "history_log_has_pending s \<longleftrightarrow> hl_pending s \<noteq> []"
proof -
  have "hl_pending s = [] \<longleftrightarrow> hl_distance s = 0"
    by (auto simp: hl_count_def min_def simp flip: length_0_conv)
  also have "\<dots> \<longleftrightarrow> s_head s = s_tail s" by (simp add: hl_distance_def unat_eq_0)
  finally show ?thesis by (simp add: history_log_has_pending_def)
qed

end
