(* ===== verification/Battery.thy ===== *)
theory Battery
  imports Floats
begin

text \<open>
  The battery measurement of \<open>main/sensorstask.h\<close> and \<open>main/sensorstask.cpp\<close>: the reference discharge
  curve, its normalisation to the two anchors of the pack, the burst of ADC reads, and the ADC handles
  that must not be held across a sleep.

  The ADC driver is a parameter (the record \<open>adc_driver\<close>). The lemmas show that the percentage is
  within 0 and 100 and grows with the voltage, bounds included and with every rounding of the \<open>double\<close>
  computation, and that no handle outlives a measurement.
\<close>

section \<open>The discharge curve\<close>

definition MIN_VOLTAGE :: int where "MIN_VOLTAGE = 3300"
definition MAX_VOLTAGE :: int where "MAX_VOLTAGE = 4120"

definition BATTERY_CURVE :: "(int \<times> int) list" where
  "BATTERY_CURVE =
    [(3270, 0), (3610, 5), (3690, 10), (3710, 15), (3730, 20), (3750, 25),
     (3770, 30), (3790, 35), (3800, 40), (3820, 45), (3840, 50), (3850, 55),
     (3870, 60), (3910, 65), (3950, 70), (3980, 75), (4020, 80), (4080, 85),
     (4110, 90), (4150, 95), (4200, 100)]"

text \<open>\<open>std::ranges::lower_bound\<close> by voltage: the index of the first point not below it.\<close>

definition lower_bound_mv :: "(int \<times> int) list \<Rightarrow> int \<Rightarrow> nat" where
  "lower_bound_mv curve mv = length (takeWhile (\<lambda>p. fst p < mv) curve)"

definition interpolate :: "int \<times> int \<Rightarrow> int \<times> int \<Rightarrow> int \<Rightarrow> flt" where
  "interpolate lo hi mv =
    f_add f64 (f_int f64 (snd lo))
      (f_div f64 (f_mul f64 (f_int f64 (mv - fst lo)) (f_int f64 (snd hi - snd lo)))
        (f_int f64 (fst hi - fst lo)))"

definition etalonSoc :: "int \<Rightarrow> flt" where
  "etalonSoc mv =
    (if mv \<le> fst (hd BATTERY_CURVE) then f_int f64 (snd (hd BATTERY_CURVE))
     else if mv \<ge> fst (last BATTERY_CURVE) then f_int f64 (snd (last BATTERY_CURVE))
     else
       (let hi = lower_bound_mv BATTERY_CURVE mv
        in interpolate (BATTERY_CURVE ! (hi - 1)) (BATTERY_CURVE ! hi) mv))"

text \<open>\<open>std::round\<close>: to the nearest integer, halves away from zero; exact on a \<open>double\<close>.\<close>

fun f_std_round :: "flt \<Rightarrow> flt" where
  "f_std_round (Fin x) = Fin (if 0 \<le> x then of_int \<lfloor>x + 1 / 2\<rfloor> else - of_int \<lfloor>1 / 2 - x\<rfloor>)"
| "f_std_round x = x"

definition convertVoltageToPercent :: "int \<Rightarrow> int \<Rightarrow> int \<Rightarrow> flt" where
  "convertVoltageToPercent batteryVoltageMilliV minMv maxMv =
    (if maxMv \<le> minMv then Fin 0
     else
       (let socMin = etalonSoc minMv; socMax = etalonSoc maxMv in
        if f_le socMax socMin then Fin 0
        else
          (let normalized =
                 f_mul f64 (f_div f64 (f_sub f64 (etalonSoc batteryVoltageMilliV) socMin) (f_sub f64 socMax socMin))
                   (Fin 100);
               clamped = f_clamp normalized (Fin 0) (Fin 100)
           in f_round f32 (f_div f64 (f_std_round (f_mul f64 clamped (Fin 100))) (Fin 100)))))"

section \<open>The ADC\<close>

text \<open>
  The driver as \<open>initAdc\<close> and the burst of reads meet it: the channel of the pin (with the unit it is
  on), what each call returns, which calibration schemes the platform has, and the calibrated reading.
\<close>

record adc_driver =
  d_io_to_channel :: "esp_err \<times> bool \<times> nat"
  d_new_unit :: esp_err
  d_config_channel :: esp_err
  d_curve_fitting :: "esp_err option"
  d_line_fitting :: "esp_err option"
  d_read :: "nat \<Rightarrow> esp_err \<times> int"
  d_raw_to_voltage :: "int \<Rightarrow> esp_err \<times> int"

record adc_handles =
  adc1_handle :: bool
  adc1_cali_chan0_handle :: bool
  m_adcChannel :: nat

definition ADC_READS_COUNT :: nat where "ADC_READS_COUNT = 10"

definition deinitAdc :: "adc_handles \<Rightarrow> adc_handles" where
  "deinitAdc a =
    (let a = (if adc1_cali_chan0_handle a then a\<lparr>adc1_cali_chan0_handle := False\<rparr> else a)
     in if adc1_handle a then a\<lparr>adc1_handle := False\<rparr> else a)"

text \<open>\<open>adc_calibration_init\<close>: curve fitting, then line fitting, each where the platform has it. The
  handle handed back exists exactly when a scheme was created.\<close>

definition adc_calibration_init :: "adc_driver \<Rightarrow> bool" where
  "adc_calibration_init d =
    (let calibrated = (case d_curve_fitting d of None \<Rightarrow> False | Some ret \<Rightarrow> ret = ESP_OK)
     in if \<not> calibrated
        then (case d_line_fitting d of None \<Rightarrow> False | Some ret \<Rightarrow> ret = ESP_OK)
        else calibrated)"

definition initAdc :: "adc_driver \<Rightarrow> adc_handles \<Rightarrow> esp_err \<times> adc_handles" where
  "initAdc d a =
    (let (err, unit1, channel) = d_io_to_channel d; a = a\<lparr>m_adcChannel := channel\<rparr> in
     if err \<noteq> ESP_OK \<or> \<not> unit1 then (if err \<noteq> ESP_OK then err else ESP_FAIL, a)
     else if d_new_unit d \<noteq> ESP_OK then (d_new_unit d, a\<lparr>adc1_handle := False\<rparr>)
     else
       (let a = a\<lparr>adc1_handle := True\<rparr> in
        if d_config_channel d \<noteq> ESP_OK then (d_config_channel d, deinitAdc a)
        else
          (let calibrated = adc_calibration_init d; a = a\<lparr>adc1_cali_chan0_handle := calibrated\<rparr> in
           if \<not> calibrated then (ESP_FAIL, deinitAdc a) else (ESP_OK, a))))"

text \<open>
  The burst: \<open>n\<close> reads are left, \<open>i\<close> is the index of the next one, \<open>voltage_sum\<close> the sum so far. The
  minimum, maximum and first value only feed a log line.
\<close>

fun adc_burst :: "adc_driver \<Rightarrow> nat \<Rightarrow> nat \<Rightarrow> int \<Rightarrow> esp_err + int" where
  "adc_burst d 0 i voltage_sum = Inr voltage_sum"
| "adc_burst d (Suc n) i voltage_sum =
    (case d_read d i of (adcReadError, adc_raw) \<Rightarrow>
       if adcReadError \<noteq> ESP_OK then Inl adcReadError
       else
         (case d_raw_to_voltage d adc_raw of (calibrationErr, voltage) \<Rightarrow>
            if calibrationErr \<noteq> ESP_OK then Inl calibrationErr
            else adc_burst d n (Suc i) (to_i32 (voltage_sum + voltage))))"

text \<open>\<open>static_cast<int>\<close> of a \<open>double\<close>: truncation, undefined (\<open>None\<close>) outside the range of \<open>int\<close>.\<close>

fun f_trunc_i32 :: "flt \<Rightarrow> int option" where
  "f_trunc_i32 (Fin x) =
    (let t = (if 0 \<le> x then \<lfloor>x\<rfloor> else - \<lfloor>- x\<rfloor>)
     in if - (2 ^ 31) \<le> t \<and> t < 2 ^ 31 then Some t else None)"
| "f_trunc_i32 _ = None"

definition dividerCoefficient :: "flt \<Rightarrow> flt \<Rightarrow> flt" where
  "dividerCoefficient rVbat rGnd = f_div f64 (f_add f64 rGnd rVbat) rGnd"

definition readBatteryVoltageMilliV :: "adc_driver \<Rightarrow> flt \<Rightarrow> esp_err + int option" where
  "readBatteryVoltageMilliV d coefficient =
    (case adc_burst d ADC_READS_COUNT 0 0 of
       Inl err \<Rightarrow> Inl err
     | Inr voltage_sum \<Rightarrow>
         Inr (case c_div voltage_sum (int ADC_READS_COUNT) of
                None \<Rightarrow> None
              | Some pinVoltage \<Rightarrow> f_trunc_i32 (f_mul f64 coefficient (f_int f64 pinVoltage))))"

section \<open>The curve grows and stays within its ends\<close>

text \<open>A segment of the curve: two points, both columns increasing, with small coordinates.\<close>

definition segment :: "int \<times> int \<Rightarrow> int \<times> int \<Rightarrow> bool" where
  "segment p q \<longleftrightarrow> fst p < fst q \<and> snd p < snd q \<and>
     \<bar>fst p\<bar> \<le> 2 ^ 20 \<and> \<bar>fst q\<bar> \<le> 2 ^ 20 \<and> \<bar>snd p\<bar> \<le> 2 ^ 20 \<and> \<bar>snd q\<bar> \<le> 2 ^ 20"

definition slope_part :: "int \<times> int \<Rightarrow> int \<times> int \<Rightarrow> int \<Rightarrow> flt" where
  "slope_part p q mv = f64 (of_int ((mv - fst p) * (snd q - snd p)) / of_int (fst q - fst p))"

lemma interpolate_eq:
  assumes "segment p q" "fst p \<le> mv" "mv \<le> fst q"
  shows "interpolate p q mv = f_add f64 (Fin (of_int (snd p))) (slope_part p q mv)"
proof -
  have s: "\<bar>snd p\<bar> \<le> 2 ^ 53" "\<bar>fst q - fst p\<bar> \<le> 2 ^ 53" "\<bar>snd q - snd p\<bar> \<le> 2 ^ 53" "\<bar>mv - fst p\<bar> \<le> 2 ^ 53"
    "fst q - fst p \<noteq> 0"
    using assms by (auto simp: segment_def)
  have "\<bar>(mv - fst p) * (snd q - snd p)\<bar> \<le> 2 ^ 21 * 2 ^ 21"
    unfolding abs_mult using assms by (intro mult_mono) (auto simp: segment_def)
  then have "f_mul f64 (Fin (of_int (mv - fst p))) (Fin (of_int (snd q - snd p))) =
      Fin (of_int ((mv - fst p) * (snd q - snd p)))"
    by (simp only: f_mul.simps of_int_mult [symmetric]) (rule f64_int, simp)
  moreover have "(of_int (fst q - fst p) :: rat) \<noteq> 0" using s(5) by (simp only: of_int_eq_0_iff not_False_eq_True)
  ultimately show ?thesis
    unfolding interpolate_def slope_part_def
    by (simp only: f_int64 [OF s(1)] f_int64 [OF s(2)] f_int64 [OF s(3)] f_int64 [OF s(4)] f_div.simps if_False)
qed

lemma slope_part_in:
  assumes "segment p q" "fst p \<le> mv" "mv \<le> fst q"
  shows "f_in 0 (of_int (snd q - snd p)) (slope_part p q mv)"
proof -
  let ?x = "of_int ((mv - fst p) * (snd q - snd p)) / of_int (fst q - fst p) :: rat"
  have w: "(0 :: rat) < of_int (fst q - fst p)" using assms by (simp add: segment_def)
  have n: "0 \<le> (mv - fst p) * (snd q - snd p)" using assms by (simp add: segment_def)
  then have "(0 :: rat) \<le> of_int ((mv - fst p) * (snd q - snd p))" by (simp only: of_int_0_le_iff)
  then have "of_int 0 \<le> ?x" using w by simp
  moreover have "(mv - fst p) * (snd q - snd p) \<le> (snd q - snd p) * (fst q - fst p)"
    using assms by (simp only: mult.commute) (intro mult_mono, auto simp: segment_def)
  then have "(of_int ((mv - fst p) * (snd q - snd p)) :: rat) \<le> of_int ((snd q - snd p) * (fst q - fst p))"
    by (simp only: of_int_le_iff)
  then have "?x \<le> of_int (snd q - snd p)" using w by (simp only: pos_divide_le_eq of_int_mult)
  ultimately have "f_in (of_int 0) (of_int (snd q - snd p)) (slope_part p q mv)"
    unfolding slope_part_def using assms by (intro f64_in_int) (auto simp: segment_def)
  then show ?thesis by simp
qed

lemma interpolate_in:
  assumes "segment p q" "fst p \<le> mv" "mv \<le> fst q"
  shows "f_in (of_int (snd p)) (of_int (snd q)) (interpolate p q mv)"
proof -
  obtain r where r: "slope_part p q mv = Fin r" "0 \<le> r" "r \<le> of_int (snd q - snd p)"
    using slope_part_in [OF assms] by (elim f_inE)
  then have "of_int (snd p) \<le> of_int (snd p) + r" "of_int (snd p) + r \<le> of_int (snd q)" by simp_all
  then have "f_in (of_int (snd p)) (of_int (snd q)) (f64 (of_int (snd p) + r))"
    using assms(1) by (intro f64_in_int) (auto simp: segment_def)
  then show ?thesis by (simp add: interpolate_eq [OF assms] r(1))
qed

lemma interpolate_mono:
  assumes "segment p q" "fst p \<le> x" "x \<le> y" "y \<le> fst q"
  shows "f_le (interpolate p q x) (interpolate p q y)"
proof -
  have w: "(0 :: rat) < of_int (fst q - fst p)" using assms by (simp add: segment_def)
  have "(x - fst p) * (snd q - snd p) \<le> (y - fst p) * (snd q - snd p)"
    using assms by (intro mult_right_mono) (auto simp: segment_def)
  then have "(of_int ((x - fst p) * (snd q - snd p)) :: rat) \<le> of_int ((y - fst p) * (snd q - snd p))"
    by (simp only: of_int_le_iff)
  then have "f_le (slope_part p q x) (slope_part p q y)"
    unfolding slope_part_def using w by (intro f64_mono divide_right_mono) auto
  moreover obtain a b where "slope_part p q x = Fin a" "slope_part p q y = Fin b"
    using slope_part_in [of p q] assms by (meson f_inE order.trans)
  ultimately show ?thesis using assms by (simp add: interpolate_eq f64_mono)
qed

text \<open>The curve walked from its first point: the segment the binary search finds.\<close>

fun soc_walk :: "(int \<times> int) list \<Rightarrow> int \<Rightarrow> flt" where
  "soc_walk (p # q # curve) mv = (if mv \<le> fst q then interpolate p q mv else soc_walk (q # curve) mv)"
| "soc_walk _ mv = NaN"

fun increasing :: "(int \<times> int) list \<Rightarrow> bool" where
  "increasing (p # q # curve) \<longleftrightarrow> segment p q \<and> increasing (q # curve)"
| "increasing _ \<longleftrightarrow> True"

lemma search_is_walk:
  "fst p < mv \<Longrightarrow> mv \<le> fst (last (p # curve)) \<Longrightarrow>
   (let hi = lower_bound_mv (p # curve) mv
    in interpolate ((p # curve) ! (hi - 1)) ((p # curve) ! hi) mv) = soc_walk (p # curve) mv"
proof (induction curve arbitrary: p)
  case (Cons q curve)
  show ?case
  proof (cases "mv \<le> fst q")
    case True
    then show ?thesis using Cons.prems by (simp add: lower_bound_mv_def)
  next
    case False
    then show ?thesis using Cons.IH [of q] Cons.prems by (simp add: lower_bound_mv_def Let_def)
  qed
qed simp

lemma last_snd: "increasing (p # curve) \<Longrightarrow> snd p \<le> snd (last (p # curve))"
proof (induction curve arbitrary: p)
  case (Cons q curve)
  then have "snd q \<le> snd (last (q # curve))" "snd p < snd q" by (auto simp: segment_def)
  then show ?case by simp
qed simp

lemma soc_walk_in:
  "increasing (p # curve) \<Longrightarrow> curve \<noteq> [] \<Longrightarrow> fst p \<le> mv \<Longrightarrow> mv \<le> fst (last (p # curve)) \<Longrightarrow>
   f_in (of_int (snd p)) (of_int (snd (last (p # curve)))) (soc_walk (p # curve) mv)"
proof (induction curve arbitrary: p)
  case (Cons q curve)
  have s: "segment p q" "increasing (q # curve)" using Cons.prems by simp_all
  have pq: "snd p \<le> snd q" and l: "snd q \<le> snd (last (q # curve))"
    using s last_snd [OF s(2)] by (auto simp: segment_def)
  show ?case
  proof (cases "mv \<le> fst q")
    case True
    show ?thesis
      using interpolate_in [OF s(1) Cons.prems(3) True] l True by (auto elim!: f_in_mono)
  next
    case False
    then have "f_in (of_int (snd q)) (of_int (snd (last (q # curve)))) (soc_walk (q # curve) mv)"
      using Cons by (intro Cons.IH) auto
    then show ?thesis using False pq by (auto elim!: f_in_mono)
  qed
qed simp

lemma soc_walk_mono:
  "increasing (p # curve) \<Longrightarrow> curve \<noteq> [] \<Longrightarrow> fst p \<le> x \<Longrightarrow> x \<le> y \<Longrightarrow> y \<le> fst (last (p # curve)) \<Longrightarrow>
   f_le (soc_walk (p # curve) x) (soc_walk (p # curve) y)"
proof (induction curve arbitrary: p)
  case (Cons q curve)
  have s: "segment p q" "increasing (q # curve)" using Cons.prems by simp_all
  consider "y \<le> fst q" | "x \<le> fst q" "fst q < y" | "fst q < x" by linarith
  then show ?case
  proof cases
    case 1
    then show ?thesis using interpolate_mono [OF s(1)] Cons.prems by simp
  next
    case 2
    then have "curve \<noteq> []" using Cons.prems by auto
    then have "f_le (Fin (of_int (snd q))) (soc_walk (q # curve) y)"
      using soc_walk_in [OF s(2), of y] 2 Cons.prems by (simp add: f_in_f_le)
    moreover have "f_le (interpolate p q x) (Fin (of_int (snd q)))"
      using interpolate_in [OF s(1), of x] 2 Cons.prems by (simp add: f_in_f_le)
    ultimately show ?thesis using 2 by (simp add: f_le_trans)
  next
    case 3
    then have "curve \<noteq> []" using Cons.prems by auto
    then have "f_le (soc_walk (q # curve) x) (soc_walk (q # curve) y)"
      using 3 Cons.prems s by (intro Cons.IH) auto
    then show ?thesis using 3 Cons.prems by simp
  qed
qed simp

lemma curve_increasing: "increasing BATTERY_CURVE"
  by (simp add: BATTERY_CURVE_def segment_def)

lemma curve_ends:
  "hd BATTERY_CURVE = (3270, 0)" "last BATTERY_CURVE = (4200, 100)" "tl BATTERY_CURVE \<noteq> []"
  by (simp_all add: BATTERY_CURVE_def)

lemma curve_eq: "BATTERY_CURVE = (3270, 0) # tl BATTERY_CURVE"
  by (simp add: BATTERY_CURVE_def)

lemmas curve_search = search_is_walk [of "(3270, 0)" _ "tl BATTERY_CURVE", folded curve_eq]
lemmas curve_walk_in = soc_walk_in [of "(3270, 0)" "tl BATTERY_CURVE", folded curve_eq]
lemmas curve_walk_mono = soc_walk_mono [of "(3270, 0)" "tl BATTERY_CURVE", folded curve_eq]

lemma etalonSoc_walk:
  "etalonSoc mv = (if mv \<le> 3270 then Fin 0 else if mv \<ge> 4200 then Fin 100 else soc_walk BATTERY_CURVE mv)"
  using curve_search [of mv] by (auto simp: etalonSoc_def curve_ends)

lemma etalonSoc_in: "f_in 0 100 (etalonSoc mv)"
  using curve_walk_in [OF curve_increasing curve_ends(3), of mv]
  by (auto simp: etalonSoc_walk curve_ends)

lemma etalonSoc_mono:
  assumes "x \<le> y"
  shows "f_le (etalonSoc x) (etalonSoc y)"
proof -
  have e: "f_le (Fin 0) (etalonSoc v)" "f_le (etalonSoc v) (Fin 100)" for v
    using etalonSoc_in [of v] by (simp_all add: f_in_f_le)
  have "f_le (soc_walk BATTERY_CURVE x) (soc_walk BATTERY_CURVE y)" if "3270 < x" "y < 4200"
    using curve_walk_mono [OF curve_increasing curve_ends(3), of x y] that assms by (simp add: curve_ends)
  with e [of x] e [of y] assms show ?thesis
    by (auto simp: etalonSoc_walk split: if_splits)
qed

text \<open>A value of the \<open>double\<close> format.\<close>

definition is_f64 :: "flt \<Rightarrow> bool" where
  "is_f64 v \<longleftrightarrow> (\<forall>r. v = Fin r \<longrightarrow> representable 53 (- 1074) r)"

lemma is_f64_f64 [simp]: "is_f64 (f64 x)"
  using representable_fl [of 53 "- 1074"] by (auto simp: is_f64_def f64_def mkflt_def Let_def)

lemma is_f64_add: "is_f64 (f_add f64 a b)"
  by (cases a; cases b) (simp_all add: is_f64_def [of "Fin r" for r] is_f64_def [of PInf] is_f64_def [of NInf] is_f64_def [of NaN])

lemma etalonSoc_f64: "is_f64 (etalonSoc mv)"
proof -
  have "representable 53 (- 1074) (of_int 0)" "representable 53 (- 1074) (of_int 100)"
    by (rule representable_int64, simp)+
  then have "is_f64 (Fin 0)" "is_f64 (Fin 100)" by (simp_all add: is_f64_def)
  moreover have "is_f64 (soc_walk curve mv)" for curve
    by (induction curve mv rule: soc_walk.induct) (simp_all add: interpolate_def is_f64_add is_f64_def [of NaN])
  ultimately show ?thesis by (auto simp: etalonSoc_walk)
qed

text \<open>The difference of the two anchors, where it is not degenerate.\<close>

lemma anchor_span:
  assumes "\<not> f_le (etalonSoc maxMv) (etalonSoc minMv)"
  obtains d where "f_sub f64 (etalonSoc maxMv) (etalonSoc minMv) = Fin d" "0 < d"
proof -
  obtain a b where ab: "etalonSoc maxMv = Fin a" "etalonSoc minMv = Fin b" "a \<le> 100" "0 \<le> b"
    using etalonSoc_in by (metis f_inE)
  with assms have "b < a" by simp
  moreover have "representable 53 (- 1074) a" "representable 53 (- 1074) b"
    using etalonSoc_f64 [of maxMv] etalonSoc_f64 [of minMv] ab by (auto simp: is_f64_def)
  ultimately have "0 < fl 53 (- 1074) (a - b)" by (intro fl_diff_pos) auto
  moreover have "f_in (of_int 0) (of_int 100) (f64 (a - b))"
    using ab \<open>b < a\<close> by (intro f64_in_int) auto
  ultimately obtain d where "f64 (a - b) = Fin d" "0 < d"
    by (auto simp: f64_def mkflt_def Let_def elim!: f_inE split: if_splits)
  then show ?thesis using that by (simp add: ab f_sub_def)
qed

lemma f_std_round_mono: "f_le u v \<Longrightarrow> f_le (f_std_round u) (f_std_round v)"
proof (cases u; cases v)
  fix x y
  assume uv: "u = Fin x" "v = Fin y" and "f_le u v"
  then have xy: "x \<le> y" by simp
  have "\<lfloor>x + 1 / 2\<rfloor> \<le> \<lfloor>y + 1 / 2\<rfloor>" "\<lfloor>1 / 2 - y\<rfloor> \<le> \<lfloor>1 / 2 - x\<rfloor>" using xy by (intro floor_mono; simp)+
  then have m: "(of_int \<lfloor>x + 1 / 2\<rfloor> :: rat) \<le> of_int \<lfloor>y + 1 / 2\<rfloor>"
    "- of_int \<lfloor>1 / 2 - x\<rfloor> \<le> (- of_int \<lfloor>1 / 2 - y\<rfloor> :: rat)"
    by (simp_all only: of_int_le_iff neg_le_iff_le)
  consider "0 \<le> x" | "x < 0" "0 \<le> y" | "y < 0" using xy by linarith
  then show ?thesis
  proof cases
    case 2
    then have "(0 :: rat) \<le> of_int \<lfloor>y + 1 / 2\<rfloor>" "- of_int \<lfloor>1 / 2 - x\<rfloor> \<le> (0 :: rat)" by simp_all
    then have "- of_int \<lfloor>1 / 2 - x\<rfloor> \<le> (of_int \<lfloor>y + 1 / 2\<rfloor> :: rat)" by linarith
    with 2 show ?thesis by (simp add: uv)
  qed (use m xy uv in simp_all)
qed auto

lemma f_std_round_int: "f_std_round (Fin (of_int k)) = Fin (of_int k)"
proof -
  have "\<lfloor>(of_int k :: rat) + 1 / 2\<rfloor> = k" "\<lfloor>1 / 2 - (of_int k :: rat)\<rfloor> = - k" by linarith+
  then show ?thesis by simp
qed

text \<open>The tail of the conversion: clamp, scale, round to two decimals, narrow.\<close>

definition to_percent :: "flt \<Rightarrow> flt" where
  "to_percent v = f_round f32 (f_div f64 (f_std_round (f_mul f64 (f_clamp v (Fin 0) (Fin 100)) (Fin 100))) (Fin 100))"

lemma to_percent_mono: "f_le u v \<Longrightarrow> f_le (to_percent u) (to_percent v)"
  unfolding to_percent_def
  by (intro f_round_mono f_div_mono f_std_round_mono f_mul_mono f_clamp_mono) simp_all

lemma to_percent_ends: "to_percent (Fin 0) = Fin 0" "to_percent (Fin 100) = Fin 100"
proof -
  have e: "f64 (of_int 0) = Fin (of_int 0)" "f64 (of_int 10000) = Fin (of_int 10000)"
    "f64 (of_int 100) = Fin (of_int 100)" "f32 (of_int 100) = Fin (of_int 100)" "f32 (of_int 0) = Fin (of_int 0)"
    by (rule f64_int f32_int, simp)+
  note r = f_std_round_int [of 10000] f_std_round_int [of 0]
  show "to_percent (Fin 0) = Fin 0" "to_percent (Fin 100) = Fin 100"
    using e r by (simp_all add: to_percent_def f_clamp_def del: f_std_round.simps)
qed

lemma to_percent_in: "v \<noteq> NaN \<Longrightarrow> f_in 0 100 (to_percent v)"
proof -
  assume v: "v \<noteq> NaN"
  define c where "c = f_clamp v (Fin 0) (Fin 100)"
  have "to_percent v = to_percent c" by (simp add: to_percent_def c_def f_clamp_idem)
  moreover have "f_in 0 100 c" using v by (simp add: c_def f_clamp_in)
  then have "f_le (Fin 0) c" "f_le c (Fin 100)" by (simp_all add: f_in_f_le)
  ultimately show ?thesis
    using to_percent_mono [of "Fin 0" c] to_percent_mono [of c "Fin 100"] by (simp add: f_in_f_le to_percent_ends)
qed

definition normalized :: "int \<Rightarrow> int \<Rightarrow> int \<Rightarrow> flt" where
  "normalized mv minMv maxMv =
    f_mul f64 (f_div f64 (f_sub f64 (etalonSoc mv) (etalonSoc minMv)) (f_sub f64 (etalonSoc maxMv) (etalonSoc minMv)))
      (Fin 100)"

definition usable_anchors :: "int \<Rightarrow> int \<Rightarrow> bool" where
  "usable_anchors minMv maxMv \<longleftrightarrow> minMv < maxMv \<and> \<not> f_le (etalonSoc maxMv) (etalonSoc minMv)"

lemma percent_eq:
  "convertVoltageToPercent mv minMv maxMv =
    (if usable_anchors minMv maxMv then to_percent (normalized mv minMv maxMv) else Fin 0)"
  by (auto simp: convertVoltageToPercent_def usable_anchors_def to_percent_def normalized_def Let_def)

lemma normalized_mono:
  assumes "usable_anchors minMv maxMv" "x \<le> y"
  shows "f_le (normalized x minMv maxMv) (normalized y minMv maxMv)"
proof -
  obtain d where d: "f_sub f64 (etalonSoc maxMv) (etalonSoc minMv) = Fin d" "0 < d"
    using assms(1) anchor_span by (auto simp: usable_anchors_def)
  obtain a b c where abc: "etalonSoc x = Fin a" "etalonSoc y = Fin b" "etalonSoc minMv = Fin c"
    using etalonSoc_in by (metis f_inE)
  have "a \<le> b" using etalonSoc_mono [OF assms(2)] abc by simp
  then have "f_le (f_sub f64 (etalonSoc x) (Fin c)) (f_sub f64 (etalonSoc y) (Fin c))"
    by (simp add: abc f_sub_def f64_mono)
  then show ?thesis unfolding normalized_def d(1) [unfolded abc(3)] abc(3) using d(2) by (intro f_mul_mono f_div_mono) simp_all
qed

section \<open>The handles and the burst\<close>

definition no_handles :: "adc_handles \<Rightarrow> bool" where
  "no_handles a \<longleftrightarrow> \<not> adc1_handle a \<and> \<not> adc1_cali_chan0_handle a"

lemma deinit_no_handles: "no_handles (deinitAdc a)"
  by (simp add: deinitAdc_def no_handles_def Let_def)

lemma to_i32_id: "- (2 ^ 31) \<le> x \<Longrightarrow> x < 2 ^ 31 \<Longrightarrow> to_i32 x = x"
  by (simp add: to_i32_def)

lemma adc_burst_sum:
  "(\<And>k. i \<le> k \<Longrightarrow> k < i + n \<Longrightarrow> d_read d k = (ESP_OK, raw k) \<and> d_raw_to_voltage d (raw k) = (ESP_OK, mv k) \<and>
      0 \<le> mv k \<and> mv k \<le> hi) \<Longrightarrow>
   0 \<le> s \<Longrightarrow> s + int n * hi < 2 ^ 31 \<Longrightarrow>
   adc_burst d n i s = Inr (s + (\<Sum>k = i..<i + n. mv k))"
proof (induction n arbitrary: i s)
  case (Suc n)
  have v: "d_read d i = (ESP_OK, raw i)" "d_raw_to_voltage d (raw i) = (ESP_OK, mv i)" "0 \<le> mv i" "mv i \<le> hi"
    using Suc.prems(1) [of i] by auto
  have "0 \<le> int n * hi" using v by simp
  moreover have "int (Suc n) * hi = int n * hi + hi" by (simp add: distrib_right)
  ultimately have b: "s + mv i + int n * hi < 2 ^ 31" "s + mv i < 2 ^ 31" using v Suc.prems(3) by linarith+
  then have "to_i32 (s + mv i) = s + mv i" using v Suc.prems(2) by (intro to_i32_id) auto
  moreover have "adc_burst d n (Suc i) (s + mv i) = Inr (s + mv i + (\<Sum>k = Suc i..<Suc i + n. mv k))"
    using v Suc.prems(1,2) b by (intro Suc.IH) auto
  moreover have "(\<Sum>k = i..<i + Suc n. mv k) = mv i + (\<Sum>k = Suc i..<Suc i + n. mv k)"
    by (simp add: sum.atLeast_Suc_lessThan)
  ultimately show ?case using v by simp
qed simp

lemma adc_burst_error: "adc_burst d n i s = Inl e \<Longrightarrow> e \<noteq> ESP_OK"
  by (induction n arbitrary: i s) (auto split: prod.splits if_splits)

section \<open>Properties\<close>

text \<open>
  The battery percentage is a number within 0 and 100 for every voltage and every pair of anchors,
  degenerate and inverted ones included.
\<close>

theorem percent_in_range: "f_in 0 100 (convertVoltageToPercent mv minMv maxMv)"
proof (cases "usable_anchors minMv maxMv")
  case True
  have "f_le (normalized mv minMv maxMv) (normalized mv minMv maxMv)" by (rule normalized_mono [OF True]) simp
  then show ?thesis by (simp add: percent_eq True to_percent_in)
qed (simp add: percent_eq)

text \<open>C31: The percentage never falls when the voltage rises, whatever the roundings do.\<close>

theorem percent_monotone:
  "x \<le> y \<Longrightarrow> f_le (convertVoltageToPercent x minMv maxMv) (convertVoltageToPercent y minMv maxMv)"
  by (simp add: percent_eq normalized_mono to_percent_mono)

theorem percent_monotone_witness:
  "f_le (convertVoltageToPercent 3610 3300 4120) (convertVoltageToPercent 3840 3300 4120)"
  by (rule percent_monotone) simp

text \<open>
  With usable anchors the two anchor voltages are exactly 0 and 100 percent, so everything at or below
  the lower one is 0 and everything at or above the upper one is 100.
\<close>

theorem anchors_are_exact:
  assumes "usable_anchors minMv maxMv"
  shows "(x \<le> minMv \<longrightarrow> convertVoltageToPercent x minMv maxMv = Fin 0) \<and>
    (maxMv \<le> x \<longrightarrow> convertVoltageToPercent x minMv maxMv = Fin 100)"
proof -
  obtain d where d: "f_sub f64 (etalonSoc maxMv) (etalonSoc minMv) = Fin d" "0 < d"
    using assms anchor_span by (auto simp: usable_anchors_def)
  obtain c where c: "etalonSoc minMv = Fin c" using etalonSoc_in by (metis f_inE)
  have e: "f64 (of_int 0) = Fin (of_int 0)" "f64 (of_int 1) = Fin (of_int 1)" "f64 (of_int 100) = Fin (of_int 100)"
    by (rule f64_int, simp)+
  have "f_sub f64 (Fin c) (Fin c) = Fin 0" using e by (simp add: f_sub_def)
  then have "normalized minMv minMv maxMv = Fin 0" "normalized maxMv minMv maxMv = Fin 100"
    unfolding normalized_def d(1) [unfolded c] c using d(2) e by simp_all
  then have ends: "convertVoltageToPercent minMv minMv maxMv = Fin 0" "convertVoltageToPercent maxMv minMv maxMv = Fin 100"
    by (simp_all add: percent_eq assms to_percent_ends)
  have mono: "f_le (convertVoltageToPercent u minMv maxMv) (convertVoltageToPercent v minMv maxMv)" if "u \<le> v" for u v
    using that by (simp add: percent_eq normalized_mono to_percent_mono)
  have within: "f_in 0 100 (convertVoltageToPercent x minMv maxMv)"
    using normalized_mono [OF assms, of x x] by (simp add: percent_eq assms to_percent_in)
  show ?thesis using mono [of x minMv] mono [of maxMv x] within by (auto simp: ends elim!: f_inE)
qed

lemma soc_default_anchors:
  "f_in 0 5 (etalonSoc 3300)" "f_in 90 95 (etalonSoc 4120)"
  using interpolate_in [of "(3270, 0)" "(3610, 5)" 3300] interpolate_in [of "(4110, 90)" "(4150, 95)" 4120]
  by (simp_all add: etalonSoc_walk BATTERY_CURVE_def segment_def)

lemma default_anchors_usable: "usable_anchors MIN_VOLTAGE MAX_VOLTAGE"
  using soc_default_anchors by (auto simp: usable_anchors_def MIN_VOLTAGE_def MAX_VOLTAGE_def elim!: f_inE)

theorem anchors_are_exact_witness:
  "convertVoltageToPercent 3000 MIN_VOLTAGE MAX_VOLTAGE = Fin 0 \<and>
   convertVoltageToPercent 4200 MIN_VOLTAGE MAX_VOLTAGE = Fin 100"
  using anchors_are_exact [OF default_anchors_usable, of 3000] anchors_are_exact [OF default_anchors_usable, of 4200]
  by (simp add: MIN_VOLTAGE_def MAX_VOLTAGE_def)

text \<open>
  Every path through the ADC set-up that fails gives back both handles, and after the read the
  release leaves none: no ADC unit is held when the task blocks.
\<close>

theorem no_adc_handle_outlives_measurement:
  assumes "no_handles a"
  shows "(fst (initAdc d a) \<noteq> ESP_OK \<longrightarrow> no_handles (snd (initAdc d a))) \<and>
    (fst (initAdc d a) = ESP_OK \<longrightarrow> adc1_handle (snd (initAdc d a)) \<and> adc1_cali_chan0_handle (snd (initAdc d a))) \<and>
    no_handles (deinitAdc (snd (initAdc d a)))"
  using assms deinit_no_handles
  by (auto simp: initAdc_def Let_def split: prod.splits) (auto simp: no_handles_def)

definition good_driver :: adc_driver where
  "good_driver = \<lparr>d_io_to_channel = (ESP_OK, True, 2), d_new_unit = ESP_OK, d_config_channel = ESP_OK,
     d_curve_fitting = Some ESP_OK, d_line_fitting = None,
     d_read = (\<lambda>k. (ESP_OK, 2000 + int k)), d_raw_to_voltage = (\<lambda>raw. (ESP_OK, raw))\<rparr>"

theorem no_adc_handle_outlives_measurement_witness:
  "no_handles (deinitAdc (snd (initAdc good_driver \<lparr>adc1_handle = False, adc1_cali_chan0_handle = False, m_adcChannel = 2\<rparr>)))"
  using no_adc_handle_outlives_measurement [of "\<lparr>adc1_handle = False, adc1_cali_chan0_handle = False, m_adcChannel = 2\<rparr>"]
  by (simp add: no_handles_def)

text \<open>
  When all ten reads succeed with values up to 3300 mV, the reported voltage is the truncated mean of
  the ten times the divider coefficient, truncated again.
\<close>

theorem battery_is_scaled_mean:
  assumes "\<And>k. k < 10 \<Longrightarrow> d_read d k = (ESP_OK, raw k) \<and> d_raw_to_voltage d (raw k) = (ESP_OK, mv k) \<and>
    0 \<le> mv k \<and> mv k \<le> 3300"
  shows "readBatteryVoltageMilliV d coefficient =
    Inr (f_trunc_i32 (f_mul f64 coefficient (f_int f64 ((\<Sum>k = 0..<10. mv k) div 10))))"
proof -
  have "adc_burst d 10 0 0 = Inr (0 + (\<Sum>k = 0..<0 + 10. mv k))"
    by (rule adc_burst_sum [where hi = 3300 and raw = raw]) (use assms in auto)
  moreover have "0 \<le> (\<Sum>k = 0..<10. mv k)" by (rule sum_nonneg) (use assms in auto)
  then have "c_div (\<Sum>k = 0..<10. mv k) 10 = Some ((\<Sum>k = 0..<10. mv k) div 10)"
    by (auto simp: c_div_def sgn_if)
  ultimately show ?thesis by (simp add: readBatteryVoltageMilliV_def ADC_READS_COUNT_def)
qed

theorem battery_is_scaled_mean_witness:
  "readBatteryVoltageMilliV good_driver (Fin 2) = Inr (Some 4008)"
proof -
  have s: "(\<Sum>k = 0..<10. 2000 + int k) = 20045" by (simp add: eval_nat_numeral)
  have e: "f64 (of_int 4008) = Fin (of_int 4008)" by (rule f64_int) simp
  show ?thesis
    using battery_is_scaled_mean [of good_driver "\<lambda>k. 2000 + int k" "\<lambda>k. 2000 + int k" "Fin 2"] s e
    by (simp add: good_driver_def)
qed

end
