(* ===== verification/SensorsTask.thy ===== *)
theory SensorsTask
  imports SeqLock HistoryLog Battery
begin

text \<open>
  The HP firmware's main task, \<open>SensorsTask::executeTask\<close> of \<open>main/sensorstask.cpp\<close>: one pass of its loop,
  phase by phase. It reads the snapshot of the LP program's state (\<open>SeqLock\<close>), publishes what is flagged
  with the battery reading (\<open>Battery\<close>), acknowledges or stores the value (\<open>HistoryLog\<close>), supervises the LP
  core and an unconfirmed image, and waits.

  What the network, the OTA updater, MQTT and the boot loader answer during one pass is the record
  \<open>cycle_env\<close>. Calls into other tasks are recorded as a list of \<open>task_action\<close>s in their order.
  A pass is \<open>None\<close> where the battery voltage does not fit an \<open>int\<close> (undefined behaviour).
\<close>

section \<open>State\<close>

record SensorsValues =
  batteryVoltageMilliV :: "int option"
  batteryPercent :: "flt option"
  envTemperature :: "flt option"
  envHumidity :: "flt option"
  barometricPressure :: "flt option"
  heaterProblem :: "bool option"
  heaterRunCount :: "u32 option"

definition no_values :: SensorsValues where
  "no_values = \<lparr>batteryVoltageMilliV = None, batteryPercent = None, envTemperature = None,
     envHumidity = None, barometricPressure = None, heaterProblem = None, heaterRunCount = None\<rparr>"

record SensorsTaskSettings =
  lpPollIntervalSec :: u32
  maxSkipCycles :: u32
  readVoltageViaAdc :: bool
  batteryDividerRVbatOhm :: flt
  batteryDividerRGndOhm :: flt

datatype wake_reason = LpWake | OtaRetryTimeout | SafeguardTimeout

datatype ota_img_state =
  ESP_OTA_IMG_NEW | ESP_OTA_IMG_PENDING_VERIFY | ESP_OTA_IMG_VALID | ESP_OTA_IMG_INVALID
  | ESP_OTA_IMG_ABORTED | ESP_OTA_IMG_UNDEFINED

text \<open>\<open>ota_state\<close> is what \<open>esp_ota_get_state_partition\<close> says of the running image (\<open>None\<close>: an error).\<close>

record sensors_task =
  m_settings :: SensorsTaskSettings
  m_voltageDividerCoefficient :: flt
  m_adc :: adc_handles
  m_lpStalledCycles :: u32
  m_cyclesUnconfirmedAndFailing :: u32
  m_lastSeenHeaterRunCycle :: u32
  m_lastSeenHeartbeat :: u32
  wakeReason :: wake_reason
  s_checked :: bool
  ota_state :: "ota_img_state option"
  s_history :: history_log

definition LP_STALL_REBOOT_THRESHOLD :: u32 where "LP_STALL_REBOOT_THRESHOLD = 2"
definition UNCONFIRMED_OTA_REBOOT_AFTER_CYCLES :: u32 where "UNCONFIRMED_OTA_REBOOT_AFTER_CYCLES = 5"
definition ATTACH_TIMEOUT_MS :: u32 where "ATTACH_TIMEOUT_MS = 30 * 1000"
definition PUBLISH_TIMEOUT_MS :: u32 where "PUBLISH_TIMEOUT_MS = 15 * 1000"

definition safeguardWakeSec :: "u32 \<Rightarrow> u32 \<Rightarrow> u32" where
  "safeguardWakeSec pollSec maxSkip = (maxSkip + 3) * pollSec"

definition SensorsTask_new :: "SensorsTaskSettings \<Rightarrow> ota_img_state option \<Rightarrow> sensors_task" where
  "SensorsTask_new settings img =
    \<lparr>m_settings = settings,
     m_voltageDividerCoefficient =
       dividerCoefficient (batteryDividerRVbatOhm settings) (batteryDividerRGndOhm settings),
     m_adc = \<lparr>adc1_handle = False, adc1_cali_chan0_handle = False, m_adcChannel = 2\<rparr>,
     m_lpStalledCycles = 0, m_cyclesUnconfirmedAndFailing = 0, m_lastSeenHeaterRunCycle = 0,
     m_lastSeenHeartbeat = 0, wakeReason = LpWake, s_checked = False, ota_state = img,
     s_history = empty_log\<rparr>"

datatype task_action =
    TxPowerNote bool
  | Publish SensorsValues
  | HpOp hp_op
  | MarkAppValid
  | BlinkUserLED nat
  | RefreshNat64
  | MarkLpStallReboot
  | MarkOtaUnconfirmedReboot
  | EspRestart
  | WaitForWake u32

text \<open>
  The environment of one pass. \<open>e_gate\<close> and \<open>e_ready_event\<close> and \<open>e_nat64\<close> are the injected callbacks
  (\<open>None\<close> or \<open>False\<close> when not configured; the gate with its answer for a timeout); \<open>e_mem\<close> and \<open>e_clk\<close> are
  the shared memory as the snapshot reads it; \<open>e_ota_running k\<close> and \<open>e_ota_due k\<close> are the answers of
  \<open>ota_session_in_progress\<close> and \<open>ota_update_due\<close> at their \<open>k\<close>-th place in the pass, since another task may
  change them in between; \<open>e_idle\<close> is \<open>mqtt_wait_for_idle\<close>; \<open>e_mark_ok\<close> says
  whether marking the image valid succeeds (the code ignores the result); \<open>e_ticks\<close> and \<open>e_woken\<close> are the wait.
\<close>

record cycle_env =
  e_gate :: "(u32 \<Rightarrow> bool) option"
  e_mem :: "nat \<Rightarrow> lp_shared_state"
  e_clk :: "nat \<Rightarrow> nat"
  e_ota_running :: "nat \<Rightarrow> bool"
  e_ota_due :: "nat \<Rightarrow> bool"
  e_ready_event :: bool
  e_mqtt_busy :: bool
  e_idle :: "u32 \<Rightarrow> bool"
  e_publish_succeeded :: bool
  e_mark_ok :: bool
  e_adc :: adc_driver
  e_now_us :: int
  e_nat64 :: bool
  e_glue :: hp_glue
  e_ticks :: "u32 \<Rightarrow> u32"
  e_woken :: "u32 \<Rightarrow> bool"

record cycle_flags =
  publishedOk :: bool
  quietCycle :: bool
  lpStalledThisCycle :: bool
  lpProgressedThisCycle :: bool

section \<open>One pass\<close>

definition attached :: "cycle_env \<Rightarrow> bool" where
  "attached e = (case e_gate e of None \<Rightarrow> True | Some gate \<Rightarrow> gate ATTACH_TIMEOUT_MS)"

definition snapshot :: "cycle_env \<Rightarrow> lp_shared_state" where
  "snapshot e = snd (lp_sensor_core_get_state (e_mem e) (e_clk e) zero_shared)"

definition markAppValidOnFirstConfirmedPublish :: "bool \<Rightarrow> sensors_task \<Rightarrow> task_action list \<times> sensors_task" where
  "markAppValidOnFirstConfirmedPublish mark_ok t =
    (if s_checked t then ([], t)
     else
       (let t = t\<lparr>s_checked := True\<rparr> in
        if ota_state t = Some ESP_OTA_IMG_PENDING_VERIFY
        then ([MarkAppValid], if mark_ok then t\<lparr>ota_state := Some ESP_OTA_IMG_VALID\<rparr> else t) else ([], t)))"

text \<open>The battery fields: created, read and released within the pass.\<close>

definition battery_fields ::
  "adc_driver \<Rightarrow> sensors_task \<Rightarrow> SensorsValues \<Rightarrow> (SensorsValues \<times> sensors_task) option" where
  "battery_fields d t v =
    (if \<not> readVoltageViaAdc (m_settings t) then Some (v, t)
     else
       (let (err, a) = initAdc d (m_adc t); t = t\<lparr>m_adc := a\<rparr> in
        if err = ESP_OK then
          (case readBatteryVoltageMilliV d (m_voltageDividerCoefficient t) of
             Inl _ \<Rightarrow> Some (v, t\<lparr>m_adc := deinitAdc a\<rparr>)
           | Inr None \<Rightarrow> None
           | Inr (Some milliVolts) \<Rightarrow>
               Some (v\<lparr>batteryVoltageMilliV := Some milliVolts,
                       batteryPercent := Some (convertVoltageToPercent milliVolts MIN_VOLTAGE MAX_VOLTAGE)\<rparr>,
                     t\<lparr>m_adc := deinitAdc a\<rparr>))
        else Some (v, t)))"

definition sensor_fields :: "lp_shared_state \<Rightarrow> SensorsValues" where
  "sensor_fields s =
    (let v = no_values\<lparr>envTemperature := Some (cal_temp_c s), envHumidity := Some (cal_hum_pct s)\<rparr> in
     if last_heater_run_cycle s \<noteq> 0
     then v\<lparr>heaterProblem := Some (last_heater_passed s = 0), heaterRunCount := Some (heater_run_count s)\<rparr>
     else v)"

text \<open>What happens after the ready event: wait for the publish, take its outcome, acknowledge or store.\<close>

definition publish_outcome ::
  "cycle_env \<Rightarrow> lp_shared_state \<Rightarrow> bool \<Rightarrow> sensors_task \<Rightarrow> task_action list \<times> bool \<times> sensors_task" where
  "publish_outcome e s otaOnly t =
    (if e_mqtt_busy e then
       (if e_idle e PUBLISH_TIMEOUT_MS then
          (if e_publish_succeeded e then
             (let (marks, t) = markAppValidOnFirstConfirmedPublish (e_mark_ok e) t in
              (TxPowerNote True # (if otaOnly then [] else [HpOp (AckDelivered (cal_temp_c s) (cal_hum_pct s))]) @ marks,
               True, t))
           else
             ([TxPowerNote False], False,
              if otaOnly then t
              else t\<lparr>s_history := history_log_append (e_now_us e) (cal_temp_c s) (cal_hum_pct s) (s_history t)\<rparr>))
        else if e_ota_running e 1 then ([], False, t)
        else ([TxPowerNote False], False, t))
     else ([], False, t))"

definition publish_cycle ::
  "cycle_env \<Rightarrow> lp_shared_state \<Rightarrow> bool \<Rightarrow> sensors_task \<Rightarrow> (task_action list \<times> bool \<times> sensors_task) option" where
  "publish_cycle e s shouldWake t =
    (let otaOnly = \<not> shouldWake in
     case (if otaOnly then Some (no_values, t) else battery_fields (e_adc e) t (sensor_fields s)) of
       None \<Rightarrow> None
     | Some (v, t) \<Rightarrow>
         (let (acts, ok, t) = publish_outcome e s otaOnly t
          in Some ((if e_ready_event e then [Publish v] else []) @ acts, ok, t)))"

definition no_flags :: cycle_flags where
  "no_flags = \<lparr>publishedOk = False, quietCycle = False, lpStalledThisCycle = False,
     lpProgressedThisCycle = False\<rparr>"

text \<open>The first half of the pass: from the attach gate to the outcome of the publish.\<close>

definition service :: "cycle_env \<Rightarrow> sensors_task \<Rightarrow> (task_action list \<times> cycle_flags \<times> sensors_task) option" where
  "service e t =
    (if \<not> attached e then Some ([TxPowerNote False], no_flags, t)
     else
       (let s = snapshot e;
            heartbeatDelta = heartbeat_counter s - m_lastSeenHeartbeat t;
            t = t\<lparr>m_lastSeenHeartbeat := heartbeat_counter s\<rparr>;
            f = no_flags\<lparr>lpProgressedThisCycle := heartbeatDelta > 0\<rparr>;
            t = (if last_heater_run_cycle s \<noteq> m_lastSeenHeaterRunCycle t
                 then t\<lparr>m_lastSeenHeaterRunCycle := last_heater_run_cycle s\<rparr> else t);
            shouldWake = (heartbeatDelta > 0 \<and> should_wake_hp s \<noteq> 0)
        in
        if e_ota_running e 0 then Some ([], f\<lparr>quietCycle := True\<rparr>, t)
        else if wakeReason t = SafeguardTimeout \<and> heartbeatDelta = 0
        then Some ([], f\<lparr>lpStalledThisCycle := True\<rparr>, t)
        else if shouldWake \<or> e_ota_due e 0 then
          (case publish_cycle e s shouldWake t of
             None \<Rightarrow> None
           | Some (acts, ok, t) \<Rightarrow> Some (acts, f\<lparr>publishedOk := ok\<rparr>, t))
        else Some ([], f\<lparr>quietCycle := True\<rparr>, t)))"

definition cycleOk :: "cycle_env \<Rightarrow> cycle_flags \<Rightarrow> bool" where
  "cycleOk e f \<longleftrightarrow> publishedOk f \<or> attached e \<and> quietCycle f \<or> e_ota_running e 2"

text \<open>The supervisors. The \<open>bool\<close> says that \<open>esp_restart\<close> was called, which does not return.\<close>

definition stall_supervisor :: "cycle_flags \<Rightarrow> sensors_task \<Rightarrow> task_action list \<times> bool \<times> sensors_task" where
  "stall_supervisor f t =
    (if lpStalledThisCycle f then
       (let t = t\<lparr>m_lpStalledCycles := m_lpStalledCycles t + 1\<rparr> in
        if m_lpStalledCycles t \<ge> LP_STALL_REBOOT_THRESHOLD
        then ([MarkLpStallReboot, EspRestart], True, t) else ([], False, t))
     else if lpProgressedThisCycle f then ([], False, t\<lparr>m_lpStalledCycles := 0\<rparr>)
     else ([], False, t))"

definition image_supervisor :: "bool \<Rightarrow> sensors_task \<Rightarrow> task_action list \<times> bool \<times> sensors_task" where
  "image_supervisor ok t =
    (if ota_state t = Some ESP_OTA_IMG_PENDING_VERIFY \<and> \<not> ok then
       (let t = t\<lparr>m_cyclesUnconfirmedAndFailing := m_cyclesUnconfirmedAndFailing t + 1\<rparr> in
        if m_cyclesUnconfirmedAndFailing t \<ge> UNCONFIRMED_OTA_REBOOT_AFTER_CYCLES
        then ([MarkOtaUnconfirmedReboot, EspRestart], True, t) else ([], False, t))
     else ([], False, t\<lparr>m_cyclesUnconfirmedAndFailing := 0\<rparr>))"

definition supervise ::
  "cycle_env \<Rightarrow> cycle_flags \<Rightarrow> sensors_task \<Rightarrow> task_action list \<times> bool \<times> sensors_task" where
  "supervise e f t =
    (let ok = cycleOk e f;
         led = (if publishedOk f then [BlinkUserLED 1] else if \<not> ok then [BlinkUserLED 5] else []);
         nat64 = (if attached e \<and> \<not> ok \<and> e_nat64 e then [RefreshNat64] else []);
         (acts, restarted, t) = stall_supervisor f t
     in if restarted then (led @ nat64 @ acts, True, t)
        else
          (let (acts', restarted, t) = image_supervisor ok t in (led @ nat64 @ acts @ acts', restarted, t)))"

definition wait_phase :: "cycle_env \<Rightarrow> sensors_task \<Rightarrow> task_action list \<times> sensors_task" where
  "wait_phase e t =
    (let otaRetryWait = (e_ota_due e 1 \<and> \<not> e_ota_running e 3);
         waitSec = (if otaRetryWait then lpPollIntervalSec (m_settings t)
                    else safeguardWakeSec (lpPollIntervalSec (m_settings t)) (maxSkipCycles (m_settings t)));
         woken = lp_sensor_core_wait_for_wake (e_glue e) (e_ticks e) (e_woken e) (waitSec * 1000)
     in ([WaitForWake (waitSec * 1000)],
         t\<lparr>wakeReason := if woken then LpWake else if otaRetryWait then OtaRetryTimeout else SafeguardTimeout\<rparr>))"

definition task_cycle :: "cycle_env \<Rightarrow> sensors_task \<Rightarrow> (task_action list \<times> bool \<times> sensors_task) option" where
  "task_cycle e t =
    (case service e t of
       None \<Rightarrow> None
     | Some (acts, f, t) \<Rightarrow>
         (let (acts', restarted, t) = supervise e f t in
          if restarted then Some (acts @ acts', True, t)
          else (let (acts'', t) = wait_phase e t in Some (acts @ acts' @ acts'', False, t))))"

text \<open>The loop, over the environments of its passes, until it restarts the chip.\<close>

fun executeTask :: "cycle_env list \<Rightarrow> sensors_task \<Rightarrow> (task_action list \<times> bool \<times> sensors_task) option" where
  "executeTask [] t = Some ([], False, t)"
| "executeTask (e # es) t =
    (case task_cycle e t of
       None \<Rightarrow> None
     | Some (acts, True, t) \<Rightarrow> Some (acts, True, t)
     | Some (acts, False, t) \<Rightarrow>
         (case executeTask es t of
            None \<Rightarrow> None
          | Some (acts', restarted, t) \<Rightarrow> Some (acts @ acts', restarted, t)))"

section \<open>What a pass changes\<close>

lemma battery_fields_frame:
  assumes "battery_fields d t v = Some (v', t')"
  shows "t' = t\<lparr>m_adc := m_adc t'\<rparr> \<and> (no_handles (m_adc t) \<longrightarrow> no_handles (m_adc t'))"
  using assms deinit_no_handles
  by (auto simp: battery_fields_def Let_def initAdc_def no_handles_def
      split: prod.splits if_splits sum.splits option.splits)

lemma mark_valid_frame:
  "markAppValidOnFirstConfirmedPublish ok t = (acts, t') \<Longrightarrow>
   t' = t\<lparr>s_checked := s_checked t', ota_state := ota_state t'\<rparr> \<and> set acts \<subseteq> {MarkAppValid}"
  by (auto simp: markAppValidOnFirstConfirmedPublish_def Let_def split: if_splits)

text \<open>The HP-side writes a list of actions issues, in order.\<close>

fun hp_op_of :: "task_action \<Rightarrow> hp_op list" where
  "hp_op_of (HpOp op) = [op]"
| "hp_op_of _ = []"

definition hp_ops :: "task_action list \<Rightarrow> hp_op list" where
  "hp_ops acts = concat (map hp_op_of acts)"

lemma hp_ops_simps [simp]:
  "hp_ops [] = []" "hp_ops (a # acts) = hp_op_of a @ hp_ops acts" "hp_ops (acts @ acts') = hp_ops acts @ hp_ops acts'"
  by (simp_all add: hp_ops_def)

lemma hp_ops_none: "set acts \<subseteq> {MarkAppValid} \<Longrightarrow> hp_ops acts = []"
  by (induction acts) auto

text \<open>The pass has a value to deliver: attached, no OTA session, and a flag the LP program set since the
  last pass.\<close>

definition flagged :: "cycle_env \<Rightarrow> sensors_task \<Rightarrow> bool" where
  "flagged e t \<longleftrightarrow> attached e \<and> \<not> e_ota_running e 0 \<and>
     heartbeat_counter (snapshot e) \<noteq> m_lastSeenHeartbeat t \<and> should_wake_hp (snapshot e) \<noteq> 0"

definition ack_of :: "cycle_env \<Rightarrow> hp_op" where
  "ack_of e = AckDelivered (cal_temp_c (snapshot e)) (cal_hum_pct (snapshot e))"

definition stored :: "cycle_env \<Rightarrow> sensors_task \<Rightarrow> history_log" where
  "stored e t = history_log_append (e_now_us e) (cal_temp_c (snapshot e)) (cal_hum_pct (snapshot e)) (s_history t)"

definition published :: "cycle_env \<Rightarrow> bool option" where
  "published e = (if e_mqtt_busy e \<and> e_idle e PUBLISH_TIMEOUT_MS then Some (e_publish_succeeded e) else None)"

lemma outcome_delivery:
  assumes "publish_outcome e (snapshot e) otaOnly t = (acts, ok, t')"
  shows "hp_ops acts = (if \<not> otaOnly \<and> published e = Some True then [ack_of e] else []) \<and>
    s_history t' = (if \<not> otaOnly \<and> published e = Some False then stored e t else s_history t) \<and>
    ok = (published e = Some True) \<and> m_adc t' = m_adc t"
proof -
  obtain marks u where m: "markAppValidOnFirstConfirmedPublish (e_mark_ok e) t = (marks, u)" by fastforce
  then have u: "u = t\<lparr>s_checked := s_checked u, ota_state := ota_state u\<rparr>" "hp_ops marks = []"
    using mark_valid_frame [OF m] hp_ops_none by auto
  have "s_history u = s_history t" "m_adc u = m_adc t"
    by (subst u(1), simp)+
  with assms u(2) m show ?thesis
    by (auto simp: publish_outcome_def published_def ack_of_def stored_def split: if_splits)
qed

lemma publish_cycle_delivery:
  assumes "publish_cycle e (snapshot e) sw t = Some (acts, ok, t')"
  shows "hp_ops acts = (if sw \<and> published e = Some True then [ack_of e] else []) \<and>
    s_history t' = (if sw \<and> published e = Some False then stored e t else s_history t) \<and>
    ok = (published e = Some True) \<and> (no_handles (m_adc t) \<longrightarrow> no_handles (m_adc t'))"
proof -
  obtain v u acts' where
    u: "(if \<not> sw then Some (no_values, t) else battery_fields (e_adc e) t (sensor_fields (snapshot e))) = Some (v, u)"
    and o: "publish_outcome e (snapshot e) (\<not> sw) u = (acts', ok, t')"
    and acts: "acts = (if e_ready_event e then [Publish v] else []) @ acts'"
    using assms by (auto simp: publish_cycle_def Let_def split: option.splits prod.splits)
  have f: "u = t\<lparr>m_adc := m_adc u\<rparr> \<and> (no_handles (m_adc t) \<longrightarrow> no_handles (m_adc u))"
    using u battery_fields_frame [of "e_adc e" t _ v u] by (auto split: if_splits)
  then have "s_history u = s_history t" by (metis (no_types, lifting) sensors_task.select_convs(11) sensors_task.surjective sensors_task.update_convs(3))
  then have "stored e u = stored e t" by (simp add: stored_def)
  with outcome_delivery [OF o] acts f \<open>s_history u = s_history t\<close> show ?thesis by auto
qed

lemma delta_positive: "0 < (a :: u32) - b \<longleftrightarrow> a \<noteq> b"
  by (simp add: word_gt_0)

text \<open>The state of the task as the publish branch meets it.\<close>

definition noted :: "cycle_env \<Rightarrow> sensors_task \<Rightarrow> sensors_task" where
  "noted e t = t\<lparr>m_lastSeenHeartbeat := heartbeat_counter (snapshot e),
     m_lastSeenHeaterRunCycle := last_heater_run_cycle (snapshot e)\<rparr>"

lemma noted_eq:
  "(let t = t\<lparr>m_lastSeenHeartbeat := heartbeat_counter (snapshot e)\<rparr>
    in if last_heater_run_cycle (snapshot e) \<noteq> m_lastSeenHeaterRunCycle t
       then t\<lparr>m_lastSeenHeaterRunCycle := last_heater_run_cycle (snapshot e)\<rparr> else t) = noted e t"
  by (cases t) (simp add: noted_def Let_def)

definition progressed :: "cycle_env \<Rightarrow> sensors_task \<Rightarrow> bool" where
  "progressed e t \<longleftrightarrow> attached e \<and> heartbeat_counter (snapshot e) \<noteq> m_lastSeenHeartbeat t"

definition stall_pass :: "cycle_env \<Rightarrow> sensors_task \<Rightarrow> bool" where
  "stall_pass e t \<longleftrightarrow> attached e \<and> \<not> e_ota_running e 0 \<and> wakeReason t = SafeguardTimeout \<and>
     heartbeat_counter (snapshot e) = m_lastSeenHeartbeat t"

definition publishing :: "cycle_env \<Rightarrow> sensors_task \<Rightarrow> bool" where
  "publishing e t \<longleftrightarrow> attached e \<and> \<not> e_ota_running e 0 \<and> \<not> stall_pass e t \<and> (flagged e t \<or> e_ota_due e 0)"

lemma service_eq:
  "service e t =
    (if \<not> attached e then Some ([TxPowerNote False], no_flags, t)
     else
       (let f = no_flags\<lparr>lpProgressedThisCycle := progressed e t\<rparr> in
        if publishing e t then
          map_option (\<lambda>(acts, ok, t). (acts, f\<lparr>publishedOk := ok\<rparr>, t))
            (publish_cycle e (snapshot e) (flagged e t) (noted e t))
        else if stall_pass e t then Some ([], f\<lparr>lpStalledThisCycle := True\<rparr>, noted e t)
        else Some ([], f\<lparr>quietCycle := True\<rparr>, noted e t)))"
  unfolding service_def noted_eq [symmetric]
  by (auto simp: Let_def delta_positive progressed_def publishing_def stall_pass_def flagged_def
      split: option.splits prod.splits if_splits)

lemma noted_simps [simp]:
  "s_history (noted e t) = s_history t" "m_adc (noted e t) = m_adc t" "ota_state (noted e t) = ota_state t"
  "m_lpStalledCycles (noted e t) = m_lpStalledCycles t" "wakeReason (noted e t) = wakeReason t"
  "m_cyclesUnconfirmedAndFailing (noted e t) = m_cyclesUnconfirmedAndFailing t" "stored e (noted e t) = stored e t" "m_settings (noted e t) = m_settings t"
  by (simp_all add: noted_def stored_def)

lemma no_flags_simps [simp]:
  "publishedOk no_flags = False" "quietCycle no_flags = False" "lpStalledThisCycle no_flags = False"
  "lpProgressedThisCycle no_flags = False"
  by (simp_all add: no_flags_def)

lemma service_delivery:
  assumes "service e t = Some (acts, f, t')"
  shows "hp_ops acts = (if flagged e t \<and> published e = Some True then [ack_of e] else []) \<and>
    s_history t' = (if flagged e t \<and> published e = Some False then stored e t else s_history t) \<and>
    (no_handles (m_adc t) \<longrightarrow> no_handles (m_adc t'))"
proof -
  have fl: "publishing e t" if "flagged e t"
    using that by (auto simp: publishing_def flagged_def stall_pass_def)
  have at': "attached e" if "flagged e t" using that by (simp add: flagged_def)
  show ?thesis
  proof (cases "attached e \<and> publishing e t")
    case True
    then obtain ok where "publish_cycle e (snapshot e) (flagged e t) (noted e t) = Some (acts, ok, t')"
      using assms by (auto simp: service_eq Let_def)
    from publish_cycle_delivery [OF this] show ?thesis by simp
  next
    case False
    then have "\<not> flagged e t" using fl at' by auto
    then show ?thesis using False assms by (auto simp: service_eq Let_def split: if_splits)
  qed
qed

lemma supervise_frame:
  assumes "supervise e f t = (acts, r, t')"
  shows "hp_ops acts = [] \<and> s_history t' = s_history t \<and> m_adc t' = m_adc t \<and> wakeReason t' = wakeReason t \<and>
    ota_state t' = ota_state t \<and> m_settings t' = m_settings t"
  using assms
  by (auto simp: supervise_def Let_def stall_supervisor_def image_supervisor_def split: if_splits prod.splits)

lemma wait_frame:
  assumes "wait_phase e t = (acts, t')"
  shows "hp_ops acts = [] \<and> s_history t' = s_history t \<and> m_adc t' = m_adc t \<and> ota_state t' = ota_state t \<and>
    m_settings t' = m_settings t \<and> m_lpStalledCycles t' = m_lpStalledCycles t \<and>
    m_cyclesUnconfirmedAndFailing t' = m_cyclesUnconfirmedAndFailing t"
  using assms by (auto simp: wait_phase_def Let_def)

lemma task_cycle_Some:
  assumes "task_cycle e t = Some (acts, r, t')"
  shows "\<exists>acts1 f t1 acts2 t2. service e t = Some (acts1, f, t1) \<and> supervise e f t1 = (acts2, r, t2) \<and>
    (if r then acts = acts1 @ acts2 \<and> t' = t2
     else \<exists>acts3. wait_phase e t2 = (acts3, t') \<and> acts = acts1 @ acts2 @ acts3)"
  using assms by (auto simp: task_cycle_def Let_def split: option.splits prod.splits if_splits)

lemma cycle_delivery:
  assumes "task_cycle e t = Some (acts, r, t')"
  shows "hp_ops acts = (if flagged e t \<and> published e = Some True then [ack_of e] else []) \<and>
    s_history t' = (if flagged e t \<and> published e = Some False then stored e t else s_history t) \<and>
    (no_handles (m_adc t) \<longrightarrow> no_handles (m_adc t'))"
proof -
  obtain acts1 f t1 acts2 t2 where s: "service e t = Some (acts1, f, t1)"
    and v: "supervise e f t1 = (acts2, r, t2)"
    and r: "if r then acts = acts1 @ acts2 \<and> t' = t2
      else \<exists>acts3. wait_phase e t2 = (acts3, t') \<and> acts = acts1 @ acts2 @ acts3"
    using task_cycle_Some [OF assms] by blast
  show ?thesis
  proof (cases r)
    case True
    then show ?thesis using service_delivery [OF s] supervise_frame [OF v] r by auto
  next
    case False
    then obtain acts3 where w: "wait_phase e t2 = (acts3, t')" "acts = acts1 @ acts2 @ acts3" using r by auto
    show ?thesis using service_delivery [OF s] supervise_frame [OF v] wait_frame [OF w(1)] w(2) by auto
  qed
qed

section \<open>The supervisors count passes\<close>

definition healthy :: "cycle_env \<Rightarrow> sensors_task \<Rightarrow> bool" where
  "healthy e t \<longleftrightarrow> publishing e t \<and> published e = Some True \<or>
     attached e \<and> \<not> publishing e t \<and> \<not> stall_pass e t \<or> e_ota_running e 2"

definition pending_image :: "sensors_task \<Rightarrow> bool" where
  "pending_image t \<longleftrightarrow> ota_state t = Some ESP_OTA_IMG_PENDING_VERIFY"

definition same_counts :: "sensors_task \<Rightarrow> sensors_task \<Rightarrow> bool" where
  "same_counts t t' \<longleftrightarrow> m_lpStalledCycles t' = m_lpStalledCycles t \<and> m_settings t' = m_settings t \<and>
     m_cyclesUnconfirmedAndFailing t' = m_cyclesUnconfirmedAndFailing t"

lemma outcome_state:
  assumes "publish_outcome e s otaOnly t = (acts, ok, t')"
  shows "same_counts t t' \<and> (published e \<noteq> Some True \<longrightarrow> ota_state t' = ota_state t) \<and>
    (\<not> pending_image t \<longrightarrow> \<not> pending_image t')"
  using assms
  by (auto simp: publish_outcome_def published_def markAppValidOnFirstConfirmedPublish_def Let_def
      same_counts_def pending_image_def split: if_splits)

lemma publish_cycle_state:
  assumes "publish_cycle e s sw t = Some (acts, ok, t')"
  shows "same_counts t t' \<and> (published e \<noteq> Some True \<longrightarrow> ota_state t' = ota_state t) \<and>
    (\<not> pending_image t \<longrightarrow> \<not> pending_image t')"
proof -
  obtain v u acts' where
    u: "(if \<not> sw then Some (no_values, t) else battery_fields (e_adc e) t (sensor_fields s)) = Some (v, u)"
    and o: "publish_outcome e s (\<not> sw) u = (acts', ok, t')"
    using assms by (auto simp: publish_cycle_def Let_def split: option.splits prod.splits)
  have "u = t\<lparr>m_adc := m_adc u\<rparr>"
    using u battery_fields_frame [of "e_adc e" t _ v u] by (auto split: if_splits)
  then obtain a where "u = t\<lparr>m_adc := a\<rparr>" ..
  with outcome_state [OF o] show ?thesis by (simp add: same_counts_def pending_image_def)
qed

lemma service_flags:
  assumes "service e t = Some (acts, f, t')"
  shows "cycleOk e f = healthy e t \<and> lpStalledThisCycle f = stall_pass e t \<and>
    lpProgressedThisCycle f = progressed e t \<and> same_counts t t' \<and>
    (\<not> healthy e t \<longrightarrow> ota_state t' = ota_state t) \<and> (\<not> pending_image t \<longrightarrow> \<not> pending_image t') \<and>
    publishedOk f = (publishing e t \<and> published e = Some True)"
proof (cases "attached e \<and> publishing e t")
  case True
  then obtain ok where p: "publish_cycle e (snapshot e) (flagged e t) (noted e t) = Some (acts, ok, t')"
    and f: "f = no_flags\<lparr>lpProgressedThisCycle := progressed e t, publishedOk := ok\<rparr>"
    using assms by (auto simp: service_eq Let_def)
  then show ?thesis
    using True publish_cycle_delivery [OF p] publish_cycle_state [OF p]
    by (auto simp: healthy_def cycleOk_def publishing_def same_counts_def pending_image_def)
next
  case False
  then show ?thesis
    using assms by (auto simp: service_eq Let_def healthy_def cycleOk_def publishing_def stall_pass_def
        progressed_def same_counts_def pending_image_def split: if_splits)
qed

text \<open>The passes of a run, each with the state it started in.\<close>

fun passes :: "cycle_env list \<Rightarrow> sensors_task \<Rightarrow> (cycle_env \<times> sensors_task) list" where
  "passes [] t = []"
| "passes (e # es) t = (e, t) # (case task_cycle e t of Some (_, False, t') \<Rightarrow> passes es t' | _ \<Rightarrow> [])"

definition count_stall :: "cycle_env \<times> sensors_task \<Rightarrow> nat \<Rightarrow> nat" where
  "count_stall p n = (case p of (e, t) \<Rightarrow> if stall_pass e t then n + 1 else if progressed e t then 0 else n)"

definition count_unhealthy :: "cycle_env \<times> sensors_task \<Rightarrow> nat \<Rightarrow> nat" where
  "count_unhealthy p n = (case p of (e, t) \<Rightarrow> if pending_image t \<and> \<not> healthy e t then n + 1 else 0)"

lemma u32_not_le_1: "\<not> (2 :: u32) \<le> 1" "\<not> (5 :: u32) \<le> 1"
  by (simp_all add: word_le_nat_alt)

lemma stall_supervisor_count:
  assumes "stall_supervisor f t = (acts, r, t')" "m_lpStalledCycles t = of_nat n" "n < 2"
  defines "n' \<equiv> if lpStalledThisCycle f then n + 1 else if lpProgressedThisCycle f then 0 else n"
  shows "(r \<longleftrightarrow> 2 \<le> n') \<and> (\<not> r \<longrightarrow> m_lpStalledCycles t' = of_nat n') \<and> ota_state t' = ota_state t \<and>
    m_cyclesUnconfirmedAndFailing t' = m_cyclesUnconfirmedAndFailing t"
proof -
  have "n = 0 \<or> n = 1" using assms(3) by auto
  then show ?thesis
    using assms(1,2) u32_not_le_1 by (auto simp: stall_supervisor_def LP_STALL_REBOOT_THRESHOLD_def n'_def Let_def split: if_splits)
qed

lemma image_supervisor_count:
  assumes "image_supervisor ok t = (acts, r, t')" "m_cyclesUnconfirmedAndFailing t = of_nat k" "k < 5"
  defines "k' \<equiv> if pending_image t \<and> \<not> ok then k + 1 else 0"
  shows "(r \<longleftrightarrow> 5 \<le> k') \<and> (\<not> r \<longrightarrow> m_cyclesUnconfirmedAndFailing t' = of_nat k') \<and>
    m_lpStalledCycles t' = m_lpStalledCycles t"
proof -
  have "k = 0 \<or> k = 1 \<or> k = 2 \<or> k = 3 \<or> k = 4" using assms(3) by auto
  then show ?thesis
    using assms(1,2) u32_not_le_1
    by (auto simp: image_supervisor_def UNCONFIRMED_OTA_REBOOT_AFTER_CYCLES_def k'_def pending_image_def Let_def
        split: if_splits)
qed

lemma cycle_counts:
  assumes "task_cycle e t = Some (acts, r, t')"
    and "m_lpStalledCycles t = of_nat n" "n < 2" "m_cyclesUnconfirmedAndFailing t = of_nat k" "k < 5"
  defines "n' \<equiv> count_stall (e, t) n" and "k' \<equiv> count_unhealthy (e, t) k"
  shows "(r \<longleftrightarrow> 2 \<le> n' \<or> 5 \<le> k') \<and>
    (\<not> r \<longrightarrow> m_lpStalledCycles t' = of_nat n' \<and> m_cyclesUnconfirmedAndFailing t' = of_nat k')"
proof -
  obtain acts1 f t1 acts2 t2 where s: "service e t = Some (acts1, f, t1)"
    and v: "supervise e f t1 = (acts2, r, t2)"
    and r: "if r then acts = acts1 @ acts2 \<and> t' = t2
      else \<exists>acts3. wait_phase e t2 = (acts3, t') \<and> acts = acts1 @ acts2 @ acts3"
    using task_cycle_Some [OF assms(1)] by blast
  note fl = service_flags [OF s]
  obtain sa sr st where ss: "stall_supervisor f t1 = (sa, sr, st)" using prod_cases3 by blast
  obtain ia ir it where ii: "image_supervisor (cycleOk e f) st = (ia, ir, it)" using prod_cases3 by blast
  have t1: "m_lpStalledCycles t1 = of_nat n" "m_cyclesUnconfirmedAndFailing t1 = of_nat k"
    using fl assms(2,4) by (simp_all add: same_counts_def)
  note sc = stall_supervisor_count [OF ss t1(1) assms(3)]
  have "m_cyclesUnconfirmedAndFailing st = of_nat k" using sc t1(2) by simp
  note ic = image_supervisor_count [OF ii this assms(5)]
  have n': "n' = (if lpStalledThisCycle f then n + 1 else if lpProgressedThisCycle f then 0 else n)"
    using fl by (simp add: n'_def count_stall_def)
  have k': "k' = (if pending_image st \<and> \<not> cycleOk e f then k + 1 else 0)"
    using fl sc by (auto simp: k'_def count_unhealthy_def pending_image_def)
  have rr: "r = (sr \<or> ir)" "\<not> r \<longrightarrow> t2 = it"
    using v ss ii by (auto simp: supervise_def Let_def split: if_splits)
  have w: "m_lpStalledCycles t' = m_lpStalledCycles t2 \<and> m_cyclesUnconfirmedAndFailing t' = m_cyclesUnconfirmedAndFailing t2"
    if "\<not> r" using r that wait_frame by auto
  show ?thesis using rr sc ic w unfolding n' k' by auto
qed

lemma run_counts:
  "executeTask es t = Some (acts, r, t') \<Longrightarrow> m_lpStalledCycles t = of_nat n \<Longrightarrow> n < 2 \<Longrightarrow>
   m_cyclesUnconfirmedAndFailing t = of_nat k \<Longrightarrow> k < 5 \<Longrightarrow>
   r \<longleftrightarrow> 2 \<le> fold count_stall (passes es t) n \<or> 5 \<le> fold count_unhealthy (passes es t) k"
proof (induction es arbitrary: t acts n k)
  case (Cons e es)
  obtain acts1 r1 t1 where c: "task_cycle e t = Some (acts1, r1, t1)"
    using Cons.prems(1) by (auto split: option.splits)
  note cc = cycle_counts [OF c Cons.prems(2-5)]
  show ?case
  proof (cases r1)
    case True
    then show ?thesis using Cons.prems(1) c cc by auto
  next
    case False
    then obtain acts2 where "executeTask es t1 = Some (acts2, r, t')"
      using Cons.prems(1) c by (auto split: option.splits)
    from Cons.IH [OF this, of "count_stall (e, t) n" "count_unhealthy (e, t) k"] show ?thesis
      using c cc False by auto
  qed
qed auto

lemma run_handles:
  "executeTask es t = Some (acts, r, t') \<Longrightarrow> no_handles (m_adc t) \<Longrightarrow> no_handles (m_adc t')"
proof (induction es arbitrary: t acts)
  case (Cons e es)
  obtain acts1 r1 t1 where c: "task_cycle e t = Some (acts1, r1, t1)"
    using Cons.prems(1) by (auto split: option.splits)
  then have "no_handles (m_adc t1)" using cycle_delivery Cons.prems(2) by auto
  then show ?case
    using Cons.prems(1) c Cons.IH by (auto split: option.splits bool.splits prod.splits)
qed auto

text \<open>Every state a pass of the run starts in satisfies what the passes preserve.\<close>

lemma passes_invariant:
  assumes step: "\<And>e t acts r t'. I t \<Longrightarrow> task_cycle e t = Some (acts, r, t') \<Longrightarrow> I t'"
  shows "I t \<Longrightarrow> (e, u) \<in> set (passes es t) \<Longrightarrow> I u"
proof (induction es arbitrary: t)
  case (Cons e' es)
  consider "(e, u) = (e', t)" | acts t' where "task_cycle e' t = Some (acts, False, t')" "(e, u) \<in> set (passes es t')"
  proof (cases "task_cycle e' t")
    case None
    then show ?thesis using Cons.prems(2) that by simp
  next
    case (Some x)
    then obtain acts r t' where "task_cycle e' t = Some (acts, r, t')" by (cases x) auto
    then show ?thesis using Cons.prems(2) that by (cases r) auto
  qed
  then show ?case
  proof cases
    case 2
    with Cons step show ?thesis by blast
  qed (use Cons.prems(1) in simp)
qed simp

lemma cycle_keeps_confirmed:
  assumes "task_cycle e t = Some (acts, r, t')" "\<not> pending_image t"
  shows "\<not> pending_image t'"
proof -
  obtain acts1 f t1 acts2 t2 where s: "service e t = Some (acts1, f, t1)"
    and v: "supervise e f t1 = (acts2, r, t2)"
    and r: "if r then acts = acts1 @ acts2 \<and> t' = t2
      else \<exists>acts3. wait_phase e t2 = (acts3, t') \<and> acts = acts1 @ acts2 @ acts3"
    using task_cycle_Some [OF assms(1)] by blast
  have "\<not> pending_image t2"
    using service_flags [OF s] supervise_frame [OF v] assms(2) by (simp add: pending_image_def)
  then show ?thesis using r wait_frame by (auto simp: pending_image_def split: if_splits)
qed

lemma fold_zero: "(\<And>p. p \<in> set ps \<Longrightarrow> f p 0 = (0 :: nat)) \<Longrightarrow> fold f ps 0 = 0"
  by (induction ps) auto

lemma confirmed_passes:
  "\<not> pending_image t \<Longrightarrow> (e, u) \<in> set (passes es t) \<Longrightarrow> \<not> pending_image u"
  using passes_invariant [of "\<lambda>t. \<not> pending_image t"] cycle_keeps_confirmed by metis

lemma new_task_fields:
  "m_lpStalledCycles (SensorsTask_new st img) = of_nat 0"
  "m_cyclesUnconfirmedAndFailing (SensorsTask_new st img) = of_nat 0"
  "pending_image (SensorsTask_new st img) \<longleftrightarrow> img = Some ESP_OTA_IMG_PENDING_VERIFY"
  "no_handles (m_adc (SensorsTask_new st img))"
  by (simp_all add: SensorsTask_new_def pending_image_def no_handles_def)

section \<open>A pass on a concrete state\<close>

text \<open>A node that is attached, without callbacks or battery, whose shared memory does not move.\<close>

definition still_env :: "lp_shared_state \<Rightarrow> cycle_env" where
  "still_env s = \<lparr>e_gate = None, e_mem = (\<lambda>_. s), e_clk = id, e_ota_running = (\<lambda>_. False),
     e_ota_due = (\<lambda>_. False), e_ready_event = True, e_mqtt_busy = True, e_idle = (\<lambda>_. True),
     e_publish_succeeded = True, e_mark_ok = True, e_adc = good_driver, e_now_us = 0, e_nat64 = False,
     e_glue = \<lparr>hg_shared = s, s_wake_eg = True\<rparr>, e_ticks = id, e_woken = (\<lambda>_. False)\<rparr>"

definition flagged_state :: lp_shared_state where
  "flagged_state = zero_shared\<lparr>heartbeat_counter := 7, sensor_ok := 1, cal_temp_c := Fin 21,
     cal_hum_pct := Fin 40, should_wake_hp := 1\<rparr>"

definition plain_settings :: SensorsTaskSettings where
  "plain_settings = \<lparr>lpPollIntervalSec = 20, maxSkipCycles = 14, readVoltageViaAdc = False,
     batteryDividerRVbatOhm = Fin 5021, batteryDividerRGndOhm = Fin 5035\<rparr>"

definition booted :: "ota_img_state \<Rightarrow> sensors_task" where
  "booted img = SensorsTask_new plain_settings (Some img)"

lemma copy_struct_still: "copy_struct (\<lambda>_. s) clk k = s"
  by (cases s) (simp add: copy_struct_def)

lemma snapshot_still: "even (result_seq s) \<Longrightarrow> e_mem e = (\<lambda>_. s) \<Longrightarrow> snapshot e = s"
  by (simp add: snapshot_def lp_sensor_core_get_state_def eval_nat_numeral copy_struct_still)

lemma still_fields:
  "attached (still_env s)" "e_ota_running (still_env s) k = False" "e_ota_due (still_env s) k = False"
  "e_mem (still_env s) = (\<lambda>_. s)" "published (still_env s) = Some True"
  by (simp_all add: still_env_def attached_def published_def)

lemma snapshot_flagged: "snapshot (still_env flagged_state) = flagged_state"
  by (rule snapshot_still) (simp_all add: flagged_state_def zero_shared_def still_fields)

lemma cycle_defined_without_adc:
  "\<not> readVoltageViaAdc (m_settings t) \<Longrightarrow> task_cycle e t \<noteq> None"
proof -
  assume n: "\<not> readVoltageViaAdc (m_settings t)"
  then have "battery_fields d (noted e t) v = Some (v, noted e t)" for d v
    by (simp add: battery_fields_def)
  then have "publish_cycle e s sw (noted e t) \<noteq> None" for s sw
    by (simp add: publish_cycle_def Let_def split: prod.splits)
  then have "service e t \<noteq> None" by (simp add: service_eq Let_def del: not_None_eq)
  then show ?thesis by (auto simp: task_cycle_def Let_def split: prod.splits)
qed

lemma cycle_settings:
  assumes "task_cycle e t = Some (acts, r, t')"
  shows "m_settings t' = m_settings t"
proof -
  obtain acts1 f t1 acts2 t2 where s: "service e t = Some (acts1, f, t1)"
    and v: "supervise e f t1 = (acts2, r, t2)"
    and r: "if r then acts = acts1 @ acts2 \<and> t' = t2
      else \<exists>acts3. wait_phase e t2 = (acts3, t') \<and> acts = acts1 @ acts2 @ acts3"
    using task_cycle_Some [OF assms] by blast
  have "m_settings t2 = m_settings t"
    using service_flags [OF s] supervise_frame [OF v] by (simp add: same_counts_def)
  then show ?thesis using r wait_frame by (auto split: if_splits)
qed

lemma run_defined_without_adc:
  "\<not> readVoltageViaAdc (m_settings t) \<Longrightarrow> executeTask es t \<noteq> None"
proof (induction es arbitrary: t)
  case (Cons e es)
  obtain acts r t' where c: "task_cycle e t = Some (acts, r, t')"
    using cycle_defined_without_adc [OF Cons.prems, of e] by (metis not_None_eq prod_cases3)
  have "executeTask es t' \<noteq> None" using Cons.IH Cons.prems cycle_settings [OF c] by simp
  then show ?case using c by (cases r) (auto split: option.splits)
qed simp

text \<open>The conversion of the battery voltage fits an \<open>int\<close> when the divider coefficient is at most nine.\<close>

lemma f_trunc_i32_defined:
  assumes "f_in (- 1932735283) 1932735283 v"
  shows "f_trunc_i32 v \<noteq> None"
proof -
  obtain x where x: "v = Fin x" "- 1932735283 \<le> x" "x \<le> 1932735283" using assms by (elim f_inE)
  have b: "\<lfloor>x\<rfloor> \<le> 1932735283" "\<lfloor>- x\<rfloor> \<le> 1932735283" using x by linarith+
  then show ?thesis
    using x(2,3) by (auto simp: x(1) Let_def le_floor_iff) linarith+
qed

lemma to_i32_range: "- (2 ^ 31) \<le> to_i32 x \<and> to_i32 x < 2 ^ 31"
  using pos_mod_bound [of "2 ^ 32" "x + 2 ^ 31"] pos_mod_sign [of "2 ^ 32" "x + 2 ^ 31"]
  by (simp add: to_i32_def)

lemma adc_burst_range:
  "adc_burst d n i s = Inr v \<Longrightarrow> - (2 ^ 31) \<le> s \<Longrightarrow> s < 2 ^ 31 \<Longrightarrow> - (2 ^ 31) \<le> v \<and> v < 2 ^ 31"
proof (induction n arbitrary: i s)
  case (Suc n)
  then show ?case using to_i32_range by (auto split: prod.splits if_splits)
qed simp

lemma battery_read_defined:
  assumes "f_in 0 9 c" "readBatteryVoltageMilliV d c = Inr m"
  shows "m \<noteq> None"
proof -
  obtain v where v: "adc_burst d ADC_READS_COUNT 0 0 = Inr v"
    using assms(2) by (auto simp: readBatteryVoltageMilliV_def split: sum.splits)
  obtain x where c: "c = Fin x" "0 \<le> x" "x \<le> 9" using assms(1) by (elim f_inE)
  define p where "p = sgn v * (\<bar>v\<bar> div 10)"
  have "\<bar>v\<bar> \<le> 2147483648" using adc_burst_range [OF v] by auto
  then have "\<bar>v\<bar> div 10 \<le> 214748364" by linarith
  moreover have "0 \<le> \<bar>v\<bar> div 10" by simp
  ultimately have p: "\<bar>p\<bar> \<le> 214748364" by (cases "v = 0") (simp_all add: abs_mult p_def)
  then have fp: "f_int f64 p = Fin (of_int p)" by (intro f_int64) simp
  have "(of_int \<bar>p\<bar> :: rat) \<le> of_int 214748364" using p by (simp only: of_int_le_iff)
  then have "\<bar>x * of_int p\<bar> \<le> 9 * 214748364"
    unfolding abs_mult using c by (intro mult_mono) simp_all
  then have "of_int (- 1932735283) \<le> x * of_int p" "x * of_int p \<le> of_int 1932735283" by (simp_all add: abs_le_iff)
  then have "f_in (of_int (- 1932735283)) (of_int 1932735283) (f64 (x * of_int p))"
    by (rule f64_in_int) simp_all
  then have "f_trunc_i32 (f64 (x * of_int p)) \<noteq> None" by (intro f_trunc_i32_defined) simp
  moreover have "c_div v 10 = Some p" by (simp add: c_div_def p_def)
  ultimately show ?thesis
    using assms(2) v by (simp add: readBatteryVoltageMilliV_def ADC_READS_COUNT_def c(1) fp)
qed

lemma cycle_defined:
  assumes "f_in 0 9 (m_voltageDividerCoefficient t)"
  shows "task_cycle e t \<noteq> None"
proof -
  have "battery_fields d (noted e t) v \<noteq> None" for d v
    using battery_read_defined [OF assms]
    by (auto simp: battery_fields_def Let_def noted_def split: prod.splits sum.splits option.splits)
  then have "publish_cycle e s sw (noted e t) \<noteq> None" for s sw
    by (cases sw; cases "battery_fields (e_adc e) (noted e t) (sensor_fields s)")
      (simp_all add: publish_cycle_def Let_def split_beta del: not_None_eq split: prod.splits)
  then have "service e t \<noteq> None" by (simp add: service_eq Let_def del: not_None_eq)
  then show ?thesis by (auto simp: task_cycle_def Let_def split: prod.splits)
qed

section \<open>Properties\<close>

text \<open>
  C4: What a pass does with a value the LP program flagged since the last pass is decided by the
  publish cycle the pass waited for, which is its own or one an earlier pass gave up on. If that cycle
  ended within the wait and reported success, the snapshot's values are acknowledged and nothing is
  stored; if it ended and reported failure, they are appended to the history and nothing is
  acknowledged; if it did not end within the wait, or none was running, the value is neither
  acknowledged nor stored, and only the LP program's retry is left of it. A pass without flagged
  data (quiet, stalled, OTA-only, not attached) never does either.
\<close>

theorem flagged_value_acked_or_stored:
  assumes "task_cycle e t = Some (acts, r, t')"
  shows "if flagged e t
    then (case published e of
        Some True \<Rightarrow> hp_ops acts = [ack_of e] \<and> s_history t' = s_history t
      | Some False \<Rightarrow> hp_ops acts = [] \<and> s_history t' = stored e t
      | None \<Rightarrow> hp_ops acts = [] \<and> s_history t' = s_history t)
    else hp_ops acts = [] \<and> s_history t' = s_history t"
  using cycle_delivery [OF assms] by (auto split: option.split bool.split)

theorem flagged_value_acked_or_stored_witness:
  "\<exists>acts r t'. task_cycle (still_env flagged_state) (booted ESP_OTA_IMG_VALID) = Some (acts, r, t') \<and>
     hp_ops acts = [AckDelivered (Fin 21) (Fin 40)]"
proof -
  let ?e = "still_env flagged_state" and ?t = "booted ESP_OTA_IMG_VALID"
  have "task_cycle ?e ?t \<noteq> None"
    by (rule cycle_defined_without_adc) (simp add: booted_def SensorsTask_new_def plain_settings_def)
  then obtain acts r t' where c: "task_cycle ?e ?t = Some (acts, r, t')" by (metis not_None_eq prod_cases3)
  have "flagged ?e ?t"
    by (simp add: flagged_def still_fields snapshot_flagged)
      (simp add: flagged_state_def booted_def SensorsTask_new_def)
  moreover have "ack_of ?e = AckDelivered (Fin 21) (Fin 40)"
    by (simp add: ack_of_def snapshot_flagged) (simp add: flagged_state_def)
  ultimately show ?thesis using flagged_value_acked_or_stored [OF c] c by (auto simp: still_fields)
qed

text \<open>
  C15: The reboot supervisors are counters over the passes: the task restarts the chip exactly when there
  are two stalled passes without LP progress in between, or five consecutive unhealthy passes with
  the running image still unconfirmed.
\<close>

theorem restarts_exactly_on_counted_passes:
  assumes "executeTask es (SensorsTask_new st img) = Some (acts, r, t')"
  shows "r \<longleftrightarrow> 2 \<le> fold count_stall (passes es (SensorsTask_new st img)) 0 \<or>
    5 \<le> fold count_unhealthy (passes es (SensorsTask_new st img)) 0"
  by (rule run_counts [OF assms]) (simp_all add: new_task_fields)

text \<open>The LP core stands still: quiet on the boot pass, then one stalled pass after the other.\<close>

definition dead_env :: cycle_env where
  "dead_env = still_env zero_shared"

lemma dead_fields:
  "attached dead_env" "e_ota_running dead_env k = False" "e_ota_due dead_env k = False"
  "snapshot dead_env = zero_shared" "e_nat64 dead_env = False" "lp_sensor_core_wait_for_wake (e_glue dead_env) ticks (e_woken dead_env) n = False"
  using snapshot_still [of zero_shared dead_env]
  by (simp_all add: dead_env_def still_fields) (simp_all add: zero_shared_def still_env_def lp_sensor_core_wait_for_wake_def)

lemma dead_pass:
  assumes "m_lastSeenHeartbeat t = 0" "m_settings t = plain_settings" "ota_state t = Some ESP_OTA_IMG_VALID"
    "m_lastSeenHeaterRunCycle t = 0"
  shows "wakeReason t = LpWake \<Longrightarrow> task_cycle dead_env t =
      Some ([WaitForWake 340000], False, t\<lparr>m_cyclesUnconfirmedAndFailing := 0, wakeReason := SafeguardTimeout\<rparr>)"
    "wakeReason t = SafeguardTimeout \<Longrightarrow> m_lpStalledCycles t = 0 \<Longrightarrow> task_cycle dead_env t =
      Some ([BlinkUserLED 5, WaitForWake 340000], False,
        t\<lparr>m_lpStalledCycles := 1, m_cyclesUnconfirmedAndFailing := 0, wakeReason := SafeguardTimeout\<rparr>)"
    "wakeReason t = SafeguardTimeout \<Longrightarrow> m_lpStalledCycles t = 1 \<Longrightarrow> task_cycle dead_env t =
      Some ([BlinkUserLED 5, MarkLpStallReboot, EspRestart], True, t\<lparr>m_lpStalledCycles := 2\<rparr>)"
proof -
  have n: "noted dead_env t = t" using assms by (cases t) (simp add: noted_def dead_fields, simp add: zero_shared_def)
  have h: "heartbeat_counter zero_shared = 0" by (simp add: zero_shared_def)
  have w: "wait_phase dead_env u = ([WaitForWake 340000], u\<lparr>wakeReason := SafeguardTimeout\<rparr>)"
    if "m_settings u = plain_settings" for u
    using that by (simp add: wait_phase_def dead_fields plain_settings_def safeguardWakeSec_def)
  show "wakeReason t = LpWake \<Longrightarrow> task_cycle dead_env t =
      Some ([WaitForWake 340000], False, t\<lparr>m_cyclesUnconfirmedAndFailing := 0, wakeReason := SafeguardTimeout\<rparr>)"
    using assms
    by (simp add: task_cycle_def service_eq publishing_def stall_pass_def flagged_def progressed_def dead_fields n h w
        supervise_def cycleOk_def stall_supervisor_def image_supervisor_def no_flags_def)
  show "wakeReason t = SafeguardTimeout \<Longrightarrow> m_lpStalledCycles t = 0 \<Longrightarrow> task_cycle dead_env t =
      Some ([BlinkUserLED 5, WaitForWake 340000], False,
        t\<lparr>m_lpStalledCycles := 1, m_cyclesUnconfirmedAndFailing := 0, wakeReason := SafeguardTimeout\<rparr>)"
    using assms u32_not_le_1
    by (simp add: task_cycle_def service_eq publishing_def stall_pass_def flagged_def progressed_def dead_fields n h w
        supervise_def cycleOk_def stall_supervisor_def image_supervisor_def no_flags_def LP_STALL_REBOOT_THRESHOLD_def)
  show "wakeReason t = SafeguardTimeout \<Longrightarrow> m_lpStalledCycles t = 1 \<Longrightarrow> task_cycle dead_env t =
      Some ([BlinkUserLED 5, MarkLpStallReboot, EspRestart], True, t\<lparr>m_lpStalledCycles := 2\<rparr>)"
    using assms
    by (simp add: task_cycle_def service_eq publishing_def stall_pass_def flagged_def progressed_def dead_fields n h w
        supervise_def cycleOk_def stall_supervisor_def image_supervisor_def no_flags_def LP_STALL_REBOOT_THRESHOLD_def)
qed

lemma dead_run:
  "executeTask [dead_env, dead_env, dead_env] (booted ESP_OTA_IMG_VALID) =
     Some ([WaitForWake 340000, BlinkUserLED 5, WaitForWake 340000, BlinkUserLED 5, MarkLpStallReboot, EspRestart],
       True, (booted ESP_OTA_IMG_VALID)\<lparr>wakeReason := SafeguardTimeout, m_lpStalledCycles := 2\<rparr>)"
proof -
  let ?t = "booted ESP_OTA_IMG_VALID"
  have b: "m_lastSeenHeartbeat ?t = 0" "m_settings ?t = plain_settings" "ota_state ?t = Some ESP_OTA_IMG_VALID"
    "m_lastSeenHeaterRunCycle ?t = 0" "wakeReason ?t = LpWake" "m_lpStalledCycles ?t = 0"
    "?t\<lparr>m_cyclesUnconfirmedAndFailing := 0\<rparr> = ?t"
    by (simp_all add: booted_def SensorsTask_new_def)
  show ?thesis by (simp add: dead_pass b)
qed

theorem restarts_exactly_on_counted_passes_witness:
  "2 \<le> fold count_stall (passes [dead_env, dead_env, dead_env] (booted ESP_OTA_IMG_VALID)) 0 \<or>
   5 \<le> fold count_unhealthy (passes [dead_env, dead_env, dead_env] (booted ESP_OTA_IMG_VALID)) 0"
  using restarts_exactly_on_counted_passes [OF dead_run [unfolded booted_def]] by (simp only: booted_def)

text \<open>
  With a confirmed image and an LP core that moves, the task never restarts the chip, however long the
  network or the broker is away: a restart needs a stalled pass.
\<close>

theorem outage_never_restarts:
  assumes "executeTask es (SensorsTask_new st img) = Some (acts, r, t')"
    and "img \<noteq> Some ESP_OTA_IMG_PENDING_VERIFY"
    and "\<And>e t. (e, t) \<in> set (passes es (SensorsTask_new st img)) \<Longrightarrow> \<not> stall_pass e t"
  shows "\<not> r"
proof -
  have "fold count_stall (passes es (SensorsTask_new st img)) 0 = 0"
    by (rule fold_zero) (use assms(3) in \<open>auto simp: count_stall_def\<close>)
  moreover have "fold count_unhealthy (passes es (SensorsTask_new st img)) 0 = 0"
    by (rule fold_zero) (use confirmed_passes [of "SensorsTask_new st img"] assms(2) in
      \<open>auto simp: count_unhealthy_def new_task_fields\<close>)
  ultimately show ?thesis using run_counts [OF assms(1), of 0 0] by (simp add: new_task_fields)
qed

definition offline_env :: cycle_env where
  "offline_env = (still_env zero_shared)\<lparr>e_gate := Some (\<lambda>_. False)\<rparr>"

theorem outage_never_restarts_witness:
  "\<exists>acts t'. executeTask [offline_env, offline_env, offline_env] (booted ESP_OTA_IMG_VALID) = Some (acts, False, t')"
proof -
  let ?es = "[offline_env, offline_env, offline_env]"
  have "executeTask ?es (booted ESP_OTA_IMG_VALID) \<noteq> None"
    by (rule run_defined_without_adc) (simp add: booted_def SensorsTask_new_def plain_settings_def)
  then obtain acts r t' where run: "executeTask ?es (booted ESP_OTA_IMG_VALID) = Some (acts, r, t')"
    by (metis not_None_eq prod_cases3)
  have env: "e = offline_env" if "(e, t) \<in> set (passes ?es u)" for e t u
  proof -
    have "(e, t) \<in> set (passes es u) \<Longrightarrow> e \<in> set es" for es
      by (induction es arbitrary: u) (auto split: option.splits prod.splits bool.splits)
    then show ?thesis using that by fastforce
  qed
  have "\<not> r"
    by (rule outage_never_restarts [OF run [unfolded booted_def]])
      (auto simp: stall_pass_def attached_def offline_env_def dest!: env)
  with run show ?thesis by auto
qed

text \<open>
  Whatever the passes go through, the ADC unit and its calibration are released when a pass ends, so
  the MODEM and TOP power domains are not pinned during light sleep.
\<close>

theorem adc_released_after_every_run:
  assumes "executeTask es (SensorsTask_new st img) = Some (acts, r, t')"
  shows "no_handles (m_adc t')"
  by (rule run_handles [OF assms]) (simp add: new_task_fields)

theorem adc_released_after_every_run_witness:
  "no_handles (m_adc ((booted ESP_OTA_IMG_VALID)\<lparr>wakeReason := SafeguardTimeout, m_lpStalledCycles := 2\<rparr>))"
  using adc_released_after_every_run [OF dead_run [unfolded booted_def]] by (simp only: booted_def)

text \<open>
  A running OTA download keeps the radio and the ADC to itself: the pass publishes nothing, does not
  acknowledge, store or count anything, and cannot restart the chip; it only waits again.
\<close>

theorem ota_download_is_left_alone:
  assumes "attached e" "e_ota_running e 0" "e_ota_running e 2"
  shows "\<exists>ms t'. task_cycle e t = Some ([WaitForWake ms], False, t') \<and> s_history t' = s_history t \<and>
    m_adc t' = m_adc t \<and> ota_state t' = ota_state t \<and>
    (m_lpStalledCycles t' = m_lpStalledCycles t \<or> m_lpStalledCycles t' = 0) \<and> m_cyclesUnconfirmedAndFailing t' = 0"
  using assms
  by (simp add: task_cycle_def service_eq publishing_def stall_pass_def supervise_def cycleOk_def
      stall_supervisor_def image_supervisor_def wait_phase_def Let_def)

theorem ota_download_is_left_alone_witness:
  "\<exists>ms t'. task_cycle ((still_env flagged_state)\<lparr>e_ota_running := \<lambda>_. True\<rparr>) (booted ESP_OTA_IMG_PENDING_VERIFY) =
     Some ([WaitForWake ms], False, t')"
  using ota_download_is_left_alone [of "(still_env flagged_state)\<lparr>e_ota_running := \<lambda>_. True\<rparr>" "booted ESP_OTA_IMG_PENDING_VERIFY"]
  by (auto simp: still_env_def attached_def)

text \<open>
  With a voltage divider whose coefficient is at most nine, every pass is defined: whatever the ADC
  returns, its sum wrapped to 32 bits included, the battery voltage fits an \<open>int\<close>.
\<close>

theorem pass_is_defined:
  assumes "f_in 0 9 (dividerCoefficient (batteryDividerRVbatOhm (m_settings t)) (batteryDividerRGndOhm (m_settings t)))"
    and "m_voltageDividerCoefficient t =
      dividerCoefficient (batteryDividerRVbatOhm (m_settings t)) (batteryDividerRGndOhm (m_settings t))"
  shows "task_cycle e t \<noteq> None"
  using cycle_defined assms by simp

lemma default_divider: "f_in 0 9 (dividerCoefficient (Fin 5021) (Fin 5035))"
proof -
  have s: "f64 (5035 + 5021) = Fin 10056" using f64_int [of 10056] by simp
  have "f_in (of_int 0) (of_int 9) (f64 (10056 / 5035))" by (rule f64_in_int) simp_all
  then show ?thesis using s by (simp add: dividerCoefficient_def)
qed

theorem pass_is_defined_witness:
  "task_cycle dead_env ((booted ESP_OTA_IMG_VALID)\<lparr>m_settings := plain_settings\<lparr>readVoltageViaAdc := True\<rparr>\<rparr>) \<noteq> None"
  by (rule pass_is_defined) (simp_all add: booted_def SensorsTask_new_def plain_settings_def default_divider)

lemma u32_mult_exact: "unat (a :: u32) * unat b < 4294967296 \<Longrightarrow> unat (a * b) = unat a * unat b"
  by (simp add: unat_word_ariths)

text \<open>
  While the safeguard window is at most 4294 s, its computation in 32 bits is exact: the task waits as
  many ticks as the window has milliseconds (\<open>pdMS_TO_TICKS\<close> at the configured 1 kHz tick rate, which
  multiplies in 32 bits).
\<close>

theorem safeguard_wait_is_exact:
  assumes ticks: "\<And>ms. ticks ms = ms * 1000 div 1000"
    and "0 < poll" "(unat maxSkip + 3) * unat poll \<le> 4294"
  shows "unat (ticks (safeguardWakeSec poll maxSkip * 1000)) = (unat maxSkip + 3) * unat poll * 1000"
proof -
  have "1 \<le> unat poll" using assms(2) by (simp add: word_less_nat_alt)
  then have "unat maxSkip + 3 \<le> (unat maxSkip + 3) * unat poll" by simp
  then have "unat maxSkip + 3 \<le> 4294" using assms(3) by linarith
  then have "unat (maxSkip + 3) = unat maxSkip + 3" using unat_add_no_overflow [of maxSkip 3] by simp
  then have s: "unat (safeguardWakeSec poll maxSkip) = (unat maxSkip + 3) * unat poll"
    unfolding safeguardWakeSec_def using assms(3) by (subst u32_mult_exact) simp_all
  obtain n where n: "(unat maxSkip + 3) * unat poll = n" by simp
  have "unat (safeguardWakeSec poll maxSkip * 1000) = n * 1000"
    using assms(3) s unfolding n by (subst u32_mult_exact) simp_all
  then have "unat (safeguardWakeSec poll maxSkip * 1000 * 1000) = n * 1000 * 1000"
    using assms(3) unfolding n by (subst u32_mult_exact) (simp_all only:, simp_all)
  then show ?thesis unfolding n by (simp only: ticks unat_div) simp
qed

theorem safeguard_wait_is_exact_witness:
  "unat ((\<lambda>ms. ms * 1000 div 1000) (safeguardWakeSec 20 14 * 1000)) = 340000"
  using safeguard_wait_is_exact [of "\<lambda>ms. ms * 1000 div 1000" 20 14] by simp

text \<open>
  Beyond that window the computation wraps. With a poll of 60 s and a skip budget of 69 the window is
  4320 s, but the wait ends after 25 s, less than one poll: an LP core that keeps its period looks
  stalled on every pass.
\<close>

theorem safeguard_wait_wraps:
  assumes ticks: "\<And>ms. e_ticks e ms = ms * 1000 div 1000"
    and "lpPollIntervalSec (m_settings t) = 60" "maxSkipCycles (m_settings t) = 69" "\<not> e_ota_due e 1"
    and "s_wake_eg (e_glue e)"
  shows "safeguardWakeSec 60 69 = 4320 \<and>
    wakeReason (snd (wait_phase e t)) = (if e_woken e 25032 then LpWake else SafeguardTimeout)"
  using assms by (simp add: wait_phase_def safeguardWakeSec_def lp_sensor_core_wait_for_wake_def Let_def)

theorem safeguard_wait_wraps_witness:
  "wakeReason (snd (wait_phase ((still_env zero_shared)\<lparr>e_ticks := \<lambda>ms. ms * 1000 div 1000, e_woken := \<lambda>n. 60000 \<le> n\<rparr>)
     ((booted ESP_OTA_IMG_VALID)\<lparr>m_settings := plain_settings\<lparr>lpPollIntervalSec := 60, maxSkipCycles := 69\<rparr>\<rparr>))) =
   SafeguardTimeout"
proof -
  have "\<not> (60000 :: u32) \<le> 25032" by (simp add: word_le_nat_alt)
  then show ?thesis
    using safeguard_wait_wraps [of "(still_env zero_shared)\<lparr>e_ticks := \<lambda>ms. ms * 1000 div 1000, e_woken := \<lambda>n. 60000 \<le> n\<rparr>"
      "(booted ESP_OTA_IMG_VALID)\<lparr>m_settings := plain_settings\<lparr>lpPollIntervalSec := 60, maxSkipCycles := 69\<rparr>\<rparr>"]
    by (simp add: still_env_def)
qed

end
