(* ===== verification/RtcClockFix.thy ===== *)
theory RtcClockFix
  imports Floats
begin

text \<open>
  The light-sleep clock correction, \<open>main/rtc_clock_fix.cpp\<close>: a ring of the newest cold calibrations of
  the slow clock, their rounded mean, and the wrapper that hands the mean to the sleep path.

  ESP-IDF's calibration is the parameter \<open>clk_cal\<close>. The ring is a function of the index (below 32). The
  lemmas relate it to the list of the newest values (\<open>newest\<close>), bound the mean by the values it
  averages, and bound how long outliers are rejected.
\<close>

section \<open>State and constants\<close>

datatype cal_src = CLK_CAL_RTC_SLOW | CLK_CAL_OTHER

record rtc_fix =
  rtc_samples :: u32
  rtc_ring :: "nat \<Rightarrow> u32"
  rtc_count :: u32
  rtc_last :: u32
  rtc_mean :: u32
  rtc_reject_run :: u32
  rtc_taken :: u32
  rtc_rejected :: u32
  rtc_restarts :: u32
  rtc_sleeps_cold :: u32
  rtc_sleeps_measured :: u32
  rtc_period_sec :: u32

definition SLEEP_PATH_CAL_CYCLES :: u32 where "SLEEP_PATH_CAL_CYCLES = 10"
definition COLD_CAL_CYCLES :: u32 where "COLD_CAL_CYCLES = 10"
definition COLD_MIN_SLEEP_US :: int where "COLD_MIN_SLEEP_US = 50 * 1000"
definition COLD_MAX_JUMP_PPM :: nat where "COLD_MAX_JUMP_PPM = 20000"
definition COLD_MAX_REJECT_RUN :: u32 where "COLD_MAX_REJECT_RUN = 8"
definition RTC_CAL_SAMPLES_MAX :: u32 where "RTC_CAL_SAMPLES_MAX = 32"
definition RTC_CAL_SAMPLES_DEFAULT :: u32 where "RTC_CAL_SAMPLES_DEFAULT = 8"
definition RTC_CAL_PERIOD_SEC_FLOOR :: u32 where "RTC_CAL_PERIOD_SEC_FLOOR = 30"
definition RTC_CAL_PERIOD_SEC_MAX :: u32 where "RTC_CAL_PERIOD_SEC_MAX = 3600"
definition RTC_CAL_PERIOD_SEC_DEFAULT :: u32 where "RTC_CAL_PERIOD_SEC_DEFAULT = 300"

definition rtc_cal_clamp_samples :: "u32 \<Rightarrow> u32" where
  "rtc_cal_clamp_samples samples = (if samples < RTC_CAL_SAMPLES_MAX then samples else RTC_CAL_SAMPLES_MAX)"

definition rtc_cal_clamp_period_sec :: "u32 \<Rightarrow> u32" where
  "rtc_cal_clamp_period_sec period_sec =
    (if period_sec = 0 then 0
     else if period_sec < RTC_CAL_PERIOD_SEC_FLOOR then RTC_CAL_PERIOD_SEC_FLOOR
     else if period_sec < RTC_CAL_PERIOD_SEC_MAX then period_sec else RTC_CAL_PERIOD_SEC_MAX)"

definition rtc_initial :: rtc_fix where
  "rtc_initial = \<lparr>rtc_samples = RTC_CAL_SAMPLES_DEFAULT, rtc_ring = (\<lambda>_. 0), rtc_count = 0, rtc_last = 0,
     rtc_mean = 0, rtc_reject_run = 0, rtc_taken = 0, rtc_rejected = 0, rtc_restarts = 0,
     rtc_sleeps_cold = 0, rtc_sleeps_measured = 0, rtc_period_sec = RTC_CAL_PERIOD_SEC_DEFAULT\<rparr>"

section \<open>Operations\<close>

text \<open>The wrapper around ESP-IDF's \<open>rtc_clk_cal()\<close>.\<close>

definition wrap_rtc_clk_cal ::
  "(cal_src \<Rightarrow> u32 \<Rightarrow> u32) \<Rightarrow> cal_src \<Rightarrow> u32 \<Rightarrow> rtc_fix \<Rightarrow> u32 \<times> rtc_fix" where
  "wrap_rtc_clk_cal clk_cal sel cycles s =
    (if sel \<noteq> CLK_CAL_RTC_SLOW \<or> cycles \<noteq> SLEEP_PATH_CAL_CYCLES then (clk_cal sel cycles, s)
     else if rtc_samples s \<noteq> 0 \<and> rtc_count s \<ge> rtc_samples s
     then (rtc_mean s, s\<lparr>rtc_sleeps_cold := rtc_sleeps_cold s + 1\<rparr>)
     else (clk_cal sel cycles, s\<lparr>rtc_sleeps_measured := rtc_sleeps_measured s + 1\<rparr>))"

text \<open>
  \<open>update_mean\<close>: the loop adds the \<open>n\<close> newest values; \<open>(sum + n / 2) / n\<close> in 64 bits cannot overflow
  (at most 32 values below \<open>2 ^ 32\<close>), so it is computed on naturals.
\<close>

fun sum_newest :: "(nat \<Rightarrow> u32) \<Rightarrow> u32 \<Rightarrow> nat \<Rightarrow> nat" where
  "sum_newest ring count 0 = 0"
| "sum_newest ring count (Suc i) =
     sum_newest ring count i + unat (ring (unat ((count - of_nat (Suc i)) mod RTC_CAL_SAMPLES_MAX)))"

definition update_mean :: "rtc_fix \<Rightarrow> rtc_fix" where
  "update_mean s =
    (let n = min (rtc_count s) (rtc_samples s);
         sum = sum_newest (rtc_ring s) (rtc_count s) (unat n)
     in s\<lparr>rtc_mean := if n \<noteq> 0 then of_nat ((sum + unat n div 2) div unat n) else 0\<rparr>)"

definition take_cold :: "u32 \<Rightarrow> rtc_fix \<Rightarrow> rtc_fix" where
  "take_cold period s =
    (let s = s\<lparr>rtc_reject_run := 0,
               rtc_ring := (rtc_ring s)(unat (rtc_count s mod RTC_CAL_SAMPLES_MAX) := period),
               rtc_count := rtc_count s + 1, rtc_taken := rtc_taken s + 1, rtc_last := period\<rparr>
     in update_mean s)"

definition outlier :: "u32 \<Rightarrow> rtc_fix \<Rightarrow> bool" where
  "outlier period s \<longleftrightarrow>
    (let diff = (if period > rtc_mean s then period - rtc_mean s else rtc_mean s - period)
     in unat diff * 1000000 > unat (rtc_mean s) * COLD_MAX_JUMP_PPM)"

definition accept_cold :: "u32 \<Rightarrow> rtc_fix \<Rightarrow> rtc_fix" where
  "accept_cold period s =
    (if rtc_count s \<ge> rtc_samples s \<and> outlier period s then
       (let s = s\<lparr>rtc_reject_run := rtc_reject_run s + 1\<rparr> in
        if rtc_reject_run s < COLD_MAX_REJECT_RUN then s\<lparr>rtc_rejected := rtc_rejected s + 1\<rparr>
        else take_cold period (s\<lparr>rtc_count := 0, rtc_restarts := rtc_restarts s + 1\<rparr>))
     else take_cold period s)"

definition rtc_on_light_sleep_exit :: "(cal_src \<Rightarrow> u32 \<Rightarrow> u32) \<Rightarrow> int \<Rightarrow> rtc_fix \<Rightarrow> rtc_fix" where
  "rtc_on_light_sleep_exit clk_cal sleep_time_us s =
    (if rtc_samples s = 0 \<or> sleep_time_us < COLD_MIN_SLEEP_US then s
     else (let cold = clk_cal CLK_CAL_RTC_SLOW COLD_CAL_CYCLES in
           if cold = 0 then s else accept_cold cold s))"

definition rtc_clock_fix_set_samples :: "u32 \<Rightarrow> rtc_fix \<Rightarrow> rtc_fix" where
  "rtc_clock_fix_set_samples samples s =
    (let samples = rtc_cal_clamp_samples samples;
         was = rtc_samples s;
         s = s\<lparr>rtc_samples := samples\<rparr>;
         s = (if was = 0 then s\<lparr>rtc_count := 0\<rparr> else s);
         s = s\<lparr>rtc_reject_run := 0\<rparr>
     in update_mean s)"

text \<open>The result says whether the status task is notified.\<close>

definition rtc_clock_fix_set_period_sec :: "u32 \<Rightarrow> rtc_fix \<Rightarrow> bool \<times> rtc_fix" where
  "rtc_clock_fix_set_period_sec period_sec s =
    (let period_sec = rtc_cal_clamp_period_sec period_sec in
     (rtc_period_sec s \<noteq> period_sec, s\<lparr>rtc_period_sec := period_sec\<rparr>))"

definition rtc_clock_fix_start :: "esp_err \<Rightarrow> bool \<Rightarrow> u32 \<Rightarrow> u32 \<Rightarrow> rtc_fix \<Rightarrow> esp_err \<times> rtc_fix" where
  "rtc_clock_fix_start register_err task_created samples period_sec s =
    (let s = s\<lparr>rtc_samples := rtc_cal_clamp_samples samples,
               rtc_period_sec := rtc_cal_clamp_period_sec period_sec\<rparr>
     in if register_err \<noteq> ESP_OK then (register_err, s)
        else if \<not> task_created then (ESP_ERR_NO_MEM, s) else (ESP_OK, s))"

text \<open>\<open>log_status\<close>: what it reads under the lock; the two sleep counters restart.\<close>

record rtc_status =
  st_samples :: u32
  st_last :: u32
  st_mean :: u32
  st_taken :: u32
  st_rejected :: u32
  st_restarts :: u32
  st_sleeps_cold :: u32
  st_sleeps_measured :: u32

definition log_status :: "rtc_fix \<Rightarrow> rtc_status \<times> rtc_fix" where
  "log_status s =
    (\<lparr>st_samples = rtc_samples s, st_last = rtc_last s, st_mean = rtc_mean s, st_taken = rtc_taken s,
      st_rejected = rtc_rejected s, st_restarts = rtc_restarts s,
      st_sleeps_cold = rtc_sleeps_cold s, st_sleeps_measured = rtc_sleeps_measured s\<rparr>,
     s\<lparr>rtc_sleeps_cold := 0, rtc_sleeps_measured := 0\<rparr>)"

text \<open>The frequency of a calibration value; \<open>fract\<close> is ESP-IDF's \<open>RTC_CLK_CAL_FRACT\<close>.\<close>

definition period_khz :: "nat \<Rightarrow> u32 \<Rightarrow> flt" where
  "period_khz fract period =
    (if period \<noteq> 0
     then f_div f64 (f_mul f64 (Fin 1000) (f_int f64 (2 ^ fract))) (f_int f64 (uint period))
     else Fin 0)"

text \<open>
  One pass of the status task: how long it waits (\<open>None\<close>: until notified), and whether it then logs.
  \<open>ticks\<close> is the platform's \<open>pdMS_TO_TICKS\<close>.
\<close>

definition status_wait :: "(u32 \<Rightarrow> u32) \<Rightarrow> rtc_fix \<Rightarrow> u32 option" where
  "status_wait ticks s = (if rtc_period_sec s = 0 then None else Some (rtc_period_sec s * ticks 1000))"

definition status_pass :: "(u32 \<Rightarrow> u32) \<Rightarrow> bool \<Rightarrow> rtc_fix \<Rightarrow> rtc_status option \<times> rtc_fix" where
  "status_pass ticks notified s =
    (case status_wait ticks s of
       None \<Rightarrow> (None, s)
     | Some t \<Rightarrow> if notified then (None, s) else (case log_status s of (st, s) \<Rightarrow> (Some st, s)))"

section \<open>The newest values\<close>

definition newest :: "rtc_fix \<Rightarrow> nat \<Rightarrow> u32 list" where
  "newest s n = map (\<lambda>i. rtc_ring s (unat ((rtc_count s - of_nat (Suc i)) mod RTC_CAL_SAMPLES_MAX))) [0..<n]"

lemma length_newest [simp]: "length (newest s n) = n"
  by (simp add: newest_def)

lemma sum_newest_eq: "sum_newest (rtc_ring s) (rtc_count s) n = sum_list (map unat (newest s n))"
  by (induction n) (simp_all add: newest_def)

lemma take_newest: "m \<le> n \<Longrightarrow> take m (newest s n) = newest s m"
  by (simp add: newest_def take_map)

lemma ring_slot: "unat (c mod RTC_CAL_SAMPLES_MAX) = unat c mod 32"
  by (simp add: RTC_CAL_SAMPLES_MAX_def unat_mod)

lemma ring_slot_sub:
  assumes "i < 32"
  shows "unat ((c + 1 - of_nat (Suc i)) mod RTC_CAL_SAMPLES_MAX) = unat (c mod RTC_CAL_SAMPLES_MAX) \<longleftrightarrow> i = 0"
proof -
  have "unat ((c - of_nat i) mod 32) = unat (c mod 32) \<longleftrightarrow> (c - of_nat i) mod 32 = c mod 32"
    by (simp only: word_unat_eq_iff)
  also have "\<dots> \<longleftrightarrow> i = 0"
  proof
    assume e: "(c - of_nat i) mod 32 = c mod 32"
    have t: "w mod 32 = take_bit 5 w" for w :: u32 by (simp add: take_bit_eq_mod)
    have "take_bit 5 (c - of_nat i) = take_bit 5 c" using e by (simp only: t)
    then have "take_bit 5 (uint (c - of_nat i)) = take_bit 5 (uint c)"
      by (metis unsigned_take_bit_eq)
    moreover have "uint (c - of_nat i) = (uint c - int i) mod 2 ^ 32"
      using assms by (simp add: uint_word_ariths unsigned_of_nat take_bit_eq_mod)
    ultimately have "((uint c - int i) mod 2 ^ 32) mod 32 = uint c mod 32"
      by (simp only: take_bit_eq_mod) simp
    moreover have "((uint c - int i) mod 2 ^ 32) mod 32 = (uint c - int i) mod 32"
      by (rule mod_mod_cancel) simp
    ultimately have "32 dvd int i" using mod_eq_dvd_iff [of "uint c" 32 "uint c - int i"] by simp
    with assms show "i = 0" by (auto dest!: zdvd_imp_le)
  qed simp
  finally show ?thesis by (simp add: RTC_CAL_SAMPLES_MAX_def)
qed


lemma take_cold_newest:
  assumes "n < 32"
  shows "newest (take_cold p s) (Suc n) = p # newest s n"
proof (rule nth_equalityI)
  fix i
  assume "i < length (newest (take_cold p s) (Suc n))"
  then have i: "i < 32" "i \<le> n" using assms by auto
  have "newest (take_cold p s) (Suc n) ! i =
      (if i = 0 then p else rtc_ring s (unat ((rtc_count s + 1 - of_nat (Suc i)) mod RTC_CAL_SAMPLES_MAX)))"
    using i ring_slot_sub [OF i(1), of "rtc_count s"]
    by (auto simp: newest_def take_cold_def update_mean_def Let_def simp del: upt_Suc)
  also have "\<dots> = (p # newest s n) ! i"
    using i by (cases i) (auto simp: newest_def algebra_simps)
  finally show "newest (take_cold p s) (Suc n) ! i = (p # newest s n) ! i" .
qed simp

section \<open>The mean\<close>

definition mean_of :: "u32 list \<Rightarrow> nat" where
  "mean_of vs = (sum_list (map unat vs) + length vs div 2) div length vs"

definition rtc_n :: "rtc_fix \<Rightarrow> nat" where
  "rtc_n s = min (unat (rtc_count s)) (unat (rtc_samples s))"

definition rtc_inv :: "rtc_fix \<Rightarrow> bool" where
  "rtc_inv s \<longleftrightarrow> rtc_samples s \<le> RTC_CAL_SAMPLES_MAX \<and> rtc_reject_run s < COLD_MAX_REJECT_RUN \<and>
     (rtc_n s \<noteq> 0 \<longrightarrow> unat (rtc_mean s) = mean_of (newest s (rtc_n s)))"

lemma sum_list_bounds:
  "list_all (\<lambda>v. lo \<le> unat v \<and> unat v \<le> hi) vs \<Longrightarrow>
   length vs * lo \<le> sum_list (map unat vs) \<and> sum_list (map unat vs) \<le> length vs * hi"
  by (induction vs) auto

lemma mean_of_bounds:
  assumes "vs \<noteq> []" "list_all (\<lambda>v. lo \<le> unat v \<and> unat v \<le> hi) vs"
  shows "lo \<le> mean_of vs \<and> mean_of vs \<le> hi"
proof -
  let ?n = "length vs" and ?s = "sum_list (map unat vs)"
  have n: "0 < ?n" using assms(1) by simp
  have s: "?n * lo \<le> ?s" "?s \<le> ?n * hi" using sum_list_bounds [OF assms(2)] by auto
  have "lo = ?n * lo div ?n" using n by simp
  also have "\<dots> \<le> (?s + ?n div 2) div ?n" using s(1) by (intro div_le_mono) simp
  finally have "lo \<le> mean_of vs" by (simp add: mean_of_def)
  moreover have "(?s + ?n div 2) div ?n \<le> (hi * ?n + ?n div 2) div ?n"
    using s(2) by (intro div_le_mono) (simp add: mult.commute)
  moreover have "(hi * ?n + ?n div 2) div ?n = hi" using n by simp
  ultimately show ?thesis by (simp add: mean_of_def)
qed

lemma mean_of_less: "vs \<noteq> [] \<Longrightarrow> mean_of vs < 4294967296"
proof -
  assume v: "vs \<noteq> []"
  have "unat v \<le> 4294967295" for v :: u32
    using unat_u32_less [of v] by linarith
  then have "list_all (\<lambda>v. 0 \<le> unat v \<and> unat v \<le> 4294967295) vs" by (simp add: list_all_iff)
  from mean_of_bounds [OF v this] show ?thesis by linarith
qed

lemma update_mean_inv:
  assumes "rtc_samples s \<le> RTC_CAL_SAMPLES_MAX" "rtc_reject_run s < COLD_MAX_REJECT_RUN"
  shows "rtc_inv (update_mean s)"
proof -
  let ?s = "update_mean s"
  have f: "rtc_samples ?s = rtc_samples s" "rtc_reject_run ?s = rtc_reject_run s" "rtc_count ?s = rtc_count s"
    "newest ?s k = newest s k" "rtc_n ?s = rtc_n s" for k
    by (simp_all add: update_mean_def newest_def rtc_n_def Let_def)
  have n: "unat (min (rtc_count s) (rtc_samples s)) = rtc_n s"
    by (simp add: rtc_n_def min_def word_le_nat_alt)
  have "unat (rtc_mean ?s) = mean_of (newest s (rtc_n s))" if "rtc_n s \<noteq> 0"
  proof -
    have "newest s (rtc_n s) \<noteq> []" using that by (simp flip: length_0_conv)
    note less = mean_of_less [OF this]
    have "min (rtc_count s) (rtc_samples s) \<noteq> 0" using that n by auto
    then have "rtc_mean ?s = of_nat (mean_of (newest s (rtc_n s)))"
      by (simp add: update_mean_def Let_def n mean_of_def sum_newest_eq)
    with less show ?thesis by (simp add: unat_of_nat_u32)
  qed
  with assms show ?thesis by (simp add: rtc_inv_def f)
qed

lemma rtc_inv_frame:
  "rtc_inv s \<Longrightarrow> rtc_samples t = rtc_samples s \<Longrightarrow> rtc_ring t = rtc_ring s \<Longrightarrow> rtc_count t = rtc_count s \<Longrightarrow>
   rtc_mean t = rtc_mean s \<Longrightarrow> rtc_reject_run t < COLD_MAX_REJECT_RUN \<Longrightarrow> rtc_inv t"
  by (simp add: rtc_inv_def rtc_n_def newest_def)

lemma take_cold_inv: "rtc_samples s \<le> RTC_CAL_SAMPLES_MAX \<Longrightarrow> rtc_inv (take_cold p s)"
  unfolding take_cold_def Let_def by (rule update_mean_inv) (simp_all add: COLD_MAX_REJECT_RUN_def)

lemma accept_cold_inv: "rtc_inv s \<Longrightarrow> rtc_inv (accept_cold p s)"
proof -
  assume s: "rtc_inv s"
  then have le: "rtc_samples s \<le> RTC_CAL_SAMPLES_MAX" by (simp add: rtc_inv_def)
  have "rtc_inv (s\<lparr>rtc_reject_run := r, rtc_rejected := k\<rparr>)" if "r < COLD_MAX_REJECT_RUN" for r k
    using that s by (intro rtc_inv_frame [OF s]) simp_all
  with le show "rtc_inv (accept_cold p s)"
    by (simp add: accept_cold_def Let_def take_cold_inv)
qed

lemma rtc_exit_inv: "rtc_inv s \<Longrightarrow> rtc_inv (rtc_on_light_sleep_exit c us s)"
  by (simp add: rtc_on_light_sleep_exit_def Let_def accept_cold_inv)

lemma rtc_wrap_inv: "rtc_inv s \<Longrightarrow> rtc_inv (snd (wrap_rtc_clk_cal c sel n s))"
  by (auto simp: wrap_rtc_clk_cal_def rtc_inv_def rtc_n_def newest_def)

lemma clamp_samples_le: "rtc_cal_clamp_samples n \<le> RTC_CAL_SAMPLES_MAX"
  by (simp add: rtc_cal_clamp_samples_def order.strict_implies_order)

lemma rtc_set_samples_inv: "rtc_inv (rtc_clock_fix_set_samples n s)"
  unfolding rtc_clock_fix_set_samples_def Let_def
  by (rule update_mean_inv) (simp_all add: clamp_samples_le COLD_MAX_REJECT_RUN_def)

lemma rtc_status_inv: "rtc_inv s \<Longrightarrow> rtc_inv (snd (status_pass ticks d s))"
  by (auto simp: status_pass_def log_status_def rtc_inv_def rtc_n_def newest_def split: option.splits)

lemma rtc_set_period_inv: "rtc_inv s \<Longrightarrow> rtc_inv (snd (rtc_clock_fix_set_period_sec n s))"
  by (simp add: rtc_clock_fix_set_period_sec_def rtc_inv_def rtc_n_def newest_def Let_def)

text \<open>The states the firmware can be in: started once, then any sequence of the operations.\<close>

inductive rtc_reach :: "rtc_fix \<Rightarrow> bool" where
  start: "rtc_reach (snd (rtc_clock_fix_start e c samples period_sec rtc_initial))"
| sleep: "rtc_reach s \<Longrightarrow> rtc_reach (snd (wrap_rtc_clk_cal clk_cal sel n s))"
| wake: "rtc_reach s \<Longrightarrow> rtc_reach (rtc_on_light_sleep_exit clk_cal us s)"
| set_samples: "rtc_reach s \<Longrightarrow> rtc_reach (rtc_clock_fix_set_samples n s)"
| set_period: "rtc_reach s \<Longrightarrow> rtc_reach (snd (rtc_clock_fix_set_period_sec n s))"
| status: "rtc_reach s \<Longrightarrow> rtc_reach (snd (status_pass ticks d s))"

lemma rtc_start_inv: "rtc_inv (snd (rtc_clock_fix_start e c samples period_sec rtc_initial))"
  by (simp add: rtc_clock_fix_start_def rtc_initial_def rtc_inv_def rtc_n_def clamp_samples_le
      COLD_MAX_REJECT_RUN_def Let_def)

lemma rtc_reach_inv: "rtc_reach s \<Longrightarrow> rtc_inv s"
  by (induction rule: rtc_reach.induct)
    (simp_all add: rtc_start_inv rtc_wrap_inv rtc_exit_inv rtc_set_samples_inv rtc_set_period_inv rtc_status_inv)

section \<open>Rejection\<close>

text \<open>The values of a list are all rejected, one after the other.\<close>

definition rejects :: "u32 \<Rightarrow> rtc_fix \<Rightarrow> bool" where
  "rejects p s \<longleftrightarrow> rtc_count s \<ge> rtc_samples s \<and> outlier p s \<and> rtc_reject_run s + 1 < COLD_MAX_REJECT_RUN"

fun all_rejected :: "u32 list \<Rightarrow> rtc_fix \<Rightarrow> bool" where
  "all_rejected [] s \<longleftrightarrow> True"
| "all_rejected (p # ps) s \<longleftrightarrow> rejects p s \<and> all_rejected ps (accept_cold p s)"

lemma rejects_step:
  "rejects p s \<Longrightarrow> accept_cold p s =
     s\<lparr>rtc_reject_run := rtc_reject_run s + 1, rtc_rejected := rtc_rejected s + 1\<rparr>"
  by (simp add: rejects_def accept_cold_def Let_def)

lemma rejects_unat:
  assumes "rejects p s" "rtc_inv s"
  shows "unat (rtc_reject_run s + 1) = unat (rtc_reject_run s) + 1" "unat (rtc_reject_run s) + 1 < 8"
proof -
  have "unat (rtc_reject_run s) < 8"
    using assms(2) by (simp add: rtc_inv_def COLD_MAX_REJECT_RUN_def word_less_nat_alt)
  then show u: "unat (rtc_reject_run s + 1) = unat (rtc_reject_run s) + 1" by (intro unat_Suc_u32) simp
  show "unat (rtc_reject_run s) + 1 < 8"
    using assms(1) u by (simp add: rejects_def COLD_MAX_REJECT_RUN_def word_less_nat_alt)
qed

lemma all_rejected_length:
  "all_rejected ps s \<Longrightarrow> rtc_inv s \<Longrightarrow> length ps + unat (rtc_reject_run s) \<le> 7"
proof (induction ps arbitrary: s)
  case Nil
  then show ?case by (simp add: rtc_inv_def COLD_MAX_REJECT_RUN_def word_less_nat_alt)
next
  case (Cons p ps)
  then have r: "rejects p s" by simp
  note u = rejects_unat [OF r Cons.prems(2)]
  have "length ps + unat (rtc_reject_run (accept_cold p s)) \<le> 7"
    using Cons accept_cold_inv by simp
  with u show ?case by (simp add: rejects_step [OF r])
qed

section \<open>What the ring stands for\<close>

text \<open>
  The specification: the accepted cold calibrations, newest first, since the log last began, and how many
  were rejected in a row. There is no ring, no count and no kept mean.
\<close>

record cold_log =
  cl_samples :: nat
  cl_vals :: "u32 list"
  cl_rejects :: nat

definition far_off :: "nat \<Rightarrow> nat \<Rightarrow> bool" where
  "far_off v mean \<longleftrightarrow> mean * 20000 < (if mean < v then v - mean else mean - v) * 1000000"

definition cl_wake :: "u32 \<Rightarrow> int \<Rightarrow> cold_log \<Rightarrow> cold_log" where
  "cl_wake cold us a =
    (if cl_samples a = 0 \<or> us < 50000 \<or> cold = 0 then a
     else if cl_samples a \<le> length (cl_vals a) \<and> far_off (unat cold) (mean_of (take (cl_samples a) (cl_vals a))) then
       (if cl_rejects a < 7 then a\<lparr>cl_rejects := cl_rejects a + 1\<rparr> else a\<lparr>cl_vals := [cold], cl_rejects := 0\<rparr>)
     else a\<lparr>cl_vals := cold # cl_vals a, cl_rejects := 0\<rparr>)"

definition cl_sleep :: "(cal_src \<Rightarrow> u32 \<Rightarrow> u32) \<Rightarrow> cal_src \<Rightarrow> u32 \<Rightarrow> cold_log \<Rightarrow> nat" where
  "cl_sleep clk_cal sel cycles a =
    (if sel = CLK_CAL_RTC_SLOW \<and> cycles = SLEEP_PATH_CAL_CYCLES \<and> cl_samples a \<noteq> 0 \<and> cl_samples a \<le> length (cl_vals a)
     then mean_of (take (cl_samples a) (cl_vals a)) else unat (clk_cal sel cycles))"

text \<open>What happens to the module, and the values its sleeps are given.\<close>

datatype rtc_event =
    RtcSleep "cal_src \<Rightarrow> u32 \<Rightarrow> u32" cal_src u32
  | RtcWake "cal_src \<Rightarrow> u32 \<Rightarrow> u32" int
  | RtcSetSamples u32
  | RtcSetPeriod u32
  | RtcStatus "u32 \<Rightarrow> u32" bool

fun cl_run :: "rtc_event list \<Rightarrow> cold_log \<Rightarrow> nat list" where
  "cl_run [] a = []"
| "cl_run (RtcSleep clk_cal sel cycles # evs) a = cl_sleep clk_cal sel cycles a # cl_run evs a"
| "cl_run (RtcWake clk_cal us # evs) a = cl_run evs (cl_wake (clk_cal CLK_CAL_RTC_SLOW 10) us a)"
| "cl_run (RtcSetSamples n # evs) a =
    cl_run evs (a\<lparr>cl_samples := min 32 (unat n), cl_vals := (if cl_samples a = 0 then [] else cl_vals a), cl_rejects := 0\<rparr>)"
| "cl_run (RtcSetPeriod n # evs) a = cl_run evs a"
| "cl_run (RtcStatus ticks notified # evs) a = cl_run evs a"

fun rtc_run :: "rtc_event list \<Rightarrow> rtc_fix \<Rightarrow> nat list" where
  "rtc_run [] s = []"
| "rtc_run (RtcSleep clk_cal sel cycles # evs) s =
    (let (v, s) = wrap_rtc_clk_cal clk_cal sel cycles s in unat v # rtc_run evs s)"
| "rtc_run (RtcWake clk_cal us # evs) s = rtc_run evs (rtc_on_light_sleep_exit clk_cal us s)"
| "rtc_run (RtcSetSamples n # evs) s = rtc_run evs (rtc_clock_fix_set_samples n s)"
| "rtc_run (RtcSetPeriod n # evs) s = rtc_run evs (snd (rtc_clock_fix_set_period_sec n s))"
| "rtc_run (RtcStatus ticks notified # evs) s = rtc_run evs (snd (status_pass ticks notified s))"

text \<open>The ring holds the newest values of the list, as many as it has slots.\<close>

definition rtc_rel :: "rtc_fix \<Rightarrow> cold_log \<Rightarrow> bool" where
  "rtc_rel s a \<longleftrightarrow> rtc_inv s \<and> cl_samples a = unat (rtc_samples s) \<and> cl_samples a \<le> 32 \<and>
     length (cl_vals a) = unat (rtc_count s) \<and> cl_rejects a = unat (rtc_reject_run s) \<and>
     (\<forall>n \<le> 32. n \<le> length (cl_vals a) \<longrightarrow> newest s n = take n (cl_vals a))"

lemma rtc_rel_frame:
  "rtc_rel s a \<Longrightarrow> rtc_samples t = rtc_samples s \<Longrightarrow> rtc_ring t = rtc_ring s \<Longrightarrow> rtc_count t = rtc_count s \<Longrightarrow>
   rtc_mean t = rtc_mean s \<Longrightarrow> rtc_reject_run t = rtc_reject_run s \<Longrightarrow> rtc_rel t a"
  by (simp add: rtc_rel_def rtc_inv_def rtc_n_def newest_def)

lemma rel_mean:
  assumes "rtc_rel s a" "cl_samples a \<noteq> 0" "cl_samples a \<le> length (cl_vals a)"
  shows "unat (rtc_mean s) = mean_of (take (cl_samples a) (cl_vals a))"
proof -
  have n: "rtc_n s = cl_samples a" using assms(1,3) by (simp add: rtc_rel_def rtc_n_def)
  then have "unat (rtc_mean s) = mean_of (newest s (cl_samples a))"
    using assms(1,2) by (simp add: rtc_rel_def rtc_inv_def)
  then show ?thesis using assms(1,3) by (simp add: rtc_rel_def)
qed

lemma outlier_far_off: "outlier p s \<longleftrightarrow> far_off (unat p) (unat (rtc_mean s))"
proof (cases "rtc_mean s < p")
  case True
  then have "unat (rtc_mean s) < unat p" by (simp add: word_less_nat_alt)
  moreover have "unat (p - rtc_mean s) = unat p - unat (rtc_mean s)"
    using True by (intro unat_sub) (simp add: order.strict_implies_order)
  ultimately show ?thesis
    using True by (simp add: outlier_def far_off_def COLD_MAX_JUMP_PPM_def Let_def)
next
  case False
  then have le: "unat p \<le> unat (rtc_mean s)" by (simp add: word_less_nat_alt)
  have "unat (rtc_mean s - p) = unat (rtc_mean s) - unat p"
    using False by (intro unat_sub) (simp add: not_less)
  with False le show ?thesis
    by (simp add: outlier_def far_off_def COLD_MAX_JUMP_PPM_def Let_def)
qed

text \<open>Taking a value: the ring gets it in front, as the list does.\<close>

lemma take_cold_rel:
  assumes "rtc_rel s a" "length (cl_vals a) + 1 < 2 ^ 32"
  shows "rtc_rel (take_cold p s) (a\<lparr>cl_vals := p # cl_vals a, cl_rejects := 0\<rparr>)"
proof -
  let ?t = "take_cold p s"
  have f: "rtc_samples ?t = rtc_samples s" "rtc_count ?t = rtc_count s + 1" "rtc_reject_run ?t = 0"
    by (simp_all add: take_cold_def update_mean_def Let_def)
  have c: "unat (rtc_count s + 1) = unat (rtc_count s) + 1"
    using assms by (intro unat_Suc_u32) (simp add: rtc_rel_def)
  have n: "newest ?t n = take n (p # cl_vals a)" if "n \<le> 32" "n \<le> length (cl_vals a) + 1" for n
  proof (cases n)
    case 0
    then show ?thesis by (simp add: newest_def)
  next
    case (Suc m)
    then show ?thesis using that assms(1) take_cold_newest [of m p s] by (simp add: rtc_rel_def)
  qed
  have "rtc_samples s \<le> RTC_CAL_SAMPLES_MAX" using assms(1) by (simp add: rtc_rel_def rtc_inv_def)
  from take_cold_inv [OF this] show ?thesis using assms(1) n by (simp add: rtc_rel_def f c)
qed

lemma wake_rel:
  assumes r: "rtc_rel s a" and len: "length (cl_vals a) + 1 < 2 ^ 32"
  shows "rtc_rel (rtc_on_light_sleep_exit clk_cal us s) (cl_wake (clk_cal CLK_CAL_RTC_SLOW 10) us a)"
proof -
  let ?p = "clk_cal CLK_CAL_RTC_SLOW 10"
  have z: "rtc_samples s = 0 \<longleftrightarrow> cl_samples a = 0" using r by (simp add: rtc_rel_def unat_eq_0)
  have run: "cl_rejects a = unat (rtc_reject_run s)" "unat (rtc_reject_run s) < 8"
    using r by (simp_all add: rtc_rel_def rtc_inv_def COLD_MAX_REJECT_RUN_def word_less_nat_alt)
  show ?thesis
  proof (cases "cl_samples a = 0 \<or> us < 50000 \<or> ?p = 0")
    case True
    then show ?thesis
      using r z by (auto simp: rtc_on_light_sleep_exit_def cl_wake_def COLD_MIN_SLEEP_US_def COLD_CAL_CYCLES_def Let_def)
  next
    case False
    then have e: "rtc_on_light_sleep_exit clk_cal us s = accept_cold ?p s"
      using z by (simp add: rtc_on_light_sleep_exit_def COLD_MIN_SLEEP_US_def COLD_CAL_CYCLES_def Let_def)
    have full: "rtc_samples s \<le> rtc_count s \<longleftrightarrow> cl_samples a \<le> length (cl_vals a)"
      using r by (simp add: rtc_rel_def word_le_nat_alt)
    have out: "outlier ?p s \<longleftrightarrow> far_off (unat ?p) (mean_of (take (cl_samples a) (cl_vals a)))"
      if "cl_samples a \<le> length (cl_vals a)"
      using rel_mean [OF r _ that] False by (simp add: outlier_far_off)
    show ?thesis
    proof (cases "cl_samples a \<le> length (cl_vals a) \<and> far_off (unat ?p) (mean_of (take (cl_samples a) (cl_vals a)))")
      case True
      then have o: "rtc_samples s \<le> rtc_count s \<and> outlier ?p s" using full out by simp
      have u: "unat (rtc_reject_run s + 1) = unat (rtc_reject_run s) + 1"
        using run by (intro unat_Suc_u32) simp
      then have lt: "rtc_reject_run s + 1 < COLD_MAX_REJECT_RUN \<longleftrightarrow> cl_rejects a < 7"
        by (simp add: COLD_MAX_REJECT_RUN_def word_less_nat_alt run(1))
      show ?thesis
      proof (cases "cl_rejects a < 7")
        case True
        let ?t = "s\<lparr>rtc_reject_run := rtc_reject_run s + 1, rtc_rejected := rtc_rejected s + 1\<rparr>"
        have "rtc_inv s" using r by (simp add: rtc_rel_def)
        moreover have "rtc_reject_run ?t < COLD_MAX_REJECT_RUN" using lt True by simp
        ultimately have "rtc_inv ?t" by (intro rtc_inv_frame [of s ?t]) simp_all
        then have "rtc_rel ?t (a\<lparr>cl_rejects := cl_rejects a + 1\<rparr>)"
          using r u by (simp add: rtc_rel_def newest_def)
        then show ?thesis
          using False \<open>_ \<and> far_off _ _\<close> o lt True by (simp add: e accept_cold_def cl_wake_def Let_def)
      next
        case no: False
        let ?t = "s\<lparr>rtc_reject_run := rtc_reject_run s + 1, rtc_count := 0, rtc_restarts := rtc_restarts s + 1\<rparr>"
        let ?u = "s\<lparr>rtc_count := 0, rtc_restarts := rtc_restarts s + 1\<rparr>"
        have "rtc_inv ?u" using r by (simp add: rtc_rel_def rtc_inv_def rtc_n_def)
        then have "rtc_rel ?u (a\<lparr>cl_vals := []\<rparr>)"
          using r by (simp add: rtc_rel_def newest_def)
        from take_cold_rel [OF this, of ?p] have "rtc_rel (take_cold ?p ?u) (a\<lparr>cl_vals := [?p], cl_rejects := 0\<rparr>)" by simp
        moreover have "take_cold ?p ?t = take_cold ?p ?u" by (simp add: take_cold_def Let_def)
        ultimately have "rtc_rel (take_cold ?p ?t) (a\<lparr>cl_vals := [?p], cl_rejects := 0\<rparr>)" by (simp only:)
        moreover have "accept_cold ?p s = take_cold ?p ?t" using o lt no by (simp add: accept_cold_def Let_def)
        moreover have "cl_wake ?p us a = a\<lparr>cl_vals := [?p], cl_rejects := 0\<rparr>"
          using False \<open>_ \<and> far_off _ _\<close> no by (simp add: cl_wake_def)
        ultimately show ?thesis by (simp only: e)
      qed
    next
      case no: False
      then have "accept_cold ?p s = take_cold ?p s" using full out by (auto simp: accept_cold_def)
      moreover have "cl_wake ?p us a = a\<lparr>cl_vals := ?p # cl_vals a, cl_rejects := 0\<rparr>"
        using False no unfolding cl_wake_def by auto
      ultimately show ?thesis using take_cold_rel [OF r len] by (simp add: e)
    qed
  qed
qed

lemma clamp_samples_unat: "unat (rtc_cal_clamp_samples n) = min 32 (unat n)"
  by (auto simp: rtc_cal_clamp_samples_def RTC_CAL_SAMPLES_MAX_def word_less_nat_alt)

lemma set_samples_rel:
  assumes "rtc_rel s a"
  shows "rtc_rel (rtc_clock_fix_set_samples n s)
    (a\<lparr>cl_samples := min 32 (unat n), cl_vals := (if cl_samples a = 0 then [] else cl_vals a), cl_rejects := 0\<rparr>)"
proof -
  let ?t = "rtc_clock_fix_set_samples n s"
  have f: "rtc_samples ?t = rtc_cal_clamp_samples n" "rtc_ring ?t = rtc_ring s" "rtc_reject_run ?t = 0"
    "rtc_count ?t = (if rtc_samples s = 0 then 0 else rtc_count s)"
    by (simp_all add: rtc_clock_fix_set_samples_def update_mean_def Let_def)
  have "rtc_samples s = 0 \<longleftrightarrow> cl_samples a = 0" using assms by (simp add: rtc_rel_def unat_eq_0)
  with assms rtc_set_samples_inv show ?thesis
    by (simp add: rtc_rel_def f clamp_samples_unat newest_def)
qed

lemma rtc_start_rel:
  "rtc_rel (snd (rtc_clock_fix_start err created samples period_sec rtc_initial))
    \<lparr>cl_samples = min 32 (unat samples), cl_vals = [], cl_rejects = 0\<rparr>"
  using rtc_start_inv
  by (simp add: rtc_rel_def) (simp add: rtc_clock_fix_start_def rtc_initial_def clamp_samples_unat newest_def Let_def)

lemma sleep_rel:
  assumes "rtc_rel s a"
  shows "unat (fst (wrap_rtc_clk_cal clk_cal sel cycles s)) = cl_sleep clk_cal sel cycles a"
    "rtc_rel (snd (wrap_rtc_clk_cal clk_cal sel cycles s)) a"
proof -
  have "rtc_samples s = 0 \<longleftrightarrow> cl_samples a = 0" "rtc_samples s \<le> rtc_count s \<longleftrightarrow> cl_samples a \<le> length (cl_vals a)"
    using assms by (simp_all add: rtc_rel_def unat_eq_0 word_le_nat_alt)
  with rel_mean [OF assms] show "unat (fst (wrap_rtc_clk_cal clk_cal sel cycles s)) = cl_sleep clk_cal sel cycles a"
    by (auto simp: wrap_rtc_clk_cal_def cl_sleep_def)
  show "rtc_rel (snd (wrap_rtc_clk_cal clk_cal sel cycles s)) a"
    by (rule rtc_rel_frame [OF assms]) (simp_all add: wrap_rtc_clk_cal_def)
qed

lemma rtc_run_refines:
  "rtc_rel s a \<Longrightarrow> length (cl_vals a) + length evs < 2 ^ 32 \<Longrightarrow> rtc_run evs s = cl_run evs a"
proof (induction evs arbitrary: s a)
  case (Cons ev evs)
  show ?case
  proof (cases ev)
    case (RtcSleep clk_cal sel cycles)
    then show ?thesis using Cons.IH [OF sleep_rel(2) [OF Cons.prems(1)]] Cons.prems sleep_rel(1) [OF Cons.prems(1)]
      by (simp add: case_prod_beta)
  next
    case (RtcWake clk_cal us)
    have "length (cl_vals (cl_wake p us a)) \<le> length (cl_vals a) + 1" for p
      by (simp add: cl_wake_def)
    then have "length (cl_vals (cl_wake p us a)) + length evs \<le> length (cl_vals a) + length (ev # evs)" for p
      by (simp add: le_SucI)
    then have "length (cl_vals (cl_wake p us a)) + length evs < 2 ^ 32" for p
      using Cons.prems(2) by (rule le_less_trans)
    moreover have "length (cl_vals a) + 1 < 2 ^ 32" using Cons.prems(2) by simp
    ultimately show ?thesis using Cons.IH [OF wake_rel [OF Cons.prems(1)]] by (simp add: RtcWake)
  next
    case (RtcSetSamples n)
    then show ?thesis using Cons.IH [OF set_samples_rel [OF Cons.prems(1)]] Cons.prems(2) by simp
  next
    case (RtcSetPeriod n)
    have "rtc_rel (snd (rtc_clock_fix_set_period_sec n s)) a"
      by (rule rtc_rel_frame [OF Cons.prems(1)]) (simp_all add: rtc_clock_fix_set_period_sec_def Let_def)
    with Cons.IH Cons.prems(2) show ?thesis by (simp add: RtcSetPeriod)
  next
    case (RtcStatus ticks notified)
    have "rtc_rel (snd (status_pass ticks notified s)) a"
      by (rule rtc_rel_frame [OF Cons.prems(1)])
        (auto simp: status_pass_def log_status_def split: option.split)
    with Cons.IH Cons.prems(2) show ?thesis by (simp add: RtcStatus)
  qed
qed simp

section \<open>Properties\<close>

text \<open>Two samples averaged, after two wakes that calibrated to 1000 and 1003.\<close>

definition rtc_started :: rtc_fix where
  "rtc_started = snd (rtc_clock_fix_start ESP_OK True 2 300 rtc_initial)"

definition rtc_two_wakes :: rtc_fix where
  "rtc_two_wakes = rtc_on_light_sleep_exit (\<lambda>_ _. 1003) 60000 (rtc_on_light_sleep_exit (\<lambda>_ _. 1000) 60000 rtc_started)"

lemma wake_takes_cold:
  "rtc_count s < rtc_samples s \<Longrightarrow> cold \<noteq> 0 \<Longrightarrow>
   rtc_on_light_sleep_exit (\<lambda>_ _. cold) 60000 s = take_cold cold s"
  by (auto simp: rtc_on_light_sleep_exit_def accept_cold_def COLD_MIN_SLEEP_US_def)

lemma take_cold_fields [simp]:
  "rtc_samples (take_cold p s) = rtc_samples s" "rtc_count (take_cold p s) = rtc_count s + 1"
  "rtc_reject_run (take_cold p s) = 0"
  by (simp_all add: take_cold_def update_mean_def Let_def)

lemma rtc_started_fields:
  "rtc_samples rtc_started = 2" "rtc_count rtc_started = 0"
  by (simp_all add: rtc_started_def rtc_clock_fix_start_def rtc_initial_def rtc_cal_clamp_samples_def
      RTC_CAL_SAMPLES_MAX_def Let_def)

lemma rtc_two_wakes_eq: "rtc_two_wakes = take_cold 1003 (take_cold 1000 rtc_started)"
  by (simp add: rtc_two_wakes_def wake_takes_cold rtc_started_fields)

lemma rtc_two_wakes_value:
  "rtc_samples rtc_two_wakes = 2" "rtc_count rtc_two_wakes = 2" "newest rtc_two_wakes 2 = [1003, 1000]"
  "rtc_mean rtc_two_wakes = 1002" "rtc_reject_run rtc_two_wakes = 0"
proof -
  show f: "rtc_samples rtc_two_wakes = 2" "rtc_count rtc_two_wakes = 2" "rtc_reject_run rtc_two_wakes = 0"
    by (simp_all add: rtc_two_wakes_eq rtc_started_fields)
  have "newest rtc_two_wakes (Suc (Suc 0)) = [1003, 1000]"
    unfolding rtc_two_wakes_eq by (simp add: take_cold_newest) (simp add: newest_def)
  then show n: "newest rtc_two_wakes 2 = [1003, 1000]" by (simp only: numeral_2_eq_2)
  have "rtc_inv rtc_two_wakes" unfolding rtc_two_wakes_eq
    by (rule take_cold_inv) (simp add: rtc_started_fields RTC_CAL_SAMPLES_MAX_def)
  moreover have "rtc_n rtc_two_wakes = 2" by (simp add: rtc_n_def f)
  moreover have "mean_of [1003, 1000] = 1002" by (simp add: mean_of_def numeral_2_eq_2 [symmetric] del: One_nat_def)
  ultimately have "unat (rtc_mean rtc_two_wakes) = unat (1002 :: u32)"
    using n by (simp add: rtc_inv_def)
  then show "rtc_mean rtc_two_wakes = 1002" by (simp only: word_unat_eq_iff)
qed

lemma rtc_two_wakes_reach: "rtc_reach rtc_two_wakes"
  unfolding rtc_two_wakes_def rtc_started_def by (intro rtc_reach.intros)

text \<open>
  C30: What a light sleep is timed with is decided by the plain list of the cold calibrations: over any
  sequence of sleeps, wakes, setting changes and status passes since the start (fewer than \<open>2 ^ 32\<close>, so
  that the count does not wrap), the ring, its count and the kept mean give every sleep exactly the
  value the specification \<open>cold_log\<close> gives it. That is the mean, rounded to the nearest unit, of the
  newest \<open>samples\<close> accepted calibrations when there are that many since the log last began, and ESP-IDF's
  own measurement otherwise; a calibration more than 2 percent off that mean is not accepted, the
  eighth such one in a row begins the log anew with itself, and so does switching the correction on
  again.
\<close>

theorem sleep_calibration_refines_cold_log:
  assumes "length evs < 2 ^ 32"
  shows "rtc_run evs (snd (rtc_clock_fix_start err created samples period_sec rtc_initial)) =
    cl_run evs \<lparr>cl_samples = min 32 (unat samples), cl_vals = [], cl_rejects = 0\<rparr>"
  by (rule rtc_run_refines [OF rtc_start_rel]) (use assms in simp)

theorem sleep_calibration_refines_cold_log_witness:
  "rtc_run [RtcWake (\<lambda>_ _. 1000) 60000, RtcSleep (\<lambda>_ _. 990) CLK_CAL_RTC_SLOW 10, RtcWake (\<lambda>_ _. 1003) 60000,
      RtcSleep (\<lambda>_ _. 990) CLK_CAL_RTC_SLOW 10, RtcWake (\<lambda>_ _. 2000) 60000, RtcWake (\<lambda>_ _. 1010) 60000,
      RtcSleep (\<lambda>_ _. 990) CLK_CAL_RTC_SLOW 10]
    (snd (rtc_clock_fix_start ESP_OK True 2 300 rtc_initial)) = [990, 1002, 1007]"
    (is "rtc_run ?evs _ = _")
proof -
  have "length ?evs < 2 ^ 32" by simp
  from sleep_calibration_refines_cold_log [OF this, of ESP_OK True 2 300]
  have "rtc_run ?evs (snd (rtc_clock_fix_start ESP_OK True 2 300 rtc_initial)) =
    cl_run ?evs \<lparr>cl_samples = min 32 (unat (2 :: u32)), cl_vals = [], cl_rejects = 0\<rparr>" .
  also have "\<dots> = cl_run ?evs \<lparr>cl_samples = 2, cl_vals = [], cl_rejects = 0\<rparr>"
  proof -
    have "min 32 (unat (2 :: u32)) = 2" by simp
    then show ?thesis by (simp only:)
  qed
  also have "\<dots> = [990, 1002, 1007]"
  proof -
    have "mean_of [a, b] = (unat a + unat b + 1) div 2" for a b by (simp add: mean_of_def numeral_2_eq_2)
    then show ?thesis by (simp add: cl_wake_def cl_sleep_def far_off_def SLEEP_PATH_CAL_CYCLES_def)
  qed
  finally show ?thesis .
qed

text \<open>
  Taking a cold value puts it in front of the newest ones and keeps the others, for as many as the
  ring has slots; the ring never mixes in a slot it has not written.
\<close>

theorem accepted_value_becomes_newest:
  assumes "n < 32" "\<not> outlier p s"
  shows "newest (accept_cold p s) (Suc n) = p # newest s n \<and>
    rtc_count (accept_cold p s) = rtc_count s + 1 \<and> rtc_last (accept_cold p s) = p"
  using take_cold_newest [OF assms(1), of p s] assms(2)
  by (simp add: accept_cold_def take_cold_def update_mean_def Let_def)

theorem accepted_value_becomes_newest_witness:
  "newest (accept_cold 1010 rtc_two_wakes) 3 = [1010, 1003, 1000]"
proof -
  have "\<not> outlier 1010 rtc_two_wakes"
    using rtc_two_wakes_value by (simp add: outlier_def COLD_MAX_JUMP_PPM_def)
  from accepted_value_becomes_newest [OF _ this, of 2] rtc_two_wakes_value show ?thesis
    by (simp add: eval_nat_numeral)
qed

text \<open>
  Outliers cannot starve the correction: at most seven cold values in a row are rejected, and a
  rejected one changes nothing but the two rejection counters.
\<close>

theorem at_most_seven_rejected:
  assumes "rtc_reach s" "all_rejected ps s"
  shows "length ps \<le> 7 \<and> newest (fold accept_cold ps s) n = newest s n \<and>
    rtc_mean (fold accept_cold ps s) = rtc_mean s"
proof -
  have "newest (fold accept_cold ps s) n = newest s n \<and> rtc_mean (fold accept_cold ps s) = rtc_mean s"
    using assms(2) by (induction ps arbitrary: s) (auto simp: rejects_step newest_def)
  with all_rejected_length [OF assms(2) rtc_reach_inv [OF assms(1)]] show ?thesis by simp
qed

theorem at_most_seven_rejected_witness:
  "rtc_mean (fold accept_cold [2000, 2000, 2000] rtc_two_wakes) = 1002"
proof -
  have "all_rejected [2000, 2000, 2000] rtc_two_wakes"
    using rtc_two_wakes_value
    by (simp add: rejects_step rejects_def outlier_def COLD_MAX_JUMP_PPM_def COLD_MAX_REJECT_RUN_def)
  from at_most_seven_rejected [OF rtc_two_wakes_reach this, of 0] rtc_two_wakes_value show ?thesis by simp
qed

text \<open>
  The clamps return a usable setting and leave one alone: at most 32 samples, a period that is zero
  or 30..3600 seconds; clamping twice is clamping once.
\<close>

theorem rtc_clamps:
  "rtc_cal_clamp_samples n \<le> 32 \<and> rtc_cal_clamp_samples (rtc_cal_clamp_samples n) = rtc_cal_clamp_samples n \<and>
   (rtc_cal_clamp_period_sec p = 0) = (p = 0) \<and>
   (p = 0 \<or> 30 \<le> rtc_cal_clamp_period_sec p \<and> rtc_cal_clamp_period_sec p \<le> 3600) \<and>
   rtc_cal_clamp_period_sec (rtc_cal_clamp_period_sec p) = rtc_cal_clamp_period_sec p"
  by (auto simp: rtc_cal_clamp_samples_def rtc_cal_clamp_period_sec_def RTC_CAL_SAMPLES_MAX_def
      RTC_CAL_PERIOD_SEC_FLOOR_def RTC_CAL_PERIOD_SEC_MAX_def)

end
