(* ===== verification/ConfigText.thy ===== *)
theory ConfigText
  imports Floats
begin

text \<open>
  The text formats the firmware reads and writes by hand: decimal numbers (\<open>std::from_chars\<close> and
  \<open>std::to_chars\<close> as the code calls them, \<open>main/common_utils.h\<close>), the flat YAML of \<open>secrets.yaml\<close> and
  \<open>device_config.yaml\<close> (\<open>main/secrets.h\<close>), hex-encoded Thread datasets, and dotted IPv4 addresses
  (\<open>main/common_utils.cpp\<close>).

  Strings are lists of characters. The lemmas show the round trips (a printed number, a printed
  dataset, a written key read back), and that a parser accepts nothing but complete, in-range input.
\<close>

section \<open>Characters and digits\<close>

definition char_code :: "char \<Rightarrow> nat" where
  "char_code c = of_char c"

definition is_digit :: "char \<Rightarrow> bool" where
  "is_digit c \<longleftrightarrow> 48 \<le> char_code c \<and> char_code c \<le> 57"

definition digit_val :: "char \<Rightarrow> nat" where
  "digit_val c = char_code c - 48"

definition digit_char :: "nat \<Rightarrow> char" where
  "digit_char d = char_of (48 + d)"

definition digits_val :: "string \<Rightarrow> nat" where
  "digits_val s = fold (\<lambda>c v. 10 * v + digit_val c) s 0"

text \<open>\<open>std::to_chars\<close> of an integer.\<close>

fun render_nat :: "nat \<Rightarrow> string" where
  "render_nat n = (if n < 10 then [digit_char n] else render_nat (n div 10) @ [digit_char (n mod 10)])"

declare render_nat.simps [simp del]

definition render_int :: "int \<Rightarrow> string" where
  "render_int i = (if i < 0 then CHR ''-'' # render_nat (nat (- i)) else render_nat (nat i))"

text \<open>
  \<open>std::from_chars\<close> into an unsigned integer of \<open>w\<close> bits: the longest run of digits, an error when there
  is none or when it does not fit. The result is the value and the unread rest.
\<close>

definition from_chars_uint :: "nat \<Rightarrow> string \<Rightarrow> (nat \<times> string) option" where
  "from_chars_uint w s =
    (let ds = takeWhile is_digit s; v = digits_val ds in
     if ds = [] \<or> v \<ge> 2 ^ w then None else Some (v, dropWhile is_digit s))"

definition from_chars_i32 :: "string \<Rightarrow> (int \<times> string) option" where
  "from_chars_i32 s =
    (let neg = (case s of c # _ \<Rightarrow> c = CHR ''-'' | [] \<Rightarrow> False);
         s' = (if neg then tl s else s);
         ds = takeWhile is_digit s';
         v = (if neg then - int (digits_val ds) else int (digits_val ds))
     in if ds = [] \<or> v < - (2 ^ 31) \<or> v \<ge> 2 ^ 31 then None else Some (v, dropWhile is_digit s'))"

text \<open>The parsers of the firmware accept a value only when it uses the whole text.\<close>

definition whole :: "('a \<times> string) option \<Rightarrow> 'a option" where
  "whole r = (case r of Some (v, []) \<Rightarrow> Some v | _ \<Rightarrow> None)"

definition parse_uint32 :: "string \<Rightarrow> u32 option" where
  "parse_uint32 s = map_option of_nat (whole (from_chars_uint 32 s))"

definition parse_int32 :: "string \<Rightarrow> int option" where
  "parse_int32 s = whole (from_chars_i32 s)"

text \<open>
  \<open>std::from_chars\<close> into a \<open>float\<close>: an optional minus sign; an infinity or a NaN in any letter case; or
  digits with an optional fraction and exponent, rounded to nearest, out of range when it overflows or
  when a nonzero number rounds to zero.
\<close>

definition lower :: "char \<Rightarrow> char" where
  "lower c = (if 65 \<le> char_code c \<and> char_code c \<le> 90 then char_of (char_code c + 32) else c)"

definition starts_with :: "string \<Rightarrow> string \<Rightarrow> bool" where
  "starts_with p s \<longleftrightarrow> map lower (take (length p) s) = p"

definition is_word_char :: "char \<Rightarrow> bool" where
  "is_word_char c \<longleftrightarrow> is_digit c \<or> 97 \<le> char_code (lower c) \<and> char_code (lower c) \<le> 122 \<or> c = CHR ''_''"

definition nan_rest :: "string \<Rightarrow> string" where
  "nan_rest s =
    (case s of
       c # s' \<Rightarrow> if c = CHR ''('' then
                    (case dropWhile is_word_char s' of
                       c' # s'' \<Rightarrow> if c' = CHR '')'' then s'' else s
                     | [] \<Rightarrow> s)
                  else s
     | [] \<Rightarrow> s)"

definition exponent_part :: "string \<Rightarrow> int \<times> string" where
  "exponent_part s =
    (case s of
       c # s' \<Rightarrow>
         if lower c = CHR ''e'' then
           (let neg = (case s' of c' # _ \<Rightarrow> c' = CHR ''-'' | [] \<Rightarrow> False);
                s2 = (case s' of c' # r \<Rightarrow> if c' = CHR ''-'' \<or> c' = CHR ''+'' then r else s' | [] \<Rightarrow> s');
                ds = takeWhile is_digit s2
            in if ds = [] then (0, s)
               else (if neg then - int (digits_val ds) else int (digits_val ds), dropWhile is_digit s2))
         else (0, s)
     | [] \<Rightarrow> (0, s))"

definition from_chars_f32 :: "string \<Rightarrow> (flt \<times> string) option" where
  "from_chars_f32 s =
    (let neg = (case s of c # _ \<Rightarrow> c = CHR ''-'' | [] \<Rightarrow> False);
         s = (if neg then tl s else s) in
     if starts_with ''infinity'' s then Some (if neg then NInf else PInf, drop 8 s)
     else if starts_with ''inf'' s then Some (if neg then NInf else PInf, drop 3 s)
     else if starts_with ''nan'' s then Some (NaN, nan_rest (drop 3 s))
     else
       (let ip = takeWhile is_digit s; s = dropWhile is_digit s;
            (fp, s) = (case s of c # r \<Rightarrow> if c = CHR ''.'' then (takeWhile is_digit r, dropWhile is_digit r) else ([], s)
                       | [] \<Rightarrow> ([], s))
        in if ip = [] \<and> fp = [] then None
           else
             (let (e, s) = exponent_part s;
                  m = digits_val (ip @ fp);
                  x = of_nat m * 10 powi (e - int (length fp));
                  r = f32 (if neg then - x else x)
              in case r of
                   Fin y \<Rightarrow> if y = 0 \<and> m \<noteq> 0 then None else Some (r, s)
                 | _ \<Rightarrow> None)))"

definition parse_float :: "string \<Rightarrow> flt option" where
  "parse_float s = whole (from_chars_f32 s)"

section \<open>The YAML files\<close>

text \<open>\<open>std::string_view::find\<close> of a text or a character from a position on, and \<open>rfind\<close> of a character.\<close>

fun find_from :: "string \<Rightarrow> string \<Rightarrow> nat \<Rightarrow> nat option" where
  "find_from p [] pos = (if p = [] then Some pos else None)"
| "find_from p (c # s) pos = (if take (length p) (c # s) = p then Some pos else find_from p s (pos + 1))"

definition str_find :: "string \<Rightarrow> string \<Rightarrow> nat \<Rightarrow> nat option" where
  "str_find s p from = (if from \<le> length s then find_from p (drop from s) from else None)"

definition line_begin :: "string \<Rightarrow> nat \<Rightarrow> nat" where
  "line_begin s pos = pos - length (takeWhile (\<lambda>c. c \<noteq> CHR ''\<newline>'') (rev (take pos s)))"

lemma find_from_bounds: "find_from p s pos = Some k \<Longrightarrow> pos \<le> k \<and> k + length p \<le> pos + length s"
proof (induction s arbitrary: pos)
  case (Cons c s)
  show ?case
  proof (cases "take (length p) (c # s) = p")
    case True
    then have "length p \<le> length (c # s)" by (metis length_take min.cobounded1)
    then show ?thesis using Cons.prems True by simp
  next
    case False
    then show ?thesis using Cons.IH [of "pos + 1"] Cons.prems by simp
  qed
qed (auto split: if_splits)

lemma str_find_bounds: "str_find s p from = Some k \<Longrightarrow> from \<le> k \<and> k + length p \<le> length s"
  using find_from_bounds [of p "drop from s" "from" k] by (auto simp: str_find_def split: if_splits)

text \<open>
  \<open>yaml_get_string\<close>: the first match of \<open>key: "\<close> whose line has no hash sign before it, up to the next
  double quote; the empty string when there is none.
\<close>

definition yaml_pattern :: "string \<Rightarrow> string" where
  "yaml_pattern key = key @ [CHR '':'', CHR '' '', CHR 0x22]"

definition commented_out :: "string \<Rightarrow> nat \<Rightarrow> bool" where
  "commented_out content pos =
    (case str_find content ''#'' (line_begin content pos) of None \<Rightarrow> False | Some hash_pos \<Rightarrow> hash_pos < pos)"

function yaml_search :: "string \<Rightarrow> string \<Rightarrow> nat \<Rightarrow> string" where
  "yaml_search content key search_from =
    (case str_find content (yaml_pattern key) search_from of
       None \<Rightarrow> []
     | Some pos \<Rightarrow>
         if commented_out content pos then yaml_search content key (pos + length (yaml_pattern key))
         else
           (let val_start = pos + length (yaml_pattern key) in
            case str_find content [CHR 0x22] val_start of
              None \<Rightarrow> []
            | Some val_end \<Rightarrow> take (val_end - val_start) (drop val_start content)))"
  by pat_completeness auto
termination
proof (relation "measure (\<lambda>(content, key, search_from). length content + 1 - search_from)")
  fix content key search_from pos
  assume "str_find content (yaml_pattern key) search_from = Some pos"
  from str_find_bounds [OF this]
  show "((content, key, pos + length (yaml_pattern key)), content, key, search_from)
      \<in> measure (\<lambda>(content, key, search_from). length content + 1 - search_from)"
    by (simp add: yaml_pattern_def) linarith
qed simp

declare yaml_search.simps [simp del]

definition yaml_get_string :: "string \<Rightarrow> string \<Rightarrow> string" where
  "yaml_get_string content key = yaml_search content key 0"

definition parse_as_float :: "string \<Rightarrow> string \<Rightarrow> flt option" where
  "parse_as_float content key =
    (let s = yaml_get_string content key in if s = [] then None else parse_float s)"

definition parse_as_uint32 :: "string \<Rightarrow> string \<Rightarrow> u32 option" where
  "parse_as_uint32 content key =
    (let s = yaml_get_string content key in if s = [] then None else parse_uint32 s)"

definition parse_as_int32 :: "string \<Rightarrow> string \<Rightarrow> int option" where
  "parse_as_int32 content key =
    (let s = yaml_get_string content key in if s = [] then None else parse_int32 s)"

definition parse_as_bool :: "string \<Rightarrow> string \<Rightarrow> bool option" where
  "parse_as_bool content key =
    (let s = yaml_get_string content key in
     if s = ''true'' then Some True else if s = ''false'' then Some False else None)"

section \<open>Datasets and addresses\<close>

definition hex_nibble :: "char \<Rightarrow> nat" where
  "hex_nibble c =
    (if 48 \<le> char_code c \<and> char_code c \<le> 57 then char_code c - 48
     else if 97 \<le> char_code c \<and> char_code c \<le> 102 then char_code c - 97 + 10
     else if 65 \<le> char_code c \<and> char_code c \<le> 70 then char_code c - 65 + 10 else 0)"

fun hex_bytes :: "string \<Rightarrow> u8 list" where
  "hex_bytes (a # b # s) = of_nat (hex_nibble a * 16 + hex_nibble b) # hex_bytes s"
| "hex_bytes _ = []"

text \<open>\<open>max_len\<close> is OpenThread's \<open>OT_OPERATIONAL_DATASET_MAX_LENGTH\<close>.\<close>

definition parse_dataset_tlvs :: "nat \<Rightarrow> string \<Rightarrow> u8 list option" where
  "parse_dataset_tlvs max_len hex =
    (if length hex = 0 \<or> length hex mod 2 \<noteq> 0 \<or> length hex div 2 > max_len then None
     else Some (hex_bytes hex))"

text \<open>\<open>std::views::split\<close> at a character: an empty text has no field.\<close>

fun split_fields :: "char \<Rightarrow> string \<Rightarrow> string \<Rightarrow> string list" where
  "split_fields d f [] = [f]"
| "split_fields d f (c # s) = (if c = d then f # split_fields d [] s else split_fields d (f @ [c]) s)"

definition views_split :: "char \<Rightarrow> string \<Rightarrow> string list" where
  "views_split d s = (if s = [] then [] else split_fields d [] s)"

fun ipv4_fields :: "string list \<Rightarrow> u8 list \<Rightarrow> u8 list option" where
  "ipv4_fields [] octets = (if length octets = 4 then Some octets else None)"
| "ipv4_fields (tok # toks) octets =
    (if length octets \<ge> 4 then None
     else
       (case whole (from_chars_uint 32 tok) of
          None \<Rightarrow> None
        | Some v \<Rightarrow> if v > 255 then None else ipv4_fields toks (octets @ [of_nat v])))"

definition parseIpv4 :: "string \<Rightarrow> u8 list option" where
  "parseIpv4 s = ipv4_fields (views_split (CHR ''.'') s) []"

section \<open>Numbers read back\<close>

lemma char_code_digit [simp]: "d < 10 \<Longrightarrow> char_code (digit_char d) = 48 + d"
  by (simp add: char_code_def digit_char_def)

lemma digit_char_simps [simp]: "d < 10 \<Longrightarrow> is_digit (digit_char d)" "d < 10 \<Longrightarrow> digit_val (digit_char d) = d"
  by (simp_all add: is_digit_def digit_val_def)

lemma digits_val_Nil [simp]: "digits_val [] = 0"
  by (simp add: digits_val_def)

lemma digits_val_snoc [simp]: "digits_val (s @ [c]) = 10 * digits_val s + digit_val c"
  by (simp add: digits_val_def)

lemma render_nat_digits: "list_all is_digit (render_nat n) \<and> render_nat n \<noteq> [] \<and> digits_val (render_nat n) = n"
proof (induction n rule: render_nat.induct)
  case (1 n)
  show ?case
  proof (cases "n < 10")
    case True
    then show ?thesis using digits_val_snoc [of "[]"] by (simp add: render_nat.simps [of n])
  next
    case False
    with 1 show ?thesis by (simp add: render_nat.simps [of n])
  qed
qed

lemma takeWhile_digits: "list_all is_digit s \<Longrightarrow> takeWhile is_digit s = s \<and> dropWhile is_digit s = []"
  by (simp add: list_all_iff)

lemma from_chars_uint_render: "n < 2 ^ w \<Longrightarrow> from_chars_uint w (render_nat n) = Some (n, [])"
  using render_nat_digits [of n] by (simp add: from_chars_uint_def takeWhile_digits Let_def)

lemma whole_Some [simp]: "whole r = Some v \<longleftrightarrow> r = Some (v, [])"
  by (auto simp: whole_def split: option.splits prod.splits list.splits)

lemma whole_simps [simp]: "whole (Some (v, [])) = Some v" "whole None = None"
  by (simp_all add: whole_def)

lemma parse_uint32_render: "parse_uint32 (render_nat (unat v)) = Some v"
  using unat_u32_less [of v] by (simp add: parse_uint32_def from_chars_uint_render)

lemma parse_uint32_iff:
  "parse_uint32 s = Some v \<longleftrightarrow> s \<noteq> [] \<and> list_all is_digit s \<and> digits_val s < 2 ^ 32 \<and> v = of_nat (digits_val s)"
proof -
  have "from_chars_uint 32 s = Some (n, []) \<longleftrightarrow> s \<noteq> [] \<and> list_all is_digit s \<and> digits_val s < 2 ^ 32 \<and> n = digits_val s" for n
  proof (cases "list_all is_digit s")
    case True
    then show ?thesis by (auto simp: from_chars_uint_def takeWhile_digits Let_def)
  next
    case False
    then have "dropWhile is_digit s \<noteq> []" by (auto simp: list_all_iff dropWhile_eq_Nil_conv)
    then show ?thesis using False by (auto simp: from_chars_uint_def Let_def)
  qed
  then show ?thesis by (auto simp: parse_uint32_def)
qed

lemma render_nat_first: "\<exists>c s. render_nat n = c # s \<and> is_digit c"
  using render_nat_digits [of n] by (cases "render_nat n") auto

lemma minus_not_digit [simp]: "\<not> is_digit (CHR ''-'')" "\<not> is_digit (CHR ''.'')"
  by (simp_all add: is_digit_def char_code_def)

lemma parse_int32_render:
  assumes "- (2 ^ 31) \<le> i" "i < 2 ^ 31"
  shows "parse_int32 (render_int i) = Some i"
proof -
  obtain c s where cs: "render_nat (nat i) = c # s" "is_digit c" using render_nat_first by blast
  then have "c \<noteq> CHR ''-''" using minus_not_digit by auto
  then show ?thesis
    using render_nat_digits [of "nat i"] render_nat_digits [of "nat (- i)"] assms cs
    by (auto simp: parse_int32_def from_chars_i32_def render_int_def takeWhile_digits Let_def)
qed

section \<open>Datasets and addresses read back\<close>

definition hex_char :: "nat \<Rightarrow> char" where
  "hex_char d = (if d < 10 then char_of (48 + d) else char_of (87 + d))"

definition render_hex :: "u8 list \<Rightarrow> string" where
  "render_hex bs = concat (map (\<lambda>b. [hex_char (unat b div 16), hex_char (unat b mod 16)]) bs)"

lemma hex_nibble_char: "d < 16 \<Longrightarrow> hex_nibble (hex_char d) = d"
  by (simp add: hex_nibble_def hex_char_def char_code_def)

lemma unat_u8_less: "unat (b :: u8) < 256"
  using unsigned_less [of b, where ?'a = nat] by simp

lemma hex_bytes_render: "hex_bytes (render_hex bs) = bs"
proof (induction bs)
  case (Cons b bs)
  have "unat b div 16 < 16" "unat b mod 16 < 16" using unat_u8_less [of b] by (simp_all add: less_mult_imp_div_less)
  with Cons show ?case by (simp add: render_hex_def hex_nibble_char)
qed (simp add: render_hex_def)

lemma length_render_hex: "length (render_hex bs) = 2 * length bs"
  by (induction bs) (auto simp: render_hex_def)

lemma length_hex_bytes: "length (hex_bytes s) = length s div 2"
  by (induction s rule: hex_bytes.induct) auto

definition render_ipv4 :: "u8 list \<Rightarrow> string" where
  "render_ipv4 os = (case map (\<lambda>b. render_nat (unat b)) os of [] \<Rightarrow> [] | f # fs \<Rightarrow> f @ concat (map (\<lambda>f. CHR ''.'' # f) fs))"

lemma split_fields_plain: "d \<notin> set f \<Longrightarrow> split_fields d g (f @ s) = split_fields d (g @ f) s"
  by (induction f arbitrary: g) auto

lemma split_fields_dots:
  "(\<And>f. f \<in> set fs \<Longrightarrow> d \<notin> set f) \<Longrightarrow> split_fields d g (concat (map (\<lambda>f. d # f) fs)) = g # fs"
  by (induction fs arbitrary: g) (auto simp: split_fields_plain)

lemma digit_no_dot: "CHR ''.'' \<notin> set (render_nat n)"
  using render_nat_digits [of n] minus_not_digit by (auto simp: list_all_iff)

lemma split_render_ipv4: "os \<noteq> [] \<Longrightarrow> views_split (CHR ''.'') (render_ipv4 os) = map (\<lambda>b. render_nat (unat b)) os"
proof -
  assume "os \<noteq> []"
  then obtain b bs where os: "os = b # bs" by (cases os) auto
  have "split_fields (CHR ''.'') [] (render_nat (unat b) @ concat (map (\<lambda>f. CHR ''.'' # f) (map (\<lambda>b. render_nat (unat b)) bs))) =
      render_nat (unat b) # map (\<lambda>b. render_nat (unat b)) bs"
    using digit_no_dot split_fields_dots [of "map (\<lambda>b. render_nat (unat b)) bs" "CHR ''.''"]
    by (subst split_fields_plain) auto
  moreover have "render_nat (unat b) \<noteq> []" using render_nat_digits by blast
  ultimately show ?thesis by (simp add: os views_split_def render_ipv4_def)
qed

lemma ipv4_fields_render:
  "length octets + length os = 4 \<Longrightarrow> ipv4_fields (map (\<lambda>b. render_nat (unat b)) os) octets = Some (octets @ os)"
proof (induction os arbitrary: octets)
  case (Cons b bs)
  have "unat b < 256" by (rule unat_u8_less)
  then have "from_chars_uint 32 (render_nat (unat b)) = Some (unat b, [])" by (intro from_chars_uint_render) simp
  then show ?case using Cons \<open>unat b < 256\<close> by simp
qed simp

lemma ipv4_fields_length: "ipv4_fields toks octets = Some os \<Longrightarrow> length os = 4"
  by (induction toks octets rule: ipv4_fields.induct) (auto split: if_splits option.splits)

section \<open>Values of a YAML file\<close>

lemma find_from_here: "take (length p) s = p \<Longrightarrow> find_from p s pos = Some pos"
  by (cases s) auto

lemma find_from_skip: "(\<And>c. c \<in> set s \<Longrightarrow> c \<noteq> q) \<Longrightarrow> find_from [q] (s @ q # r) pos = Some (pos + length s)"
  by (induction s arbitrary: pos) auto

lemma find_from_none: "(\<And>c. c \<in> set s \<Longrightarrow> c \<noteq> q) \<Longrightarrow> find_from [q] s pos = None"
  by (induction s arbitrary: pos) auto

lemma find_char_after:
  assumes "find_from [q] s pos = Some k" "k < pos + length t" "s = t @ u"
  shows "q \<in> set t"
  using assms
proof (induction s arbitrary: pos t)
  case (Cons c s)
  show ?case
  proof (cases "c = q")
    case True
    then show ?thesis using Cons.prems by (cases t) auto
  next
    case False
    then have "find_from [q] s (pos + 1) = Some k" using Cons.prems(1) by simp
    moreover from this have "pos + 1 \<le> k" using find_from_bounds by blast
    ultimately show ?thesis using Cons.prems(2,3) Cons.IH [of "pos + 1" "tl t"] by (cases t) auto
  qed
qed simp

lemma yaml_value_at:
  assumes "content = pre @ yaml_pattern key @ v @ [CHR 0x22] @ post"
    and "str_find content (yaml_pattern key) 0 = Some (length pre)"
    and "\<not> commented_out content (length pre)" and "CHR 0x22 \<notin> set v"
  shows "yaml_get_string content key = v"
proof -
  let ?k = "length pre + length (yaml_pattern key)"
  have d: "drop ?k content = v @ CHR 0x22 # post" by (simp add: assms(1))
  have "str_find content [CHR 0x22] ?k = Some (?k + length v)"
    using find_from_skip [of v "CHR 0x22" post ?k] assms(4) d by (auto simp: str_find_def assms(1))
  then show ?thesis
    using assms(2,3) d by (simp add: yaml_get_string_def yaml_search.simps [of content key 0])
qed

lemma commented_out_hash:
  assumes "commented_out content (length pre)" "content = pre @ rest" "\<And>c. c \<in> set line \<Longrightarrow> c \<noteq> CHR ''\<newline>''"
    and "pre = start @ line" "start = [] \<or> last start = CHR ''\<newline>''"
  shows "CHR ''#'' \<in> set line"
proof -
  have "takeWhile (\<lambda>c. c \<noteq> CHR ''\<newline>'') (rev pre) = rev line"
  proof (cases "start = []")
    case True
    then show ?thesis using assms(3,4) by (simp add: takeWhile_eq_all_conv)
  next
    case False
    then obtain start' where s: "start = start' @ [CHR ''\<newline>'']"
      using assms(5) by (metis append_butlast_last_id)
    show ?thesis unfolding assms(4) s using assms(3) by (auto simp: takeWhile_append takeWhile_eq_all_conv)
  qed
  then have lb: "line_begin content (length pre) = length start"
    by (simp add: line_begin_def assms(2)) (simp add: assms(4))
  obtain h where h: "str_find content ''#'' (length start) = Some h" "h < length pre"
    using assms(1) by (auto simp: commented_out_def lb split: option.splits)
  have "drop (length start) content = line @ rest" by (simp add: assms(2,4))
  with h show ?thesis
    using find_char_after [of "CHR ''#''" "line @ rest" "length start" h line rest]
    by (auto simp: str_find_def assms(4) split: if_splits)
qed

section \<open>Properties\<close>

text \<open>
  Numbers survive the wire: what the firmware prints for an unsigned or signed 32-bit value is read
  back as that value, by the same parser that reads the broker's messages and the configuration files.
\<close>

theorem printed_numbers_read_back:
  "parse_uint32 (render_nat (unat (v :: u32))) = Some v \<and> parse_int32 (render_int (sint (v :: u32))) = Some (sint v)"
proof -
  have "- (2 ^ 31) \<le> sint v" "sint v < 2 ^ 31" using sint_range_size [of v] by (simp_all add: word_size)
  then show ?thesis using parse_uint32_render parse_int32_render by simp
qed

text \<open>
  A numeric parameter is accepted only when the whole text is decimal digits whose value fits 32 bits:
  an empty text, a sign, a space, a trailing character or an overflow is rejected.
\<close>

theorem only_complete_numbers_accepted:
  "parse_uint32 s = Some v \<longleftrightarrow>
     s \<noteq> [] \<and> list_all is_digit s \<and> digits_val s < 2 ^ 32 \<and> v = of_nat (digits_val s)"
  by (rule parse_uint32_iff)

text \<open>
  C32: A Thread dataset printed in hexadecimal is read back byte for byte, and what is read is half as long
  as its text and never longer than OpenThread's limit.
\<close>

theorem dataset_reads_back:
  "(0 < length bs \<and> length bs \<le> max_len \<longrightarrow> parse_dataset_tlvs max_len (render_hex bs) = Some bs) \<and>
   (parse_dataset_tlvs max_len hex = Some bs' \<longrightarrow> length bs' \<le> max_len \<and> 2 * length bs' = length hex)"
proof -
  have "length hex mod 2 = 0 \<Longrightarrow> 2 * (length hex div 2) = length hex" by presburger
  then show ?thesis
    by (auto simp: parse_dataset_tlvs_def length_render_hex hex_bytes_render length_hex_bytes split: if_splits)
qed

theorem dataset_reads_back_witness:
  "parse_dataset_tlvs 254 (render_hex [14, 255]) = Some [14, 255]"
  using dataset_reads_back [of "[14, 255]" 254] by simp

text \<open>
  An IPv4 address is read back from its dotted form, and whatever is accepted has exactly four octets.
\<close>

theorem ipv4_reads_back:
  "(length os = 4 \<longrightarrow> parseIpv4 (render_ipv4 os) = Some os) \<and> (parseIpv4 s = Some os' \<longrightarrow> length os' = 4)"
proof (intro conjI impI)
  assume os: "length os = 4"
  then have "os \<noteq> []" by auto
  then show "parseIpv4 (render_ipv4 os) = Some os"
    using ipv4_fields_render [of "[]" os] split_render_ipv4 [of os] os by (simp add: parseIpv4_def)
qed (auto simp: parseIpv4_def dest: ipv4_fields_length)

theorem ipv4_reads_back_witness: "parseIpv4 (render_ipv4 [192, 168, 0, 17]) = Some [192, 168, 0, 17]"
  using ipv4_reads_back [of "[192, 168, 0, 17]"] by simp

text \<open>
  A key written as \<open>key: "value"\<close> on a line of its own without a hash sign before it is read back,
  whatever else the file holds, when it is the first match of the key: the comment check looks at that
  line only.
\<close>

theorem yaml_key_reads_back:
  assumes "content = start @ indent @ yaml_pattern key @ v @ [CHR 0x22] @ post"
    and "str_find content (yaml_pattern key) 0 = Some (length (start @ indent))"
    and "start = [] \<or> last start = CHR ''\<newline>''" "CHR ''\<newline>'' \<notin> set indent" "CHR ''#'' \<notin> set indent"
    and "CHR 0x22 \<notin> set v"
  shows "yaml_get_string content key = v"
proof (rule yaml_value_at)
  show "content = (start @ indent) @ yaml_pattern key @ v @ [CHR 0x22] @ post" by (simp add: assms(1))
  show "\<not> commented_out content (length (start @ indent))"
    using commented_out_hash [of content "start @ indent" _ indent start] assms by auto
qed (use assms in simp_all)

theorem yaml_key_reads_back_witness:
  "yaml_get_string (''b: '' @ [CHR 0x22] @ ''1'' @ [CHR 0x22] @ ''\<newline>  a: '' @ [CHR 0x22] @ ''42'' @ [CHR 0x22]) ''a'' = ''42''"
  by (rule yaml_key_reads_back [where start = "''b: '' @ [CHR 0x22] @ ''1'' @ [CHR 0x22] @ ''\<newline>''" and indent = "''  ''" and post = "[]"])
    (simp_all add: yaml_pattern_def str_find_def)

end
