(* ===== verification/RuntimeConfig.thy ===== *)
theory RuntimeConfig
  imports SharedLayout RtcClockFix ConfigText
begin

text \<open>
  The parameters Home Assistant tunes over MQTT, \<open>main/runtime_config.cpp\<close>: received values are parsed and
  kept until the publish task applies them; applying clamps, updates the live configuration, persists
  to NVS and echoes what the broker does not hold. TX power goes through a trial that is confirmed or
  reverted. Boot resolves the persisted overrides.

  The twelve parameters are the constructors of \<open>cfg_key\<close>; the struct of received values is a function
  from the parameter to an optional value, where the code has a flag and a value per parameter.
  Parameters of the model: the NVS driver (\<open>nvs_api\<close>, documented behaviour \<open>nvs_ok\<close>), the printing of a
  \<open>float\<close>, and the link's \<open>setTxPowerDbm\<close> (whether it returns \<open>ESP_OK\<close>). \<open>None\<close> is a division by a zero
  poll interval.
\<close>

section \<open>Parameters, values and ranges\<close>

datatype cfg_key =
    TempOffset | TempMinChange | RhOffset | RhMinChange | MaxPublishGapSec | HeaterPeriodMin
  | HeaterHighRhMin | ExtAntenna | TxPowerDbm | SensorSamples | RtcCalSamples | RtcCalPeriodSec

datatype cfg_val = CF flt | CU u32 | CB bool | CI int

fun cfg_suffix :: "cfg_key \<Rightarrow> string" where
  "cfg_suffix TempOffset = ''cfg/temp_offset''"
| "cfg_suffix TempMinChange = ''cfg/temp_min_change''"
| "cfg_suffix RhOffset = ''cfg/rh_offset''"
| "cfg_suffix RhMinChange = ''cfg/rh_min_change''"
| "cfg_suffix MaxPublishGapSec = ''cfg/max_publish_gap_sec''"
| "cfg_suffix HeaterPeriodMin = ''cfg/heater_period_minutes''"
| "cfg_suffix HeaterHighRhMin = ''cfg/heater_high_rh_trigger_minutes''"
| "cfg_suffix ExtAntenna = ''cfg/ext_antenna''"
| "cfg_suffix TxPowerDbm = ''cfg/tx_power_dbm''"
| "cfg_suffix SensorSamples = ''cfg/sensor_samples''"
| "cfg_suffix RtcCalSamples = ''cfg/rtc_cal_samples''"
| "cfg_suffix RtcCalPeriodSec = ''cfg/rtc_cal_period_sec''"

text \<open>The validation ranges; the switch has none and the two calibration settings have their own clamps.\<close>

fun cfg_min :: "cfg_key \<Rightarrow> cfg_val" where
  "cfg_min TempOffset = CF (f32 (- 10))"
| "cfg_min TempMinChange = CF (f32 (5 / 100))"
| "cfg_min RhOffset = CF (f32 (- 20))"
| "cfg_min RhMinChange = CF (f32 (5 / 10))"
| "cfg_min SensorSamples = CU 1"
| "cfg_min TxPowerDbm = CI (- 15)"
| "cfg_min _ = CU 0"

fun cfg_max :: "cfg_key \<Rightarrow> cfg_val" where
  "cfg_max TempOffset = CF (f32 10)"
| "cfg_max TempMinChange = CF (f32 5)"
| "cfg_max RhOffset = CF (f32 20)"
| "cfg_max RhMinChange = CF (f32 20)"
| "cfg_max MaxPublishGapSec = CU 21600"
| "cfg_max HeaterPeriodMin = CU 10080"
| "cfg_max HeaterHighRhMin = CU 1440"
| "cfg_max SensorSamples = CU 16"
| "cfg_max TxPowerDbm = CI 20"
| "cfg_max RtcCalSamples = CU RTC_CAL_SAMPLES_MAX"
| "cfg_max RtcCalPeriodSec = CU RTC_CAL_PERIOD_SEC_MAX"
| "cfg_max ExtAntenna = CB True"

definition TX_POWER_TABLE_MAX_DBM :: int where "TX_POWER_TABLE_MAX_DBM = 20"
definition TX_POWER_REVERT_AFTER_CYCLES :: u32 where "TX_POWER_REVERT_AFTER_CYCLES = 3"

fun clamp_val :: "cfg_val \<Rightarrow> cfg_val \<Rightarrow> cfg_val \<Rightarrow> cfg_val" where
  "clamp_val (CF lo) (CF hi) (CF v) = CF (f_clamp v lo hi)"
| "clamp_val (CU lo) (CU hi) (CU v) = CU (iclamp v lo hi)"
| "clamp_val (CI lo) (CI hi) (CI v) = CI (iclamp v lo hi)"
| "clamp_val _ _ v = v"

text \<open>The clamp each parameter gets in \<open>runtime_config_apply_pending\<close>.\<close>

fun cfg_clamp :: "cfg_key \<Rightarrow> cfg_val \<Rightarrow> cfg_val" where
  "cfg_clamp ExtAntenna v = v"
| "cfg_clamp RtcCalSamples v = (case v of CU n \<Rightarrow> CU (rtc_cal_clamp_samples n) | _ \<Rightarrow> v)"
| "cfg_clamp RtcCalPeriodSec v = (case v of CU n \<Rightarrow> CU (rtc_cal_clamp_period_sec n) | _ \<Rightarrow> v)"
| "cfg_clamp k v = clamp_val (cfg_min k) (cfg_max k) v"

text \<open>C++ \<open>!=\<close> on two values of the same parameter.\<close>

fun cfg_neq :: "cfg_val \<Rightarrow> cfg_val \<Rightarrow> bool" where
  "cfg_neq (CF x) (CF y) = f_neq x y"
| "cfg_neq x y = (x \<noteq> y)"

section \<open>State\<close>

record runtime_config =
  s_topic :: "cfg_key \<Rightarrow> string"
  s_topic_wildcard :: string
  s_poll_interval_sec :: u32
  s_shadow :: lp_sensor_core_config
  s_max_publish_gap_sec :: u32
  s_heater_period_minutes :: u32
  s_heater_high_rh_trigger_minutes :: u32
  s_ext_antenna_on :: bool
  s_tx_power_known_good :: int
  s_tx_power_pending :: int
  s_tx_power_has_pending :: bool
  s_tx_power_unconfirmed_cycles :: u32
  s_tx_power_active_dbm :: int
  s_tx_power_first_attach_done :: bool
  s_tx_power_rejected :: int
  s_tx_power_has_rejected :: bool
  s_pending :: "cfg_key \<Rightarrow> cfg_val option"
  s_rtc :: rtc_fix

text \<open>What the module does to the rest of the firmware, in order.\<close>

datatype cfg_action =
    ApplyLpConfig lp_sensor_core_config
  | EnableExtAntenna bool
  | SetTxPowerDbm int
  | MqttPublish string string

section \<open>The NVS driver\<close>

datatype nvs_type = TU8 | TI8 | TU32 | TI32 | TFloat
datatype nvs_val = NvsU8 u8 | NvsI8 int | NvsU32 u32 | NvsI32 int | NvsFloat flt

fun nvs_type_of :: "nvs_val \<Rightarrow> nvs_type" where
  "nvs_type_of (NvsU8 _) = TU8"
| "nvs_type_of (NvsI8 _) = TI8"
| "nvs_type_of (NvsU32 _) = TU32"
| "nvs_type_of (NvsI32 _) = TI32"
| "nvs_type_of (NvsFloat _) = TFloat"

text \<open>
  The driver: whether the namespace opens (for writing, or read-only), reading a key at a type
  (\<open>TFloat\<close>: a blob of four bytes), and storing a typed value.
\<close>

record 'n nvs_api =
  nvs_open :: "bool \<Rightarrow> 'n \<Rightarrow> bool"
  nvs_get :: "nvs_type \<Rightarrow> string \<Rightarrow> 'n \<Rightarrow> nvs_val option"
  nvs_set :: "string \<Rightarrow> nvs_val \<Rightarrow> 'n \<Rightarrow> 'n"

text \<open>
  Documented behaviour of a working partition: it opens; a stored value is read back at its type,
  other keys keep theirs, a key that has no value of another type gets none, and what is read has the
  type it is read at.
\<close>

definition nvs_ok :: "'n nvs_api \<Rightarrow> bool" where
  "nvs_ok api \<longleftrightarrow>
     (\<forall>rw n. nvs_open api rw n) \<and>
     (\<forall>k v n. nvs_get api (nvs_type_of v) k (nvs_set api k v n) = Some v) \<and>
     (\<forall>k k' t v n. k' \<noteq> k \<longrightarrow> nvs_get api t k' (nvs_set api k v n) = nvs_get api t k' n) \<and>
     (\<forall>k t v n. t \<noteq> nvs_type_of v \<longrightarrow> nvs_get api t k n = None \<longrightarrow> nvs_get api t k (nvs_set api k v n) = None) \<and>
     (\<forall>k t v n. nvs_get api t k n = Some v \<longrightarrow> nvs_type_of v = t)"

text \<open>Boot-time overrides, one per type as in the code.\<close>

definition runtime_config_nvs_override_float :: "'n nvs_api \<Rightarrow> 'n \<Rightarrow> flt \<Rightarrow> string \<Rightarrow> flt" where
  "runtime_config_nvs_override_float api n yaml_or_default nvs_key =
    (if \<not> nvs_open api False n then yaml_or_default
     else case nvs_get api TFloat nvs_key n of Some (NvsFloat v) \<Rightarrow> v | _ \<Rightarrow> yaml_or_default)"

definition runtime_config_nvs_override_u32 :: "'n nvs_api \<Rightarrow> 'n \<Rightarrow> u32 \<Rightarrow> string \<Rightarrow> u32" where
  "runtime_config_nvs_override_u32 api n yaml_or_default nvs_key =
    (if \<not> nvs_open api False n then yaml_or_default
     else case nvs_get api TU32 nvs_key n of Some (NvsU32 v) \<Rightarrow> v | _ \<Rightarrow> yaml_or_default)"

definition runtime_config_nvs_override_bool :: "'n nvs_api \<Rightarrow> 'n \<Rightarrow> bool \<Rightarrow> string \<Rightarrow> bool" where
  "runtime_config_nvs_override_bool api n yaml_or_default nvs_key =
    (if \<not> nvs_open api False n then yaml_or_default
     else case nvs_get api TU8 nvs_key n of Some (NvsU8 v) \<Rightarrow> v \<noteq> 0 | _ \<Rightarrow> yaml_or_default)"

definition runtime_config_nvs_override_i32 :: "'n nvs_api \<Rightarrow> 'n \<Rightarrow> int \<Rightarrow> string \<Rightarrow> int" where
  "runtime_config_nvs_override_i32 api n yaml_or_default nvs_key =
    (if \<not> nvs_open api False n then yaml_or_default
     else case nvs_get api TI32 nvs_key n of Some (NvsI32 v) \<Rightarrow> v | _ \<Rightarrow> yaml_or_default)"

section \<open>Helpers\<close>

text \<open>Minutes to LP cycles, rounded up, and seconds to skipped polls, rounded down, in 32 bits.\<close>

definition minutes_to_lp_cycles :: "u32 \<Rightarrow> u32 \<Rightarrow> u32 option" where
  "minutes_to_lp_cycles minutes poll_sec =
    (if minutes = 0 then Some 0 else udiv (minutes * 60 + poll_sec - 1) poll_sec)"

definition publish_gap_sec_to_skip_cycles :: "u32 \<Rightarrow> u32 \<Rightarrow> u32 option" where
  "publish_gap_sec_to_skip_cycles gap_sec poll_sec =
    (if gap_sec \<le> poll_sec then Some 0 else map_option (\<lambda>q. q - 1) (udiv gap_sec poll_sec))"

definition full_topic :: "string \<Rightarrow> string \<Rightarrow> string" where
  "full_topic device_id suffix = device_id @ CHR ''/'' # suffix"

definition runtime_config_init ::
  "'n nvs_api \<Rightarrow> 'n \<Rightarrow> string \<Rightarrow> u32 \<Rightarrow> lp_sensor_core_config \<Rightarrow> u32 \<Rightarrow> u32 \<Rightarrow> u32 \<Rightarrow> bool \<Rightarrow> int \<Rightarrow> rtc_fix \<Rightarrow>
   runtime_config" where
  "runtime_config_init api n device_id poll boot_config gap_sec heater_minutes high_rh_minutes
     ext_antenna_on known_good_dbm rtc =
    (let pending =
       (if nvs_open api False n then
          (case nvs_get api TU8 ''txp_pend_flag'' n of
             Some (NvsU8 flag) \<Rightarrow>
               if flag \<noteq> 0 then
                 (case nvs_get api TI8 ''txp_pending'' n of Some (NvsI8 v) \<Rightarrow> Some v | _ \<Rightarrow> None)
               else None
           | _ \<Rightarrow> None)
        else None)
     in \<lparr>s_topic = (\<lambda>k. full_topic device_id (cfg_suffix k)),
         s_topic_wildcard = full_topic device_id ''cfg/#'',
         s_poll_interval_sec = poll, s_shadow = boot_config, s_max_publish_gap_sec = gap_sec,
         s_heater_period_minutes = heater_minutes, s_heater_high_rh_trigger_minutes = high_rh_minutes,
         s_ext_antenna_on = ext_antenna_on,
         s_tx_power_known_good = to_i8 (iclamp known_good_dbm (- 15) 20),
         s_tx_power_pending = (case pending of Some v \<Rightarrow> v | None \<Rightarrow> TX_POWER_TABLE_MAX_DBM),
         s_tx_power_has_pending = (pending \<noteq> None),
         s_tx_power_unconfirmed_cycles = 0, s_tx_power_active_dbm = TX_POWER_TABLE_MAX_DBM,
         s_tx_power_first_attach_done = False, s_tx_power_rejected = 0, s_tx_power_has_rejected = False,
         s_pending = (\<lambda>_. None), s_rtc = rtc\<rparr>)"

section \<open>Receiving\<close>

definition parse_payload :: "cfg_key \<Rightarrow> string \<Rightarrow> cfg_val option" where
  "parse_payload k data =
    (case k of
       TempOffset \<Rightarrow> map_option CF (parse_float data)
     | TempMinChange \<Rightarrow> map_option CF (parse_float data)
     | RhOffset \<Rightarrow> map_option CF (parse_float data)
     | RhMinChange \<Rightarrow> map_option CF (parse_float data)
     | ExtAntenna \<Rightarrow> if data = ''ON'' then Some (CB True) else if data = ''OFF'' then Some (CB False) else None
     | TxPowerDbm \<Rightarrow> map_option CI (parse_int32 data)
     | _ \<Rightarrow> map_option CU (parse_uint32 data))"

text \<open>The order in which the handler compares the topic.\<close>

definition cfg_keys :: "cfg_key list" where
  "cfg_keys = [TempOffset, TempMinChange, RhOffset, RhMinChange, MaxPublishGapSec, HeaterPeriodMin,
     HeaterHighRhMin, ExtAntenna, TxPowerDbm, SensorSamples, RtcCalSamples, RtcCalPeriodSec]"

definition runtime_config_on_mqtt_data :: "string \<Rightarrow> string \<Rightarrow> runtime_config \<Rightarrow> runtime_config" where
  "runtime_config_on_mqtt_data topic data s =
    (if topic = [] then s
     else
       (case find (\<lambda>k. topic = s_topic s k) cfg_keys of
          None \<Rightarrow> s
        | Some k \<Rightarrow>
            (case parse_payload k data of
               None \<Rightarrow> s
             | Some v \<Rightarrow> s\<lparr>s_pending := (s_pending s)(k := Some v)\<rparr>)))"

section \<open>Applying\<close>

definition tx_accepted :: "runtime_config \<Rightarrow> int" where
  "tx_accepted s = (if s_tx_power_has_pending s then s_tx_power_pending s else s_tx_power_known_good s)"

text \<open>The value in effect; also the fields of \<open>runtime_config_current_values\<close>.\<close>

fun current_val :: "runtime_config \<Rightarrow> cfg_key \<Rightarrow> cfg_val" where
  "current_val s TempOffset = CF (temp_offset_c (s_shadow s))"
| "current_val s TempMinChange = CF (temp_min_change_c (s_shadow s))"
| "current_val s RhOffset = CF (rh_offset_pct (s_shadow s))"
| "current_val s RhMinChange = CF (rh_min_change_pct (s_shadow s))"
| "current_val s MaxPublishGapSec = CU (s_max_publish_gap_sec s)"
| "current_val s HeaterPeriodMin = CU (s_heater_period_minutes s)"
| "current_val s HeaterHighRhMin = CU (s_heater_high_rh_trigger_minutes s)"
| "current_val s ExtAntenna = CB (s_ext_antenna_on s)"
| "current_val s TxPowerDbm = CI (tx_accepted s)"
| "current_val s SensorSamples = CU (sensor_samples (s_shadow s))"
| "current_val s RtcCalSamples = CU (rtc_samples (s_rtc s))"
| "current_val s RtcCalPeriodSec = CU (rtc_period_sec (s_rtc s))"

text \<open>A received value after \<open>settle\<close>: apply and persist it, re-publish it, and the clamped value.\<close>

record settled =
  set_flag :: bool
  echo_flag :: bool
  settled_val :: cfg_val

definition settle :: "cfg_val \<Rightarrow> cfg_val \<Rightarrow> cfg_val \<Rightarrow> settled" where
  "settle value clamped current =
    \<lparr>set_flag = cfg_neq clamped current, echo_flag = cfg_neq value current, settled_val = clamped\<rparr>"

definition settle_key :: "runtime_config \<Rightarrow> cfg_key \<Rightarrow> cfg_val \<Rightarrow> settled" where
  "settle_key s k v =
    (if k = TxPowerDbm \<and> s_tx_power_has_rejected s \<and> v = CI (s_tx_power_rejected s)
     then \<lparr>set_flag = False, echo_flag = (tx_accepted s \<noteq> s_tx_power_rejected s), settled_val = CI (tx_accepted s)\<rparr>
     else settle v (cfg_clamp k v) (current_val s k))"

definition settle_all :: "runtime_config \<Rightarrow> cfg_key \<Rightarrow> settled" where
  "settle_all s k =
    (case s_pending s k of
       Some v \<Rightarrow> settle_key s k v
     | None \<Rightarrow> \<lparr>set_flag = False, echo_flag = False, settled_val = current_val s k\<rparr>)"

text \<open>Merging one LP parameter into the shadow configuration.\<close>

fun apply_lp_val :: "cfg_key \<Rightarrow> cfg_val \<Rightarrow> runtime_config \<Rightarrow> runtime_config option" where
  "apply_lp_val TempOffset (CF v) s = Some (s\<lparr>s_shadow := (s_shadow s)\<lparr>temp_offset_c := v\<rparr>\<rparr>)"
| "apply_lp_val TempMinChange (CF v) s = Some (s\<lparr>s_shadow := (s_shadow s)\<lparr>temp_min_change_c := v\<rparr>\<rparr>)"
| "apply_lp_val RhOffset (CF v) s = Some (s\<lparr>s_shadow := (s_shadow s)\<lparr>rh_offset_pct := v\<rparr>\<rparr>)"
| "apply_lp_val RhMinChange (CF v) s = Some (s\<lparr>s_shadow := (s_shadow s)\<lparr>rh_min_change_pct := v\<rparr>\<rparr>)"
| "apply_lp_val SensorSamples (CU v) s = Some (s\<lparr>s_shadow := (s_shadow s)\<lparr>sensor_samples := v\<rparr>\<rparr>)"
| "apply_lp_val MaxPublishGapSec (CU v) s =
     map_option (\<lambda>c. s\<lparr>s_shadow := (s_shadow s)\<lparr>max_skip_cycles := c\<rparr>, s_max_publish_gap_sec := v\<rparr>)
       (publish_gap_sec_to_skip_cycles v (s_poll_interval_sec s))"
| "apply_lp_val HeaterPeriodMin (CU v) s =
     map_option (\<lambda>c. s\<lparr>s_shadow := (s_shadow s)\<lparr>heater_period_cycles := c\<rparr>, s_heater_period_minutes := v\<rparr>)
       (minutes_to_lp_cycles v (s_poll_interval_sec s))"
| "apply_lp_val HeaterHighRhMin (CU v) s =
     map_option (\<lambda>c. s\<lparr>s_shadow := (s_shadow s)\<lparr>high_rh_trigger_cycles := c\<rparr>, s_heater_high_rh_trigger_minutes := v\<rparr>)
       (minutes_to_lp_cycles v (s_poll_interval_sec s))"
| "apply_lp_val _ _ s = Some s"

definition lp_keys :: "cfg_key list" where
  "lp_keys = [TempOffset, TempMinChange, RhOffset, RhMinChange, SensorSamples, MaxPublishGapSec,
     HeaterPeriodMin, HeaterHighRhMin]"

fun apply_lp :: "(cfg_key \<Rightarrow> settled) \<Rightarrow> cfg_key list \<Rightarrow> runtime_config \<Rightarrow> runtime_config option" where
  "apply_lp snap [] s = Some s"
| "apply_lp snap (k # ks) s =
    (if set_flag (snap k) then
       (case apply_lp_val k (settled_val (snap k)) s of None \<Rightarrow> None | Some s \<Rightarrow> apply_lp snap ks s)
     else apply_lp snap ks s)"

text \<open>Setting the radio: \<open>None\<close> is a link without \<open>setTxPowerDbm\<close>.\<close>

type_synonym tx_link = "(int \<Rightarrow> bool) option"

definition set_tx_power :: "tx_link \<Rightarrow> int \<Rightarrow> runtime_config \<Rightarrow> cfg_action list \<times> runtime_config" where
  "set_tx_power link dbm s =
    (case link of
       None \<Rightarrow> ([], s)
     | Some set_dbm \<Rightarrow> ([SetTxPowerDbm dbm], if set_dbm dbm then s\<lparr>s_tx_power_active_dbm := dbm\<rparr> else s))"

definition apply_tx :: "tx_link \<Rightarrow> settled \<Rightarrow> runtime_config \<Rightarrow> cfg_action list \<times> runtime_config" where
  "apply_tx link st s =
    (case settled_val st of
       CI v \<Rightarrow>
         if set_flag st then
           set_tx_power link (to_i8 v)
             (s\<lparr>s_tx_power_pending := to_i8 v, s_tx_power_has_pending := True,
                s_tx_power_unconfirmed_cycles := 0, s_tx_power_has_rejected := False\<rparr>)
         else ([], s)
     | _ \<Rightarrow> ([], s))"

definition apply_rest :: "tx_link \<Rightarrow> (cfg_key \<Rightarrow> settled) \<Rightarrow> runtime_config \<Rightarrow> cfg_action list \<times> runtime_config" where
  "apply_rest link snap s =
    (let (ant_acts, s) =
           (case settled_val (snap ExtAntenna) of
              CB b \<Rightarrow> if set_flag (snap ExtAntenna) then ([EnableExtAntenna b], s\<lparr>s_ext_antenna_on := b\<rparr>) else ([], s)
            | _ \<Rightarrow> ([], s));
         (tx_acts, s) = apply_tx link (snap TxPowerDbm) s;
         s = (case settled_val (snap RtcCalSamples) of
                CU n \<Rightarrow> if set_flag (snap RtcCalSamples) then s\<lparr>s_rtc := rtc_clock_fix_set_samples n (s_rtc s)\<rparr> else s
              | _ \<Rightarrow> s);
         s = (case settled_val (snap RtcCalPeriodSec) of
                CU n \<Rightarrow> if set_flag (snap RtcCalPeriodSec)
                        then s\<lparr>s_rtc := snd (rtc_clock_fix_set_period_sec n (s_rtc s))\<rparr> else s
              | _ \<Rightarrow> s)
     in (ant_acts @ tx_acts, s))"

text \<open>What is persisted for a parameter, in the order of the writes.\<close>

fun persisted :: "cfg_key \<Rightarrow> cfg_val \<Rightarrow> (string \<times> nvs_val) list" where
  "persisted TempOffset (CF v) = [(''temp_offset'', NvsFloat v)]"
| "persisted TempMinChange (CF v) = [(''temp_min_change'', NvsFloat v)]"
| "persisted RhOffset (CF v) = [(''rh_offset'', NvsFloat v)]"
| "persisted RhMinChange (CF v) = [(''rh_min_change'', NvsFloat v)]"
| "persisted MaxPublishGapSec (CU v) = [(''max_pub_gap_s'', NvsU32 v)]"
| "persisted HeaterPeriodMin (CU v) = [(''htr_period_min'', NvsU32 v)]"
| "persisted HeaterHighRhMin (CU v) = [(''htr_hi_rh_trig'', NvsU32 v)]"
| "persisted ExtAntenna (CB b) = [(''ext_antenna'', NvsU8 (if b then 1 else 0))]"
| "persisted TxPowerDbm (CI v) = [(''txp_pending'', NvsI8 (to_i8 v)), (''txp_pend_flag'', NvsU8 1)]"
| "persisted SensorSamples (CU v) = [(''sensor_samples'', NvsU32 v)]"
| "persisted RtcCalSamples (CU v) = [(''rtc_cal_samples'', NvsU32 v)]"
| "persisted RtcCalPeriodSec (CU v) = [(''rtc_cal_per_s'', NvsU32 v)]"
| "persisted _ _ = []"

definition nvs_writes :: "'n nvs_api \<Rightarrow> (string \<times> nvs_val) list \<Rightarrow> 'n \<Rightarrow> 'n" where
  "nvs_writes api ws n = fold (\<lambda>(k, v) n. nvs_set api k v n) ws n"

definition persist :: "'n nvs_api \<Rightarrow> (cfg_key \<Rightarrow> settled) \<Rightarrow> 'n \<Rightarrow> 'n" where
  "persist api snap n =
    (if nvs_open api True n
     then nvs_writes api (concat (map (\<lambda>k. if set_flag (snap k) then persisted k (settled_val (snap k)) else []) cfg_keys)) n
     else n)"

text \<open>The text of an echoed value; \<open>fmt\<close> prints a \<open>float\<close> (\<open>std::to_chars\<close>).\<close>

fun cfg_text :: "(flt \<Rightarrow> string) \<Rightarrow> cfg_val \<Rightarrow> string" where
  "cfg_text fmt (CF v) = fmt v"
| "cfg_text fmt (CU v) = render_nat (unat v)"
| "cfg_text fmt (CB b) = (if b then ''ON'' else ''OFF'')"
| "cfg_text fmt (CI v) = render_int v"

definition runtime_config_apply_pending ::
  "'n nvs_api \<Rightarrow> (flt \<Rightarrow> string) \<Rightarrow> tx_link \<Rightarrow> bool \<Rightarrow> runtime_config \<times> 'n \<Rightarrow>
   (nat \<times> cfg_action list \<times> runtime_config \<times> 'n) option" where
  "runtime_config_apply_pending api fmt link client sn =
    (let (s, n) = sn;
         snap = settle_all s;
         s = s\<lparr>s_pending := \<lambda>_. None\<rparr>;
         echoes = length (filter (\<lambda>k. echo_flag (snap k)) cfg_keys);
         applied = length (filter (\<lambda>k. set_flag (snap k)) cfg_keys)
     in case apply_lp snap lp_keys s of
          None \<Rightarrow> None
        | Some s \<Rightarrow>
            (let lp_acts = (if list_ex (\<lambda>k. set_flag (snap k)) lp_keys then [ApplyLpConfig (s_shadow s)] else []);
                 (rest_acts, s) = apply_rest link snap s
             in if applied = 0 \<and> echoes = 0 then Some (0, lp_acts @ rest_acts, s, n)
                else
                  (let n = (if applied > 0 then persist api snap n else n);
                       echo_acts =
                         (if client then
                            map (\<lambda>k. MqttPublish (s_topic s k) (cfg_text fmt (settled_val (snap k))))
                              (filter (\<lambda>k. echo_flag (snap k)) cfg_keys)
                          else [])
                   in Some (applied, lp_acts @ rest_acts @ echo_acts, s, n))))"

section \<open>TX power\<close>

definition clear_pend_flag :: "'n nvs_api \<Rightarrow> 'n \<Rightarrow> 'n" where
  "clear_pend_flag api n = (if nvs_open api True n then nvs_set api ''txp_pend_flag'' (NvsU8 0) n else n)"

definition drop_trial :: "runtime_config \<Rightarrow> runtime_config" where
  "drop_trial s = s\<lparr>s_tx_power_rejected := s_tx_power_pending s, s_tx_power_has_rejected := True,
     s_tx_power_has_pending := False, s_tx_power_unconfirmed_cycles := 0\<rparr>"

definition runtime_config_tx_power_note_first_attach ::
  "'n nvs_api \<Rightarrow> tx_link \<Rightarrow> runtime_config \<times> 'n \<Rightarrow> cfg_action list \<times> runtime_config \<times> 'n" where
  "runtime_config_tx_power_note_first_attach api link sn =
    (let (s, n) = sn in
     if s_tx_power_first_attach_done s then ([], s, n)
     else
       (let s = s\<lparr>s_tx_power_first_attach_done := True\<rparr>;
            (s, n) = (if s_tx_power_has_pending s then (drop_trial s, clear_pend_flag api n) else (s, n));
            (acts, s) = set_tx_power link (tx_accepted s) s
        in (acts, s, n)))"

definition runtime_config_tx_power_note_cycle_result ::
  "'n nvs_api \<Rightarrow> tx_link \<Rightarrow> bool \<Rightarrow> runtime_config \<times> 'n \<Rightarrow> cfg_action list \<times> runtime_config \<times> 'n" where
  "runtime_config_tx_power_note_cycle_result api link ok sn =
    (let (s, n) = sn in
     if \<not> s_tx_power_has_pending s then ([], s, n)
     else if ok then
       (let s = s\<lparr>s_tx_power_known_good := s_tx_power_pending s, s_tx_power_has_pending := False,
                  s_tx_power_unconfirmed_cycles := 0\<rparr>;
            n = (if nvs_open api True n
                 then nvs_set api ''txp_pend_flag'' (NvsU8 0) (nvs_set api ''txp_known_good'' (NvsI8 (s_tx_power_known_good s)) n)
                 else n)
        in ([], s, n))
     else
       (let s = s\<lparr>s_tx_power_unconfirmed_cycles := s_tx_power_unconfirmed_cycles s + 1\<rparr> in
        if s_tx_power_unconfirmed_cycles s < TX_POWER_REVERT_AFTER_CYCLES then ([], s, n)
        else
          (let (acts, s) = set_tx_power link (s_tx_power_known_good s) (drop_trial s)
           in (acts, s, clear_pend_flag api n))))"

definition runtime_config_tx_power_pin_max_for_ota :: "tx_link \<Rightarrow> runtime_config \<Rightarrow> cfg_action list" where
  "runtime_config_tx_power_pin_max_for_ota link s =
    (if link = None then [] else [SetTxPowerDbm TX_POWER_TABLE_MAX_DBM])"

definition runtime_config_tx_power_unpin_after_ota :: "tx_link \<Rightarrow> runtime_config \<Rightarrow> cfg_action list" where
  "runtime_config_tx_power_unpin_after_ota link s =
    (if link = None then [] else [SetTxPowerDbm (s_tx_power_active_dbm s)])"

section \<open>Well-typed values and their clamps\<close>

fun typed :: "cfg_key \<Rightarrow> cfg_val \<Rightarrow> bool" where
  "typed TempOffset (CF _) \<longleftrightarrow> True"
| "typed TempMinChange (CF _) \<longleftrightarrow> True"
| "typed RhOffset (CF _) \<longleftrightarrow> True"
| "typed RhMinChange (CF _) \<longleftrightarrow> True"
| "typed ExtAntenna (CB _) \<longleftrightarrow> True"
| "typed TxPowerDbm (CI _) \<longleftrightarrow> True"
| "typed MaxPublishGapSec (CU _) \<longleftrightarrow> True"
| "typed HeaterPeriodMin (CU _) \<longleftrightarrow> True"
| "typed HeaterHighRhMin (CU _) \<longleftrightarrow> True"
| "typed SensorSamples (CU _) \<longleftrightarrow> True"
| "typed RtcCalSamples (CU _) \<longleftrightarrow> True"
| "typed RtcCalPeriodSec (CU _) \<longleftrightarrow> True"
| "typed _ _ \<longleftrightarrow> False"

fun_cases typed_elims: "typed TempOffset v" "typed TempMinChange v" "typed RhOffset v" "typed RhMinChange v"
  "typed ExtAntenna v" "typed TxPowerDbm v" "typed MaxPublishGapSec v" "typed HeaterPeriodMin v"
  "typed HeaterHighRhMin v" "typed SensorSamples v" "typed RtcCalSamples v" "typed RtcCalPeriodSec v"

definition pend_typed :: "runtime_config \<Rightarrow> bool" where
  "pend_typed s \<longleftrightarrow> (\<forall>k v. s_pending s k = Some v \<longrightarrow> typed k v)"

lemma parse_payload_typed: "parse_payload k data = Some v \<Longrightarrow> typed k v"
  by (cases k) (auto simp: parse_payload_def split: if_splits)

lemma current_val_typed: "typed k (current_val s k)"
  by (cases k) simp_all

lemma clamp_typed: "typed k v \<Longrightarrow> typed k (cfg_clamp k v)"
  by (cases k; cases v) simp_all

lemma settled_typed: "pend_typed s \<Longrightarrow> typed k (settled_val (settle_all s k))"
  by (auto simp: settle_all_def settle_key_def settle_def pend_typed_def current_val_typed clamp_typed split: option.splits)

lemma u32_ranges: "(0 :: u32) \<le> 21600" "(0 :: u32) \<le> 10080" "(0 :: u32) \<le> 1440" "(1 :: u32) \<le> 16"
  by (simp_all add: word_le_nat_alt)

lemma clamp_idem:
  assumes "typed k v"
  shows "cfg_clamp k (cfg_clamp k v) = cfg_clamp k v"
proof -
  have f: "f32 (of_int i) = Fin (of_int i)" if "\<bar>i\<bar> \<le> 2 ^ 24" for i using that by (rule f32_int)
  have e: "f32 (- 10) = Fin (- 10)" "f32 10 = Fin 10" "f32 5 = Fin 5" "f32 (- 20) = Fin (- 20)" "f32 20 = Fin 20"
    using f [of "- 10"] f [of 10] f [of 5] f [of "- 20"] f [of 20] by simp_all
  obtain a where a: "f32 (1 / 20) = Fin a" "a \<le> 5"
    using f32_in_int [of 0 "1 / 20" 5] by (auto elim: f_inE)
  obtain b where b: "f32 (1 / 2) = Fin b" "b \<le> 20"
    using f32_in_int [of 0 "1 / 2" 20] by (auto elim: f_inE)
  show ?thesis
    using assms
    by (cases k; cases v)
      (simp_all add: e a b f_clamp_idem iclamp_idem u32_ranges rtc_cal_clamp_samples_def rtc_cal_clamp_period_sec_def
        RTC_CAL_SAMPLES_MAX_def RTC_CAL_PERIOD_SEC_FLOOR_def RTC_CAL_PERIOD_SEC_MAX_def)
qed

lemma clamp_idem_u32:
  "rtc_cal_clamp_samples (rtc_cal_clamp_samples n) = rtc_cal_clamp_samples n"
  "rtc_cal_clamp_period_sec (rtc_cal_clamp_period_sec m) = rtc_cal_clamp_period_sec m"
  using clamp_idem [of RtcCalSamples "CU n"] clamp_idem [of RtcCalPeriodSec "CU m"] by simp_all

lemma neq_False: "\<not> cfg_neq x y \<Longrightarrow> x = y"
  by (cases x; cases y) (auto simp: f_neq_def f_eq_def)

lemma neq_refl: "cfg_neq v v \<longleftrightarrow> v = CF NaN"
  by (cases v) (auto simp: f_neq_def f_eq_def)

text \<open>TX power is an \<open>int8_t\<close> once clamped.\<close>

lemma tx_clamp_i8: "to_i8 (iclamp v (- 15) 20) = iclamp v (- 15) 20"
  using iclamp_bounds [of "- 15" 20 v] by (intro to_i8_id) auto

section \<open>What applying changes\<close>

text \<open>The settled value of a parameter is its clamp when it is received and not a rejected TX power.\<close>

definition received :: "runtime_config \<Rightarrow> cfg_key \<Rightarrow> cfg_val option" where
  "received s k =
    (case s_pending s k of
       None \<Rightarrow> None
     | Some v \<Rightarrow> if k = TxPowerDbm \<and> s_tx_power_has_rejected s \<and> v = CI (s_tx_power_rejected s) then None else Some v)"

lemma settle_received:
  "received s k = Some v \<Longrightarrow> settle_all s k = settle v (cfg_clamp k v) (current_val s k)"
  "received s k = None \<Longrightarrow> \<not> set_flag (settle_all s k)"
  by (auto simp: received_def settle_all_def settle_key_def split: option.splits if_splits)

definition after_apply :: "runtime_config \<Rightarrow> cfg_key \<Rightarrow> cfg_val" where
  "after_apply s k = (case received s k of None \<Rightarrow> current_val s k | Some v \<Rightarrow> cfg_clamp k v)"

lemma after_apply_flag:
  "after_apply s k = (if set_flag (settle_all s k) then settled_val (settle_all s k) else current_val s k)"
  using settle_received [of s k] neq_False
  by (cases "received s k") (auto simp: after_apply_def settle_def)

text \<open>Everything but the parameter itself and the cycle count derived from it stays.\<close>

lemma apply_lp_val_current:
  assumes "apply_lp_val k v s = Some s'" "typed k v" "k \<in> set lp_keys"
  shows "current_val s' k = v \<and> (\<forall>k'. k' \<noteq> k \<longrightarrow> current_val s' k' = current_val s k') \<and>
    s_topic s' = s_topic s \<and> s_pending s' = s_pending s \<and> s_rtc s' = s_rtc s \<and>
    s_tx_power_rejected s' = s_tx_power_rejected s \<and> s_tx_power_has_rejected s' = s_tx_power_has_rejected s"
proof -
  have "current_val s' k' = current_val s k'" if "k' \<noteq> k" for k'
    using assms that by (cases k; cases v; cases k') (auto simp: lp_keys_def tx_accepted_def)
  then show ?thesis using assms by (cases k; cases v) (auto simp: lp_keys_def)
qed

lemma apply_lp_current:
  assumes "apply_lp snap ks s = Some s'" "\<And>k. typed k (settled_val (snap k))" "set ks \<subseteq> set lp_keys" "distinct ks"
  shows "current_val s' k = (if k \<in> set ks \<and> set_flag (snap k) then settled_val (snap k) else current_val s k) \<and>
    s_topic s' = s_topic s \<and> s_pending s' = s_pending s \<and> s_rtc s' = s_rtc s \<and>
    s_tx_power_rejected s' = s_tx_power_rejected s \<and> s_tx_power_has_rejected s' = s_tx_power_has_rejected s"
  using assms
proof (induction ks arbitrary: s)
  case (Cons k0 ks)
  show ?case
  proof (cases "set_flag (snap k0)")
    case True
    then obtain s1 where s1: "apply_lp_val k0 (settled_val (snap k0)) s = Some s1" "apply_lp snap ks s1 = Some s'"
      using Cons.prems(1) by (auto split: option.splits)
    note a = apply_lp_val_current [OF s1(1) Cons.prems(2)]
    have k0: "k0 \<in> set lp_keys" using Cons.prems(3) by simp
    show ?thesis using Cons.IH [OF s1(2)] Cons.prems a [OF k0] True by (cases "k = k0") auto
  next
    case False
    then show ?thesis using Cons by auto
  qed
qed simp

lemma set_tx_current:
  "set_tx_power link dbm s = (acts, s') \<Longrightarrow>
   current_val s' = current_val s \<and> s_topic s' = s_topic s \<and> s_pending s' = s_pending s \<and> tx_accepted s' = tx_accepted s \<and>
   s_tx_power_rejected s' = s_tx_power_rejected s \<and> s_tx_power_has_rejected s' = s_tx_power_has_rejected s"
proof -
  assume "set_tx_power link dbm s = (acts, s')"
  then have "s' = s \<or> s' = s\<lparr>s_tx_power_active_dbm := dbm\<rparr>"
    by (auto simp: set_tx_power_def split: option.splits if_splits)
  moreover have "current_val (s\<lparr>s_tx_power_active_dbm := dbm\<rparr>) k = current_val s k" for k
    by (cases k) (simp_all add: tx_accepted_def)
  ultimately show ?thesis by (auto simp: tx_accepted_def)
qed

lemma apply_tx_current:
  assumes "apply_tx link st s = (acts, s')" "typed TxPowerDbm (settled_val st)"
    and "\<And>v. set_flag st \<Longrightarrow> settled_val st = CI v \<Longrightarrow> to_i8 v = v"
  shows "current_val s' k = (if k = TxPowerDbm \<and> set_flag st then settled_val st else current_val s k) \<and>
    s_topic s' = s_topic s \<and> s_pending s' = s_pending s"
proof -
  obtain w where w: "settled_val st = CI w" using assms(2) by (auto elim: typed_elims)
  show ?thesis
  proof (cases "set_flag st")
    case True
    let ?t = "s\<lparr>s_tx_power_pending := to_i8 w, s_tx_power_has_pending := True, s_tx_power_unconfirmed_cycles := 0,
      s_tx_power_has_rejected := False\<rparr>"
    have "set_tx_power link (to_i8 w) ?t = (acts, s')" using assms(1) w True by (simp add: apply_tx_def)
    from set_tx_current [OF this] show ?thesis
      using True w assms(3) by (cases k) (auto simp: tx_accepted_def)
  qed (use assms(1) w in \<open>simp add: apply_tx_def\<close>)
qed

lemma set_samples_val: "rtc_samples (rtc_clock_fix_set_samples n r) = rtc_cal_clamp_samples n"
  by (simp add: rtc_clock_fix_set_samples_def update_mean_def Let_def)

lemma set_samples_period: "rtc_period_sec (rtc_clock_fix_set_samples n r) = rtc_period_sec r"
  by (simp add: rtc_clock_fix_set_samples_def update_mean_def Let_def)

lemma set_period_val: "rtc_period_sec (snd (rtc_clock_fix_set_period_sec n r)) = rtc_cal_clamp_period_sec n"
  "rtc_samples (snd (rtc_clock_fix_set_period_sec n r)) = rtc_samples r"
  by (simp_all add: rtc_clock_fix_set_period_sec_def Let_def)

lemma tx_accepted_frame [simp]:
  "tx_accepted (s\<lparr>s_rtc := r\<rparr>) = tx_accepted s" "tx_accepted (s\<lparr>s_ext_antenna_on := b\<rparr>) = tx_accepted s"
  "tx_accepted (s\<lparr>s_pending := p\<rparr>) = tx_accepted s"
  by (simp_all add: tx_accepted_def)

lemma current_ext: "current_val (s\<lparr>s_ext_antenna_on := b\<rparr>) k = (if k = ExtAntenna then CB b else current_val s k)"
  by (cases k) (simp_all add: tx_accepted_def)

lemma current_rtc:
  "current_val (s\<lparr>s_rtc := r\<rparr>) k =
    (if k = RtcCalSamples then CU (rtc_samples r) else if k = RtcCalPeriodSec then CU (rtc_period_sec r) else current_val s k)"
  by (cases k) (simp_all add: tx_accepted_def)

lemma apply_rest_current:
  assumes "apply_rest link snap s = (acts, s')" "\<And>k. typed k (settled_val (snap k))"
    and "\<And>k. set_flag (snap k) \<Longrightarrow> cfg_clamp k (settled_val (snap k)) = settled_val (snap k)"
  shows "current_val s' k = (if k \<notin> set lp_keys \<and> set_flag (snap k) then settled_val (snap k) else current_val s k) \<and>
    s_topic s' = s_topic s \<and> s_pending s' = s_pending s"
proof -
  obtain b where b: "settled_val (snap ExtAntenna) = CB b" using assms(2) [of ExtAntenna] by (auto elim: typed_elims)
  obtain v where v: "settled_val (snap TxPowerDbm) = CI v" using assms(2) [of TxPowerDbm] by (auto elim: typed_elims)
  obtain m where m: "settled_val (snap RtcCalSamples) = CU m" using assms(2) [of RtcCalSamples] by (auto elim: typed_elims)
  obtain p where p: "settled_val (snap RtcCalPeriodSec) = CU p" using assms(2) [of RtcCalPeriodSec] by (auto elim: typed_elims)
  let ?s1 = "if set_flag (snap ExtAntenna) then s\<lparr>s_ext_antenna_on := b\<rparr> else s"
  obtain ta s2 where s2: "apply_tx link (snap TxPowerDbm) ?s1 = (ta, s2)" by fastforce
  have i8: "to_i8 w = w" if "set_flag (snap TxPowerDbm)" "settled_val (snap TxPowerDbm) = CI w" for w
    using assms(3) [OF that(1)] that(2) tx_clamp_i8 [of w] by simp
  note t = apply_tx_current [OF s2 assms(2) i8]
  let ?s3 = "if set_flag (snap RtcCalSamples) then s2\<lparr>s_rtc := rtc_clock_fix_set_samples m (s_rtc s2)\<rparr> else s2"
  have s': "s' = (if set_flag (snap RtcCalPeriodSec)
      then ?s3\<lparr>s_rtc := snd (rtc_clock_fix_set_period_sec p (s_rtc ?s3))\<rparr> else ?s3)"
    using assms(1) b m p s2 by (auto simp: apply_rest_def Let_def split: prod.splits if_splits)
  have mm: "set_flag (snap RtcCalSamples) \<Longrightarrow> rtc_cal_clamp_samples m = m" using assms(3) [of RtcCalSamples] m by simp
  have pp: "set_flag (snap RtcCalPeriodSec) \<Longrightarrow> rtc_cal_clamp_period_sec p = p" using assms(3) [of RtcCalPeriodSec] p by simp
  have c2: "current_val s2 RtcCalSamples = current_val s RtcCalSamples"
    "current_val s2 RtcCalPeriodSec = current_val s RtcCalPeriodSec"
    using t [where k = RtcCalSamples] t [where k = RtcCalPeriodSec] by (simp_all add: current_ext)
  show ?thesis
    using t [where k = k] b m p mm pp c2
    by (cases k)
      (auto simp: s' current_ext current_rtc lp_keys_def set_samples_val set_samples_period set_period_val)
qed

lemma settled_clamped:
  assumes "pend_typed s" "set_flag (settle_all s k)"
  shows "cfg_clamp k (settled_val (settle_all s k)) = settled_val (settle_all s k)"
proof (cases "received s k")
  case (Some v)
  then have "typed k v" using assms(1) by (auto simp: received_def pend_typed_def split: option.splits if_splits)
  then show ?thesis using settle_received(1) [OF Some] clamp_idem by (simp add: settle_def)
qed (use assms settle_received in auto)

lemma apply_pending_current:
  assumes "runtime_config_apply_pending api fmt link client (s, n) = Some (a, acts, s', n')" "pend_typed s"
  shows "current_val s' k = after_apply s k \<and> s_topic s' = s_topic s \<and> s_pending s' = (\<lambda>_. None)"
proof -
  let ?snap = "settle_all s" and ?s0 = "s\<lparr>s_pending := \<lambda>_. None\<rparr>"
  obtain s1 where s1: "apply_lp ?snap lp_keys ?s0 = Some s1"
    using assms(1) by (auto simp: runtime_config_apply_pending_def Let_def split: option.splits)
  obtain ra s2 where s2: "apply_rest link ?snap s1 = (ra, s2)" by fastforce
  have s': "s' = s2" using assms(1) s1 s2
    by (auto simp: runtime_config_apply_pending_def Let_def split: option.splits if_splits)
  have ty: "typed k (settled_val (?snap k))" for k by (rule settled_typed [OF assms(2)])
  have d: "distinct lp_keys" by (simp add: lp_keys_def)
  note l = apply_lp_current [OF s1 ty order.refl d]
  note r = apply_rest_current [OF s2 ty settled_clamped [OF assms(2)]]
  have "current_val ?s0 k = current_val s k" by (cases k) (simp_all add: tx_accepted_def)
  then show ?thesis using l [of k] r [of k] by (auto simp: s' after_apply_flag)
qed

end
