(* ===== verification/ConfigProps.thy ===== *)
theory ConfigProps
  imports RuntimeConfig
begin

text \<open>
  What the runtime configuration guarantees: received values take effect clamped, they survive a
  reboot, the device's own echo is a fixed point, a NaN is not, and the trial of a TX power is confirmed
  or reverted within three cycles. The confirmed TX power is written to NVS at another type than the
  one boot reads, so it does not survive.
\<close>

section \<open>Persistence\<close>

fun nvs_name :: "cfg_key \<Rightarrow> string" where
  "nvs_name TempOffset = ''temp_offset''"
| "nvs_name TempMinChange = ''temp_min_change''"
| "nvs_name RhOffset = ''rh_offset''"
| "nvs_name RhMinChange = ''rh_min_change''"
| "nvs_name MaxPublishGapSec = ''max_pub_gap_s''"
| "nvs_name HeaterPeriodMin = ''htr_period_min''"
| "nvs_name HeaterHighRhMin = ''htr_hi_rh_trig''"
| "nvs_name ExtAntenna = ''ext_antenna''"
| "nvs_name TxPowerDbm = ''txp_known_good''"
| "nvs_name SensorSamples = ''sensor_samples''"
| "nvs_name RtcCalSamples = ''rtc_cal_samples''"
| "nvs_name RtcCalPeriodSec = ''rtc_cal_per_s''"

text \<open>What boot resolves for a parameter, as \<open>app_main\<close> calls the overrides.\<close>

fun boot_override :: "'n nvs_api \<Rightarrow> 'n \<Rightarrow> cfg_key \<Rightarrow> cfg_val \<Rightarrow> cfg_val" where
  "boot_override api n k (CF d) = CF (runtime_config_nvs_override_float api n d (nvs_name k))"
| "boot_override api n k (CU d) = CU (runtime_config_nvs_override_u32 api n d (nvs_name k))"
| "boot_override api n k (CB d) = CB (runtime_config_nvs_override_bool api n d (nvs_name k))"
| "boot_override api n k (CI d) = CI (runtime_config_nvs_override_i32 api n d (nvs_name k))"

fun stored_type :: "cfg_val \<Rightarrow> nvs_type" where
  "stored_type (CF _) = TFloat"
| "stored_type (CU _) = TU32"
| "stored_type (CB _) = TU8"
| "stored_type (CI _) = TI32"

definition stored_val :: "cfg_val \<Rightarrow> nvs_val" where
  "stored_val v = (case v of CF x \<Rightarrow> NvsFloat x | CU x \<Rightarrow> NvsU32 x | CB b \<Rightarrow> NvsU8 (if b then 1 else 0) | CI x \<Rightarrow> NvsI32 x)"

lemma nvs_okD:
  assumes "nvs_ok api"
  shows "nvs_open api rw n" "nvs_get api (nvs_type_of v) k (nvs_set api k v n) = Some v"
    "k' \<noteq> k \<Longrightarrow> nvs_get api t k' (nvs_set api k v n) = nvs_get api t k' n"
    "t \<noteq> nvs_type_of v \<Longrightarrow> nvs_get api t k n = None \<Longrightarrow> nvs_get api t k (nvs_set api k v n) = None"
    "nvs_get api t k n = Some v \<Longrightarrow> nvs_type_of v = t"
  using assms unfolding nvs_ok_def by blast+

lemmas override_defs = runtime_config_nvs_override_float_def runtime_config_nvs_override_u32_def
  runtime_config_nvs_override_bool_def runtime_config_nvs_override_i32_def

lemma override_stored:
  assumes "nvs_ok api" "nvs_get api (stored_type v) (nvs_name k) n = Some (stored_val v)" "typed k v" "typed k d"
  shows "boot_override api n k d = v"
proof -
  have "boot_override api n k d = v" if "stored_type d = stored_type v"
    using that assms(2) nvs_okD(1) [OF assms(1)]
    by (cases v; cases d) (simp_all add: stored_val_def override_defs)
  moreover have "stored_type d = stored_type v" using assms(3,4) by (cases k; cases v; cases d) simp_all
  ultimately show ?thesis by simp
qed

lemma override_unchanged:
  assumes "nvs_ok api" "\<And>t. nvs_get api t (nvs_name k) n' = nvs_get api t (nvs_name k) n"
  shows "boot_override api n' k d = boot_override api n k d"
  by (cases d) (simp_all add: override_defs nvs_okD(1) [OF assms(1)] assms(2))

lemma nvs_writes_Cons: "nvs_writes api ((k, v) # ws) n = nvs_writes api ws (nvs_set api k v n)"
  by (simp add: nvs_writes_def)

lemma nvs_writes_other:
  assumes "nvs_ok api"
  shows "name \<notin> fst ` set ws \<Longrightarrow> nvs_get api t name (nvs_writes api ws n) = nvs_get api t name n"
proof (induction ws arbitrary: n)
  case (Cons w ws)
  obtain k v where w: "w = (k, v)" by fastforce
  then have "name \<noteq> k" "name \<notin> fst ` set ws" using Cons.prems by auto
  then have "nvs_get api t name (nvs_set api k v n) = nvs_get api t name n" by (intro nvs_okD(3) [OF assms])
  then show ?case using Cons.IH [OF \<open>name \<notin> fst ` set ws\<close>] by (simp only: w nvs_writes_Cons)
qed (simp add: nvs_writes_def)

lemma nvs_writes_here:
  assumes "nvs_ok api"
  shows "(name, v) \<in> set ws \<Longrightarrow> (\<And>v'. (name, v') \<in> set ws \<Longrightarrow> v' = v) \<Longrightarrow>
    nvs_get api (nvs_type_of v) name (nvs_writes api ws n) = Some v"
proof (induction ws arbitrary: n)
  case (Cons w ws)
  obtain k u where w: "w = (k, u)" by fastforce
  show ?case
  proof (cases "name \<in> fst ` set ws")
    case True
    then obtain v' where "(name, v') \<in> set ws" by force
    moreover from this have "v' = v" using Cons.prems(2) [of v'] by simp
    ultimately have "(name, v) \<in> set ws" by simp
    from Cons.IH [OF this] have "nvs_get api (nvs_type_of v) name (nvs_writes api ws (nvs_set api k u n)) = Some v"
      using Cons.prems(2) by (meson list.set_intros(2))
    then show ?thesis by (simp only: w nvs_writes_Cons)
  next
    case False
    then have "w = (name, v)" using Cons.prems(1) by force
    then show ?thesis
      using nvs_writes_other [OF assms False, of "nvs_type_of v" "nvs_set api name v n"] nvs_okD(2) [OF assms]
      by (simp only: nvs_writes_Cons)
  qed
qed simp

lemma nvs_name_inj: "nvs_name k' = nvs_name k \<longleftrightarrow> k' = k"
proof -
  have "distinct (map nvs_name cfg_keys)" by (simp add: cfg_keys_def)
  moreover have "k' \<in> set cfg_keys" "k \<in> set cfg_keys" by (cases k'; simp add: cfg_keys_def) (cases k; simp add: cfg_keys_def)
  ultimately show ?thesis by (auto simp: distinct_map dest: inj_onD)
qed

lemma persisted_eq: "typed k w \<Longrightarrow> k \<noteq> TxPowerDbm \<Longrightarrow> persisted k w = [(nvs_name k, stored_val w)]"
  by (cases k; cases w) (simp_all add: stored_val_def)

lemma persisted_tx: "typed TxPowerDbm w \<Longrightarrow> (nvs_name k, v) \<notin> set (persisted TxPowerDbm w)"
  by (cases w; cases k) simp_all

lemma persisted_name:
  "(nvs_name k, v) \<in> set (persisted k' w) \<Longrightarrow> typed k' w \<Longrightarrow> k' \<noteq> TxPowerDbm \<Longrightarrow> k' = k \<and> v = stored_val w"
  by (simp add: persisted_eq nvs_name_inj)

lemma stored_val_type: "nvs_type_of (stored_val w) = stored_type w"
  by (cases w) (simp_all add: stored_val_def)

lemma all_keys: "k \<in> set cfg_keys"
  by (cases k) (simp_all add: cfg_keys_def)

lemma persist_key:
  assumes "nvs_ok api" "\<And>k. typed k (settled_val (snap k))" "k \<noteq> TxPowerDbm" "typed k d"
  shows "boot_override api (persist api snap n) k d =
    (if set_flag (snap k) then settled_val (snap k) else boot_override api n k d)"
proof -
  define ws where "ws = concat (map (\<lambda>k. if set_flag (snap k) then persisted k (settled_val (snap k)) else []) cfg_keys)"
  have p: "persist api snap n = nvs_writes api ws n"
    by (simp add: persist_def ws_def nvs_okD(1) [OF assms(1)])
  have only: "set_flag (snap k) \<and> v = stored_val (settled_val (snap k))" if mem: "(nvs_name k, v) \<in> set ws" for v
  proof -
    obtain k' where k': "set_flag (snap k')" "(nvs_name k, v) \<in> set (persisted k' (settled_val (snap k')))"
      using mem by (auto simp: ws_def split: if_splits)
    have "k' \<noteq> TxPowerDbm" using k'(2) persisted_tx [OF assms(2)] by auto
    then show ?thesis using persisted_name [OF k'(2) assms(2)] k'(1) by auto
  qed
  show ?thesis
  proof (cases "set_flag (snap k)")
    case True
    then have "(nvs_name k, stored_val (settled_val (snap k))) \<in> set ws"
      using persisted_eq [OF assms(2,3)] all_keys [of k] by (auto simp: ws_def intro!: bexI [of _ k])
    from nvs_writes_here [OF assms(1) this] only
    have "nvs_get api (stored_type (settled_val (snap k))) (nvs_name k) (nvs_writes api ws n) =
        Some (stored_val (settled_val (snap k)))"
      unfolding stored_val_type by blast
    then show ?thesis using override_stored [OF assms(1) _ assms(2,4)] True by (simp add: p)
  next
    case False
    then have "nvs_name k \<notin> fst ` set ws" using only by force
    then show ?thesis
      using override_unchanged [OF assms(1) nvs_writes_other [OF assms(1)]] False by (simp add: p)
  qed
qed

lemma filter_zero: "length (filter P xs) = 0 \<Longrightarrow> x \<in> set xs \<Longrightarrow> \<not> P x"
  by (auto simp: filter_empty_conv)

lemma apply_pending_persists:
  assumes "runtime_config_apply_pending api fmt link client (s, n) = Some (a, acts, s', n')" "pend_typed s" "nvs_ok api"
    and "k \<noteq> TxPowerDbm" "typed k d"
  shows "boot_override api n' k d = (if set_flag (settle_all s k) then after_apply s k else boot_override api n k d)"
proof -
  obtain s1 where s1: "apply_lp (settle_all s) lp_keys (s\<lparr>s_pending := \<lambda>_. None\<rparr>) = Some s1"
    using assms(1) by (auto simp: runtime_config_apply_pending_def Let_def split: option.splits)
  obtain ra s2 where s2: "apply_rest link (settle_all s) s1 = (ra, s2)" by fastforce
  have n': "n' = (if length (filter (\<lambda>k. set_flag (settle_all s k)) cfg_keys) = 0 then n else persist api (settle_all s) n)"
    using assms(1) by (simp add: runtime_config_apply_pending_def s1 s2 Let_def split: if_splits)
  show ?thesis
  proof (cases "length (filter (\<lambda>k. set_flag (settle_all s k)) cfg_keys) = 0")
    case True
    then have "\<not> set_flag (settle_all s k)" by (rule filter_zero) (rule all_keys)
    moreover have "n' = n" by (simp only: n' if_P [OF True])
    ultimately show ?thesis by (simp only: if_False)
  next
    case False
    then have "n' = persist api (settle_all s) n" by (simp only: n' if_False)
    then show ?thesis
      using persist_key [OF assms(3) settled_typed [OF assms(2)] assms(4,5), of n] by (simp add: after_apply_flag)
  qed
qed

section \<open>The device's own echo\<close>

lemma apply_lp_none: "(\<And>k. \<not> set_flag (snap k)) \<Longrightarrow> apply_lp snap ks s = Some s"
  by (induction ks) auto

lemma apply_rest_none: "(\<And>k. \<not> set_flag (snap k)) \<Longrightarrow> apply_rest link snap s = ([], s)"
  by (auto simp: apply_rest_def apply_tx_def Let_def split: cfg_val.splits prod.splits)

text \<open>A received value that is in effect already settles to nothing.\<close>

lemma settle_in_effect:
  assumes "\<And>k v. s_pending s k = Some v \<Longrightarrow> v = current_val s k \<and> cfg_clamp k v = v \<and> v \<noteq> CF NaN"
  shows "\<not> set_flag (settle_all s k) \<and> \<not> echo_flag (settle_all s k)"
proof (cases "s_pending s k")
  case None
  then show ?thesis by (simp add: settle_all_def)
next
  case (Some v)
  have "v \<noteq> CF NaN" using assms [OF Some] by blast
  then have v: "current_val s k = v" "cfg_clamp k v = v" "\<not> cfg_neq v v"
    using assms [OF Some] by (auto simp only: neq_refl)
  then show ?thesis using Some by (auto simp: settle_all_def settle_key_def settle_def)
qed

lemma apply_in_effect:
  assumes "\<And>k v. s_pending s k = Some v \<Longrightarrow> v = current_val s k \<and> cfg_clamp k v = v \<and> v \<noteq> CF NaN"
  shows "runtime_config_apply_pending api fmt link client (s, n) = Some (0, [], s\<lparr>s_pending := \<lambda>_. None\<rparr>, n)"
proof -
  have f: "\<not> set_flag (settle_all s k)" "\<not> echo_flag (settle_all s k)" for k
    using settle_in_effect [OF assms] by auto
  then show ?thesis
    by (simp add: runtime_config_apply_pending_def Let_def apply_lp_none apply_rest_none list_ex_iff)
qed

definition topics_of :: "string \<Rightarrow> runtime_config \<Rightarrow> bool" where
  "topics_of device_id s \<longleftrightarrow> s_topic s = (\<lambda>k. full_topic device_id (cfg_suffix k))"

lemma cfg_suffix_inj: "cfg_suffix k' = cfg_suffix k \<longleftrightarrow> k' = k"
proof -
  have "distinct (map cfg_suffix cfg_keys)" by (simp add: cfg_keys_def)
  then show ?thesis using all_keys [of k] all_keys [of k'] by (auto simp: distinct_map dest: inj_onD)
qed

lemma find_key: "find (\<lambda>k'. k = k') cfg_keys = Some k"
  by (cases k) (simp_all add: cfg_keys_def)

lemma on_mqtt_topic:
  assumes "topics_of device_id s" "parse_payload k data = Some v"
  shows "runtime_config_on_mqtt_data (s_topic s k) data s = s\<lparr>s_pending := (s_pending s)(k := Some v)\<rparr>"
proof -
  have "s_topic s k \<noteq> []" using assms(1) by (simp add: topics_of_def full_topic_def)
  moreover have "(\<lambda>k'. s_topic s k = s_topic s k') = (\<lambda>k'. k = k')"
    using assms(1) cfg_suffix_inj by (fastforce simp: topics_of_def full_topic_def)
  ultimately show ?thesis using assms(2) by (simp add: runtime_config_on_mqtt_data_def find_key)
qed

text \<open>The messages a list of actions publishes, delivered to the handler in their order.\<close>

fun messages :: "cfg_action list \<Rightarrow> (string \<times> string) list" where
  "messages [] = []"
| "messages (MqttPublish t p # acts) = (t, p) # messages acts"
| "messages (_ # acts) = messages acts"

definition deliver :: "(string \<times> string) list \<Rightarrow> runtime_config \<Rightarrow> runtime_config" where
  "deliver ms s = fold (\<lambda>(t, p) s. runtime_config_on_mqtt_data t p s) ms s"

lemma messages_append [simp]: "messages (xs @ ys) = messages xs @ messages ys"
  by (induction xs rule: messages.induct) simp_all

lemma messages_echo: "messages (map (\<lambda>k. MqttPublish (t k) (p k)) ks) = map (\<lambda>k. (t k, p k)) ks"
  by (induction ks) simp_all

lemma messages_tx: "set_tx_power link dbm s = (acts, s') \<Longrightarrow> messages acts = []"
  by (auto simp: set_tx_power_def split: option.splits)

lemma messages_apply_tx: "apply_tx link st s = (acts, s') \<Longrightarrow> messages acts = []"
  by (auto simp: apply_tx_def messages_tx split: cfg_val.splits if_splits)

lemma messages_rest: "apply_rest link snap s = (acts, s') \<Longrightarrow> messages acts = []"
  by (auto simp: apply_rest_def Let_def messages_apply_tx split: cfg_val.splits prod.splits if_splits)

lemma deliver_pending:
  assumes "topics_of device_id s" "\<And>k. k \<in> set ks \<Longrightarrow> parse_payload k (p k) = Some (v k)"
  shows "deliver (map (\<lambda>k. (s_topic s k, p k)) ks) s =
    s\<lparr>s_pending := \<lambda>k. if k \<in> set ks then Some (v k) else s_pending s k\<rparr>"
  using assms
proof (induction ks arbitrary: s)
  case (Cons k ks)
  let ?s1 = "s\<lparr>s_pending := (s_pending s)(k := Some (v k))\<rparr>"
  have "runtime_config_on_mqtt_data (s_topic s k) (p k) s = ?s1"
    using on_mqtt_topic [OF Cons.prems(1)] Cons.prems(2) by simp
  moreover have "topics_of device_id ?s1" using Cons.prems(1) by (simp add: topics_of_def)
  then have "deliver (map (\<lambda>k. (s_topic ?s1 k, p k)) ks) ?s1 =
      ?s1\<lparr>s_pending := \<lambda>k. if k \<in> set ks then Some (v k) else s_pending ?s1 k\<rparr>"
    using Cons.prems(2) by (intro Cons.IH) auto
  ultimately show ?case by (simp add: deliver_def) (rule arg_cong [where f = "\<lambda>q. s\<lparr>s_pending := q\<rparr>"], auto)
qed (simp add: deliver_def)

lemma parse_text:
  assumes "typed k v" "\<And>x. v = CF x \<Longrightarrow> parse_float (fmt x) = Some x"
    and "\<And>x. v = CI x \<Longrightarrow> - (2 ^ 31) \<le> x \<and> x < 2 ^ 31"
  shows "parse_payload k (cfg_text fmt v) = Some v"
  using assms
  by (cases k; cases v) (simp_all add: parse_payload_def parse_uint32_render parse_int32_render)

lemma apply_messages:
  assumes "runtime_config_apply_pending api fmt link True (s, n) = Some (a, acts, s', n')"
  shows "messages acts = map (\<lambda>k. (s_topic s' k, cfg_text fmt (settled_val (settle_all s k))))
    (filter (\<lambda>k. echo_flag (settle_all s k)) cfg_keys)"
proof -
  obtain s1 where s1: "apply_lp (settle_all s) lp_keys (s\<lparr>s_pending := \<lambda>_. None\<rparr>) = Some s1"
    using assms by (auto simp: runtime_config_apply_pending_def Let_def split: option.splits)
  obtain ra s2 where s2: "apply_rest link (settle_all s) s1 = (ra, s2)" by fastforce
  show ?thesis
    using assms messages_rest [OF s2]
    by (auto simp: runtime_config_apply_pending_def s1 s2 Let_def messages_echo split: if_splits)
qed

section \<open>The trial of a TX power\<close>

text \<open>The results of the sensor task's passes, reported one after the other.\<close>

fun note_results ::
  "'n nvs_api \<Rightarrow> tx_link \<Rightarrow> bool list \<Rightarrow> runtime_config \<times> 'n \<Rightarrow> runtime_config \<times> 'n" where
  "note_results api link [] sn = sn"
| "note_results api link (ok # oks) sn =
    note_results api link oks (snd (runtime_config_tx_power_note_cycle_result api link ok sn))"

lemma note_result_none:
  "\<not> s_tx_power_has_pending s \<Longrightarrow> runtime_config_tx_power_note_cycle_result api link ok (s, n) = ([], s, n)"
  by (simp add: runtime_config_tx_power_note_cycle_result_def)

lemma note_results_none: "\<not> s_tx_power_has_pending s \<Longrightarrow> note_results api link oks (s, n) = (s, n)"
  by (induction oks) (simp_all add: note_result_none)

lemma note_result_ok:
  assumes "s_tx_power_has_pending s" "runtime_config_tx_power_note_cycle_result api link True (s, n) = (acts, s', n')"
  shows "s_tx_power_known_good s' = s_tx_power_pending s \<and> \<not> s_tx_power_has_pending s' \<and>
    s_tx_power_active_dbm s' = s_tx_power_active_dbm s \<and> s_tx_power_has_rejected s' = s_tx_power_has_rejected s"
  using assms by (auto simp: runtime_config_tx_power_note_cycle_result_def Let_def)

lemma set_tx_trial:
  "set_tx_power link dbm s = (acts, s') \<Longrightarrow>
   s_tx_power_has_pending s' = s_tx_power_has_pending s \<and> s_tx_power_known_good s' = s_tx_power_known_good s \<and>
   s_tx_power_has_rejected s' = s_tx_power_has_rejected s \<and> s_tx_power_rejected s' = s_tx_power_rejected s \<and>
   (\<forall>f. link = Some f \<longrightarrow> f dbm \<longrightarrow> s_tx_power_active_dbm s' = dbm)"
  by (auto simp: set_tx_power_def split: option.splits if_splits)

lemma note_result_fail:
  assumes "s_tx_power_has_pending s" "s_tx_power_unconfirmed_cycles s = of_nat k" "k < 3"
    and "runtime_config_tx_power_note_cycle_result api link False (s, n) = (acts, s', n')"
  shows "if k < 2
    then s' = s\<lparr>s_tx_power_unconfirmed_cycles := of_nat (k + 1)\<rparr> \<and> n' = n
    else \<not> s_tx_power_has_pending s' \<and> s_tx_power_known_good s' = s_tx_power_known_good s \<and>
      s_tx_power_has_rejected s' \<and> s_tx_power_rejected s' = s_tx_power_pending s \<and>
      (\<forall>f. link = Some f \<longrightarrow> f (s_tx_power_known_good s) \<longrightarrow> s_tx_power_active_dbm s' = s_tx_power_known_good s)"
proof -
  have w: "(of_nat k + 1 < (3 :: u32)) = (k < 2)"
  proof -
    have "k = 0 \<or> k = 1 \<or> k = 2" using assms(3) by auto
    then show ?thesis by (auto simp: word_less_nat_alt)
  qed
  let ?t = "s\<lparr>s_tx_power_unconfirmed_cycles := of_nat k + 1\<rparr>"
  obtain a t where t: "set_tx_power link (s_tx_power_known_good s) (drop_trial ?t) = (a, t)" by fastforce
  have "(if k < 2 then s' = ?t \<and> n' = n else s' = t)"
    using assms(1,2,4) t w
    by (auto simp: runtime_config_tx_power_note_cycle_result_def Let_def TX_POWER_REVERT_AFTER_CYCLES_def
        drop_trial_def split: if_splits)
  then show ?thesis using set_tx_trial [OF t] by (auto simp: drop_trial_def add.commute)
qed

lemma trial_run:
  assumes "s_tx_power_has_pending s" "s_tx_power_unconfirmed_cycles s = of_nat k" "k < 3"
    and "note_results api link oks (s, n) = (s', n')" "3 - k \<le> length oks"
  shows "if True \<in> set (take (3 - k) oks)
    then s_tx_power_known_good s' = s_tx_power_pending s \<and> \<not> s_tx_power_has_pending s' \<and>
      s_tx_power_active_dbm s' = s_tx_power_active_dbm s
    else \<not> s_tx_power_has_pending s' \<and> s_tx_power_known_good s' = s_tx_power_known_good s \<and>
      s_tx_power_has_rejected s' \<and> s_tx_power_rejected s' = s_tx_power_pending s \<and>
      (\<forall>f. link = Some f \<longrightarrow> f (s_tx_power_known_good s) \<longrightarrow> s_tx_power_active_dbm s' = s_tx_power_known_good s)"
  using assms
proof (induction oks arbitrary: s n k)
  case (Cons ok oks)
  obtain acts s1 n1 where r: "runtime_config_tx_power_note_cycle_result api link ok (s, n) = (acts, s1, n1)"
    using prod_cases3 by blast
  then have rest: "note_results api link oks (s1, n1) = (s', n')" using Cons.prems(4) by simp
  have tk: "take (3 - k) (ok # oks) = ok # take (3 - Suc k) oks" using Cons.prems(3) by (simp add: take_Cons')
  show ?case
  proof (cases ok)
    case True
    then have o: "s_tx_power_known_good s1 = s_tx_power_pending s \<and> \<not> s_tx_power_has_pending s1 \<and>
        s_tx_power_active_dbm s1 = s_tx_power_active_dbm s"
      using note_result_ok [OF Cons.prems(1), of api link n acts s1 n1] r by simp
    then have "\<not> s_tx_power_has_pending s1" by simp
    then have "(s', n') = (s1, n1)" unfolding rest [symmetric] by (rule note_results_none)
    then show ?thesis using o True tk by simp
  next
    case False
    then have r': "runtime_config_tx_power_note_cycle_result api link False (s, n) = (acts, s1, n1)" using r by simp
    note f = note_result_fail [OF Cons.prems(1,2,3) r']
    show ?thesis
    proof (cases "k < 2")
      case True
      then have s1: "s1 = s\<lparr>s_tx_power_unconfirmed_cycles := of_nat (k + 1)\<rparr>" using f by simp
      then have ih: "s_tx_power_has_pending s1" "s_tx_power_unconfirmed_cycles s1 = of_nat (Suc k)" "Suc k < 3"
        "3 - Suc k \<le> length oks" using Cons.prems True by auto
      show ?thesis using Cons.IH [OF ih(1-3) rest ih(4)] False s1 tk by simp
    next
      case k2: False
      then have "3 - Suc k = 0" using Cons.prems(3) by simp
      moreover have "\<not> s_tx_power_has_pending s1" using f k2 by simp
      then have "(s', n') = (s1, n1)" unfolding rest [symmetric] by (rule note_results_none)
      ultimately show ?thesis using f k2 False tk by simp
    qed
  qed
qed simp

section \<open>A node on a concrete flash partition\<close>

type_synonym flash = "nvs_type \<times> string \<Rightarrow> nvs_val option"

definition map_nvs :: "flash nvs_api" where
  "map_nvs = \<lparr>nvs_open = (\<lambda>_ _. True),
     nvs_get = (\<lambda>t k n. case n (t, k) of Some v \<Rightarrow> if nvs_type_of v = t then Some v else None | None \<Rightarrow> None),
     nvs_set = (\<lambda>k v n. n((nvs_type_of v, k) := Some v))\<rparr>"

lemma map_nvs_ok: "nvs_ok map_nvs"
  by (auto simp: nvs_ok_def map_nvs_def split: option.splits)

definition blank :: flash where
  "blank = (\<lambda>_. None)"

definition plain_lp_config :: lp_sensor_core_config where
  "plain_lp_config = \<lparr>sensor_samples = 4, temp_offset_c = Fin 0, temp_min_change_c = Fin 1,
     rh_offset_pct = Fin 0, rh_min_change_pct = Fin 2, max_skip_cycles = 14,
     heater_period_cycles = 4320, high_rh_trigger_cycles = 180\<rparr>"

definition node :: runtime_config where
  "node = runtime_config_init map_nvs blank ''s'' 20 plain_lp_config 300 1440 60 False 20 rtc_initial"

lemma node_fields:
  "s_pending node = (\<lambda>_. None)" "topics_of ''s'' node" "s_poll_interval_sec node = 20"
  "s_tx_power_known_good node = 20" "\<not> s_tx_power_has_pending node" "\<not> s_tx_power_has_rejected node"
  "s_shadow node = plain_lp_config" "s_heater_period_minutes node = 1440" "s_tx_power_unconfirmed_cycles node = 0"
  by (simp_all add: node_def runtime_config_init_def topics_of_def map_nvs_def blank_def to_i8_def)

definition node_received :: "cfg_key \<Rightarrow> cfg_val \<Rightarrow> runtime_config" where
  "node_received k v = node\<lparr>s_pending := [k \<mapsto> v]\<rparr>"

lemma node_received_fields:
  "s_pending (node_received k v) = [k \<mapsto> v]" "topics_of ''s'' (node_received k v)"
  "current_val (node_received k v) k' = current_val node k'" "typed k v \<Longrightarrow> pend_typed (node_received k v)"
  "received (node_received k v) = [k \<mapsto> v]"
proof -
  show "received (node_received k v) = [k \<mapsto> v]"
    by (rule ext) (simp add: received_def node_received_def node_fields)
  show "current_val (node_received k v) k' = current_val node k'"
    by (cases k') (simp_all add: node_received_def)
qed (use node_fields in \<open>simp_all add: node_received_def topics_of_def pend_typed_def\<close>)

lemma udiv_20: "udiv (x :: u32) 20 \<noteq> None"
  by (simp add: udiv_def)

lemma apply_lp_defined:
  "s_poll_interval_sec s \<noteq> 0 \<Longrightarrow> apply_lp snap ks s \<noteq> None"
proof (induction ks arbitrary: s)
  case (Cons k ks)
  have "apply_lp_val k v s \<noteq> None \<and> (\<forall>s'. apply_lp_val k v s = Some s' \<longrightarrow> s_poll_interval_sec s' \<noteq> 0)" for v
    using Cons.prems
    by (cases k; cases v)
      (auto simp: publish_gap_sec_to_skip_cycles_def minutes_to_lp_cycles_def udiv_def split: if_splits)
  note v = this [of "settled_val (snap k)"]
  then obtain s1 where s1: "apply_lp_val k (settled_val (snap k)) s = Some s1" "s_poll_interval_sec s1 \<noteq> 0" by blast
  show ?case using Cons.IH [OF Cons.prems] Cons.IH [OF s1(2)] s1(1) by simp
qed simp

lemma apply_defined:
  "s_poll_interval_sec s \<noteq> 0 \<Longrightarrow> \<exists>a acts s' n'. runtime_config_apply_pending api fmt link client (s, n) = Some (a, acts, s', n')"
proof -
  assume "s_poll_interval_sec s \<noteq> 0"
  then have "s_poll_interval_sec (s\<lparr>s_pending := \<lambda>_. None\<rparr>) \<noteq> 0" by simp
  from apply_lp_defined [OF this] obtain s1 where
    s1: "apply_lp (settle_all s) lp_keys (s\<lparr>s_pending := \<lambda>_. None\<rparr>) = Some s1" by blast
  obtain ra s2 where s2: "apply_rest link (settle_all s) s1 = (ra, s2)" by fastforce
  show ?thesis by (simp add: runtime_config_apply_pending_def s1 s2 Let_def)
qed

lemma apply_node:
  obtains a acts s' n' where
    "runtime_config_apply_pending map_nvs fmt link client (node_received k v, n) = Some (a, acts, s', n')"
proof -
  have "s_poll_interval_sec (node_received k v) \<noteq> 0" by (simp add: node_received_def node_fields)
  from apply_defined [OF this, where api = map_nvs and fmt = fmt and link = link and client = client and n = n]
  show ?thesis using that by blast
qed

lemma apply_lp_tx:
  "apply_lp snap ks s = Some s' \<Longrightarrow> tx_accepted s' = tx_accepted s \<and>
   s_tx_power_has_rejected s' = s_tx_power_has_rejected s \<and> s_tx_power_rejected s' = s_tx_power_rejected s"
proof (induction ks arbitrary: s)
  case (Cons k ks)
  have "tx_accepted s1 = tx_accepted s \<and> s_tx_power_has_rejected s1 = s_tx_power_has_rejected s \<and>
      s_tx_power_rejected s1 = s_tx_power_rejected s" if "apply_lp_val k v s = Some s1" for v s1
    using that by (cases k; cases v) (auto simp: tx_accepted_def)
  with Cons show ?case by (auto split: if_splits option.splits)
qed simp

lemma apply_tx_unset: "\<not> set_flag st \<Longrightarrow> apply_tx link st s = ([], s)"
  by (simp add: apply_tx_def split: cfg_val.split)

lemma apply_rest_no_tx:
  assumes "\<not> set_flag (snap TxPowerDbm)" "apply_rest link snap s = (acts, s')"
  shows "(\<forall>dbm. SetTxPowerDbm dbm \<notin> set acts) \<and> tx_accepted s' = tx_accepted s \<and>
    s_tx_power_has_rejected s' = s_tx_power_has_rejected s \<and> s_tx_power_rejected s' = s_tx_power_rejected s"
  using assms(2) apply_tx_unset [OF assms(1), of link]
  by (cases "settled_val (snap ExtAntenna)"; cases "settled_val (snap RtcCalSamples)"; cases "settled_val (snap RtcCalPeriodSec)")
    (auto simp: apply_rest_def Let_def split: if_splits)

section \<open>The hardware the configuration drives\<close>

text \<open>
  What the actions leave outside the module: the configuration in the LP core's shared memory, the
  antenna switch and the radio's power, which changes only when the link accepts it.
\<close>

record cfg_hw =
  hw_lp :: lp_sensor_core_config
  hw_antenna :: bool
  hw_tx :: int

fun perform :: "tx_link \<Rightarrow> cfg_action \<Rightarrow> cfg_hw \<Rightarrow> cfg_hw" where
  "perform link (ApplyLpConfig config) h = h\<lparr>hw_lp := config\<rparr>"
| "perform link (EnableExtAntenna on) h = h\<lparr>hw_antenna := on\<rparr>"
| "perform link (SetTxPowerDbm dbm) h =
    (case link of Some set_dbm \<Rightarrow> if set_dbm dbm then h\<lparr>hw_tx := dbm\<rparr> else h | None \<Rightarrow> h)"
| "perform link (MqttPublish t p) h = h"

definition performs :: "tx_link \<Rightarrow> cfg_action list \<Rightarrow> cfg_hw \<Rightarrow> cfg_hw" where
  "performs link acts h = fold (perform link) acts h"

lemma performs_simps [simp]:
  "performs link [] h = h" "performs link (a # acts) h = performs link acts (perform link a h)"
  "performs link (acts @ acts') h = performs link acts' (performs link acts h)"
  by (simp_all add: performs_def)

lemma performs_echo: "performs link (map (\<lambda>k. MqttPublish (t k) (p k)) ks) h = h"
  by (induction ks arbitrary: h) simp_all

text \<open>The module's books and the hardware agree.\<close>

definition in_force :: "runtime_config \<Rightarrow> cfg_hw \<Rightarrow> bool" where
  "in_force s h \<longleftrightarrow> hw_lp h = s_shadow s \<and> hw_antenna h = s_ext_antenna_on s \<and> hw_tx h = s_tx_power_active_dbm s"

lemma in_force_cong:
  "s_shadow s' = s_shadow s \<Longrightarrow> s_ext_antenna_on s' = s_ext_antenna_on s \<Longrightarrow>
   s_tx_power_active_dbm s' = s_tx_power_active_dbm s \<Longrightarrow> in_force s' h = in_force s h"
  by (simp add: in_force_def)

lemma apply_lp_hw:
  "apply_lp snap ks s = Some s' \<Longrightarrow> s_ext_antenna_on s' = s_ext_antenna_on s \<and>
     s_tx_power_active_dbm s' = s_tx_power_active_dbm s \<and>
     (\<not> list_ex (\<lambda>k. set_flag (snap k)) ks \<longrightarrow> s' = s)"
proof (induction ks arbitrary: s)
  case (Cons k ks)
  have "s_ext_antenna_on s1 = s_ext_antenna_on s \<and> s_tx_power_active_dbm s1 = s_tx_power_active_dbm s"
    if "apply_lp_val k v s = Some s1" for v s1
    using that by (cases k; cases v) auto
  with Cons show ?case by (auto split: if_splits option.splits)
qed simp

lemma set_tx_force:
  "set_tx_power link dbm s = (acts, s') \<Longrightarrow> in_force s h \<Longrightarrow> in_force s' (performs link acts h)"
  by (auto simp: set_tx_power_def in_force_def split: option.splits if_splits)

lemma apply_tx_force:
  assumes "apply_tx link st s = (acts, s')" "in_force s h"
  shows "in_force s' (performs link acts h)"
proof (cases "\<exists>v. settled_val st = CI v \<and> set_flag st")
  case True
  then obtain v where v: "settled_val st = CI v" "set_flag st" by blast
  let ?t = "s\<lparr>s_tx_power_pending := to_i8 v, s_tx_power_has_pending := True, s_tx_power_unconfirmed_cycles := 0,
    s_tx_power_has_rejected := False\<rparr>"
  have "set_tx_power link (to_i8 v) ?t = (acts, s')" using assms(1) v by (simp add: apply_tx_def)
  moreover have "in_force ?t h" using assms(2) by (simp add: in_force_def)
  ultimately show ?thesis by (rule set_tx_force)
qed (use assms in \<open>auto simp: apply_tx_def split: cfg_val.splits if_splits\<close>)

lemma apply_rest_parts:
  assumes "apply_rest link snap s = (acts, s')" "\<And>k. typed k (settled_val (snap k))"
  obtains s1 a1 ta s2 where "apply_tx link (snap TxPowerDbm) s1 = (ta, s2)" "acts = a1 @ ta"
    "in_force s h \<Longrightarrow> in_force s1 (performs link a1 h)"
    "s_shadow s' = s_shadow s2" "s_ext_antenna_on s' = s_ext_antenna_on s2"
    "s_tx_power_active_dbm s' = s_tx_power_active_dbm s2" "tx_accepted s' = tx_accepted s2"
proof -
  obtain b where b: "settled_val (snap ExtAntenna) = CB b" using assms(2) [of ExtAntenna] by (auto elim: typed_elims)
  obtain m where m: "settled_val (snap RtcCalSamples) = CU m" using assms(2) [of RtcCalSamples] by (auto elim: typed_elims)
  obtain q where q: "settled_val (snap RtcCalPeriodSec) = CU q" using assms(2) [of RtcCalPeriodSec] by (auto elim: typed_elims)
  let ?s1 = "if set_flag (snap ExtAntenna) then s\<lparr>s_ext_antenna_on := b\<rparr> else s"
  let ?a1 = "if set_flag (snap ExtAntenna) then [EnableExtAntenna b] else []"
  obtain ta s2 where s2: "apply_tx link (snap TxPowerDbm) ?s1 = (ta, s2)" by fastforce
  show ?thesis
    by (rule that [OF s2, of ?a1])
      (use assms(1) s2 in \<open>auto simp: apply_rest_def b m q Let_def in_force_def split: if_splits\<close>)
qed

lemma apply_rest_force:
  assumes "apply_rest link snap s = (acts, s')" "in_force s h" "\<And>k. typed k (settled_val (snap k))"
  shows "in_force s' (performs link acts h)"
proof (rule apply_rest_parts [OF assms(1,3), where h = h])
  fix s1 a1 ta s2
  assume a: "apply_tx link (snap TxPowerDbm) s1 = (ta, s2)" "acts = a1 @ ta"
    "in_force s h \<Longrightarrow> in_force s1 (performs link a1 h)"
    "s_shadow s' = s_shadow s2" "s_ext_antenna_on s' = s_ext_antenna_on s2"
    "s_tx_power_active_dbm s' = s_tx_power_active_dbm s2"
  from apply_tx_force [OF a(1) a(3) [OF assms(2)]] show ?thesis
    using in_force_cong [OF a(4-6)] a(2) by simp
qed

lemma apply_tx_sets:
  assumes "apply_tx link st s = (acts, s')" "typed TxPowerDbm (settled_val st)" "link = Some f" "set_flag st"
  shows "SetTxPowerDbm (tx_accepted s') \<in> set acts"
proof -
  obtain v where v: "settled_val st = CI v" using assms(2) by (auto elim: typed_elims)
  show ?thesis
    using assms(1,3,4) v by (auto simp: apply_tx_def set_tx_power_def tx_accepted_def split: if_splits)
qed

lemma apply_rest_sets_tx:
  assumes "apply_rest link snap s = (acts, s')" "\<And>k. typed k (settled_val (snap k))" "link = Some f"
    and "set_flag (snap TxPowerDbm)"
  shows "SetTxPowerDbm (tx_accepted s') \<in> set acts"
  by (rule apply_rest_parts [OF assms(1,2)]) (use apply_tx_sets [OF _ assms(2,3,4)] in auto)

lemma apply_pending_force:
  assumes run: "runtime_config_apply_pending api fmt link client (s, n) = Some (a, acts, s', n')" and "pend_typed s"
    and f: "in_force s h"
  shows "in_force s' (performs link acts h)"
    and "link = Some g \<Longrightarrow> tx_accepted s' \<noteq> tx_accepted s \<Longrightarrow> SetTxPowerDbm (tx_accepted s') \<in> set acts"
proof -
  let ?snap = "settle_all s" and ?s0 = "s\<lparr>s_pending := \<lambda>_. None\<rparr>"
  obtain s1 where s1: "apply_lp ?snap lp_keys ?s0 = Some s1"
    using run by (auto simp: runtime_config_apply_pending_def Let_def split: option.splits)
  obtain ra s2 where s2: "apply_rest link ?snap s1 = (ra, s2)" by fastforce
  have ty: "typed k (settled_val (?snap k))" for k by (rule settled_typed [OF assms(2)])
  let ?la = "if list_ex (\<lambda>k. set_flag (?snap k)) lp_keys then [ApplyLpConfig (s_shadow s1)] else []"
  obtain ea where acts: "acts = ?la @ ra @ ea" "\<forall>h. performs link ea h = h" and s': "s' = s2"
    using run s1 s2 by (auto simp: runtime_config_apply_pending_def Let_def performs_echo split: if_splits)
  have "in_force s1 (performs link ?la h)"
    using f apply_lp_hw [OF s1] by (auto simp: in_force_def)
  from apply_rest_force [OF s2 this ty] have "in_force s2 (performs link (?la @ ra) h)" by simp
  then show "in_force s' (performs link acts h)" using acts s' by simp
  assume g: "link = Some g" "tx_accepted s' \<noteq> tx_accepted s"
  have "set_flag (?snap TxPowerDbm)"
  proof (rule ccontr)
    assume n: "\<not> set_flag (?snap TxPowerDbm)"
    from apply_rest_no_tx [OF n s2] apply_lp_tx [OF s1] have "tx_accepted s2 = tx_accepted s" by simp
    then show False using g(2) s' by simp
  qed
  from apply_rest_sets_tx [OF s2 ty g(1) this] show "SetTxPowerDbm (tx_accepted s') \<in> set acts"
    using acts s' by simp
qed

section \<open>Properties\<close>

text \<open>
  C33: Applying puts into effect exactly what was received. In the module's books every received
  parameter takes its clamped value, every other one keeps its value, and nothing stays pending; the
  exception is a TX power that failed its trial and is received again, which is left out. And the
  hardware follows: if the LP core's configuration, the antenna switch and the radio's power were what
  the books say before, then after the actions they are what the books say, and a newly accepted TX
  power is handed to the radio. (The radio may refuse a power; the books then keep the active one.)
\<close>

theorem received_values_take_effect_clamped:
  assumes "runtime_config_apply_pending api fmt link client (s, n) = Some (a, acts, s', n')" "pend_typed s"
    and "in_force s h"
  shows "current_val s' k = (case received s k of None \<Rightarrow> current_val s k | Some v \<Rightarrow> cfg_clamp k v) \<and>
    s_pending s' k = None \<and> in_force s' (performs link acts h) \<and>
    (link \<noteq> None \<and> tx_accepted s' \<noteq> tx_accepted s \<longrightarrow> SetTxPowerDbm (tx_accepted s') \<in> set acts)"
  using apply_pending_current [OF assms(1,2), of k] apply_pending_force [OF assms] by (auto simp: after_apply_def)

theorem received_values_take_effect_clamped_witness:
  "\<exists>a acts s' n'. runtime_config_apply_pending map_nvs (\<lambda>_. []) None True (node_received HeaterPeriodMin (CU 20000), blank) =
     Some (a, acts, s', n') \<and> current_val s' HeaterPeriodMin = CU 10080 \<and>
     hw_lp (performs None acts \<lparr>hw_lp = plain_lp_config, hw_antenna = False, hw_tx = 20\<rparr>) = s_shadow s'"
proof -
  let ?s = "node_received HeaterPeriodMin (CU 20000)" and ?h = "\<lparr>hw_lp = plain_lp_config, hw_antenna = False, hw_tx = 20\<rparr>"
  obtain a acts s' n' where r: "runtime_config_apply_pending map_nvs (\<lambda>_. []) None True (?s, blank) = Some (a, acts, s', n')"
    by (rule apply_node)
  have "pend_typed ?s" by (simp add: node_received_fields)
  moreover have "in_force ?s ?h"
    by (simp add: in_force_def node_received_def node_def runtime_config_init_def TX_POWER_TABLE_MAX_DBM_def
        Let_def split: option.split nvs_val.split)
  ultimately have "current_val s' HeaterPeriodMin = CU 10080 \<and> hw_lp (performs None acts ?h) = s_shadow s'"
    using received_values_take_effect_clamped [OF r, of ?h HeaterPeriodMin]
    by (simp add: node_received_fields iclamp_def word_less_nat_alt in_force_def)
  with r show ?thesis by blast
qed

text \<open>
  A parameter that boot would resolve to the value in effect is resolved to the value in effect
  after any batch of received values was applied: nothing applied is lost by a reboot. TX power has
  its own trial and is left out.
\<close>

theorem applied_values_survive_reboot:
  assumes "runtime_config_apply_pending api fmt link client (s, n) = Some (a, acts, s', n')" "pend_typed s" "nvs_ok api"
    and "k \<noteq> TxPowerDbm" "typed k d" "boot_override api n k d = current_val s k"
  shows "boot_override api n' k d = current_val s' k"
  using apply_pending_persists [OF assms(1-5)] apply_pending_current [OF assms(1,2), of k] assms(6)
  by (simp add: after_apply_flag split: if_splits)

theorem applied_values_survive_reboot_witness:
  "\<exists>a acts s' n'. runtime_config_apply_pending map_nvs (\<lambda>_. []) None True (node_received HeaterPeriodMin (CU 20000), blank) =
     Some (a, acts, s', n') \<and> boot_override map_nvs n' HeaterPeriodMin (CU 1440) = current_val s' HeaterPeriodMin"
proof -
  let ?s = "node_received HeaterPeriodMin (CU 20000)"
  obtain a acts s' n' where r: "runtime_config_apply_pending map_nvs (\<lambda>_. []) None True (?s, blank) = Some (a, acts, s', n')"
    by (rule apply_node)
  have "pend_typed ?s" by (simp add: node_received_fields)
  moreover have "boot_override map_nvs blank HeaterPeriodMin (CU 1440) = current_val ?s HeaterPeriodMin"
    by (simp add: node_received_def node_fields override_defs map_nvs_def blank_def)
  ultimately have "boot_override map_nvs n' HeaterPeriodMin (CU 1440) = current_val s' HeaterPeriodMin"
    by (intro applied_values_survive_reboot [OF r _ map_nvs_ok]) simp_all
  with r show ?thesis by blast
qed

lemma echoed_value:
  "echo_flag (settle_all s k) \<Longrightarrow> settled_val (settle_all s k) = after_apply s k"
proof (cases "received s k")
  case None
  assume "echo_flag (settle_all s k)"
  with None show ?thesis
    by (auto simp: received_def after_apply_def settle_all_def settle_key_def split: option.splits if_splits)
qed (simp add: settle_received after_apply_def settle_def)

lemma echoed_clamped:
  assumes "echo_flag (settle_all s k)" "pend_typed s"
    and "k = TxPowerDbm \<Longrightarrow> - 15 \<le> tx_accepted s \<and> tx_accepted s \<le> 20"
  shows "cfg_clamp k (after_apply s k) = after_apply s k"
proof (cases "received s k")
  case None
  then have "k = TxPowerDbm" using assms(1)
    by (auto simp: received_def settle_all_def settle_key_def split: option.splits if_splits)
  then show ?thesis using None assms(3) by (simp add: after_apply_def iclamp_def)
next
  case (Some v)
  then have "typed k v" using assms(2) by (auto simp: received_def pend_typed_def split: option.splits if_splits)
  then show ?thesis using Some clamp_idem by (simp add: after_apply_def)
qed

text \<open>
  C12: The device's own echo is a fixed point: when the messages one application publishes come back
  from the broker, applying them changes nothing, writes nothing and publishes nothing. This holds
  provided every echoed \<open>float\<close> is a number that is printed so that it is read back (a NaN never
  settles, C35), and an echoed TX power is one the clamp to -15..20 dBm accepts (a trial restored from NVS
  at boot is not clamped). The parameters that are not echoed may have any value.
\<close>

theorem own_echo_is_fixed_point:
  assumes run: "runtime_config_apply_pending api fmt link True (s, n) = Some (a, acts, s', n')"
    and "topics_of device_id s" "pend_typed s"
    and tx: "echo_flag (settle_all s TxPowerDbm) \<Longrightarrow> - 15 \<le> tx_accepted s \<and> tx_accepted s \<le> 20"
    and fl: "\<And>k x. echo_flag (settle_all s k) \<Longrightarrow> current_val s' k = CF x \<Longrightarrow>
      x \<noteq> NaN \<and> parse_float (fmt x) = Some x"
  shows "runtime_config_apply_pending api fmt link True (deliver (messages acts) s', n') = Some (0, [], s', n')"
proof -
  note cur = apply_pending_current [OF run \<open>pend_typed s\<close>]
  let ?ks = "filter (\<lambda>k. echo_flag (settle_all s k)) cfg_keys"
  have val: "settled_val (settle_all s k) = current_val s' k" "cfg_clamp k (current_val s' k) = current_val s' k"
    if "k \<in> set ?ks" for k
    using that cur [of k] echoed_value echoed_clamped [OF _ \<open>pend_typed s\<close> tx] by auto
  have readback: "parse_payload k (cfg_text fmt (settled_val (settle_all s k))) = Some (current_val s' k)" if "k \<in> set ?ks" for k
  proof -
    have "- (2 ^ 31) \<le> x \<and> x < 2 ^ 31" if "current_val s' k = CI x" for x
    proof -
      have "k = TxPowerDbm" using current_val_typed [of k s'] that by (cases k) auto
      then have "iclamp x (- 15) 20 = x" using val(2) [OF \<open>k \<in> set ?ks\<close>] that by simp
      moreover have "- 15 \<le> iclamp x (- 15) 20 \<and> iclamp x (- 15) 20 \<le> 20" by (rule iclamp_bounds) simp
      ultimately show ?thesis by simp
    qed
    moreover have "echo_flag (settle_all s k)" using that by simp
    ultimately show ?thesis using parse_text [OF current_val_typed, where fmt = fmt] fl val(1) [OF that] by metis
  qed
  have "messages acts = map (\<lambda>k. (s_topic s' k, cfg_text fmt (settled_val (settle_all s k)))) ?ks"
    by (rule apply_messages [OF run])
  moreover have "topics_of device_id s'" using cur assms(2) by (simp add: topics_of_def)
  ultimately have d: "deliver (messages acts) s' =
      s'\<lparr>s_pending := \<lambda>k. if k \<in> set ?ks then Some (current_val s' k) else s_pending s' k\<rparr>"
    using deliver_pending [where ks = ?ks and v = "current_val s'"] readback by simp
  let ?t = "s'\<lparr>s_pending := \<lambda>k. if k \<in> set ?ks then Some (current_val s' k) else s_pending s' k\<rparr>"
  have same: "current_val ?t k = current_val s' k" for k by (cases k) simp_all
  have "v = current_val ?t k \<and> cfg_clamp k v = v \<and> v \<noteq> CF NaN" if "s_pending ?t k = Some v" for k v
  proof -
    have "k \<in> set ?ks" "v = current_val s' k" using that cur by (auto split: if_splits)
    then show ?thesis using val(2) fl [of k] same by auto
  qed
  from apply_in_effect [OF this]
  have "runtime_config_apply_pending api fmt link True (?t, n') = Some (0, [], ?t\<lparr>s_pending := \<lambda>_. None\<rparr>, n')" .
  moreover have "?t\<lparr>s_pending := \<lambda>_. None\<rparr> = s'" using cur by (simp add: fun_eq_iff)
  ultimately show ?thesis by (simp only: d)
qed

definition digit_text :: "flt \<Rightarrow> string" where
  "digit_text x = (if x = Fin 0 then ''0'' else if x = Fin 1 then ''1'' else ''2'')"

lemma digit_text_reads_back: "x \<in> {Fin 0, Fin 1, Fin 2} \<Longrightarrow> parse_float (digit_text x) = Some x"
proof -
  have "f32 0 = Fin 0" "f32 1 = Fin 1" "f32 2 = Fin 2" using f32_int [of 0] f32_int [of 1] f32_int [of 2] by simp_all
  moreover assume "x \<in> {Fin 0, Fin 1, Fin 2}"
  ultimately show ?thesis
    by (auto simp: digit_text_def parse_float_def whole_def from_chars_f32_def starts_with_def Let_def is_digit_def
        exponent_part_def digits_val_def digit_val_def char_code_def lower_def)
qed

theorem own_echo_is_fixed_point_witness:
  "\<exists>a acts s' n'. runtime_config_apply_pending map_nvs digit_text None True
      (node_received HeaterPeriodMin (CU 20000), blank) = Some (a, acts, s', n') \<and>
    runtime_config_apply_pending map_nvs digit_text None True (deliver (messages acts) s', n') = Some (0, [], s', n')"
proof -
  let ?s = "node_received HeaterPeriodMin (CU 20000)"
  obtain a acts s' n' where r: "runtime_config_apply_pending map_nvs digit_text None True (?s, blank) = Some (a, acts, s', n')"
    by (rule apply_node)
  have t: "pend_typed ?s" by (simp add: node_received_fields)
  have shadow: "s_shadow ?s = plain_lp_config" by (simp add: node_received_def node_fields)
  have "x \<in> {Fin 0, Fin 1, Fin 2}" if "current_val s' k = CF x" for k x
    using that apply_pending_current [OF r t, of k]
    by (cases k) (auto simp: after_apply_def node_received_fields shadow node_fields plain_lp_config_def)
  then have "x \<noteq> NaN \<and> parse_float (digit_text x) = Some x" if "current_val s' k = CF x" for k x
    using that digit_text_reads_back by blast
  moreover have "- 15 \<le> tx_accepted ?s \<and> tx_accepted ?s \<le> 20"
    by (simp add: node_received_def tx_accepted_def node_fields)
  ultimately have "runtime_config_apply_pending map_nvs digit_text None True (deliver (messages acts) s', n') = Some (0, [], s', n')"
    using own_echo_is_fixed_point [OF r node_received_fields(2) t] by blast
  with r show ?thesis by blast
qed

text \<open>
  C18: A TX power on trial is settled by the next three results: the first success among them makes it
  the known good power, and three failures restore the known good one (the radio follows if it accepts
  it) and mark the tried one as rejected.
\<close>

theorem tx_power_trial_settles_in_three:
  assumes "s_tx_power_has_pending s" "s_tx_power_unconfirmed_cycles s = 0" "3 \<le> length results"
    and "note_results api link results (s, n) = (s', n')"
  shows "if True \<in> set (take 3 results)
    then s_tx_power_known_good s' = s_tx_power_pending s \<and> \<not> s_tx_power_has_pending s' \<and>
      s_tx_power_active_dbm s' = s_tx_power_active_dbm s
    else \<not> s_tx_power_has_pending s' \<and> s_tx_power_known_good s' = s_tx_power_known_good s \<and>
      s_tx_power_has_rejected s' \<and> s_tx_power_rejected s' = s_tx_power_pending s \<and>
      (\<forall>set_dbm. link = Some set_dbm \<longrightarrow> set_dbm (s_tx_power_known_good s) \<longrightarrow>
        s_tx_power_active_dbm s' = s_tx_power_known_good s)"
  using trial_run [of s 0 api link results n s' n'] assms by simp

definition trial_node :: runtime_config where
  "trial_node = node\<lparr>s_tx_power_pending := 5, s_tx_power_has_pending := True, s_tx_power_active_dbm := 5\<rparr>"

theorem tx_power_trial_settles_in_three_witness:
  "s_tx_power_active_dbm (fst (note_results map_nvs (Some (\<lambda>_. True)) [False, False, False] (trial_node, blank))) = 20 \<and>
   s_tx_power_known_good (fst (note_results map_nvs (Some (\<lambda>_. True)) [False, False, True] (trial_node, blank))) = 5"
proof -
  obtain s1 n1 s2 n2 where r:
    "note_results map_nvs (Some (\<lambda>_. True)) [False, False, False] (trial_node, blank) = (s1, n1)"
    "note_results map_nvs (Some (\<lambda>_. True)) [False, False, True] (trial_node, blank) = (s2, n2)"
    by (meson prod.exhaust)
  have t: "s_tx_power_has_pending trial_node" "s_tx_power_unconfirmed_cycles trial_node = 0"
    "s_tx_power_pending trial_node = 5" "s_tx_power_known_good trial_node = 20"
    by (simp_all add: trial_node_def node_fields)
  show ?thesis
    using tx_power_trial_settles_in_three [OF t(1,2) _ r(1)] tx_power_trial_settles_in_three [OF t(1,2) _ r(2)] t(3,4)
    unfolding r by simp
qed

text \<open>
  A rejected TX power that is received again (a retained message after a reconnect, say) is not tried
  again: no power is set, the accepted power and the rejection stay.
\<close>

theorem rejected_power_is_not_retried:
  assumes "runtime_config_apply_pending api fmt link client (s, n) = Some (a, acts, s', n')"
    and "s_tx_power_has_rejected s" "s_pending s TxPowerDbm = Some (CI (s_tx_power_rejected s))"
  shows "(\<forall>dbm. SetTxPowerDbm dbm \<notin> set acts) \<and> tx_accepted s' = tx_accepted s \<and>
    s_tx_power_has_rejected s' \<and> s_tx_power_rejected s' = s_tx_power_rejected s"
proof -
  obtain s1 where s1: "apply_lp (settle_all s) lp_keys (s\<lparr>s_pending := \<lambda>_. None\<rparr>) = Some s1"
    using assms by (auto simp: runtime_config_apply_pending_def Let_def split: option.splits)
  obtain ra s2 where s2: "apply_rest link (settle_all s) s1 = (ra, s2)" by fastforce
  have tx: "\<not> set_flag (settle_all s TxPowerDbm)"
    using assms(2,3) by (simp add: settle_all_def settle_key_def)
  note rest = apply_rest_no_tx [OF tx s2]
  moreover have "tx_accepted s1 = tx_accepted s \<and> s_tx_power_has_rejected s1 = s_tx_power_has_rejected s \<and>
      s_tx_power_rejected s1 = s_tx_power_rejected s"
    using apply_lp_tx [OF s1] by simp
  moreover have "s' = s2 \<and> (\<forall>dbm. SetTxPowerDbm dbm \<in> set acts \<longrightarrow> SetTxPowerDbm dbm \<in> set ra)"
    using assms(1) by (auto simp: runtime_config_apply_pending_def s1 s2 Let_def split: if_splits)
  ultimately show ?thesis using assms(2) by auto
qed

theorem rejected_power_is_not_retried_witness:
  "\<exists>a acts s' n'. runtime_config_apply_pending map_nvs (\<lambda>_. []) None True
      ((node_received TxPowerDbm (CI 5))\<lparr>s_tx_power_rejected := 5, s_tx_power_has_rejected := True\<rparr>, blank) =
        Some (a, acts, s', n') \<and> tx_accepted s' = 20 \<and> SetTxPowerDbm 5 \<notin> set acts"
proof -
  let ?s = "(node_received TxPowerDbm (CI 5))\<lparr>s_tx_power_rejected := 5, s_tx_power_has_rejected := True\<rparr>"
  have f: "s_poll_interval_sec ?s \<noteq> 0" "s_tx_power_has_rejected ?s"
    "s_pending ?s TxPowerDbm = Some (CI (s_tx_power_rejected ?s))" "tx_accepted ?s = 20"
    by (simp_all add: node_received_def node_fields tx_accepted_def)
  from apply_defined [OF f(1), where api = map_nvs and fmt = "\<lambda>_. []" and link = None and client = True and n = blank]
  obtain a acts s' n' where r: "runtime_config_apply_pending map_nvs (\<lambda>_. []) None True (?s, blank) = Some (a, acts, s', n')"
    by blast
  have "tx_accepted s' = 20 \<and> SetTxPowerDbm 5 \<notin> set acts"
    using rejected_power_is_not_retried [OF r f(2,3)] unfolding f(4) by blast
  with r show ?thesis by blast
qed

text \<open>
  C34: A TX power that a successful cycle confirms is stored as an 8-bit value, while boot reads the
  known good power as a 32-bit one: with a working NVS that never held one at that width, boot falls
  back to its default whatever was confirmed.
\<close>

theorem confirmed_power_is_lost_at_reboot:
  assumes "nvs_ok api" "s_tx_power_has_pending s"
    and "runtime_config_tx_power_note_cycle_result api link True (s, n) = (acts, s', n')"
    and "nvs_get api TI32 ''txp_known_good'' n = None"
  shows "s_tx_power_known_good s' = s_tx_power_pending s \<and>
    runtime_config_nvs_override_i32 api n' d ''txp_known_good'' = d"
proof -
  let ?n1 = "nvs_set api ''txp_known_good'' (NvsI8 (s_tx_power_pending s)) n"
  have n': "n' = nvs_set api ''txp_pend_flag'' (NvsU8 0) ?n1"
    and good: "s_tx_power_known_good s' = s_tx_power_pending s"
    using assms(2,3) nvs_okD(1) [OF assms(1)]
    by (auto simp: runtime_config_tx_power_note_cycle_result_def Let_def)
  have "nvs_get api TI32 ''txp_known_good'' ?n1 = None"
    by (rule nvs_okD(4) [OF assms(1) _ assms(4)]) simp
  then have "nvs_get api TI32 ''txp_known_good'' n' = None"
    unfolding n' by (subst nvs_okD(3) [OF assms(1)]) simp_all
  then show ?thesis using good by (simp add: override_defs)
qed

theorem confirmed_power_is_lost_at_reboot_witness:
  "\<exists>acts s' n'. runtime_config_tx_power_note_cycle_result map_nvs None True (trial_node, blank) = (acts, s', n') \<and>
    s_tx_power_known_good s' = 5 \<and> runtime_config_nvs_override_i32 map_nvs n' 20 ''txp_known_good'' = 20"
proof -
  obtain acts s' n' where r: "runtime_config_tx_power_note_cycle_result map_nvs None True (trial_node, blank) = (acts, s', n')"
    using prod_cases3 by blast
  have "s_tx_power_has_pending trial_node" "s_tx_power_pending trial_node = 5" by (simp_all add: trial_node_def)
  moreover have "nvs_get map_nvs TI32 ''txp_known_good'' blank = None" by (simp add: map_nvs_def blank_def)
  ultimately show ?thesis using confirmed_power_is_lost_at_reboot [OF map_nvs_ok _ r, of 20] r by auto
qed

lemma counts_flag: "P k \<Longrightarrow> length (filter P cfg_keys) > 0"
  using all_keys [of k] by (auto simp: filter_empty_conv)

text \<open>
  C35: A \<open>nan\<close> payload of a float parameter is accepted, passes the clamp, takes effect and never
  settles: each time it is received it is applied and counted again, also once it is in effect.
\<close>

theorem nan_payload_never_settles:
  assumes "typed k (CF NaN)" "topics_of device_id s" "pend_typed s"
    and "runtime_config_apply_pending api fmt link client (runtime_config_on_mqtt_data (s_topic s k) ''nan'' s, n) =
      Some (a, acts, s', n')"
  shows "0 < a \<and> current_val s' k = CF NaN"
proof -
  have "parse_float ''nan'' = Some NaN"
    by (simp add: parse_float_def whole_def from_chars_f32_def starts_with_def nan_rest_def lower_def char_code_def)
  then have "parse_payload k ''nan'' = Some (CF NaN)" using assms(1) by (cases k) (simp_all add: parse_payload_def)
  from on_mqtt_topic [OF assms(2) this] have recv:
    "runtime_config_on_mqtt_data (s_topic s k) ''nan'' s = s\<lparr>s_pending := (s_pending s)(k := Some (CF NaN))\<rparr>" .
  let ?s = "s\<lparr>s_pending := (s_pending s)(k := Some (CF NaN))\<rparr>"
  have run: "runtime_config_apply_pending api fmt link client (?s, n) = Some (a, acts, s', n')"
    using assms(4) by (simp only: recv)
  have "received ?s k = Some (CF NaN)" by (simp add: received_def)
  moreover have clamp: "cfg_clamp k (CF NaN) = CF NaN" using assms(1) by (cases k) simp_all
  moreover have "pend_typed ?s" using assms(1,3) by (simp add: pend_typed_def)
  ultimately have cur: "current_val s' k = CF NaN" using apply_pending_current [OF run, of k] by (simp add: after_apply_def)
  have "set_flag (settle_all ?s k)"
    using settle_received(1) [OF \<open>received ?s k = Some (CF NaN)\<close>] clamp current_val_typed [of k ?s] assms(1)
    by (cases "current_val ?s k"; cases k) (simp_all add: settle_def f_neq_def f_eq_def)
  then have "0 < length (filter (\<lambda>k. set_flag (settle_all ?s k)) cfg_keys)" by (rule counts_flag)
  moreover have "a = length (filter (\<lambda>k. set_flag (settle_all ?s k)) cfg_keys)"
    using run by (auto simp: runtime_config_apply_pending_def Let_def split: option.splits prod.splits if_splits)
  ultimately show ?thesis using cur by simp
qed

theorem nan_payload_never_settles_witness:
  "\<exists>a acts s' n'. runtime_config_apply_pending map_nvs (\<lambda>_. []) None True
      (runtime_config_on_mqtt_data (s_topic node TempOffset) ''nan'' node, blank) = Some (a, acts, s', n') \<and>
    0 < a \<and> current_val s' TempOffset = CF NaN"
proof -
  have "s_poll_interval_sec (runtime_config_on_mqtt_data t p node) \<noteq> 0" for t p
    by (simp add: runtime_config_on_mqtt_data_def node_fields split: option.split)
  from apply_defined [OF this, where api = map_nvs and fmt = "\<lambda>_. []" and link = None and client = True and n = blank]
  obtain a acts s' n' where r: "runtime_config_apply_pending map_nvs (\<lambda>_. []) None True
      (runtime_config_on_mqtt_data (s_topic node TempOffset) ''nan'' node, blank) = Some (a, acts, s', n')"
    by blast
  have "pend_typed node" by (simp add: pend_typed_def node_fields)
  from nan_payload_never_settles [OF _ node_fields(2) this r] r show ?thesis by auto
qed

end
