(* ===== verification/Boot.thy ===== *)
theory Boot
  imports SensorsTask ConfigProps
begin

text \<open>
  Boot: \<open>app_main\<close> of \<open>main/main.cpp\<close> with the helpers it uses from \<open>main/common_utils.cpp\<close>. It resolves every setting
  (NVS override, else the YAML file, else a default), checks the network settings, counts the boot, names
  the reset reason, starts the LP program and hands the resolved values to the runtime configuration
  and the sensors task.

  Parameters: the two NVS namespaces, the two embedded YAML files, the MAC address, and what each platform
  call returns. An \<open>ESP_ERROR_CHECK\<close> that fails aborts; a division by a zero poll interval is undefined.
\<close>

section \<open>Helpers of \<open>common_utils.cpp\<close>\<close>

abbreviation (input) ESP_ERR_NVS_NO_FREE_PAGES :: esp_err where "ESP_ERR_NVS_NO_FREE_PAGES \<equiv> 0x110d"
abbreviation (input) ESP_ERR_NVS_NEW_VERSION_FOUND :: esp_err where "ESP_ERR_NVS_NEW_VERSION_FOUND \<equiv> 0x1110"

text \<open>The first and second \<open>nvs_flash_init\<close> and whether the erase succeeds; \<open>None\<close> is the abort.\<close>

definition initNvsFlash :: "esp_err \<Rightarrow> bool \<Rightarrow> esp_err \<Rightarrow> esp_err option" where
  "initNvsFlash ret1 erased ret2 =
    (if ret1 = ESP_ERR_NVS_NO_FREE_PAGES \<or> ret1 = ESP_ERR_NVS_NEW_VERSION_FOUND then
       (if \<not> erased then None
        else if ret2 \<noteq> ESP_OK then Some ret2
        else if ret1 \<noteq> ESP_OK then Some ret1 else Some ESP_OK)
     else if ret1 \<noteq> ESP_OK then Some ret1 else Some ESP_OK)"

record rtc_ram =
  s_lp_stall_reboot_marker :: u32
  s_ota_unconfirmed_reboot_marker :: u32

definition LP_STALL_REBOOT_MAGIC :: u32 where "LP_STALL_REBOOT_MAGIC = 0x4C505354"
definition OTA_UNCONFIRMED_REBOOT_MAGIC :: u32 where "OTA_UNCONFIRMED_REBOOT_MAGIC = 0x4F544155"

definition markLpStallReboot :: "rtc_ram \<Rightarrow> rtc_ram" where
  "markLpStallReboot r = r\<lparr>s_lp_stall_reboot_marker := LP_STALL_REBOOT_MAGIC\<rparr>"

definition consumeLpStallRebootMarker :: "rtc_ram \<Rightarrow> bool \<times> rtc_ram" where
  "consumeLpStallRebootMarker r =
    (s_lp_stall_reboot_marker r = LP_STALL_REBOOT_MAGIC, r\<lparr>s_lp_stall_reboot_marker := 0\<rparr>)"

definition markOtaUnconfirmedReboot :: "rtc_ram \<Rightarrow> rtc_ram" where
  "markOtaUnconfirmedReboot r = r\<lparr>s_ota_unconfirmed_reboot_marker := OTA_UNCONFIRMED_REBOOT_MAGIC\<rparr>"

definition consumeOtaUnconfirmedRebootMarker :: "rtc_ram \<Rightarrow> bool \<times> rtc_ram" where
  "consumeOtaUnconfirmedRebootMarker r =
    (s_ota_unconfirmed_reboot_marker r = OTA_UNCONFIRMED_REBOOT_MAGIC, r\<lparr>s_ota_unconfirmed_reboot_marker := 0\<rparr>)"

text \<open>The GPIO writes: pin and level. The LED pin is set up once.\<close>

datatype gpio_action = GpioReset nat | GpioOutput nat | GpioLevel nat nat | DelayMs u32

definition enableRf :: "bool \<Rightarrow> gpio_action list" where
  "enableRf on = [GpioReset 3, GpioOutput 3, GpioLevel 3 (if on then 0 else (0 + 1) mod 2)]"

definition enableExtAntenna :: "bool \<Rightarrow> gpio_action list" where
  "enableExtAntenna on = [GpioReset 14, GpioOutput 14, GpioLevel 14 (if on then 1 else (1 + 1) mod 2)]"

definition enableUserLED :: "bool \<Rightarrow> bool \<Rightarrow> gpio_action list \<times> bool" where
  "enableUserLED on configured =
    ((if configured then [] else [GpioReset 15, GpioOutput 15]) @ [GpioLevel 15 (if on then 0 else (0 + 1) mod 2)], True)"

fun blinks :: "u32 \<Rightarrow> nat \<Rightarrow> nat \<Rightarrow> bool \<Rightarrow> gpio_action list \<times> bool" where
  "blinks onMs i 0 configured = ([], configured)"
| "blinks onMs i (Suc left) configured =
    (let (on_acts, configured) = enableUserLED True configured;
         (off_acts, configured) = enableUserLED False configured;
         (rest, configured) = blinks onMs (i + 1) left configured
     in (on_acts @ [DelayMs onMs] @ off_acts @ (if 0 < left then [DelayMs onMs] else []) @ rest, configured))"

definition blinkUserLED :: "u32 \<Rightarrow> nat \<Rightarrow> bool \<Rightarrow> gpio_action list \<times> bool" where
  "blinkUserLED onMs n configured = blinks onMs 0 n configured"

section \<open>Identity, boot counter, reset reason\<close>

definition MQTT_MAX_DEVICE_NAME_LEN :: nat where "MQTT_MAX_DEVICE_NAME_LEN = 64"
definition MQTT_MAC_ADDRESS_BYTES :: nat where "MQTT_MAC_ADDRESS_BYTES = 8"
definition MQTT_MAX_DEVICE_ID_LEN :: nat where
  "MQTT_MAX_DEVICE_ID_LEN = MQTT_MAX_DEVICE_NAME_LEN + 1 + 2 * MQTT_MAC_ADDRESS_BYTES"
definition MQTT_MAX_RESET_REASON_LEN :: nat where "MQTT_MAX_RESET_REASON_LEN = length ''lp_stall_reboot''"

definition id_char :: "char \<Rightarrow> bool" where
  "id_char c \<longleftrightarrow> (let n = char_code c in
     65 \<le> n \<and> n \<le> 90 \<or> 97 \<le> n \<and> n \<le> 122 \<or> 48 \<le> n \<and> n \<le> 57 \<or> c = CHR ''-'' \<or> c = CHR ''_'')"

definition addOTMacSuffix :: "u8 list \<Rightarrow> string \<Rightarrow> string" where
  "addOTMacSuffix mac usernamePrefix =
    map (\<lambda>c. if id_char c then c else CHR ''_'') usernamePrefix @ CHR ''-'' # render_hex mac"

definition incrementBootCount :: "'a nvs_api \<Rightarrow> 'a \<Rightarrow> u32 \<times> 'a" where
  "incrementBootCount api a =
    (if \<not> nvs_open api True a then (0, a)
     else
       (let count = (case nvs_get api TU32 ''boot_count'' a of Some (NvsU32 c) \<Rightarrow> c | _ \<Rightarrow> 0) + 1
        in (count, nvs_set api ''boot_count'' (NvsU32 count) a)))"

datatype reset_reason =
    ESP_RST_POWERON | ESP_RST_SW | ESP_RST_PANIC | ESP_RST_BROWNOUT | ESP_RST_INT_WDT | ESP_RST_TASK_WDT
  | ESP_RST_WDT | ESP_RST_EXT | ESP_RST_DEEPSLEEP | ESP_RST_OTHER

definition resetReasonString :: "reset_reason \<Rightarrow> rtc_ram \<Rightarrow> string \<times> rtc_ram" where
  "resetReasonString reason r =
    (let (lpStallReboot, r) = consumeLpStallRebootMarker r;
         (otaUnconfirmedReboot, r) = consumeOtaUnconfirmedRebootMarker r
     in (case reason of
           ESP_RST_POWERON \<Rightarrow> ''power_on''
         | ESP_RST_SW \<Rightarrow> if lpStallReboot then ''lp_stall_reboot''
                       else if otaUnconfirmedReboot then ''ota_unconfirmed'' else ''sw_reset''
         | ESP_RST_PANIC \<Rightarrow> ''panic''
         | ESP_RST_BROWNOUT \<Rightarrow> ''brownout''
         | ESP_RST_INT_WDT \<Rightarrow> ''int_wdt''
         | ESP_RST_TASK_WDT \<Rightarrow> ''task_wdt''
         | ESP_RST_WDT \<Rightarrow> ''wdt''
         | ESP_RST_EXT \<Rightarrow> ''external''
         | ESP_RST_DEEPSLEEP \<Rightarrow> ''deep_sleep''
         | ESP_RST_OTHER \<Rightarrow> ''unknown'', r))"

section \<open>Settings\<close>

definition value_or :: "'v option \<Rightarrow> 'v \<Rightarrow> 'v" where
  "value_or v def = (case v of Some x \<Rightarrow> x | None \<Rightarrow> def)"

definition parse_as_float_or :: "string \<Rightarrow> string \<Rightarrow> flt \<Rightarrow> flt" where
  "parse_as_float_or content key def = value_or (parse_as_float content key) def"

definition parse_as_uint32_or :: "string \<Rightarrow> string \<Rightarrow> u32 \<Rightarrow> u32" where
  "parse_as_uint32_or content key def = value_or (parse_as_uint32 content key) def"

definition parse_as_int32_or :: "string \<Rightarrow> string \<Rightarrow> int \<Rightarrow> int" where
  "parse_as_int32_or content key def = value_or (parse_as_int32 content key) def"

definition parse_as_bool_or :: "string \<Rightarrow> string \<Rightarrow> bool \<Rightarrow> bool" where
  "parse_as_bool_or content key def = value_or (parse_as_bool content key) def"

text \<open>The value of a parameter in \<open>device_config.yaml\<close>, with its default; the antenna has no entry.\<close>

fun yaml_default :: "string \<Rightarrow> cfg_key \<Rightarrow> cfg_val" where
  "yaml_default y TempOffset = CF (parse_as_float_or y ''temp_offset'' (Fin 0))"
| "yaml_default y TempMinChange = CF (parse_as_float_or y ''temp_min_change'' (f32 (2 / 10)))"
| "yaml_default y RhOffset = CF (parse_as_float_or y ''rh_offset'' (Fin 0))"
| "yaml_default y RhMinChange = CF (parse_as_float_or y ''rh_min_change'' (Fin 2))"
| "yaml_default y MaxPublishGapSec = CU (parse_as_uint32_or y ''max_publish_gap_sec'' 0)"
| "yaml_default y HeaterPeriodMin = CU (parse_as_uint32_or y ''heater_period_minutes'' 1440)"
| "yaml_default y HeaterHighRhMin = CU (parse_as_uint32_or y ''heater_high_rh_trigger_minutes'' 60)"
| "yaml_default y ExtAntenna = CB False"
| "yaml_default y TxPowerDbm = CI (parse_as_int32_or y ''tx_power_dbm'' TX_POWER_TABLE_MAX_DBM)"
| "yaml_default y SensorSamples = CU (parse_as_uint32_or y ''sensor_samples'' 4)"
| "yaml_default y RtcCalSamples = CU (parse_as_uint32_or y ''rtc_cal_samples'' RTC_CAL_SAMPLES_DEFAULT)"
| "yaml_default y RtcCalPeriodSec = CU (parse_as_uint32_or y ''rtc_cal_period_sec'' RTC_CAL_PERIOD_SEC_DEFAULT)"

definition boot_val :: "'n nvs_api \<Rightarrow> 'n \<Rightarrow> string \<Rightarrow> cfg_key \<Rightarrow> cfg_val" where
  "boot_val api n y k = boot_override api n k (yaml_default y k)"

fun the_flt :: "cfg_val \<Rightarrow> flt" where "the_flt (CF x) = x" | "the_flt _ = NaN"
fun the_u32 :: "cfg_val \<Rightarrow> u32" where "the_u32 (CU x) = x" | "the_u32 _ = 0"
fun the_bool :: "cfg_val \<Rightarrow> bool" where "the_bool (CB x) = x" | "the_bool _ = False"
fun the_int :: "cfg_val \<Rightarrow> int" where "the_int (CI x) = x" | "the_int _ = 0"

definition lp_poll_interval :: "string \<Rightarrow> u32" where
  "lp_poll_interval y = parse_as_uint32_or y ''lp_poll_interval_sec'' 20"

definition lpConfig :: "(cfg_key \<Rightarrow> cfg_val) \<Rightarrow> u32 \<Rightarrow> u32 \<Rightarrow> lp_sensor_core_config option" where
  "lpConfig v poll skip =
    (case minutes_to_lp_cycles (the_u32 (v HeaterPeriodMin)) poll of None \<Rightarrow> None | Some period \<Rightarrow>
     case minutes_to_lp_cycles (the_u32 (v HeaterHighRhMin)) poll of None \<Rightarrow> None | Some trigger \<Rightarrow>
     Some \<lparr>sensor_samples = the_u32 (v SensorSamples), temp_offset_c = the_flt (v TempOffset),
       temp_min_change_c = the_flt (v TempMinChange), rh_offset_pct = the_flt (v RhOffset),
       rh_min_change_pct = the_flt (v RhMinChange), max_skip_cycles = skip,
       heater_period_cycles = period, high_rh_trigger_cycles = trigger\<rparr>)"

definition sSettings :: "string \<Rightarrow> u32 \<Rightarrow> u32 \<Rightarrow> SensorsTaskSettings" where
  "sSettings y poll skip =
    \<lparr>lpPollIntervalSec = poll, maxSkipCycles = skip,
     readVoltageViaAdc = parse_as_bool_or y ''read_battery_via_adc'' False,
     batteryDividerRVbatOhm = parse_as_float_or y ''battery_divider_r_vbat_ohm'' (Fin 5021),
     batteryDividerRGndOhm = parse_as_float_or y ''battery_divider_r_gnd_ohm'' (Fin 5035)\<rparr>"

section \<open>Secrets\<close>

datatype TransportKind = Thread | Wifi

record secrets =
  ot_tlv :: string
  deviceId :: string
  mqtt_broker_address :: string
  mqtt_port :: nat
  mqtt_user :: string
  mqtt_pass :: string
  mqtt_tls :: bool
  mqtt_tls_ca_cert :: string
  transport_kind :: TransportKind
  wifi_ssid :: string
  wifi_password :: string
  wifi_address_family :: string

definition device_name_prefix :: "string \<Rightarrow> string" where
  "device_name_prefix yaml =
    (let name = yaml_get_string yaml ''device_name'';
         name = (if name = [] then ''esp32-OT-sensor'' else name)
     in if MQTT_MAX_DEVICE_NAME_LEN < length name then take MQTT_MAX_DEVICE_NAME_LEN name else name)"

definition parse_port :: "string \<Rightarrow> nat" where
  "parse_port s = (if s = [] then 1883 else case from_chars_uint 16 s of None \<Rightarrow> 1883 | Some (p, _) \<Rightarrow> p)"

definition parse_secrets :: "u8 list \<Rightarrow> string \<Rightarrow> secrets" where
  "parse_secrets mac yaml =
    (let transport = yaml_get_string yaml ''transport'';
         family = yaml_get_string yaml ''wifi_address_family''
     in \<lparr>ot_tlv = yaml_get_string yaml ''ot_tlv'',
         deviceId = addOTMacSuffix mac (device_name_prefix yaml),
         mqtt_broker_address = yaml_get_string yaml ''mqtt_broker_address'',
         mqtt_port = parse_port (yaml_get_string yaml ''mqtt_port''),
         mqtt_user = yaml_get_string yaml ''mqtt_username'',
         mqtt_pass = yaml_get_string yaml ''mqtt_password'',
         mqtt_tls = (yaml_get_string yaml ''mqtt_tls'' = ''true''),
         mqtt_tls_ca_cert = yaml_get_string yaml ''mqtt_tls_ca_cert'',
         transport_kind = (if transport = ''wifi'' then Wifi else Thread),
         wifi_ssid = yaml_get_string yaml ''wifi_ssid'',
         wifi_password = yaml_get_string yaml ''wifi_password'',
         wifi_address_family = (if family = ''ipv6'' then ''ipv6'' else ''ipv4'')\<rparr>)"

definition looksLikeIpv6 :: "string \<Rightarrow> bool" where
  "looksLikeIpv6 addr \<longleftrightarrow> CHR '':'' \<in> set addr"

datatype boot_stop =
    NvsUnavailable | BootAborted | DivisionUndefined | MissingOtTlv | MissingWifiSsid | FamilyMismatch
  | LpCoreFailed esp_err

definition check_secrets :: "secrets \<Rightarrow> boot_stop option" where
  "check_secrets s =
    (if transport_kind s = Thread \<and> ot_tlv s = [] then Some MissingOtTlv
     else if transport_kind s = Wifi \<and> wifi_ssid s = [] then Some MissingWifiSsid
     else if transport_kind s = Wifi \<and>
             looksLikeIpv6 (mqtt_broker_address s) \<noteq> (wifi_address_family s = ''ipv6'') then Some FamilyMismatch
     else None)"

section \<open>\<open>app_main\<close>\<close>

record mqtt_config =
  mc_secrets :: secrets
  mc_expire_after_sec :: u32
  mc_boot_count :: u32
  mc_reset_reason :: string

record ('a, 'n) boot_env =
  b_nvs_init :: "esp_err \<times> bool \<times> esp_err"
  b_app_nvs :: "'a nvs_api"
  b_cfg_nvs :: "'n nvs_api"
  b_event_loop :: esp_err
  b_netif :: esp_err
  b_eventfd :: esp_err
  b_light_sleep :: esp_err
  b_rtc_start :: "esp_err \<times> bool"
  b_awake_stats :: esp_err
  b_device_config :: string
  b_secrets :: string
  b_mac :: "u8 list"
  b_reset_reason :: reset_reason
  b_link_start :: esp_err
  b_lp :: lp_platform
  b_ulp_run :: "ulp_wakeup_source \<Rightarrow> u32 \<Rightarrow> esp_err"
  b_ota_img :: "ota_img_state option"

datatype boot_action =
    BootGpio gpio_action | LinkStart | LpInit lp_sensor_core_config | LpStart u32
  | StartSensorsTask | StartErrorTask bool

record running =
  r_mqtt :: mqtt_config
  r_config :: runtime_config
  r_task :: sensors_task
  r_glue :: hp_glue

text \<open>The LP program and the tasks, once every setting is resolved.\<close>

definition boot_lp ::
  "('a, 'n) boot_env \<Rightarrow> 'n \<Rightarrow> (cfg_key \<Rightarrow> cfg_val) \<Rightarrow> rtc_fix \<Rightarrow> mqtt_config \<Rightarrow> u32 \<Rightarrow> u32 \<Rightarrow>
   boot_action list \<times> (boot_stop + running)" where
  "boot_lp e n v rtc mqtt poll skip =
    (let y = b_device_config e in
     if b_link_start e \<noteq> ESP_OK then ([LinkStart], Inl BootAborted)
     else
       (case lpConfig v poll skip of
          None \<Rightarrow> ([LinkStart], Inl DivisionUndefined)
        | Some cfg \<Rightarrow>
            (let (init_err, g) = lp_sensor_core_init (b_lp e) cfg \<lparr>hg_shared = zero_shared, s_wake_eg = False\<rparr>;
                 start_err = lp_sensor_core_start (b_ulp_run e) (poll * 1000000)
             in if init_err \<noteq> ESP_OK then
                  ([LinkStart, LpInit cfg, StartErrorTask True], Inl (LpCoreFailed init_err))
                else if start_err \<noteq> ESP_OK then
                  ([LinkStart, LpInit cfg, LpStart (poll * 1000000), StartErrorTask True], Inl (LpCoreFailed start_err))
                else
                  ([LinkStart, LpInit cfg, LpStart (poll * 1000000), StartSensorsTask, StartErrorTask False],
                   Inr \<lparr>r_mqtt = mqtt,
                     r_config = runtime_config_init (b_cfg_nvs e) n (deviceId (mc_secrets mqtt)) poll cfg
                       (the_u32 (v MaxPublishGapSec)) (the_u32 (v HeaterPeriodMin)) (the_u32 (v HeaterHighRhMin))
                       (the_bool (v ExtAntenna)) (the_int (v TxPowerDbm)) rtc,
                     r_task = SensorsTask_new (sSettings y poll skip) (b_ota_img e), r_glue = g\<rparr>))))"

definition app_main ::
  "('a, 'n) boot_env \<Rightarrow> 'a \<times> 'n \<times> rtc_ram \<Rightarrow> boot_action list \<times> (boot_stop + running) \<times> 'a \<times> rtc_ram" where
  "app_main e st =
    (let (a, n, ram) = st;
         (ret1, erased, ret2) = b_nvs_init e;
         v = boot_val (b_cfg_nvs e) n (b_device_config e);
         gpio = map BootGpio (enableRf True @ enableExtAntenna (the_bool (v ExtAntenna)))
     in case initNvsFlash ret1 erased ret2 of
          None \<Rightarrow> ([], Inl BootAborted, a, ram)
        | Some ret \<Rightarrow>
          if ret \<noteq> ESP_OK then ([], Inl NvsUnavailable, a, ram)
          else if b_event_loop e \<noteq> ESP_OK \<or> b_netif e \<noteq> ESP_OK \<or> b_eventfd e \<noteq> ESP_OK then ([], Inl BootAborted, a, ram)
          else if b_light_sleep e \<noteq> ESP_OK then (gpio, Inl BootAborted, a, ram)
          else
            (let rtc = snd (rtc_clock_fix_start (fst (b_rtc_start e)) (snd (b_rtc_start e))
                   (the_u32 (v RtcCalSamples)) (the_u32 (v RtcCalPeriodSec)) rtc_initial);
                 sec = parse_secrets (b_mac e) (b_secrets e);
                 poll = lp_poll_interval (b_device_config e)
             in if b_awake_stats e \<noteq> ESP_OK then (gpio, Inl BootAborted, a, ram)
                else
                  (case check_secrets sec of
                     Some stop \<Rightarrow> (gpio, Inl stop, a, ram)
                   | None \<Rightarrow>
                     (case publish_gap_sec_to_skip_cycles (the_u32 (v MaxPublishGapSec)) poll of
                        None \<Rightarrow> (gpio, Inl DivisionUndefined, a, ram)
                      | Some skip \<Rightarrow>
                        (let (count, a) = incrementBootCount (b_app_nvs e) a;
                             (reason, ram) = resetReasonString (b_reset_reason e) ram;
                             mqtt = \<lparr>mc_secrets = sec, mc_expire_after_sec = 2 * safeguardWakeSec poll skip,
                               mc_boot_count = count, mc_reset_reason = take MQTT_MAX_RESET_REASON_LEN reason\<rparr>;
                             (acts, r) = boot_lp e n v rtc mqtt poll skip
                         in (gpio @ acts, r, a, ram))))))"

section \<open>What boot resolves\<close>

lemma override_typed: "typed k d \<Longrightarrow> typed k (boot_override api n k d)"
  by (cases k; cases d) simp_all

lemma yaml_typed: "typed k (yaml_default y k)"
  by (cases k) simp_all

lemma boot_val_typed: "typed k (boot_val api n y k)"
  by (simp add: boot_val_def override_typed yaml_typed)

text \<open>The value in effect after boot: the resolved one, clamped where its module clamps it.\<close>

definition effective :: "cfg_key \<Rightarrow> cfg_val \<Rightarrow> cfg_val" where
  "effective k v = (if k = RtcCalSamples \<or> k = RtcCalPeriodSec then cfg_clamp k v else v)"

lemma the_typed:
  "typed k v \<Longrightarrow> (\<exists>x. v = CF x \<and> the_flt v = x) \<or> (\<exists>x. v = CU x \<and> the_u32 v = x) \<or> (\<exists>x. v = CB x \<and> the_bool v = x) \<or>
     (\<exists>x. v = CI x \<and> the_int v = x)"
  by (cases v) simp_all

lemma lpConfig_values:
  assumes "lpConfig v poll skip = Some cfg"
  shows "temp_offset_c cfg = the_flt (v TempOffset)" "temp_min_change_c cfg = the_flt (v TempMinChange)"
    "rh_offset_pct cfg = the_flt (v RhOffset)" "rh_min_change_pct cfg = the_flt (v RhMinChange)"
    "sensor_samples cfg = the_u32 (v SensorSamples)"
  using assms by (auto simp: lpConfig_def split: option.splits)

lemma boot_lp_config:
  assumes "boot_lp e n v rtc mqtt poll skip = (acts, Inr r)"
  shows "\<exists>cfg. lpConfig v poll skip = Some cfg \<and>
    r_config r = runtime_config_init (b_cfg_nvs e) n (deviceId (mc_secrets mqtt)) poll cfg (the_u32 (v MaxPublishGapSec))
      (the_u32 (v HeaterPeriodMin)) (the_u32 (v HeaterHighRhMin)) (the_bool (v ExtAntenna)) (the_int (v TxPowerDbm)) rtc \<and>
    r_task r = SensorsTask_new (sSettings (b_device_config e) poll skip) (b_ota_img e) \<and> r_mqtt r = mqtt"
  using assms by (auto simp: boot_lp_def Let_def split: option.splits prod.splits if_splits)

lemma app_main_running:
  assumes "app_main e (a, n, ram) = (acts, Inr r, a', ram')"
  obtains rtc mqtt skip lp_acts where
    "boot_lp e n (boot_val (b_cfg_nvs e) n (b_device_config e)) rtc mqtt (lp_poll_interval (b_device_config e)) skip =
      (lp_acts, Inr r)"
    "rtc_samples rtc = rtc_cal_clamp_samples (the_u32 (boot_val (b_cfg_nvs e) n (b_device_config e) RtcCalSamples))"
    "rtc_period_sec rtc = rtc_cal_clamp_period_sec (the_u32 (boot_val (b_cfg_nvs e) n (b_device_config e) RtcCalPeriodSec))"
  using assms
  by (auto simp: app_main_def rtc_clock_fix_start_def Let_def split: option.splits prod.splits if_splits)

lemma init_current:
  assumes "lpConfig v poll skip = Some cfg" "\<And>k. typed k (v k)" "k \<noteq> TxPowerDbm"
    and "rtc_samples rtc = rtc_cal_clamp_samples (the_u32 (v RtcCalSamples))"
    and "rtc_period_sec rtc = rtc_cal_clamp_period_sec (the_u32 (v RtcCalPeriodSec))"
  shows "current_val (runtime_config_init api n dev poll cfg (the_u32 (v MaxPublishGapSec)) (the_u32 (v HeaterPeriodMin))
      (the_u32 (v HeaterHighRhMin)) (the_bool (v ExtAntenna)) i rtc) k = effective k (v k)"
  using assms(2) [of k] assms(3-5) lpConfig_values [OF assms(1)]
  by (cases k; cases "v k") (simp_all add: runtime_config_init_def Let_def effective_def)

lemma boot_current:
  assumes "app_main e (a, n, ram) = (acts, Inr r, a', ram')" "k \<noteq> TxPowerDbm"
  shows "current_val (r_config r) k = effective k (boot_val (b_cfg_nvs e) n (b_device_config e) k)"
proof -
  let ?v = "boot_val (b_cfg_nvs e) n (b_device_config e)"
  from app_main_running [OF assms(1)] obtain rtc mqtt skip lp_acts where
    b: "boot_lp e n ?v rtc mqtt (lp_poll_interval (b_device_config e)) skip = (lp_acts, Inr r)"
    and rtc: "rtc_samples rtc = rtc_cal_clamp_samples (the_u32 (?v RtcCalSamples))"
      "rtc_period_sec rtc = rtc_cal_clamp_period_sec (the_u32 (?v RtcCalPeriodSec))" by blast
  from boot_lp_config [OF b] obtain cfg where "lpConfig ?v (lp_poll_interval (b_device_config e)) skip = Some cfg"
    "r_config r = runtime_config_init (b_cfg_nvs e) n (deviceId (mc_secrets mqtt)) (lp_poll_interval (b_device_config e)) cfg (the_u32 (?v MaxPublishGapSec))
      (the_u32 (?v HeaterPeriodMin)) (the_u32 (?v HeaterHighRhMin)) (the_bool (?v ExtAntenna)) (the_int (?v TxPowerDbm)) rtc"
    by blast
  then show ?thesis using init_current [OF _ boot_val_typed assms(2) rtc] by simp
qed

lemma init_pending: "pend_typed (runtime_config_init api n dev poll cfg gap hp hr ant i rtc)"
  by (simp add: pend_typed_def runtime_config_init_def Let_def)

lemma boot_pending:
  assumes "app_main e (a, n, ram) = (acts, Inr r, a', ram')"
  shows "pend_typed (r_config r)"
  using app_main_running [OF assms] boot_lp_config
  by (metis (no_types, lifting) init_pending)

section \<open>A run of the configuration\<close>

text \<open>
  From a boot on: messages are received, batches are applied, and TX power results are noted, in any
  order; the state is the configuration and its NVS namespace.
\<close>

inductive config_run ::
  "('a, 'n) boot_env \<Rightarrow> (flt \<Rightarrow> string) \<Rightarrow> tx_link \<Rightarrow> runtime_config \<times> 'n \<Rightarrow> bool" for e fmt link where
  boot: "app_main e (a, n, ram) = (acts, Inr r, a', ram') \<Longrightarrow> config_run e fmt link (r_config r, n)"
| message: "config_run e fmt link (s, n) \<Longrightarrow> config_run e fmt link (runtime_config_on_mqtt_data topic data s, n)"
| applied: "config_run e fmt link (s, n) \<Longrightarrow>
    runtime_config_apply_pending (b_cfg_nvs e) fmt link client (s, n) = Some (c, cacts, s', n') \<Longrightarrow> config_run e fmt link (s', n')"
| attached: "config_run e fmt link (s, n) \<Longrightarrow>
    runtime_config_tx_power_note_first_attach (b_cfg_nvs e) link (s, n) = (cacts, s', n') \<Longrightarrow> config_run e fmt link (s', n')"
| result: "config_run e fmt link (s, n) \<Longrightarrow>
    runtime_config_tx_power_note_cycle_result (b_cfg_nvs e) link ok (s, n) = (cacts, s', n') \<Longrightarrow> config_run e fmt link (s', n')"

text \<open>The TX power results touch the trial's keys only.\<close>

lemma set_tx_pending: "set_tx_power link dbm s = (acts, s') \<Longrightarrow> pend_typed s' = pend_typed s"
  using set_tx_current [of link dbm s acts s'] by (simp add: pend_typed_def)

lemma trial_current:
  assumes "k \<noteq> TxPowerDbm"
  shows "current_val (s\<lparr>s_tx_power_known_good := x\<rparr>) k = current_val s k"
    "current_val (s\<lparr>s_tx_power_has_pending := b\<rparr>) k = current_val s k"
    "current_val (s\<lparr>s_tx_power_unconfirmed_cycles := u\<rparr>) k = current_val s k"
    "current_val (s\<lparr>s_tx_power_first_attach_done := b\<rparr>) k = current_val s k"
    "current_val (drop_trial s) k = current_val s k"
  using assms by (cases k; simp add: drop_trial_def)+

lemma trial_pend_typed:
  "pend_typed (s\<lparr>s_tx_power_known_good := x\<rparr>) = pend_typed s" "pend_typed (s\<lparr>s_tx_power_has_pending := b\<rparr>) = pend_typed s"
  "pend_typed (s\<lparr>s_tx_power_unconfirmed_cycles := u\<rparr>) = pend_typed s"
  "pend_typed (s\<lparr>s_tx_power_first_attach_done := b\<rparr>) = pend_typed s" "pend_typed (drop_trial s) = pend_typed s"
  by (simp_all add: pend_typed_def drop_trial_def)

lemma trial_keys:
  assumes "nvs_ok api" "k \<noteq> TxPowerDbm"
  shows "boot_override api (nvs_set api ''txp_pend_flag'' v n) k d = boot_override api n k d"
    "boot_override api (nvs_set api ''txp_known_good'' v n) k d = boot_override api n k d"
    "boot_override api (clear_pend_flag api n) k d = boot_override api n k d"
proof -
  have o: "boot_override api (nvs_set api key v n) k d = boot_override api n k d" if "nvs_name k \<noteq> key" for key v n
    by (rule override_unchanged [OF assms(1) nvs_okD(3) [OF assms(1) that]])
  show "boot_override api (nvs_set api ''txp_pend_flag'' v n) k d = boot_override api n k d" by (rule o) (cases k; simp)
  show "boot_override api (nvs_set api ''txp_known_good'' v n) k d = boot_override api n k d"
    by (rule o) (use assms(2) in \<open>cases k; simp\<close>)
  show "boot_override api (clear_pend_flag api n) k d = boot_override api n k d"
  proof -
    have "nvs_name k \<noteq> ''txp_pend_flag''" by (cases k) simp_all
    from o [OF this] show ?thesis by (simp add: clear_pend_flag_def)
  qed
qed

lemma first_attach_keeps:
  assumes "runtime_config_tx_power_note_first_attach api link (s, n) = (acts, s', n')" "nvs_ok api" "k \<noteq> TxPowerDbm"
  shows "current_val s' k = current_val s k \<and> pend_typed s' = pend_typed s \<and> boot_override api n' k d = boot_override api n k d"
proof -
  let ?s1 = "s\<lparr>s_tx_power_first_attach_done := True\<rparr>"
  let ?s2 = "if s_tx_power_has_pending s then drop_trial ?s1 else ?s1"
  obtain a s3 where t: "set_tx_power link (tx_accepted ?s2) ?s2 = (a, s3)" by fastforce
  show ?thesis
    using assms(1) set_tx_current [OF t] set_tx_pending [OF t] t
    by (auto simp: runtime_config_tx_power_note_first_attach_def Let_def trial_current [OF assms(3)] trial_pend_typed
        trial_keys [OF assms(2,3)] split: if_splits)
qed

lemma cycle_result_keeps:
  assumes "runtime_config_tx_power_note_cycle_result api link ok (s, n) = (acts, s', n')" "nvs_ok api" "k \<noteq> TxPowerDbm"
  shows "current_val s' k = current_val s k \<and> pend_typed s' = pend_typed s \<and> boot_override api n' k d = boot_override api n k d"
proof -
  let ?s1 = "drop_trial (s\<lparr>s_tx_power_unconfirmed_cycles := s_tx_power_unconfirmed_cycles s + 1\<rparr>)"
  obtain a s3 where t: "set_tx_power link (s_tx_power_known_good s) ?s1 = (a, s3)" by fastforce
  show ?thesis
    using assms(1) set_tx_current [OF t] set_tx_pending [OF t] t
    by (auto simp: runtime_config_tx_power_note_cycle_result_def Let_def trial_current [OF assms(3)] trial_pend_typed
        trial_keys [OF assms(2,3)] split: if_splits)
qed

lemma message_keeps:
  "current_val (runtime_config_on_mqtt_data topic data s) k = current_val s k"
  "pend_typed s \<Longrightarrow> pend_typed (runtime_config_on_mqtt_data topic data s)"
proof -
  have "current_val (s\<lparr>s_pending := q\<rparr>) k = current_val s k" for q by (cases k) simp_all
  then show "current_val (runtime_config_on_mqtt_data topic data s) k = current_val s k"
    by (simp add: runtime_config_on_mqtt_data_def split: option.split)
  show "pend_typed s \<Longrightarrow> pend_typed (runtime_config_on_mqtt_data topic data s)"
    by (auto simp: runtime_config_on_mqtt_data_def pend_typed_def dest: parse_payload_typed split: option.split)
qed

lemma effective_idem: "typed k v \<Longrightarrow> cfg_clamp k v = v \<Longrightarrow> effective k v = v"
  by (simp add: effective_def)

lemma config_run_inv:
  assumes "config_run e fmt link sn" "nvs_ok (b_cfg_nvs e)"
  shows "pend_typed (fst sn) \<and> (\<forall>k. k \<noteq> TxPowerDbm \<longrightarrow>
    effective k (boot_val (b_cfg_nvs e) (snd sn) (b_device_config e) k) = current_val (fst sn) k)"
  using assms(1)
proof (induction rule: config_run.induct)
  case (boot a n ram acts r a' ram')
  then show ?case using boot_current boot_pending by fastforce
next
  case (message s n topic data)
  then show ?case using message_keeps by simp
next
  case (applied s n client c cacts s' n')
  have pt: "pend_typed s" using applied.IH by simp
  note cur = apply_pending_current [OF applied.hyps(2) pt]
  have "effective k (boot_val (b_cfg_nvs e) n' (b_device_config e) k) = current_val s' k" if k: "k \<noteq> TxPowerDbm" for k
  proof -
    have p: "boot_override (b_cfg_nvs e) n' k (yaml_default (b_device_config e) k) =
        (if set_flag (settle_all s k) then after_apply s k else boot_override (b_cfg_nvs e) n k (yaml_default (b_device_config e) k))"
      by (rule apply_pending_persists [OF applied.hyps(2) pt assms(2) k yaml_typed])
    show ?thesis
    proof (cases "set_flag (settle_all s k)")
      case True
      then have "cfg_clamp k (after_apply s k) = after_apply s k"
        using settled_clamped [OF pt True] by (simp add: after_apply_flag)
      then show ?thesis using p True cur [of k] by (simp add: boot_val_def effective_def)
    next
      case False
      then show ?thesis using p cur [of k] applied.IH k by (simp add: boot_val_def after_apply_flag)
    qed
  qed
  moreover have "pend_typed s'" using cur [of TxPowerDbm] by (simp add: pend_typed_def)
  ultimately show ?case by simp
next
  case (attached s n cacts s' n')
  then show ?case using first_attach_keeps [OF attached.hyps(2) assms(2)] by (auto simp: boot_val_def)
next
  case (result s n ok cacts s' n')
  then show ?case using cycle_result_keeps [OF result.hyps(2) assms(2)] by (auto simp: boot_val_def)
qed

text \<open>
  The same run with the hardware beside it: what \<open>app_main\<close> hands to the LP core and writes to the antenna
  switch (pin 14) at boot, and what the actions of the module do to them later.
\<close>

fun boot_perform :: "boot_action \<Rightarrow> cfg_hw \<Rightarrow> cfg_hw" where
  "boot_perform (LpInit config) h = h\<lparr>hw_lp := config\<rparr>"
| "boot_perform (BootGpio (GpioLevel pin level)) h = (if pin = 14 then h\<lparr>hw_antenna := (level = 1)\<rparr> else h)"
| "boot_perform _ h = h"

inductive driven_run ::
  "('a, 'n) boot_env \<Rightarrow> (flt \<Rightarrow> string) \<Rightarrow> tx_link \<Rightarrow> runtime_config \<times> 'n \<times> cfg_hw \<Rightarrow> bool" for e fmt link where
  boot: "app_main e (a, n, ram) = (acts, Inr r, a', ram') \<Longrightarrow> driven_run e fmt link (r_config r, n, fold boot_perform acts h)"
| message: "driven_run e fmt link (s, n, h) \<Longrightarrow> driven_run e fmt link (runtime_config_on_mqtt_data topic data s, n, h)"
| applied: "driven_run e fmt link (s, n, h) \<Longrightarrow>
    runtime_config_apply_pending (b_cfg_nvs e) fmt link client (s, n) = Some (c, cacts, s', n') \<Longrightarrow>
    driven_run e fmt link (s', n', performs link cacts h)"
| attached: "driven_run e fmt link (s, n, h) \<Longrightarrow>
    runtime_config_tx_power_note_first_attach (b_cfg_nvs e) link (s, n) = (cacts, s', n') \<Longrightarrow>
    driven_run e fmt link (s', n', performs link cacts h)"
| result: "driven_run e fmt link (s, n, h) \<Longrightarrow>
    runtime_config_tx_power_note_cycle_result (b_cfg_nvs e) link ok (s, n) = (cacts, s', n') \<Longrightarrow>
    driven_run e fmt link (s', n', performs link cacts h)"

text \<open>The cycle counts of the shadow configuration are those of the reported values.\<close>

definition lp_settings where
  "lp_settings s = (s_shadow s, s_max_publish_gap_sec s, s_heater_period_minutes s, s_heater_high_rh_trigger_minutes s,
     s_poll_interval_sec s, s_ext_antenna_on s)"

definition counts_derived :: "runtime_config \<Rightarrow> bool" where
  "counts_derived s \<longleftrightarrow>
     publish_gap_sec_to_skip_cycles (s_max_publish_gap_sec s) (s_poll_interval_sec s) = Some (max_skip_cycles (s_shadow s)) \<and>
     minutes_to_lp_cycles (s_heater_period_minutes s) (s_poll_interval_sec s) = Some (heater_period_cycles (s_shadow s)) \<and>
     minutes_to_lp_cycles (s_heater_high_rh_trigger_minutes s) (s_poll_interval_sec s) = Some (high_rh_trigger_cycles (s_shadow s))"

definition lp_driven :: "u32 \<Rightarrow> runtime_config \<Rightarrow> cfg_hw \<Rightarrow> bool" where
  "lp_driven poll s h \<longleftrightarrow> hw_lp h = s_shadow s \<and> hw_antenna h = s_ext_antenna_on s \<and> s_poll_interval_sec s = poll \<and>
     counts_derived s \<and> pend_typed s"

lemma lp_driven_cong:
  "lp_driven poll s h \<Longrightarrow> lp_settings s' = lp_settings s \<Longrightarrow> pend_typed s' = pend_typed s \<Longrightarrow>
   hw_lp h' = hw_lp h \<Longrightarrow> hw_antenna h' = hw_antenna h \<Longrightarrow> lp_driven poll s' h'"
  by (auto simp: lp_driven_def lp_settings_def counts_derived_def)

lemma apply_lp_counts:
  "apply_lp snap ks s = Some s' \<Longrightarrow> counts_derived s \<Longrightarrow>
    counts_derived s' \<and> s_poll_interval_sec s' = s_poll_interval_sec s"
proof (induction ks arbitrary: s)
  case (Cons k ks)
  have "counts_derived s1 \<and> s_poll_interval_sec s1 = s_poll_interval_sec s" if "apply_lp_val k v s = Some s1" for v s1
    using that Cons.prems(2) by (cases k; cases v) (auto simp: counts_derived_def)
  with Cons show ?case by (auto split: if_splits option.splits)
qed simp

lemma set_tx_settings: "set_tx_power link dbm s = (acts, s') \<Longrightarrow>
    lp_settings s' = lp_settings s \<and> hw_lp (performs link acts h) = hw_lp h \<and> hw_antenna (performs link acts h) = hw_antenna h"
  by (auto simp: set_tx_power_def lp_settings_def split: option.splits if_splits)

lemma apply_tx_settings: "apply_tx link st s = (acts, s') \<Longrightarrow> lp_settings s' = lp_settings s"
  using set_tx_settings by (fastforce simp: apply_tx_def lp_settings_def split: cfg_val.splits if_splits)

lemma apply_rest_settings:
  assumes "apply_rest link snap s = (acts, s')" "\<And>k. typed k (settled_val (snap k))"
  shows "s_max_publish_gap_sec s' = s_max_publish_gap_sec s \<and> s_heater_period_minutes s' = s_heater_period_minutes s \<and>
    s_heater_high_rh_trigger_minutes s' = s_heater_high_rh_trigger_minutes s \<and>
    s_poll_interval_sec s' = s_poll_interval_sec s \<and> s_shadow s' = s_shadow s"
proof -
  obtain b where b: "settled_val (snap ExtAntenna) = CB b" using assms(2) [of ExtAntenna] by (auto elim: typed_elims)
  obtain m where m: "settled_val (snap RtcCalSamples) = CU m" using assms(2) [of RtcCalSamples] by (auto elim: typed_elims)
  obtain q where q: "settled_val (snap RtcCalPeriodSec) = CU q" using assms(2) [of RtcCalPeriodSec] by (auto elim: typed_elims)
  let ?s1 = "if set_flag (snap ExtAntenna) then s\<lparr>s_ext_antenna_on := b\<rparr> else s"
  obtain ta s2 where s2: "apply_tx link (snap TxPowerDbm) ?s1 = (ta, s2)" by fastforce
  show ?thesis
    using assms(1) s2 apply_tx_settings [OF s2]
    by (auto simp: apply_rest_def b m q Let_def lp_settings_def split: if_splits)
qed

text \<open>The power of the radio is no part of what the LP core and the antenna are told.\<close>

lemma performs_tx_apart:
  "hw_lp u = hw_lp h \<Longrightarrow> hw_antenna u = hw_antenna h \<Longrightarrow>
   hw_lp (performs link as u) = hw_lp (performs link as h) \<and> hw_antenna (performs link as u) = hw_antenna (performs link as h)"
proof (induction as arbitrary: u h)
  case (Cons b as)
  have "hw_lp (perform link b u) = hw_lp (perform link b h) \<and> hw_antenna (perform link b u) = hw_antenna (perform link b h)"
    using Cons.prems by (cases b) (auto split: option.split)
  with Cons.IH [of "perform link b u" "perform link b h"] show ?case by simp
qed simp

lemma apply_pending_driven:
  assumes run: "runtime_config_apply_pending api fmt link client (s, n) = Some (a, acts, s', n')" and d: "lp_driven poll s h"
  shows "lp_driven poll s' (performs link acts h)"
proof -
  have pt: "pend_typed s" using d by (simp add: lp_driven_def)
  let ?h = "h\<lparr>hw_tx := s_tx_power_active_dbm s\<rparr>"
  have same: "hw_lp (performs link acts ?h) = hw_lp (performs link acts h)"
    "hw_antenna (performs link acts ?h) = hw_antenna (performs link acts h)"
    using performs_tx_apart [of ?h h link acts] by simp_all
  have "in_force s ?h" using d by (simp add: lp_driven_def in_force_def)
  from apply_pending_force(1) [OF run pt this] same have hw:
    "hw_lp (performs link acts h) = s_shadow s'" "hw_antenna (performs link acts h) = s_ext_antenna_on s'"
    by (simp_all add: in_force_def)
  obtain s1 where s1: "apply_lp (settle_all s) lp_keys (s\<lparr>s_pending := \<lambda>_. None\<rparr>) = Some s1"
    using run by (auto simp: runtime_config_apply_pending_def Let_def split: option.splits)
  obtain ra s2 where s2: "apply_rest link (settle_all s) s1 = (ra, s2)" by fastforce
  have "s' = s2" using run s1 s2
    by (auto simp: runtime_config_apply_pending_def Let_def split: option.splits if_splits)
  moreover have "counts_derived (s\<lparr>s_pending := \<lambda>_. None\<rparr>)" "s_poll_interval_sec s = poll"
    using d by (auto simp: lp_driven_def counts_derived_def)
  with apply_lp_counts [OF s1] have "counts_derived s1" "s_poll_interval_sec s1 = poll" by simp_all
  ultimately have "counts_derived s'" "s_poll_interval_sec s' = poll"
    using apply_rest_settings [OF s2 settled_typed [OF pt]] by (simp_all add: counts_derived_def)
  moreover have "pend_typed s'" using apply_pending_current [OF run pt] by (simp add: pend_typed_def)
  ultimately show ?thesis using hw by (simp add: lp_driven_def)
qed

lemma first_attach_settings:
  assumes "runtime_config_tx_power_note_first_attach api link (s, n) = (acts, s', n')"
  shows "lp_settings s' = lp_settings s \<and> pend_typed s' = pend_typed s \<and> hw_lp (performs link acts h) = hw_lp h \<and>
    hw_antenna (performs link acts h) = hw_antenna h"
proof -
  let ?s1 = "s\<lparr>s_tx_power_first_attach_done := True\<rparr>"
  let ?s2 = "if s_tx_power_has_pending s then drop_trial ?s1 else ?s1"
  obtain a s3 where t: "set_tx_power link (tx_accepted ?s2) ?s2 = (a, s3)" by fastforce
  have "lp_settings ?s2 = lp_settings s" by (simp add: lp_settings_def drop_trial_def)
  then show ?thesis
    using assms set_tx_settings [OF t, of h] set_tx_pending [OF t] t
    by (auto simp: runtime_config_tx_power_note_first_attach_def Let_def trial_pend_typed split: if_splits)
qed

lemma cycle_result_settings:
  assumes "runtime_config_tx_power_note_cycle_result api link ok (s, n) = (acts, s', n')"
  shows "lp_settings s' = lp_settings s \<and> pend_typed s' = pend_typed s \<and> hw_lp (performs link acts h) = hw_lp h \<and>
    hw_antenna (performs link acts h) = hw_antenna h"
proof -
  let ?s1 = "drop_trial (s\<lparr>s_tx_power_unconfirmed_cycles := s_tx_power_unconfirmed_cycles s + 1\<rparr>)"
  obtain a s3 where t: "set_tx_power link (s_tx_power_known_good s) ?s1 = (a, s3)" by fastforce
  have "lp_settings ?s1 = lp_settings s" by (simp add: lp_settings_def drop_trial_def)
  then show ?thesis
    using assms set_tx_settings [OF t, of h] set_tx_pending [OF t] t
    by (auto simp: runtime_config_tx_power_note_cycle_result_def Let_def trial_pend_typed lp_settings_def split: if_splits)
qed

lemma boot_driven:
  assumes "app_main e (a, n, ram) = (acts, Inr r, a', ram')"
  shows "lp_driven (lp_poll_interval (b_device_config e)) (r_config r) (fold boot_perform acts h)"
proof -
  let ?v = "boot_val (b_cfg_nvs e) n (b_device_config e)" and ?poll = "lp_poll_interval (b_device_config e)"
  obtain rtc mqtt skip lp_acts where
    skip: "publish_gap_sec_to_skip_cycles (the_u32 (?v MaxPublishGapSec)) ?poll = Some skip"
    and b: "boot_lp e n ?v rtc mqtt ?poll skip = (lp_acts, Inr r)"
    and acts: "acts = map BootGpio (enableRf True @ enableExtAntenna (the_bool (?v ExtAntenna))) @ lp_acts"
    using assms by (auto simp: app_main_def Let_def split: option.splits prod.splits if_splits)
  from boot_lp_config [OF b] obtain cfg where cfg: "lpConfig ?v ?poll skip = Some cfg"
    and r: "r_config r = runtime_config_init (b_cfg_nvs e) n (deviceId (mc_secrets mqtt)) ?poll cfg (the_u32 (?v MaxPublishGapSec))
      (the_u32 (?v HeaterPeriodMin)) (the_u32 (?v HeaterHighRhMin)) (the_bool (?v ExtAntenna)) (the_int (?v TxPowerDbm)) rtc"
    by blast
  have "lp_acts = [LinkStart, LpInit cfg, LpStart (?poll * 1000000), StartSensorsTask, StartErrorTask False]"
    using b cfg by (auto simp: boot_lp_def Let_def split: option.splits prod.splits if_splits)
  then have "fold boot_perform acts h = h\<lparr>hw_lp := cfg, hw_antenna := the_bool (?v ExtAntenna)\<rparr>"
    by (simp add: acts enableRf_def enableExtAntenna_def)
  moreover have "counts_derived (r_config r)"
    using cfg skip by (auto simp: r runtime_config_init_def counts_derived_def lpConfig_def Let_def split: option.splits)
  ultimately show ?thesis
    using boot_pending [OF assms] by (simp add: lp_driven_def r runtime_config_init_def Let_def)
qed

lemma driven_run_inv:
  assumes "driven_run e fmt link (s, n, h)"
  shows "lp_driven (lp_poll_interval (b_device_config e)) s h"
proof -
  have "lp_driven (lp_poll_interval (b_device_config e)) (fst x) (snd (snd x))" if "driven_run e fmt link x" for x
    using that
  proof (induction rule: driven_run.induct)
    case (boot a n ram acts r a' ram' h)
    then show ?case using boot_driven by simp
  next
    case (message s n h topic data)
    then have "pend_typed (runtime_config_on_mqtt_data topic data s)"
      using message_keeps(2) by (simp add: lp_driven_def)
    with message show ?case
      by (auto simp: lp_driven_def counts_derived_def runtime_config_on_mqtt_data_def split: option.splits if_splits)
  next
    case (applied s n h client c cacts s' n')
    then show ?case using apply_pending_driven by fastforce
  next
    case (attached s n h cacts s' n')
    then show ?case using first_attach_settings [OF attached.hyps(2), of h] lp_driven_cong by fastforce
  next
    case (result s n h ok cacts s' n')
    then show ?case using cycle_result_settings [OF result.hyps(2), of h] lp_driven_cong by fastforce
  qed
  from this [OF assms] show ?thesis by simp
qed

section \<open>Identity\<close>

lemma sanitized: "id_char (if id_char c then c else CHR ''_'')"
  by (simp add: id_char_def)

lemma render_hex_chars: "c \<in> set (render_hex bs) \<Longrightarrow> id_char c"
proof -
  have h: "id_char (hex_char d)" if "d < 16" for d
    using that by (auto simp: id_char_def hex_char_def char_code_def Let_def)
  assume "c \<in> set (render_hex bs)"
  then obtain b :: u8 where "c = hex_char (unat b div 16) \<or> c = hex_char (unat b mod 16)" by (auto simp: render_hex_def)
  moreover have "unat b div 16 < 16" "unat b mod 16 < 16" using unat_u8_less [of b] by (simp_all add: less_mult_imp_div_less)
  ultimately show ?thesis using h by auto
qed

section \<open>A concrete boot\<close>

definition plain_env :: "(flash, flash) boot_env" where
  "plain_env = \<lparr>b_nvs_init = (ESP_OK, True, ESP_OK), b_app_nvs = map_nvs, b_cfg_nvs = map_nvs,
     b_event_loop = ESP_OK, b_netif = ESP_OK, b_eventfd = ESP_OK, b_light_sleep = ESP_OK,
     b_rtc_start = (ESP_OK, True), b_awake_stats = ESP_OK, b_device_config = [],
     b_secrets = ''ot_tlv: '' @ [CHR 0x22] @ ''0e08'' @ [CHR 0x22], b_mac = replicate 8 17,
     b_reset_reason = ESP_RST_POWERON, b_link_start = ESP_OK,
     b_lp = \<lparr>p_i2c_init = ESP_OK, p_load_binary = ESP_OK, p_enable_ulp_wakeup = ESP_OK, p_event_group = True,
       p_register_cbs = ESP_OK\<rparr>, b_ulp_run = (\<lambda>_ _. ESP_OK), b_ota_img = None\<rparr>"

lemma no_yaml: "yaml_get_string [] key = []"
proof -
  have "find_from (yaml_pattern key) [] 0 = None" by (simp add: yaml_pattern_def)
  then show ?thesis by (simp add: yaml_get_string_def yaml_search.simps [of "[]" key 0] str_find_def)
qed

lemma no_config: "parse_as_uint32_or [] key d = d" "parse_as_float_or [] key x = x" "parse_as_int32_or [] key i = i"
  "parse_as_bool_or [] key b = b"
  by (simp_all add: parse_as_uint32_or_def parse_as_float_or_def parse_as_int32_or_def parse_as_bool_or_def
      parse_as_uint32_def parse_as_float_def parse_as_int32_def parse_as_bool_def no_yaml value_or_def Let_def)

lemma plain_secrets: "check_secrets (parse_secrets mac (b_secrets (plain_env :: (flash, flash) boot_env))) = None"
proof -
  let ?y = "''ot_tlv: '' @ [CHR 0x22] @ ''0e08'' @ [CHR 0x22]"
  have "yaml_get_string ?y ''ot_tlv'' = ''0e08''"
    by (rule yaml_key_reads_back [where start = "[]" and indent = "[]" and post = "[]"])
      (simp_all add: yaml_pattern_def str_find_def)
  moreover have "yaml_get_string ?y ''transport'' = []"
    by (simp add: yaml_get_string_def yaml_search.simps [of _ "''transport''" 0] str_find_def yaml_pattern_def)
  ultimately show ?thesis by (simp add: check_secrets_def parse_secrets_def plain_env_def Let_def)
qed

lemma plain_boot_val: "boot_val map_nvs blank y k = yaml_default y k"
  by (cases k) (simp_all add: boot_val_def override_defs map_nvs_def blank_def)

lemma plain_boots:
  obtains acts r a' ram' where "app_main plain_env (a, n, ram) = (acts, Inr r, a', ram')"
proof -
  let ?v = "boot_val map_nvs n []"
  have e: "b_nvs_init plain_env = (ESP_OK, True, ESP_OK)" "b_cfg_nvs plain_env = map_nvs" "b_device_config plain_env = []"
    "b_event_loop plain_env = ESP_OK" "b_netif plain_env = ESP_OK" "b_eventfd plain_env = ESP_OK"
    "b_light_sleep plain_env = ESP_OK" "b_awake_stats plain_env = ESP_OK" "b_link_start plain_env = ESP_OK"
    "b_ulp_run plain_env = (\<lambda>_ _. ESP_OK)" "fst (lp_sensor_core_init (b_lp plain_env) cfg g) = ESP_OK" for cfg g
    by (simp_all add: plain_env_def lp_sensor_core_init_def Let_def)
  have poll: "lp_poll_interval [] = 20" by (simp add: lp_poll_interval_def no_config)
  obtain skip where skip: "publish_gap_sec_to_skip_cycles (the_u32 (?v MaxPublishGapSec)) 20 = Some skip"
    by (cases "the_u32 (?v MaxPublishGapSec) \<le> 20") (simp_all add: publish_gap_sec_to_skip_cycles_def udiv_def)
  obtain cfg where cfg: "lpConfig ?v 20 skip = Some cfg"
    by (cases "the_u32 (?v HeaterPeriodMin) = 0"; cases "the_u32 (?v HeaterHighRhMin) = 0")
      (simp_all add: lpConfig_def minutes_to_lp_cycles_def udiv_def)
  obtain ie g where i: "lp_sensor_core_init (b_lp plain_env) cfg \<lparr>hg_shared = zero_shared, s_wake_eg = False\<rparr> = (ie, g)"
    by fastforce
  then have "ie = ESP_OK" using e(11) [of cfg "\<lparr>hg_shared = zero_shared, s_wake_eg = False\<rparr>"] by simp
  then have lp: "\<exists>acts r. boot_lp plain_env n ?v rtc mqtt 20 skip = (acts, Inr r)" for rtc mqtt
    using i by (simp add: boot_lp_def e cfg Let_def lp_sensor_core_start_def)
  obtain c a1 where c: "incrementBootCount (b_app_nvs plain_env) a = (c, a1)" by fastforce
  obtain reason ram1 where rr: "resetReasonString (b_reset_reason plain_env) ram = (reason, ram1)" by fastforce
  let ?mqtt = "\<lparr>mc_secrets = parse_secrets (b_mac plain_env) (b_secrets plain_env),
    mc_expire_after_sec = 2 * safeguardWakeSec 20 skip, mc_boot_count = c,
    mc_reset_reason = take MQTT_MAX_RESET_REASON_LEN reason\<rparr>"
  let ?rtc = "snd (rtc_clock_fix_start (fst (b_rtc_start plain_env)) (snd (b_rtc_start plain_env))
    (the_u32 (?v RtcCalSamples)) (the_u32 (?v RtcCalPeriodSec)) rtc_initial)"
  obtain acts r where "boot_lp plain_env n ?v ?rtc ?mqtt 20 skip = (acts, Inr r)" using lp by blast
  then show ?thesis
    using that by (auto simp: app_main_def e initNvsFlash_def plain_secrets poll skip c rr Let_def)
qed

definition power_on_ram :: rtc_ram where
  "power_on_ram = \<lparr>s_lp_stall_reboot_marker = 0, s_ota_unconfirmed_reboot_marker = 0\<rparr>"

lemma plain_config:
  assumes "app_main plain_env (a, n, ram) = (acts, Inr r, a', ram')"
  shows "\<exists>dev cfg gap hp hr ant i rtc. r_config r = runtime_config_init map_nvs n dev 20 cfg gap hp hr ant i rtc"
proof -
  have e: "b_device_config plain_env = []" "b_cfg_nvs plain_env = map_nvs" by (simp_all add: plain_env_def)
  have poll: "lp_poll_interval [] = 20" by (simp add: lp_poll_interval_def no_config)
  obtain rtc mqtt skip lp_acts where "boot_lp plain_env n (boot_val map_nvs n []) rtc mqtt 20 skip = (lp_acts, Inr r)"
    by (rule app_main_running [OF assms, unfolded e poll])
  from boot_lp_config [OF this] show ?thesis unfolding e
    by (elim exE conjE) (intro exI, assumption)
qed

section \<open>Properties\<close>

text \<open>
  C9: A reboot restores the configuration: after any run of received messages, applied batches and TX
  power results, booting from the NVS they left puts every parameter but the TX power back to the value
  that was in effect.
\<close>

theorem reboot_restores_configuration:
  assumes "config_run e fmt link (s, n)" "nvs_ok (b_cfg_nvs e)"
    and "app_main e (a, n, ram) = (acts, Inr r, a', ram')" "k \<noteq> TxPowerDbm"
  shows "current_val (r_config r) k = current_val s k"
  using config_run_inv [OF assms(1,2)] boot_current [OF assms(3,4)] assms(4) by simp

lemma plain_received:
  assumes b0: "app_main plain_env (a, blank, ram) = (acts, Inr r, a', ram')"
  shows "s_pending (runtime_config_on_mqtt_data (s_topic (r_config r) HeaterPeriodMin) ''20000'' (r_config r)) =
      [HeaterPeriodMin \<mapsto> CU 20000] \<and>
    s_poll_interval_sec (runtime_config_on_mqtt_data (s_topic (r_config r) HeaterPeriodMin) ''20000'' (r_config r)) = 20"
proof -
  let ?s0 = "r_config r"
  from plain_config [OF b0] obtain dev cfg gap hp hr ant i rtc where
    init: "?s0 = runtime_config_init map_nvs blank dev 20 cfg gap hp hr ant i rtc" by blast
  have fields: "topics_of dev ?s0" "s_pending ?s0 = (\<lambda>_. None)" "s_poll_interval_sec ?s0 = 20"
    by (simp_all add: init runtime_config_init_def topics_of_def Let_def)
  have "parse_payload HeaterPeriodMin ''20000'' = Some (CU 20000)"
    by (simp add: parse_payload_def parse_uint32_def whole_def from_chars_uint_def is_digit_def digits_val_def digit_val_def
        char_code_def)
  from on_mqtt_topic [OF fields(1) this] fields show ?thesis by simp
qed

lemma plain_message:
  obtains s where "config_run plain_env (\<lambda>_. []) None (s, blank)" "s_pending s = [HeaterPeriodMin \<mapsto> CU 20000]"
    "s_poll_interval_sec s = 20"
proof -
  obtain acts0 r0 a0 ram0 where b0: "app_main plain_env (blank, blank, power_on_ram) = (acts0, Inr r0, a0, ram0)"
    by (rule plain_boots)
  show ?thesis
    by (rule that [of "runtime_config_on_mqtt_data (s_topic (r_config r0) HeaterPeriodMin) ''20000'' (r_config r0)"])
      (use plain_received [OF b0] config_run.boot [OF b0] in \<open>auto intro: config_run.message\<close>)
qed

theorem reboot_restores_configuration_witness:
  "\<exists>s n acts r a' ram'. config_run plain_env (\<lambda>_. []) None (s, n) \<and> current_val s HeaterPeriodMin = CU 10080 \<and>
     app_main plain_env (blank, n, power_on_ram) = (acts, Inr r, a', ram') \<and> current_val (r_config r) HeaterPeriodMin = CU 10080"
proof -
  obtain s1 where run1: "config_run plain_env (\<lambda>_. []) None (s1, blank)" and s1: "s_pending s1 = [HeaterPeriodMin \<mapsto> CU 20000]"
    and poll: "s_poll_interval_sec s1 = 20"
    by (rule plain_message)
  have "s_poll_interval_sec s1 \<noteq> 0" by (simp add: poll)
  from apply_defined [OF this, where api = map_nvs and fmt = "\<lambda>_. []" and link = None and client = True and n = blank]
  obtain c cacts s2 n2 where ap: "runtime_config_apply_pending map_nvs (\<lambda>_. []) None True (s1, blank) = Some (c, cacts, s2, n2)"
    by blast
  have api: "b_cfg_nvs plain_env = map_nvs" by (simp add: plain_env_def)
  have run2: "config_run plain_env (\<lambda>_. []) None (s2, n2)"
    by (rule config_run.applied [OF run1, unfolded api, OF ap])
  have "pend_typed s1" by (simp add: s1 pend_typed_def)
  from apply_pending_current [OF ap this, of HeaterPeriodMin] have cur: "current_val s2 HeaterPeriodMin = CU 10080"
    by (simp add: after_apply_def received_def s1 iclamp_def word_less_nat_alt)
  obtain acts r a' ram' where b2: "app_main plain_env (blank, n2, power_on_ram) = (acts, Inr r, a', ram')"
    by (rule plain_boots)
  have "nvs_ok (b_cfg_nvs plain_env)" unfolding api by (rule map_nvs_ok)
  from reboot_restores_configuration [OF run2 this b2, of HeaterPeriodMin] cur
  have "current_val (r_config r) HeaterPeriodMin = CU 10080" by simp
  with run2 cur b2 show ?thesis by blast
qed

text \<open>
  C40: The LP core runs on the configuration the node reports. Over any run from boot on, of messages of
  any content, applied batches and TX power results, the configuration last handed to the LP core and
  the level last written to the antenna switch are the reported values: the offsets, thresholds and the
  sample count as they are, the publish gap and the heater periods as the cycle counts they come to at
  the node's poll interval.
\<close>

theorem lp_core_runs_reported_configuration:
  assumes "driven_run e fmt link (s, n, h)"
  shows "current_val s TempOffset = CF (temp_offset_c (hw_lp h)) \<and>
    current_val s TempMinChange = CF (temp_min_change_c (hw_lp h)) \<and>
    current_val s RhOffset = CF (rh_offset_pct (hw_lp h)) \<and>
    current_val s RhMinChange = CF (rh_min_change_pct (hw_lp h)) \<and>
    current_val s SensorSamples = CU (sensor_samples (hw_lp h)) \<and>
    current_val s ExtAntenna = CB (hw_antenna h) \<and>
    (\<exists>gap period trigger.
      current_val s MaxPublishGapSec = CU gap \<and> current_val s HeaterPeriodMin = CU period \<and>
      current_val s HeaterHighRhMin = CU trigger \<and>
      publish_gap_sec_to_skip_cycles gap (lp_poll_interval (b_device_config e)) = Some (max_skip_cycles (hw_lp h)) \<and>
      minutes_to_lp_cycles period (lp_poll_interval (b_device_config e)) = Some (heater_period_cycles (hw_lp h)) \<and>
      minutes_to_lp_cycles trigger (lp_poll_interval (b_device_config e)) = Some (high_rh_trigger_cycles (hw_lp h)))"
  using driven_run_inv [OF assms] by (auto simp: lp_driven_def counts_derived_def)

theorem lp_core_runs_reported_configuration_witness:
  "\<exists>s n h. driven_run plain_env (\<lambda>_. []) None (s, n, h) \<and> current_val s HeaterPeriodMin = CU 10080 \<and>
     minutes_to_lp_cycles 10080 20 = Some (heater_period_cycles (hw_lp h))"
proof -
  obtain acts0 r0 a0 ram0 where b0: "app_main plain_env (blank, blank, power_on_ram) = (acts0, Inr r0, a0, ram0)"
    by (rule plain_boots)
  let ?h0 = "\<lparr>hw_lp = plain_lp_config, hw_antenna = False, hw_tx = 0\<rparr>" and ?s0 = "r_config r0"
  let ?s1 = "runtime_config_on_mqtt_data (s_topic ?s0 HeaterPeriodMin) ''20000'' ?s0"
  have run1: "driven_run plain_env (\<lambda>_. []) None (?s1, blank, fold boot_perform acts0 ?h0)"
    by (intro driven_run.message driven_run.boot) (rule b0)
  from plain_received [OF b0] have s1: "s_pending ?s1 = [HeaterPeriodMin \<mapsto> CU 20000]" "s_poll_interval_sec ?s1 = 20" by auto
  have "s_poll_interval_sec ?s1 \<noteq> 0" by (simp add: s1)
  from apply_defined [OF this, where api = map_nvs and fmt = "\<lambda>_. []" and link = None and client = True and n = blank]
  obtain c cacts s2 n2 where ap: "runtime_config_apply_pending map_nvs (\<lambda>_. []) None True (?s1, blank) = Some (c, cacts, s2, n2)"
    by blast
  have e: "b_cfg_nvs plain_env = map_nvs" "lp_poll_interval (b_device_config plain_env) = 20"
    by (simp_all add: plain_env_def lp_poll_interval_def no_config)
  obtain h where run2: "driven_run plain_env (\<lambda>_. []) None (s2, n2, h)"
    using driven_run.applied [OF run1, unfolded e, OF ap] by blast
  have "pend_typed ?s1" by (simp add: s1 pend_typed_def)
  from apply_pending_current [OF ap this, of HeaterPeriodMin] have cur: "current_val s2 HeaterPeriodMin = CU 10080"
    by (simp add: after_apply_def received_def s1 iclamp_def word_less_nat_alt)
  with lp_core_runs_reported_configuration [OF run2] have "minutes_to_lp_cycles 10080 20 = Some (heater_period_cycles (hw_lp h))"
    unfolding e by auto
  with run2 cur show ?thesis by blast
qed

text \<open>
  C38: The device id fits its bound, holds only characters that are safe in MQTT topics and Home Assistant,
  and identifies the chip: two nodes with the same id have the same MAC address, whatever their names.
\<close>

theorem device_id_is_safe_and_unique:
  assumes "length mac = MQTT_MAC_ADDRESS_BYTES" "length mac' = MQTT_MAC_ADDRESS_BYTES"
  shows "length (addOTMacSuffix mac (device_name_prefix y)) \<le> MQTT_MAX_DEVICE_ID_LEN \<and>
    list_all id_char (addOTMacSuffix mac name) \<and>
    (addOTMacSuffix mac name = addOTMacSuffix mac' name' \<longrightarrow> mac = mac')"
proof -
  have "length (device_name_prefix y) \<le> MQTT_MAX_DEVICE_NAME_LEN"
    by (simp add: device_name_prefix_def MQTT_MAX_DEVICE_NAME_LEN_def Let_def)
  then have "length (addOTMacSuffix mac (device_name_prefix y)) \<le> MQTT_MAX_DEVICE_ID_LEN"
    using assms(1) by (simp add: addOTMacSuffix_def length_render_hex MQTT_MAX_DEVICE_ID_LEN_def)
  moreover have "list_all id_char (addOTMacSuffix mac name)"
    using sanitized render_hex_chars by (auto simp: addOTMacSuffix_def list_all_iff id_char_def)
  moreover have "mac = mac'" if eq: "addOTMacSuffix mac name = addOTMacSuffix mac' name'"
  proof -
    have "render_hex mac = render_hex mac'"
      using eq assms by (simp add: addOTMacSuffix_def append_eq_append_conv length_render_hex)
    then show ?thesis using hex_bytes_render by metis
  qed
  ultimately show ?thesis by blast
qed

theorem device_id_is_safe_and_unique_witness:
  "addOTMacSuffix (replicate 8 17) ''a b'' \<noteq> addOTMacSuffix (replicate 8 18) ''a_b''"
  using device_id_is_safe_and_unique [of "replicate 8 17" "replicate 8 18" "[]" "''a b''" "''a_b''"]
  by (auto simp: MQTT_MAC_ADDRESS_BYTES_def)

text \<open>
  A partition that had to be erased and was then initialised still stops the boot: the first
  error is looked at again after the second initialisation succeeded, so the node does nothing until it
  is reset once more.
\<close>

theorem erased_partition_still_stops_boot:
  assumes "ret1 = ESP_ERR_NVS_NO_FREE_PAGES \<or> ret1 = ESP_ERR_NVS_NEW_VERSION_FOUND" "b_nvs_init e = (ret1, True, ESP_OK)"
  shows "app_main e (a, n, ram) = ([], Inl NvsUnavailable, a, ram)"
  using assms by (auto simp: app_main_def initNvsFlash_def Let_def)

theorem erased_partition_still_stops_boot_witness:
  "app_main (plain_env\<lparr>b_nvs_init := (0x1110, True, ESP_OK)\<rparr>) (blank, blank, power_on_ram) =
     ([], Inl NvsUnavailable, blank, power_on_ram)"
  by (rule erased_partition_still_stops_boot [of "0x1110"]) simp_all


text \<open>
  A poll interval of zero in the YAML file is not replaced by the default: with a heater period the boot
  divides by it.
\<close>

lemma zero_poll_never_runs:
  assumes "lp_poll_interval (b_device_config e) = 0" "the_u32 (boot_val (b_cfg_nvs e) n (b_device_config e) HeaterPeriodMin) \<noteq> 0"
  shows "app_main e (a, n, ram) \<noteq> (acts, Inr r, a', ram')"
proof
  assume run: "app_main e (a, n, ram) = (acts, Inr r, a', ram')"
  have "lpConfig (boot_val (b_cfg_nvs e) n (b_device_config e)) 0 skip = None" for skip
    using assms(2) by (simp add: lpConfig_def minutes_to_lp_cycles_def udiv_def)
  then show False using run assms(1)
    by (auto simp: app_main_def boot_lp_def Let_def split: option.splits prod.splits if_splits)
qed

end
