(* ===== verification/Diagnostics.thy ===== *)
theory Diagnostics
  imports SharedLayout
begin

text \<open>
  The small services of the HP firmware: the awake time between two publishes
  (\<open>main/hp_awake_stats.cpp\<close>), the die temperature (\<open>main/die_temp.cpp\<close>) and the error task
  (\<open>main/errortask.cpp\<close>). The clock, the sensor driver and the number of signals are parameters.
\<close>

section \<open>Awake time\<close>

record awake_stats =
  s_accumulated_sleep_us :: u64
  s_period_start_us :: int

definition awake_on_light_sleep_exit :: "int \<Rightarrow> awake_stats \<Rightarrow> awake_stats" where
  "awake_on_light_sleep_exit sleep_time_us s =
    (if 0 < sleep_time_us then s\<lparr>s_accumulated_sleep_us := s_accumulated_sleep_us s + of_int sleep_time_us\<rparr> else s)"

definition hp_awake_stats_init :: "int \<Rightarrow> esp_err \<Rightarrow> awake_stats \<Rightarrow> esp_err \<times> awake_stats" where
  "hp_awake_stats_init now register_err s = (register_err, s\<lparr>s_period_start_us := now\<rparr>)"

definition hp_awake_stats_get_and_reset_us :: "int \<Rightarrow> awake_stats \<Rightarrow> u32 \<times> awake_stats" where
  "hp_awake_stats_get_and_reset_us now s =
    (let slept = s_accumulated_sleep_us s; elapsed = now - s_period_start_us s
     in (of_int (max 0 (elapsed - sint slept)), s\<lparr>s_accumulated_sleep_us := 0, s_period_start_us := now\<rparr>))"

text \<open>A period: the sleeps reported in it and the time of the read that ends it.\<close>

type_synonym period = "int list \<times> int"

definition period_read :: "period \<Rightarrow> awake_stats \<Rightarrow> u32 \<times> awake_stats" where
  "period_read p s = hp_awake_stats_get_and_reset_us (snd p) (fold awake_on_light_sleep_exit (fst p) s)"

fun period_reads :: "period list \<Rightarrow> awake_stats \<Rightarrow> u32 list \<times> awake_stats" where
  "period_reads [] s = ([], s)"
| "period_reads (p # ps) s =
    (let (awake, s) = period_read p s; (rest, s) = period_reads ps s in (awake # rest, s))"

text \<open>
  What really happened: the sleep reported in a period, and the awake time of each period, which is
  negative when the sleeps reported by the time of the read exceed the elapsed time.
\<close>

definition slept_us :: "int list \<Rightarrow> int" where
  "slept_us sleeps = sum_list (filter (\<lambda>d. 0 < d) sleeps)"

fun awake_times :: "int \<Rightarrow> period list \<Rightarrow> int list" where
  "awake_times start [] = []"
| "awake_times start ((sleeps, now) # ps) = (now - start - slept_us sleeps) # awake_times now ps"

lemma slept_nonneg: "0 \<le> slept_us ds"
  unfolding slept_us_def by (induction ds) auto

lemma sleeps_accumulate:
  "s_accumulated_sleep_us (fold awake_on_light_sleep_exit ds s) = s_accumulated_sleep_us s + of_int (slept_us ds) \<and>
   s_period_start_us (fold awake_on_light_sleep_exit ds s) = s_period_start_us s"
proof (induction ds arbitrary: s)
  case (Cons d ds)
  then show ?case using Cons.IH [of "awake_on_light_sleep_exit d s"]
    by (simp add: awake_on_light_sleep_exit_def slept_us_def)
qed (simp add: slept_us_def)

lemma sint_u64: "0 \<le> x \<Longrightarrow> x < 2 ^ 63 \<Longrightarrow> sint (of_int x :: u64) = x"
  by (simp add: signed_of_int signed_take_bit_int_eq_self)

lemma uint_u32: "uint (of_int x :: u32) = x mod 2 ^ 32"
  by (simp add: unsigned_of_int take_bit_eq_mod)

lemma period_read_eq:
  assumes "s_accumulated_sleep_us s = 0" "slept_us sleeps < 2 ^ 63"
  shows "uint (fst (period_read (sleeps, now) s)) = max 0 (now - s_period_start_us s - slept_us sleeps) mod 2 ^ 32 \<and>
    s_accumulated_sleep_us (snd (period_read (sleeps, now) s)) = 0 \<and> s_period_start_us (snd (period_read (sleeps, now) s)) = now"
proof -
  have "sint (of_int (slept_us sleeps) :: u64) = slept_us sleeps"
    by (rule sint_u64 [OF slept_nonneg assms(2)])
  then show ?thesis using sleeps_accumulate [of sleeps s] assms(1)
    by (simp add: period_read_def hp_awake_stats_get_and_reset_us_def Let_def uint_u32 del: of_int_diff)
qed

lemma period_reads_eq:
  "s_accumulated_sleep_us s = 0 \<Longrightarrow> \<forall>p \<in> set ps. slept_us (fst p) < 2 ^ 63 \<Longrightarrow>
   map uint (fst (period_reads ps s)) = map (\<lambda>a. max 0 a mod 2 ^ 32) (awake_times (s_period_start_us s) ps) \<and>
   s_period_start_us (snd (period_reads ps s)) - s_period_start_us s =
     sum_list (awake_times (s_period_start_us s) ps) + sum_list (map (slept_us \<circ> fst) ps)"
proof (induction ps arbitrary: s)
  case (Cons p ps)
  obtain sleeps now where p: "p = (sleeps, now)" by fastforce
  obtain awake s1 where r: "period_read p s = (awake, s1)" by fastforce
  have "slept_us sleeps < 2 ^ 63" using Cons.prems(2) p by simp
  from period_read_eq [OF Cons.prems(1) this, of now] have s1:
    "s_accumulated_sleep_us s1 = 0" "s_period_start_us s1 = now"
    "uint awake = max 0 (now - s_period_start_us s - slept_us sleeps) mod 2 ^ 32"
    using r p by simp_all
  from Cons.IH [OF s1(1)] Cons.prems(2) s1(2) show ?case
    by (simp add: p r [unfolded p] s1(3) case_prod_beta)
qed simp

text \<open>The books balance up to what the clamp cut off.\<close>

lemma clamp_balance:
  "\<forall>a \<in> set as. a < 2 ^ 32 \<Longrightarrow>
   sum_list (map (\<lambda>a. max 0 a mod 2 ^ 32) as) = sum_list as + sum_list (map (\<lambda>a. max 0 (- a)) as)" for as :: "int list"
proof (induction as)
  case (Cons a as)
  have m: "max 0 a mod 2 ^ 32 = a + max 0 (- a)" using Cons.prems by (simp add: max_def)
  show ?case using Cons unfolding list.map sum_list.Cons m by simp
qed simp

section \<open>Die temperature\<close>

record die_temp_driver =
  t_install :: bool
  t_enable :: bool
  t_celsius :: "nat \<Rightarrow> flt option"
  t_raw :: "nat \<Rightarrow> flt"

datatype die_action = TsInstall | TsEnable | TsSample nat | TsDisable | TsUninstall

fun die_samples :: "die_temp_driver \<Rightarrow> nat \<Rightarrow> nat \<Rightarrow> flt \<times> flt \<times> u32 \<Rightarrow> flt \<times> flt \<times> u32" where
  "die_samples d i 0 acc = acc"
| "die_samples d i (Suc left) acc =
    (case t_celsius d i of
       None \<Rightarrow> die_samples d (i + 1) left acc
     | Some c \<Rightarrow>
         (let (celsius_sum, raw_sum, count) = acc
          in die_samples d (i + 1) left (f_add f64 celsius_sum c, f_add f64 raw_sum (t_raw d i), count + 1)))"

definition die_temp_read :: "die_temp_driver \<Rightarrow> u32 \<Rightarrow> (flt \<times> flt) option \<times> die_action list" where
  "die_temp_read d samples =
    (if \<not> t_install d then (None, [TsInstall])
     else if \<not> t_enable d then (None, [TsInstall, TsEnable, TsUninstall])
     else
       (let n = unat samples; (celsius_sum, raw_sum, count) = die_samples d 0 n (Fin 0, Fin 0, 0);
            k = Fin (of_nat (unat count));
            result = (if 0 < count
              then Some (f_round f32 (f_div f64 celsius_sum k), f_round f32 (f_div f64 raw_sum k)) else None)
        in (result, [TsInstall, TsEnable] @ map TsSample [0..<n] @ [TsDisable, TsUninstall])))"

section \<open>Error task\<close>

datatype ErrorCode = ecOK | ecSensorsFail

definition SEND_PERIOD_MS :: nat where "SEND_PERIOD_MS = 5 * 1000"

text \<open>The first \<open>n\<close> signals of the task, with the delay after each; none when all is well.\<close>

definition error_task :: "ErrorCode \<Rightarrow> nat \<Rightarrow> nat list" where
  "error_task code n = (if code \<noteq> ecSensorsFail then [] else replicate n SEND_PERIOD_MS)"

section \<open>Properties\<close>

text \<open>
  C39: Sleep and awake time add up, up to the clamp and the width of the report. Each read reports, modulo
  \<open>2 ^ 32\<close> us, the time since the last read less the positive sleep durations reported since, and zero
  when more sleep was reported than time passed (the skew the code's comment speaks of). As long as no
  period is awake for \<open>2 ^ 32\<close> us (71 minutes) or more, the reports and the sleeps together are the
  elapsed time plus exactly the sleep that was reported beyond it: nothing is lost or counted twice,
  and a report never wraps round to a huge value. A period's sleep is assumed to stay below \<open>2 ^ 63\<close> us.
\<close>

theorem awake_time_is_conserved:
  assumes "s_accumulated_sleep_us s = 0" "\<forall>p \<in> set ps. slept_us (fst p) < 2 ^ 63"
    and "awake = awake_times (s_period_start_us s) ps"
  shows "map uint (fst (period_reads ps s)) = map (\<lambda>a. max 0 a mod 2 ^ 32) awake \<and>
    ((\<forall>a \<in> set awake. a < 2 ^ 32) \<longrightarrow>
      sum_list (map uint (fst (period_reads ps s))) + sum_list (map (slept_us \<circ> fst) ps) =
        s_period_start_us (snd (period_reads ps s)) - s_period_start_us s + sum_list (map (\<lambda>a. max 0 (- a)) awake))"
  using period_reads_eq [OF assms(1,2)] clamp_balance [of awake] by (simp add: assms(3))

theorem awake_time_is_conserved_witness:
  "map uint (fst (period_reads [([300, - 5, 400], 1000), ([510], 1500), ([0], 1800)]
     \<lparr>s_accumulated_sleep_us = 0, s_period_start_us = 0\<rparr>)) = [300, 0, 300]"
  using awake_time_is_conserved [of "\<lparr>s_accumulated_sleep_us = 0, s_period_start_us = 0\<rparr>"
      "[([300, - 5, 400], 1000), ([510], 1500), ([0], 1800)]"]
  by (simp add: slept_us_def)

end
