(* ===== verification/StdFormat.thy ===== *)
theory StdFormat
  imports ConfigText
begin

text \<open>
  What the MQTT sender uses of \<open>std::format\<close>: format strings of literal text, \<open>{}\<close> fields with the
  specifications \<open>{}\<close>, \<open>{:.3g}\<close>, \<open>{:.2f}\<close>, \<open>{:.3f}\<close>, \<open>{:02x}\<close> and \<open>{:02X}\<close>, and the two brace escapes; the
  decimal rendering of floats behind them; and \<open>format_into\<close>/\<open>format_append\<close> of \<open>main/mqtt_sender.cpp\<close>
  on their fixed-capacity buffers. The shortest rendering of a float (\<open>{}\<close>) is the parameter \<open>fmt\<close>, as in
  the runtime configuration. The lemma that the buffer sizes of the sender rest on is
  \<open>format_length\<close>: the text is no longer than the format string plus its rendered arguments.
\<close>

section \<open>Decimal rendering of floats\<close>

text \<open>\<open>k\<close> digits, padded with zeros.\<close>

definition pad_nat :: "nat \<Rightarrow> nat \<Rightarrow> string" where
  "pad_nat k n = (let s = render_nat n in replicate (k - length s) (CHR ''0'') @ s)"

text \<open>The number \<open>n / 10 ^ p\<close>, with \<open>p\<close> decimals.\<close>

definition fixed_point :: "nat \<Rightarrow> nat \<Rightarrow> string" where
  "fixed_point p n = render_nat (n div 10 ^ p) @ (if p = 0 then '''' else CHR ''.'' # pad_nat p (n mod 10 ^ p))"

definition sign_text :: "rat \<Rightarrow> string" where
  "sign_text r = (if r < 0 then ''-'' else '''')"

text \<open>\<open>{:.pf}\<close>: the exact value rounded to \<open>p\<close> decimals, ties to even.\<close>

fun float_f :: "nat \<Rightarrow> flt \<Rightarrow> string" where
  "float_f p (Fin r) = sign_text r @ fixed_point p (nat (rhe (\<bar>r\<bar> * 10 ^ p)))"
| "float_f p PInf = ''inf''"
| "float_f p NInf = ''-inf''"
| "float_f p NaN = ''nan''"

text \<open>The decimal exponent of a positive integer and of a positive number.\<close>

function nlog10 :: "int \<Rightarrow> int" where
  "nlog10 n = (if n < 10 then 0 else 1 + nlog10 (n div 10))"
  by pat_completeness auto
termination
  by (relation "measure nat") auto

declare nlog10.simps [simp del]

definition ilog10 :: "rat \<Rightarrow> int" where
  "ilog10 x = (let (n, d) = quotient_of x; e = nlog10 n - nlog10 d in if 10 powi e \<le> x then e else e - 1)"

text \<open>Trailing zeros of the fraction, and the point when nothing follows it.\<close>

definition strip_zeros :: "string \<Rightarrow> string" where
  "strip_zeros s =
    (if CHR ''.'' \<in> set s then
       (let t = dropWhile (\<lambda>c. c = CHR ''0'') (rev s) in
        rev (case t of c # cs \<Rightarrow> if c = CHR ''.'' then cs else t | [] \<Rightarrow> []))
     else s)"

text \<open>
  \<open>{:.pg}\<close>: \<open>p\<close> significant digits; fixed notation when the exponent is at least -4 and below \<open>p\<close>,
  otherwise scientific; trailing zeros are removed.
\<close>

definition sig_digits :: "nat \<Rightarrow> rat \<Rightarrow> int \<times> nat" where
  "sig_digits p x =
    (let e = ilog10 x; n = nat (rhe (x * 10 powi (int p - 1 - e))) in
     if n = 10 ^ p then (e + 1, 10 ^ (p - 1)) else (e, n))"

definition exp_text :: "int \<Rightarrow> string" where
  "exp_text e = CHR ''e'' # (if e < 0 then CHR ''-'' else CHR ''+'') # pad_nat 2 (nat \<bar>e\<bar>)"

fun float_g :: "nat \<Rightarrow> flt \<Rightarrow> string" where
  "float_g p (Fin r) =
    (if r = 0 then ''0''
     else
       (let (e, n) = sig_digits p \<bar>r\<bar> in
        sign_text r @
        (if - 4 \<le> e \<and> e < int p then strip_zeros (fixed_point (nat (int p - 1 - e)) n)
         else strip_zeros (fixed_point (p - 1) n) @ exp_text e)))"
| "float_g p PInf = ''inf''"
| "float_g p NInf = ''-inf''"
| "float_g p NaN = ''nan''"

section \<open>Format strings\<close>

datatype fmt_arg = AStr string | AInt int | AFlt flt

datatype piece = Lit char | Field string

text \<open>The pieces of a format string; \<open>None\<close> is a string the compiler rejects.\<close>

function format_pieces :: "string \<Rightarrow> piece list option" where
  "format_pieces s =
    (case s of
       [] \<Rightarrow> Some []
     | c # rest \<Rightarrow>
         if c = CHR ''{'' then
           (if take 1 rest = ''{'' then map_option (Cons (Lit c)) (format_pieces (tl rest))
            else
              (let spec = takeWhile (\<lambda>d. d \<noteq> CHR ''}'') rest; after = dropWhile (\<lambda>d. d \<noteq> CHR ''}'') rest in
               if after = [] then None else map_option (Cons (Field spec)) (format_pieces (tl after))))
         else if c = CHR ''}'' then
           (if take 1 rest = ''}'' then map_option (Cons (Lit c)) (format_pieces (tl rest)) else None)
         else map_option (Cons (Lit c)) (format_pieces rest))"
  by pat_completeness auto
termination
proof (relation "measure length", goal_cases)
  case (3 s c rest spec after)
  then show ?case
    using length_dropWhile_le [of "\<lambda>d. d \<noteq> CHR ''}''" rest] by (simp add: less_Suc_eq_le)
qed auto

declare format_pieces.simps [simp del]

definition hex_text :: "bool \<Rightarrow> nat \<Rightarrow> string" where
  "hex_text upper n = (let d = (\<lambda>k. if k < 10 then digit_char k else char_of ((if upper then 55 else 87) + k)) in
     [d (n div 16 mod 16), d (n mod 16)])"

fun render_arg :: "(flt \<Rightarrow> string) \<Rightarrow> string \<Rightarrow> fmt_arg \<Rightarrow> string" where
  "render_arg fmt spec (AStr s) = s"
| "render_arg fmt spec (AInt i) =
    (if spec = '':02x'' then hex_text False (nat i) else if spec = '':02X'' then hex_text True (nat i)
     else render_int i)"
| "render_arg fmt spec (AFlt v) =
    (if spec = '':.3g'' then float_g 3 v else if spec = '':.2f'' then float_f 2 v
     else if spec = '':.3f'' then float_f 3 v else fmt v)"

fun fill :: "(flt \<Rightarrow> string) \<Rightarrow> piece list \<Rightarrow> fmt_arg list \<Rightarrow> string" where
  "fill fmt [] args = []"
| "fill fmt (Lit c # ps) args = c # fill fmt ps args"
| "fill fmt (Field spec # ps) (a # args) = render_arg fmt spec a @ fill fmt ps args"
| "fill fmt (Field spec # ps) [] = []"

definition format_text :: "(flt \<Rightarrow> string) \<Rightarrow> string \<Rightarrow> fmt_arg list \<Rightarrow> string" where
  "format_text fmt f args = (case format_pieces f of None \<Rightarrow> [] | Some ps \<Rightarrow> fill fmt ps args)"

section \<open>Fixed-capacity buffers\<close>

text \<open>
  The text in a buffer of \<open>N\<close> characters. Both functions return the new text, whose length is the
  length the code returns: the empty text (length 0) reports a truncation.
\<close>

definition format_into :: "(flt \<Rightarrow> string) \<Rightarrow> nat \<Rightarrow> string \<Rightarrow> fmt_arg list \<Rightarrow> string" where
  "format_into fmt N f args = (let t = format_text fmt f args in if N - 1 < length t then [] else t)"

definition format_append :: "(flt \<Rightarrow> string) \<Rightarrow> nat \<Rightarrow> string \<Rightarrow> nat \<Rightarrow> string \<Rightarrow> fmt_arg list \<Rightarrow> string" where
  "format_append fmt N buf offset f args =
    (let t = format_text fmt f args in if N - 1 - offset < length t then [] else take offset buf @ t)"

section \<open>Lengths of rendered numbers\<close>

lemma length_render_nat: "n < 10 ^ k \<Longrightarrow> 0 < k \<Longrightarrow> length (render_nat n) \<le> k"
proof (induction k arbitrary: n)
  case (Suc k)
  show ?case
  proof (cases "n < 10")
    case True
    then show ?thesis by (simp add: render_nat.simps [of n])
  next
    case False
    with Suc.prems have k: "0 < k" by (cases k) auto
    have "n div 10 < 10 ^ k" using Suc.prems by (simp add: less_mult_imp_div_less mult.commute)
    from Suc.IH [OF this k] False show ?thesis by (simp add: render_nat.simps [of n])
  qed
qed simp

lemma length_render_int_u32: "length (render_int (uint (w :: u32))) \<le> 10"
proof -
  have "nat (uint w) < 10 ^ 10" using unat_u32_less [of w] by (simp del: unat_u32_less)
  from length_render_nat [OF this] show ?thesis by (simp add: render_int_def)
qed

lemma length_render_int:
  assumes "\<bar>i\<bar> < 10 ^ k" "0 < k"
  shows "length (render_int i) \<le> (if i < 0 then Suc k else k)"
proof -
  have "int (nat \<bar>i\<bar>) < int (10 ^ k)" using assms(1) by simp
  then have "nat \<bar>i\<bar> < 10 ^ k" by (simp only: of_nat_less_iff)
  from length_render_nat [OF this assms(2)] show ?thesis by (simp add: render_int_def abs_if split: if_splits)
qed

lemma length_pad_nat: "n < 10 ^ k \<Longrightarrow> 0 < k \<Longrightarrow> length (pad_nat k n) = k"
  using length_render_nat [of n k] by (simp add: pad_nat_def Let_def)

lemma length_fixed_point:
  assumes "n div 10 ^ p < 10 ^ k" "0 < k"
  shows "length (fixed_point p n) \<le> k + (if p = 0 then 0 else Suc p)"
  using length_render_nat [OF assms] length_pad_nat [of "n mod 10 ^ p" p] by (auto simp: fixed_point_def)

lemma length_strip_zeros: "length (strip_zeros s) \<le> length s"
  using length_dropWhile_le [of "\<lambda>c. c = CHR ''0''" "rev s"]
  by (auto simp: strip_zeros_def Let_def split: list.splits)

lemma length_sign_text: "length (sign_text r) \<le> 1" "0 \<le> r \<Longrightarrow> sign_text r = []"
  by (simp_all add: sign_text_def)

lemma rhe_scaled_le:
  assumes "x \<le> of_nat b"
  shows "nat (rhe (x * 10 ^ p)) div 10 ^ p \<le> b"
proof -
  have "x * 10 ^ p \<le> of_int (int (b * 10 ^ p))" using assms by (simp add: mult_right_mono)
  then have "rhe (x * 10 ^ p) \<le> int (b * 10 ^ p)" by (rule rhe_le)
  then have "nat (rhe (x * 10 ^ p)) \<le> b * 10 ^ p" by linarith
  then have "nat (rhe (x * 10 ^ p)) div 10 ^ p \<le> b * 10 ^ p div 10 ^ p" by (rule div_le_mono)
  then show ?thesis by simp
qed

lemma length_float_f:
  assumes "f_in lo (of_nat b) v" "- of_nat b \<le> lo" "b < 10 ^ k" "0 < k" "0 < p"
  shows "length (float_f p v) \<le> (if 0 \<le> lo then 0 else 1) + k + Suc p"
proof -
  from assms(1) obtain r where r: "v = Fin r" "lo \<le> r" "r \<le> of_nat b" by (rule f_inE)
  then have "\<bar>r\<bar> \<le> of_nat b" using assms(2) by linarith
  from rhe_scaled_le [OF this, of p] assms(3)
  have "nat (rhe (\<bar>r\<bar> * 10 ^ p)) div 10 ^ p < 10 ^ k" by linarith
  from length_fixed_point [OF this assms(4)] length_sign_text(1) [of r] length_sign_text(2) [of r] r assms(5)
  show ?thesis by auto
qed

section \<open>Scientific rendering\<close>

lemma nlog10_bounds: "0 < n \<Longrightarrow> 0 \<le> nlog10 n \<and> 10 ^ nat (nlog10 n) \<le> n \<and> n < 10 * 10 ^ nat (nlog10 n)"
proof (induction n rule: nlog10.induct)
  case (1 n)
  show ?case
  proof (cases "n < 10")
    case True
    with 1 show ?thesis by (simp add: nlog10.simps [of n])
  next
    case False
    define k where "k = nat (nlog10 (n div 10))"
    have "0 \<le> nlog10 (n div 10) \<and> 10 ^ k \<le> n div 10 \<and> n div 10 < 10 * 10 ^ k"
      using 1 False by (simp add: k_def)
    moreover from this have "nat (1 + nlog10 (n div 10)) = Suc k"
      by (simp add: k_def nat_add_distrib)
    ultimately show ?thesis
      using False by (simp add: nlog10.simps [of n]) linarith
  qed
qed

lemma ilog10_bounds:
  assumes "0 < x"
  shows "10 powi ilog10 x \<le> x \<and> x < 10 powi (ilog10 x + 1)"
proof -
  obtain n d where nd: "quotient_of x = (n, d)" by fastforce
  have "ilog10 x = (if 10 powi (nlog10 n - nlog10 d) \<le> x then nlog10 n - nlog10 d else nlog10 n - nlog10 d - 1)"
    by (simp add: ilog10_def nd)
  then show ?thesis
    using quotient_ilog_bounds [OF assms, of 10 n d nlog10 "ilog10 x"] nd nlog10_bounds by simp
qed

lemma sig_digits_bounds:
  assumes "0 < x" "0 < p" and "sig_digits p x = (e, n)"
  shows "n < 10 ^ p" "e = ilog10 x \<or> e = ilog10 x + 1"
proof -
  define m where "m = nat (rhe (x * 10 powi (int p - 1 - ilog10 x)))"
  have "x * 10 powi (int p - 1 - ilog10 x) \<le> 10 powi (ilog10 x + 1) * 10 powi (int p - 1 - ilog10 x)"
    using ilog10_bounds [OF assms(1)] by (intro mult_right_mono) auto
  also have "\<dots> = 10 powi int p" by (simp flip: power_int_add)
  also have "\<dots> = of_int (10 ^ p)" by simp
  finally have "rhe (x * 10 powi (int p - 1 - ilog10 x)) \<le> 10 ^ p" by (rule rhe_le)
  then have m: "m \<le> 10 ^ p" by (simp add: m_def nat_le_iff)
  have "(e, n) = (if m = 10 ^ p then (ilog10 x + 1, 10 ^ (p - 1)) else (ilog10 x, m))"
    using assms(3) by (simp only: sig_digits_def m_def Let_def)
  moreover have "10 ^ (p - 1) < (10 ^ p :: nat)" using assms(2) by (intro power_strict_increasing) auto
  ultimately show "n < 10 ^ p" "e = ilog10 x \<or> e = ilog10 x + 1" using m by (auto split: if_splits)
qed

text \<open>The values of C++ \<open>float\<close>.\<close>

definition float_value :: "flt \<Rightarrow> bool" where
  "float_value v \<longleftrightarrow> (case v of Fin r \<Rightarrow> representable 24 (- 149) r \<and> \<bar>r\<bar> < 2 ^ 128 | _ \<Rightarrow> True)"

lemma float_value_f32 [simp]: "float_value (f32 x)"
  by (simp add: float_value_def f32_def mkflt_def Let_def representable_fl abs_less_iff)

lemma representable_min:
  assumes "representable p q x" "x \<noteq> 0"
  shows "2 powi q \<le> \<bar>x\<bar>"
proof -
  from assms(1) obtain m e where x: "x = of_int m * 2 powi e" and e: "q \<le> e" by (auto simp: representable_def)
  have "1 \<le> \<bar>m\<bar>" using assms(2) by (auto simp: x)
  then have "(1 :: rat) \<le> of_int \<bar>m\<bar>" by (simp only: of_int_1_le_iff)
  then have "2 powi e \<le> \<bar>x\<bar>" by (simp add: x abs_mult)
  with powi_le_iff [of q e] e show ?thesis by (metis order_trans)
qed

lemma ilog10_float:
  assumes "float_value (Fin r)" "r \<noteq> 0"
  shows "- 100 < ilog10 \<bar>r\<bar> \<and> ilog10 \<bar>r\<bar> < 99"
proof -
  define e where "e = ilog10 \<bar>r\<bar>"
  have b: "10 powi e \<le> \<bar>r\<bar>" "\<bar>r\<bar> < 10 powi (e + 1)"
    using ilog10_bounds [of "\<bar>r\<bar>"] assms(2) by (simp_all add: e_def)
  have "\<bar>r\<bar> < 2 ^ 128" using assms(1) by (simp add: float_value_def)
  moreover have "(2 :: rat) ^ 128 < 10 powi 99" by (simp add: power_int_def)
  moreover have "(10 :: rat) powi 99 \<le> 10 powi e" if "99 \<le> e"
    using that by (intro power_int_increasing) auto
  ultimately have "e < 99" using b(1) by linarith
  moreover have "- 100 < e"
  proof (rule ccontr)
    assume "\<not> - 100 < e"
    then have "(10 :: rat) powi (e + 1) \<le> 10 powi (- 99)" by (intro power_int_increasing) auto
    moreover have "inverse (10 ^ 99) < inverse (2 ^ 149 :: rat)" by (rule less_imp_inverse_less) simp_all
    then have "(10 :: rat) powi (- 99) < 2 powi (- 149)"
      by (simp only: power_int_minus power_int_numeral)
    moreover have "2 powi (- 149) \<le> \<bar>r\<bar>"
      using representable_min [of 24 "- 149" r] assms by (simp add: float_value_def)
    ultimately show False using b(2) by linarith
  qed
  ultimately show ?thesis by (simp add: e_def)
qed

lemma length_exp_text: "\<bar>e\<bar> < 100 \<Longrightarrow> length (exp_text e) = 4"
  using length_pad_nat [of "nat \<bar>e\<bar>" 2] by (simp add: exp_text_def nat_less_iff)

lemma length_float_g:
  assumes "float_value v"
  shows "length (float_g 3 v) \<le> 11"
proof (cases v)
  case (Fin r)
  show ?thesis
  proof (cases "r = 0")
    case False
    obtain e n where s: "sig_digits 3 \<bar>r\<bar> = (e, n)" by fastforce
    from sig_digits_bounds [OF _ _ s] False
    have n: "n < 10 ^ 3" and e: "e = ilog10 \<bar>r\<bar> \<or> e = ilog10 \<bar>r\<bar> + 1" by simp_all
    have fixed: "length (fixed_point d n) \<le> 3 + (if d = 0 then 0 else Suc d)" for d
      using n by (intro length_fixed_point) (auto intro: le_less_trans [OF div_le_dividend])
    have two: "length (fixed_point 2 n) \<le> 1 + Suc 2"
      using length_fixed_point [of n 2 1] n by simp
    have "length (strip_zeros (fixed_point (nat (3 - 1 - e)) n)) \<le> 10" if "- 4 \<le> e"
    proof -
      have "nat (3 - 1 - e) \<le> 6" using that by simp
      then show ?thesis
        using fixed [of "nat (3 - 1 - e)"] length_strip_zeros [of "fixed_point (nat (3 - 1 - e)) n"]
        by (auto split: if_splits)
    qed
    moreover have "length (strip_zeros (fixed_point 2 n) @ exp_text e) \<le> 8"
      using two length_strip_zeros [of "fixed_point 2 n"] ilog10_float [of r] e assms False Fin
      by (auto simp: length_exp_text)
    ultimately show ?thesis
      using length_sign_text(1) [of r] False by (auto simp: Fin s numeral_2_eq_2)
  qed (simp add: Fin)
qed simp_all

section \<open>The length of a formatted text\<close>

fun piece_fields :: "piece list \<Rightarrow> string list" where
  "piece_fields [] = []"
| "piece_fields (Lit c # ps) = piece_fields ps"
| "piece_fields (Field spec # ps) = spec # piece_fields ps"

text \<open>The specifications of the fields of a format string, in order.\<close>

definition format_fields :: "string \<Rightarrow> string list" where
  "format_fields f = (case format_pieces f of None \<Rightarrow> [] | Some ps \<Rightarrow> piece_fields ps)"

lemma format_pieces_length:
  "format_pieces s = Some ps \<Longrightarrow> length ps + length (piece_fields ps) \<le> length s"
proof (induction s arbitrary: ps rule: format_pieces.induct)
  case (1 s)
  have d: "length (dropWhile P xs) \<le> length xs" for P and xs :: string by (rule length_dropWhile_le)
  show ?case
  proof (cases s)
    case Nil
    with "1.prems" show ?thesis by (simp add: format_pieces.simps [of "[]"])
  next
    case (Cons c rest)
    note eq = trans [OF format_pieces.simps [of s, symmetric] "1.prems", unfolded Cons list.case]
    show ?thesis
    proof (cases "c = CHR ''{'' \<and> take 1 rest \<noteq> ''{''")
      case True
      let ?after = "dropWhile (\<lambda>d. d \<noteq> CHR ''}'') rest"
      from True eq obtain qs where q: "format_pieces (tl ?after) = Some qs" "?after \<noteq> []"
        and ps: "ps = Field (takeWhile (\<lambda>d. d \<noteq> CHR ''}'') rest) # qs"
        by (auto simp: Let_def split: if_splits)
      have "length qs + length (piece_fields qs) \<le> length (tl ?after)"
        using "1.IH"(2) [OF Cons _ _ refl refl q(2) q(1)] True by simp
      moreover have "0 < length ?after" by (rule length_greater_0_conv [THEN iffD2, OF q(2)])
      moreover have "length ?after \<le> length rest" by (rule d)
      ultimately have "Suc (length qs + length (piece_fields qs)) \<le> length rest"
        unfolding length_tl by linarith
      then show ?thesis by (simp add: ps Cons)
    next
      case False
      then have "\<exists>qs. ps = Lit c # qs \<and> length qs + length (piece_fields qs) \<le> length rest"
        using eq "1.IH"(1,3,4) Cons by (auto split: if_splits intro: le_trans [OF _ diff_le_self])
      then show ?thesis by (auto simp: Cons)
    qed
  qed
qed

text \<open>Each rendered argument within its own bound.\<close>

fun args_fit :: "(flt \<Rightarrow> string) \<Rightarrow> string list \<Rightarrow> fmt_arg list \<Rightarrow> nat list \<Rightarrow> bool" where
  "args_fit fmt [] args ns \<longleftrightarrow> True"
| "args_fit fmt (spec # specs) (a # args) (n # ns) \<longleftrightarrow>
    length (render_arg fmt spec a) \<le> n \<and> args_fit fmt specs args ns"
| "args_fit fmt (spec # specs) args ns \<longleftrightarrow> False"

lemma fill_length:
  "args_fit fmt (piece_fields ps) args ns \<Longrightarrow>
   length (fill fmt ps args) + length (piece_fields ps) \<le> length ps + sum_list ns"
proof (induction fmt ps args arbitrary: ns rule: fill.induct)
  case (3 fmt spec ps a args)
  then show ?case by (cases ns) fastforce+
qed auto

text \<open>
  The lemma the buffer sizes are derived with: a field takes at least two characters of the format
  string and an escape takes two for one, so the format string's own length bounds what it contributes.
\<close>

lemma format_length:
  assumes "args_fit fmt (format_fields f) args ns"
  shows "length (format_text fmt f args) + 2 * length (format_fields f) \<le> length f + sum_list ns"
proof (cases "format_pieces f")
  case None
  then show ?thesis by (simp add: format_text_def format_fields_def)
next
  case (Some ps)
  with fill_length [of fmt ps args ns] format_pieces_length [OF Some] assms show ?thesis
    by (simp add: format_text_def format_fields_def)
qed

text \<open>Formatting without a float in a \<open>{}\<close> field needs no shortest rendering.\<close>

definition format_plain :: "string \<Rightarrow> fmt_arg list \<Rightarrow> string" where
  "format_plain f args = format_text (\<lambda>_. []) f args"

lemma format_into_fits:
  assumes "args_fit fmt (format_fields f) args ns" "length f + sum_list ns \<le> N - 1"
  shows "format_into fmt N f args = format_text fmt f args"
  using format_length [OF assms(1)] assms(2) by (simp add: format_into_def Let_def)

lemma format_append_fits:
  assumes "args_fit fmt (format_fields f) args ns" "offset + length f + sum_list ns \<le> N - 1"
  shows "format_append fmt N buf offset f args = take offset buf @ format_text fmt f args"
proof -
  have "length (format_text fmt f args) \<le> N - 1 - offset"
    using format_length [OF assms(1)] assms(2) by linarith
  then show ?thesis by (simp add: format_append_def Let_def)
qed

lemma format_text_pieces: "format_pieces f = Some ps \<Longrightarrow> format_text fmt f args = fill fmt ps args"
  by (simp add: format_text_def)

lemma format_fields_pieces: "format_pieces f = Some ps \<Longrightarrow> format_fields f = piece_fields ps"
  by (simp add: format_fields_def)

end
