(* ===== verification/NetLink.thy ===== *)
theory NetLink
  imports Boot StdFormat
begin

unbundle bit_operations_syntax

text \<open>
  The transport seam (\<open>main/net/network_link.h\<close>, \<open>network_link.cpp\<close>) and its two implementations,
  OpenThread (\<open>openthread_link.cpp\<close>) and Wi-Fi (\<open>wifi_link.cpp\<close>). A link is a record of the seam's
  functions over the link's own state; the state of each implementation holds the file's static
  variables and what the radio stack currently reports, so the stacks are parameters. The locale
  \<open>link_windows\<close> is what a publish cycle relies on: the hooks that speed the radio up nest, and the end
  of the publish window always returns it to its idle state.
\<close>

section \<open>The seam\<close>

definition mqttScheme :: "bool \<Rightarrow> string" where
  "mqttScheme use_tls = (if use_tls then ''mqtts'' else ''mqtt'')"

record link_stats =
  rssiDbm :: "int option"
  uplinkRssiDbm :: "int option"
  linkQualityOut :: "u8 option"
  radioTxTimeUs :: "u32 option"
  radioRxTimeUs :: "u32 option"
  txRetries :: "u32 option"
  txCcaFailures :: "u32 option"
  txNoAckExpiry :: "u32 option"

definition no_link_stats :: link_stats where
  "no_link_stats = \<lparr>rssiDbm = None, uplinkRssiDbm = None, linkQualityOut = None, radioTxTimeUs = None,
     radioRxTimeUs = None, txRetries = None, txCcaFailures = None, txNoAckExpiry = None\<rparr>"

record 'l network_link =
  nl_start :: "'l \<Rightarrow> (esp_err \<times> 'l) option"
  waitForReady :: "u32 \<Rightarrow> 'l \<Rightarrow> bool \<times> 'l"
  brokerUri :: "string \<Rightarrow> nat \<Rightarrow> bool \<Rightarrow> 'l \<Rightarrow> string"
  waitForBrokerReachable :: "string \<Rightarrow> u32 \<Rightarrow> 'l \<Rightarrow> bool \<times> 'l"
  onPublishWindowBegin :: "'l \<Rightarrow> 'l"
  onPublishWindowEnd :: "'l \<Rightarrow> 'l"
  onOtaWindowBegin :: "'l \<Rightarrow> 'l"
  onOtaWindowEnd :: "'l \<Rightarrow> 'l"
  onSessionClosing :: "'l \<Rightarrow> 'l"
  onSessionClosed :: "'l \<Rightarrow> 'l"
  link_refresh :: "'l \<Rightarrow> 'l"
  setTxPowerDbm :: "int \<Rightarrow> 'l \<Rightarrow> esp_err"
  readLinkStats :: "'l \<Rightarrow> link_stats option \<times> 'l"

record network_link_config =
  cfg_ot_tlv_hex :: string
  cfg_wifi_ssid :: string
  cfg_wifi_password :: string
  cfg_wifi_address_family :: string

section \<open>OpenThread: state\<close>

datatype device_role = RoleDisabled | RoleDetached | RoleChild | RoleRouter | RoleLeader

text \<open>A route of the network data: NAT64 flag, the 16 bytes of its prefix, the prefix length.\<close>

record ot_route =
  rt_nat64 :: bool
  rt_prefix :: "u8 list"
  rt_length :: nat

record counter_snapshot =
  radio_tx_time_us :: u64
  radio_rx_time_us :: u64
  tx_retries :: u32
  tx_cca_failures :: u32
  tx_no_ack_expiry :: u32
  snap_valid :: bool

definition no_counters :: counter_snapshot where
  "no_counters = \<lparr>radio_tx_time_us = 0, radio_rx_time_us = 0, tx_retries = 0, tx_cca_failures = 0,
     tx_no_ack_expiry = 0, snap_valid = False\<rparr>"

text \<open>
  What the OpenThread instance reports: the role, the routes, the parent (extended address and link
  quality out), the last RSSI of the parent, the radio time and MAC counters, and how it answers the
  calls that can fail.
\<close>

record ot_stack =
  ot_role :: device_role
  ot_routes :: "ot_route list"
  ot_parent :: "(u8 list \<times> u8) option"
  ot_parent_rssi :: "int option"
  ot_radio :: "(u64 \<times> u64) option"
  ot_mac :: "(u32 \<times> u32 \<times> u32) option"
  ot_start_err :: esp_err
  ot_auto_start_err :: esp_err
  ot_tx_power_ok :: "int \<Rightarrow> bool"

text \<open>
  The link's state. \<open>ot_arrivals t\<close>: the changes of the stack that are notified while a task waits for an
  event bit for up to \<open>t\<close> ms.
\<close>

record ot_link =
  s_groups :: bool
  s_attached :: bool
  s_prefix_known :: bool
  s_route_known :: bool
  s_nat64_prefix :: "u8 list"
  s_ot_tlv_hex :: string
  s_uplink_rssi_dbm :: int
  s_prev_counters :: counter_snapshot
  poll_period_ms :: u32
  probing_parent :: "u8 list option"
  ot :: ot_stack
  ot_arrivals :: "u32 \<Rightarrow> ot_stack list"

definition POLL_FAST_MS :: u32 where "POLL_FAST_MS = 500"
definition POLL_OTA_MS :: u32 where "POLL_OTA_MS = 50"
definition POLL_CLOSE_MS :: u32 where "POLL_CLOSE_MS = 40"
definition POLL_SLOW_MS :: u32 where "POLL_SLOW_MS = 70000"

definition UPLINK_RSSI_NONE :: int where "UPLINK_RSSI_NONE = - 32768"

text \<open>The well-known prefix \<open>64:ff9b::/96\<close>.\<close>

definition wellknown_nat64_prefix :: "u8 list" where
  "wellknown_nat64_prefix = [0x00, 0x64, 0xff, 0x9b, 0, 0, 0, 0, 0, 0, 0, 0]"

section \<open>OpenThread: operations\<close>

definition set_poll_period :: "u32 \<Rightarrow> ot_link \<Rightarrow> ot_link" where
  "set_poll_period ms s = s\<lparr>poll_period_ms := ms\<rparr>"

definition ot_set_tx_power_dbm :: "int \<Rightarrow> ot_link \<Rightarrow> esp_err" where
  "ot_set_tx_power_dbm dbm s = (if ot_tx_power_ok (ot s) dbm then ESP_OK else ESP_FAIL)"

definition parent_link_local_address :: "ot_link \<Rightarrow> u8 list option" where
  "parent_link_local_address s =
    (case ot_parent (ot s) of
       None \<Rightarrow> None
     | Some (ext, _) \<Rightarrow>
         Some ([0xfe, 0x80, 0, 0, 0, 0, 0, 0] @ (case ext of [] \<Rightarrow> [] | b # bs \<Rightarrow> (b XOR 0x02) # bs)))"

text \<open>The metrics of a report: the RSSI when the report carries one.\<close>

definition enh_ack_report_cb :: "int option \<Rightarrow> ot_link \<Rightarrow> ot_link" where
  "enh_ack_report_cb metrics s = (case metrics of None \<Rightarrow> s | Some v \<Rightarrow> s\<lparr>s_uplink_rssi_dbm := v\<rparr>)"

definition register_enh_ack_probing :: "ot_link \<Rightarrow> ot_link" where
  "register_enh_ack_probing s =
    s\<lparr>s_uplink_rssi_dbm := UPLINK_RSSI_NONE,
      probing_parent := (case parent_link_local_address s of None \<Rightarrow> probing_parent s | Some a \<Rightarrow> Some a)\<rparr>"

definition counters_now :: "ot_stack \<Rightarrow> counter_snapshot" where
  "counters_now st =
    (let now = no_counters\<lparr>snap_valid := True\<rparr>;
         now = (case ot_radio st of None \<Rightarrow> now
                | Some (tx, rx) \<Rightarrow> now\<lparr>radio_tx_time_us := tx, radio_rx_time_us := rx\<rparr>)
     in (case ot_mac st of None \<Rightarrow> now
         | Some (retry, cca, expiry) \<Rightarrow>
             now\<lparr>tx_retries := retry, tx_cca_failures := cca, tx_no_ack_expiry := expiry\<rparr>))"

definition read_link_stats :: "ot_link \<Rightarrow> link_stats option \<times> ot_link" where
  "read_link_stats s =
    (let st = ot s;
         stats = no_link_stats\<lparr>rssiDbm := ot_parent_rssi st, linkQualityOut := map_option snd (ot_parent st)\<rparr>;
         now = counters_now st;
         prev = s_prev_counters s;
         stats =
           (if snap_valid prev \<and> ot_radio st \<noteq> None then
              stats\<lparr>radioTxTimeUs := Some (ucast (radio_tx_time_us now - radio_tx_time_us prev)),
                    radioRxTimeUs := Some (ucast (radio_rx_time_us now - radio_rx_time_us prev))\<rparr>
            else stats);
         stats =
           (if snap_valid prev \<and> ot_mac st \<noteq> None then
              stats\<lparr>txRetries := Some (tx_retries now - tx_retries prev),
                    txCcaFailures := Some (tx_cca_failures now - tx_cca_failures prev),
                    txNoAckExpiry := Some (tx_no_ack_expiry now - tx_no_ack_expiry prev)\<rparr>
            else stats);
         s = s\<lparr>s_prev_counters := now\<rparr>;
         stats =
           (if s_uplink_rssi_dbm s \<noteq> UPLINK_RSSI_NONE then stats\<lparr>uplinkRssiDbm := Some (s_uplink_rssi_dbm s)\<rparr>
            else stats)
     in (if rssiDbm stats = None \<and> linkQualityOut stats = None \<and> radioTxTimeUs stats = None then None
         else Some stats, s))"

definition setNat64Prefix :: "u8 list \<Rightarrow> ot_link \<Rightarrow> ot_link" where
  "setNat64Prefix p s =
    s\<lparr>s_nat64_prefix := take 12 p, s_prefix_known := s_prefix_known s \<or> s_groups s\<rparr>"

text \<open>The loop over the routes, which both readers of the network data share.\<close>

fun scan_routes :: "ot_route list \<Rightarrow> ot_link \<Rightarrow> ot_link" where
  "scan_routes [] s = s"
| "scan_routes (r # rs) s =
    scan_routes rs (if rt_nat64 r \<and> rt_length r = 96 then setNat64Prefix (rt_prefix r) s else s)"

definition refresh_nat64_prefix :: "ot_link \<Rightarrow> ot_link" where
  "refresh_nat64_prefix s =
    (let any = (ot_routes (ot s) \<noteq> []);
         s = scan_routes (ot_routes (ot s)) s
     in if any \<and> s_groups s then s\<lparr>s_route_known := True\<rparr> else s)"

definition log_thread_network_info :: "ot_link \<Rightarrow> ot_link" where
  "log_thread_network_info s =
    (let any = (ot_routes (ot s) \<noteq> []);
         s = scan_routes (ot_routes (ot s)) s
     in if any then (if s_groups s then s\<lparr>s_route_known := True\<rparr> else s) else s)"

definition mark_attached :: "bool \<Rightarrow> ot_link \<Rightarrow> ot_link" where
  "mark_attached b s = (if s_groups s then s\<lparr>s_attached := b\<rparr> else s)"

definition process_state_change :: "ot_link \<Rightarrow> ot_link" where
  "process_state_change s =
    (case ot_role (ot s) of
       RoleDisabled \<Rightarrow> mark_attached False s
     | RoleDetached \<Rightarrow> mark_attached False s
     | RoleChild \<Rightarrow> mark_attached True (register_enh_ack_probing (log_thread_network_info s))
     | RoleRouter \<Rightarrow> mark_attached True s
     | RoleLeader \<Rightarrow> mark_attached True s)"

text \<open>A wait for an event bit: the notifications that arrive are handled, then the bit is looked at.\<close>

definition state_changed :: "ot_stack \<Rightarrow> ot_link \<Rightarrow> ot_link" where
  "state_changed st s = process_state_change (s\<lparr>ot := st\<rparr>)"

definition ot_wait :: "(ot_link \<Rightarrow> bool) \<Rightarrow> u32 \<Rightarrow> ot_link \<Rightarrow> bool \<times> ot_link" where
  "ot_wait known timeout_ms s =
    (if \<not> s_groups s then (False, s)
     else (let s = (if known s then s else fold state_changed (ot_arrivals s timeout_ms) s) in (known s, s)))"

definition wait_for_ot_attached :: "u32 \<Rightarrow> ot_link \<Rightarrow> bool \<times> ot_link" where
  "wait_for_ot_attached timeout_ms s = ot_wait s_attached timeout_ms s"

definition ot_waitForBrokerReachable :: "string \<Rightarrow> u32 \<Rightarrow> ot_link \<Rightarrow> bool \<times> ot_link" where
  "ot_waitForBrokerReachable broker_address timeout_ms s =
    (if looksLikeIpv6 broker_address then ot_wait s_route_known timeout_ms s
     else ot_wait s_prefix_known timeout_ms s)"

text \<open>\<open>ip6_text\<close> is OpenThread's \<open>otIp6AddressToString\<close>.\<close>

definition make_nat64_uri :: "(u8 list \<Rightarrow> string) \<Rightarrow> string \<Rightarrow> nat \<Rightarrow> bool \<Rightarrow> ot_link \<Rightarrow> string" where
  "make_nat64_uri ip6_text ipv4 port use_tls s =
    (case parseIpv4 ipv4 of
       None \<Rightarrow> []
     | Some octets \<Rightarrow>
         format_plain ''{}://[{}]:{}''
           [AStr (mqttScheme use_tls), AStr (ip6_text (s_nat64_prefix s @ octets)), AInt (int port)])"

definition ot_brokerUri :: "(u8 list \<Rightarrow> string) \<Rightarrow> string \<Rightarrow> nat \<Rightarrow> bool \<Rightarrow> ot_link \<Rightarrow> string" where
  "ot_brokerUri ip6_text broker_address port use_tls s =
    (if looksLikeIpv6 broker_address then
       format_plain ''{}://[{}]:{}'' [AStr (mqttScheme use_tls), AStr broker_address, AInt (int port)]
     else make_nat64_uri ip6_text broker_address port use_tls s)"

text \<open>
  \<open>max_len\<close> is the largest dataset OpenThread takes. A dataset that does not parse leaves the stack
  unstarted; the automatic start aborts the firmware when it fails, which \<open>None\<close> stands for.
\<close>

definition configure_ot_network :: "nat \<Rightarrow> string \<Rightarrow> ot_link \<Rightarrow> ot_link option" where
  "configure_ot_network max_len ot_tlv_hex s =
    (case parse_dataset_tlvs max_len ot_tlv_hex of
       None \<Rightarrow> Some s
     | Some _ \<Rightarrow>
         (let s = s\<lparr>poll_period_ms := POLL_SLOW_MS\<rparr> in
          if ot_auto_start_err (ot s) \<noteq> ESP_OK then None else Some s))"

definition ot_start :: "nat \<Rightarrow> ot_link \<Rightarrow> (esp_err \<times> ot_link) option" where
  "ot_start max_len s =
    (let s = s\<lparr>s_groups := True, s_attached := False, s_prefix_known := False, s_route_known := False\<rparr> in
     if ot_start_err (ot s) \<noteq> ESP_OK then Some (ot_start_err (ot s), s)
     else map_option (Pair ESP_OK) (configure_ot_network max_len (s_ot_tlv_hex s) s))"

definition makeThreadLink ::
  "nat \<Rightarrow> (u8 list \<Rightarrow> string) \<Rightarrow> network_link_config \<Rightarrow> ot_link \<Rightarrow> ot_link network_link \<times> ot_link" where
  "makeThreadLink max_len ip6_text cfg s =
    (\<lparr>nl_start = ot_start max_len,
      waitForReady = wait_for_ot_attached,
      brokerUri = ot_brokerUri ip6_text,
      waitForBrokerReachable = ot_waitForBrokerReachable,
      onPublishWindowBegin = set_poll_period POLL_FAST_MS,
      onPublishWindowEnd = set_poll_period POLL_SLOW_MS,
      onOtaWindowBegin = set_poll_period POLL_OTA_MS,
      onOtaWindowEnd = set_poll_period POLL_FAST_MS,
      onSessionClosing = set_poll_period POLL_CLOSE_MS,
      onSessionClosed = set_poll_period POLL_FAST_MS,
      link_refresh = refresh_nat64_prefix,
      setTxPowerDbm = ot_set_tx_power_dbm,
      readLinkStats = read_link_stats\<rparr>,
     s\<lparr>s_ot_tlv_hex := cfg_ot_tlv_hex cfg\<rparr>)"

section \<open>Wi-Fi\<close>

text \<open>The driver: the results of the start sequence and of the calls, and the access point's RSSI.\<close>

record wifi_driver =
  wd_init_err :: esp_err
  wd_register_err :: esp_err
  wd_mode_err :: esp_err
  wd_config_err :: esp_err
  wd_start_err :: esp_err
  wd_tx_power_err :: "int \<Rightarrow> esp_err"
  wd_ap_rssi :: "int option"

datatype wifi_action = EspWifiConnect | DhcpcStop | CreateIp6LinkLocal | SetStaConfig "u8 list" "u8 list"

datatype wifi_event = StaStart | StaConnected | StaDisconnected | StaGotIp | GotIp6 | OtherEvent

record wifi_link =
  s_wifi_eg :: bool
  s_got_ipv4 :: bool
  s_got_ipv6 :: bool
  s_wifi_ssid :: "u8 list"
  s_wifi_password :: "u8 list"
  s_wifi_address_family :: string
  s_wifi_acts :: "wifi_action list"
  wd :: wifi_driver
  wifi_arrivals :: "u32 \<Rightarrow> wifi_event list"

definition wifi_act :: "wifi_action list \<Rightarrow> wifi_link \<Rightarrow> wifi_link" where
  "wifi_act acts s = s\<lparr>s_wifi_acts := s_wifi_acts s @ acts\<rparr>"

fun wifi_event_handler :: "wifi_event \<Rightarrow> wifi_link \<Rightarrow> wifi_link" where
  "wifi_event_handler StaStart s = wifi_act [EspWifiConnect] s"
| "wifi_event_handler StaConnected s =
    (if s_wifi_address_family s = ''ipv6'' then wifi_act [DhcpcStop, CreateIp6LinkLocal] s else s)"
| "wifi_event_handler StaDisconnected s =
    wifi_act [EspWifiConnect]
      (if s_wifi_eg s then
         (if s_wifi_address_family s = ''ipv6'' then s\<lparr>s_got_ipv6 := False\<rparr> else s\<lparr>s_got_ipv4 := False\<rparr>)
       else s)"
| "wifi_event_handler StaGotIp s = (if s_wifi_eg s then s\<lparr>s_got_ipv4 := True\<rparr> else s)"
| "wifi_event_handler GotIp6 s = (if s_wifi_eg s then s\<lparr>s_got_ipv6 := True\<rparr> else s)"
| "wifi_event_handler OtherEvent s = s"

text \<open>
  The field of \<open>dstCapacity\<close> bytes after the copy: it was zero, so what the copy leaves is zero.
\<close>

definition copyBounded :: "nat \<Rightarrow> u8 list \<Rightarrow> u8 list" where
  "copyBounded dstCapacity src =
    (let n = min (length src) (dstCapacity - 1) in take n src @ replicate (dstCapacity - n) 0)"

text \<open>\<open>None\<close>: an \<open>ESP_ERROR_CHECK\<close> of the sequence aborts the firmware.\<close>

definition wifi_start :: "wifi_link \<Rightarrow> (esp_err \<times> wifi_link) option" where
  "wifi_start s =
    (let s = s\<lparr>s_wifi_eg := True, s_got_ipv4 := False, s_got_ipv6 := False\<rparr>; d = wd s;
         configured = wifi_act [SetStaConfig (copyBounded 32 (s_wifi_ssid s)) (copyBounded 64 (s_wifi_password s))] s
     in if wd_init_err d \<noteq> ESP_OK then Some (wd_init_err d, s)
        else if wd_register_err d \<noteq> ESP_OK then None
        else if wd_mode_err d \<noteq> ESP_OK then Some (wd_mode_err d, s)
        else if wd_config_err d \<noteq> ESP_OK then Some (wd_config_err d, configured)
        else if wd_start_err d \<noteq> ESP_OK then Some (wd_start_err d, configured)
        else Some (ESP_OK, configured))"

definition family_ready :: "wifi_link \<Rightarrow> bool" where
  "family_ready s = (if s_wifi_address_family s = ''ipv6'' then s_got_ipv6 s else s_got_ipv4 s)"

definition waitForWifiReady :: "u32 \<Rightarrow> wifi_link \<Rightarrow> bool \<times> wifi_link" where
  "waitForWifiReady timeout_ms s =
    (if \<not> s_wifi_eg s then (False, s)
     else
       (let s = (if family_ready s then s else fold wifi_event_handler (wifi_arrivals s timeout_ms) s)
        in (family_ready s, s)))"

definition wifi_brokerUri :: "string \<Rightarrow> nat \<Rightarrow> bool \<Rightarrow> wifi_link \<Rightarrow> string" where
  "wifi_brokerUri broker_address port use_tls s =
    (let args = [AStr (mqttScheme use_tls), AStr broker_address, AInt (int port)] in
     if looksLikeIpv6 broker_address then format_plain ''{}://[{}]:{}'' args
     else format_plain ''{}://{}:{}'' args)"

definition wifi_waitForBrokerReachable :: "string \<Rightarrow> u32 \<Rightarrow> wifi_link \<Rightarrow> bool \<times> wifi_link" where
  "wifi_waitForBrokerReachable broker_address timeout_ms s = (True, s)"

definition wifi_noop :: "wifi_link \<Rightarrow> wifi_link" where
  "wifi_noop s = s"

definition wifi_refresh :: "wifi_link \<Rightarrow> wifi_link" where
  "wifi_refresh s = wifi_act [EspWifiConnect] s"

definition wifi_set_tx_power_dbm :: "int \<Rightarrow> wifi_link \<Rightarrow> esp_err" where
  "wifi_set_tx_power_dbm dbm s = wd_tx_power_err (wd s) (to_i8 (dbm * 4))"

definition readApLinkStats :: "wifi_link \<Rightarrow> link_stats option \<times> wifi_link" where
  "readApLinkStats s =
    (case wd_ap_rssi (wd s) of None \<Rightarrow> (None, s) | Some r \<Rightarrow> (Some (no_link_stats\<lparr>rssiDbm := Some r\<rparr>), s))"

definition text_bytes :: "string \<Rightarrow> u8 list" where
  "text_bytes = map (\<lambda>c. of_nat (char_code c))"

definition makeWifiLink :: "network_link_config \<Rightarrow> wifi_link \<Rightarrow> wifi_link network_link \<times> wifi_link" where
  "makeWifiLink cfg s =
    (\<lparr>nl_start = wifi_start,
      waitForReady = waitForWifiReady,
      brokerUri = wifi_brokerUri,
      waitForBrokerReachable = wifi_waitForBrokerReachable,
      onPublishWindowBegin = wifi_noop,
      onPublishWindowEnd = wifi_noop,
      onOtaWindowBegin = wifi_noop,
      onOtaWindowEnd = wifi_noop,
      onSessionClosing = wifi_noop,
      onSessionClosed = wifi_noop,
      link_refresh = wifi_refresh,
      setTxPowerDbm = wifi_set_tx_power_dbm,
      readLinkStats = readApLinkStats\<rparr>,
     s\<lparr>s_wifi_ssid := text_bytes (cfg_wifi_ssid cfg), s_wifi_password := text_bytes (cfg_wifi_password cfg),
       s_wifi_address_family := cfg_wifi_address_family cfg\<rparr>)"

section \<open>The dispatcher\<close>

text \<open>The static variables of both files.\<close>

record net =
  n_ot :: ot_link
  n_wifi :: wifi_link

definition lift_link :: "('s \<Rightarrow> 'l) \<Rightarrow> (('l \<Rightarrow> 'l) \<Rightarrow> 's \<Rightarrow> 's) \<Rightarrow> 'l network_link \<Rightarrow> 's network_link" where
  "lift_link get upd l =
    \<lparr>nl_start = (\<lambda>s. map_option (\<lambda>(e, x). (e, upd (\<lambda>_. x) s)) (nl_start l (get s))),
     waitForReady = (\<lambda>t s. let (ok, x) = waitForReady l t (get s) in (ok, upd (\<lambda>_. x) s)),
     brokerUri = (\<lambda>a p tls s. brokerUri l a p tls (get s)),
     waitForBrokerReachable =
       (\<lambda>a t s. let (ok, x) = waitForBrokerReachable l a t (get s) in (ok, upd (\<lambda>_. x) s)),
     onPublishWindowBegin = upd (onPublishWindowBegin l),
     onPublishWindowEnd = upd (onPublishWindowEnd l),
     onOtaWindowBegin = upd (onOtaWindowBegin l),
     onOtaWindowEnd = upd (onOtaWindowEnd l),
     onSessionClosing = upd (onSessionClosing l),
     onSessionClosed = upd (onSessionClosed l),
     link_refresh = upd (link_refresh l),
     setTxPowerDbm = (\<lambda>d s. setTxPowerDbm l d (get s)),
     readLinkStats = (\<lambda>s. let (r, x) = readLinkStats l (get s) in (r, upd (\<lambda>_. x) s))\<rparr>"

definition makeNetworkLink ::
  "nat \<Rightarrow> (u8 list \<Rightarrow> string) \<Rightarrow> TransportKind \<Rightarrow> network_link_config \<Rightarrow> net \<Rightarrow> net network_link \<times> net" where
  "makeNetworkLink max_len ip6_text kind cfg s =
    (case kind of
       Wifi \<Rightarrow> (let (l, w) = makeWifiLink cfg (n_wifi s) in (lift_link n_wifi n_wifi_update l, s\<lparr>n_wifi := w\<rparr>))
     | Thread \<Rightarrow>
         (let (l, t) = makeThreadLink max_len ip6_text cfg (n_ot s)
          in (lift_link n_ot n_ot_update l, s\<lparr>n_ot := t\<rparr>)))"

section \<open>The windows of a publish cycle\<close>

text \<open>
  What the publish cycle relies on. \<open>idle\<close> is the radio's resting state and \<open>window\<close> its state in a
  publish window; the OTA and close hooks nest in a window and return to it.
\<close>

locale link_windows =
  fixes l :: "'l network_link" and idle window :: "'l \<Rightarrow> bool"
  assumes window_begin: "window (onPublishWindowBegin l s)"
    and window_end: "idle (onPublishWindowEnd l s)"
    and ota_end: "window (onOtaWindowEnd l s)"
    and session_closed: "window (onSessionClosed l s)"
    and stats_window: "window s \<Longrightarrow> window (snd (readLinkStats l s))"
    and reachable_window: "window s \<Longrightarrow> window (snd (waitForBrokerReachable l a t s))"
begin

text \<open>The hooks of a window in any order, an OTA window or a session close ending before the next begins.\<close>

lemma nested_hooks_stay_in_window:
  "window (fold (\<lambda>ota s. if ota then onOtaWindowEnd l (onOtaWindowBegin l s)
     else onSessionClosed l (onSessionClosing l s)) hooks (onPublishWindowBegin l s))"
  by (rule fold_invariant [where P = window and Q = "\<lambda>_. True"])
    (auto intro: window_begin ota_end session_closed)

end

definition polls_every :: "u32 \<Rightarrow> ot_link \<Rightarrow> bool" where
  "polls_every ms s = (poll_period_ms s = ms)"

lemma scan_routes_frame: "\<exists>p k. scan_routes rs s = s\<lparr>s_nat64_prefix := p, s_prefix_known := k\<rparr>"
proof (induction rs arbitrary: s)
  case Nil
  show ?case by (rule exI [of _ "s_nat64_prefix s"], rule exI [of _ "s_prefix_known s"]) simp
next
  case (Cons r rs)
  from Cons [of "if rt_nat64 r \<and> rt_length r = 96 then setNat64Prefix (rt_prefix r) s else s"]
  obtain p k where "scan_routes (r # rs) s =
      (if rt_nat64 r \<and> rt_length r = 96 then setNat64Prefix (rt_prefix r) s else s)
        \<lparr>s_nat64_prefix := p, s_prefix_known := k\<rparr>"
    by auto
  then have "scan_routes (r # rs) s = s\<lparr>s_nat64_prefix := p, s_prefix_known := k\<rparr>"
    by (simp add: setNat64Prefix_def split: if_splits)
  then show ?case by blast
qed

lemma scan_routes_poll [simp]:
  "poll_period_ms (scan_routes rs s) = poll_period_ms s" "s_groups (scan_routes rs s) = s_groups s"
  "ot (scan_routes rs s) = ot s"
  using scan_routes_frame [of rs s] by auto

lemma state_changed_poll [simp]:
  "poll_period_ms (state_changed st s) = poll_period_ms s" "s_groups (state_changed st s) = s_groups s"
  by (simp_all add: state_changed_def process_state_change_def mark_attached_def register_enh_ack_probing_def
      log_thread_network_info_def Let_def split: device_role.split)

lemma ot_wait_poll [simp]: "poll_period_ms (snd (ot_wait b t s)) = poll_period_ms s"
proof -
  have "poll_period_ms (fold state_changed sts s) = poll_period_ms s" for sts
    by (induction sts arbitrary: s) simp_all
  then show ?thesis by (simp add: ot_wait_def Let_def)
qed

lemma read_link_stats_poll [simp]: "poll_period_ms (snd (read_link_stats s)) = poll_period_ms s"
  by (simp add: read_link_stats_def Let_def)

lemma thread_windows:
  "link_windows (fst (makeThreadLink n f cfg s0)) (polls_every POLL_SLOW_MS) (polls_every POLL_FAST_MS)"
  by unfold_locales
    (auto simp: makeThreadLink_def polls_every_def set_poll_period_def ot_waitForBrokerReachable_def)

interpretation thread: link_windows "fst (makeThreadLink n f cfg s0)" "polls_every POLL_SLOW_MS" "polls_every POLL_FAST_MS"
  for n f cfg s0
  by (rule thread_windows)

interpretation wifi: link_windows "fst (makeWifiLink cfg w0)" "\<lambda>_. True" "\<lambda>_. True"
  for cfg w0
  by unfold_locales simp_all

text \<open>A link lifted to the state of both files keeps the contract, so the dispatcher's link has it.\<close>

lemma lift_link_windows:
  fixes get :: "'s \<Rightarrow> 'l"
  assumes "link_windows l idle window" and get: "\<And>f s. get (upd f s) = f (get s)"
  shows "link_windows (lift_link get upd l) (\<lambda>s. idle (get s)) (\<lambda>s. window (get s))"
proof -
  have snd_let: "get (snd (case p of (r, x) \<Rightarrow> (r, upd (\<lambda>_. x) s))) = snd p" for p :: "'x \<times> 'l" and s
    by (simp add: get split_beta)
  show ?thesis
    using link_windows.window_begin [OF assms(1)] link_windows.window_end [OF assms(1)]
      link_windows.ota_end [OF assms(1)] link_windows.session_closed [OF assms(1)]
      link_windows.stats_window [OF assms(1)] link_windows.reachable_window [OF assms(1)]
    by (intro link_windows.intro) (simp_all add: lift_link_def get snd_let)
qed

definition link_idle :: "TransportKind \<Rightarrow> net \<Rightarrow> bool" where
  "link_idle kind s \<longleftrightarrow> kind = Thread \<longrightarrow> polls_every POLL_SLOW_MS (n_ot s)"

definition link_in_window :: "TransportKind \<Rightarrow> net \<Rightarrow> bool" where
  "link_in_window kind s \<longleftrightarrow> kind = Thread \<longrightarrow> polls_every POLL_FAST_MS (n_ot s)"

lemma makeNetworkLink_windows:
  "link_windows (fst (makeNetworkLink n f kind cfg s)) (link_idle kind) (link_in_window kind)"
proof (cases kind)
  case Thread
  have "link_windows (lift_link n_ot n_ot_update (fst (makeThreadLink n f cfg (n_ot s))))
      (\<lambda>s. polls_every POLL_SLOW_MS (n_ot s)) (\<lambda>s. polls_every POLL_FAST_MS (n_ot s))"
    by (rule lift_link_windows [OF thread_windows]) simp
  then show ?thesis
    by (simp add: Thread makeNetworkLink_def link_idle_def [abs_def] link_in_window_def [abs_def] split_beta)
next
  case Wifi
  have "link_windows (lift_link n_wifi n_wifi_update (fst (makeWifiLink cfg (n_wifi s)))) (\<lambda>s. True) (\<lambda>s. True)"
    by (rule lift_link_windows [OF wifi.link_windows_axioms]) simp
  then show ?thesis
    by (simp add: Wifi makeNetworkLink_def link_idle_def [abs_def] link_in_window_def [abs_def] split_beta)
qed

interpretation net: link_windows "fst (makeNetworkLink n f kind cfg s)" "link_idle kind" "link_in_window kind"
  for n f kind cfg s
  by (rule makeNetworkLink_windows)

section \<open>The NAT64 prefix\<close>

definition nat64_route :: "ot_route \<Rightarrow> bool" where
  "nat64_route r \<longleftrightarrow> rt_nat64 r \<and> rt_length r = 96"

lemma scan_routes_prefix:
  "s_prefix_known (scan_routes rs s) \<Longrightarrow>
   (\<exists>r \<in> set rs. nat64_route r \<and> s_nat64_prefix (scan_routes rs s) = take 12 (rt_prefix r)) \<or>
   s_prefix_known s \<and> s_nat64_prefix (scan_routes rs s) = s_nat64_prefix s"
proof (induction rs arbitrary: s)
  case (Cons r rs)
  from Cons.IH Cons.prems show ?case
    by (fastforce simp: nat64_route_def setNat64Prefix_def split: if_splits)
qed simp

text \<open>
  What happens to the link after its start, with the set of the routes the stack has reported so far.
\<close>

inductive thread_run :: "ot_link \<Rightarrow> ot_route set \<Rightarrow> bool" where
  started: "ot_start n s0 = Some (e, s) \<Longrightarrow> thread_run s {}"
| changed: "thread_run s seen \<Longrightarrow> thread_run (state_changed st s) (seen \<union> set (ot_routes st))"
| refreshed: "thread_run s seen \<Longrightarrow> thread_run (refresh_nat64_prefix (s\<lparr>ot := st\<rparr>)) (seen \<union> set (ot_routes st))"
| polled: "thread_run s seen \<Longrightarrow> thread_run (set_poll_period ms s) seen"
| read: "thread_run s seen \<Longrightarrow> thread_run (snd (read_link_stats s)) seen"
| reported: "thread_run s seen \<Longrightarrow> thread_run (enh_ack_report_cb m s) seen"

definition prefix_learned :: "ot_link \<Rightarrow> ot_route set \<Rightarrow> bool" where
  "prefix_learned s seen \<longleftrightarrow>
    (s_prefix_known s \<longrightarrow> (\<exists>r \<in> seen. nat64_route r \<and> s_nat64_prefix s = take 12 (rt_prefix r)))"

lemma scan_prefix_learned:
  "prefix_learned s seen \<Longrightarrow> prefix_learned (scan_routes rs s) (seen \<union> set rs)"
  using scan_routes_prefix [of rs s] by (auto simp: prefix_learned_def)

lemma prefix_learned_mono: "prefix_learned s seen \<Longrightarrow> seen \<subseteq> seen' \<Longrightarrow> prefix_learned s seen'"
  by (auto simp: prefix_learned_def)

lemma thread_run_prefix: "thread_run s seen \<Longrightarrow> prefix_learned s seen"
proof (induction rule: thread_run.induct)
  case (started n s0 e s)
  then show ?case
    by (auto simp: prefix_learned_def ot_start_def configure_ot_network_def Let_def split: if_splits option.splits)
next
  case (changed s seen st)
  from scan_prefix_learned [of "s\<lparr>ot := st\<rparr>" seen "ot_routes st"] changed.IH
  have "prefix_learned (scan_routes (ot_routes st) (s\<lparr>ot := st\<rparr>)) (seen \<union> set (ot_routes st))"
    by (simp add: prefix_learned_def)
  moreover have "prefix_learned (s\<lparr>ot := st\<rparr>) (seen \<union> set (ot_routes st))"
    using prefix_learned_mono [OF changed.IH] by (simp add: prefix_learned_def)
  ultimately show ?case using changed.IH
    by (simp add: state_changed_def process_state_change_def mark_attached_def register_enh_ack_probing_def
        log_thread_network_info_def Let_def prefix_learned_def split: device_role.split)
next
  case (refreshed s seen st)
  from scan_prefix_learned [of "s\<lparr>ot := st\<rparr>" seen "ot_routes st"] refreshed.IH
  have "prefix_learned (scan_routes (ot_routes st) (s\<lparr>ot := st\<rparr>)) (seen \<union> set (ot_routes st))"
    by (simp add: prefix_learned_def)
  then show ?case by (simp add: refresh_nat64_prefix_def Let_def prefix_learned_def)
qed (simp_all add: prefix_learned_def set_poll_period_def read_link_stats_def enh_ack_report_cb_def Let_def
    split: option.split)

text \<open>The host between the brackets of a URI.\<close>

definition uri_host :: "string \<Rightarrow> string" where
  "uri_host uri = takeWhile (\<lambda>c. c \<noteq> CHR '']'') (tl (dropWhile (\<lambda>c. c \<noteq> CHR ''['') uri))"

lemma bracketed_uri:
  "format_plain ''{}://[{}]:{}'' [AStr (mqttScheme tls), AStr host, AInt port] =
   mqttScheme tls @ ''://['' @ host @ '']:'' @ render_int port"
proof -
  have "format_pieces ''{}://[{}]:{}'' = Some ([Field ''''] @ map Lit ''://['' @ [Field ''''] @ map Lit '']:'' @ [Field ''''])"
    by code_simp
  then show ?thesis by (simp add: format_plain_def format_text_pieces)
qed

lemma uri_host_bracketed:
  assumes "CHR '']'' \<notin> set host"
  shows "uri_host (mqttScheme tls @ ''://['' @ host @ '']:'' @ rest) = host"
proof -
  have "takeWhile (\<lambda>c. c \<noteq> CHR '']'') (host @ CHR '']'' # xs) = host" for xs
    using assms by (subst takeWhile_append2) auto
  then show ?thesis by (simp add: uri_host_def mqttScheme_def)
qed

lemma render_ipv4_family: "\<not> looksLikeIpv6 (render_ipv4 os)"
proof -
  have "CHR '':'' \<notin> set (render_nat n)" for n
    using render_nat_digits [of n] by (auto simp: list_all_iff is_digit_def char_code_def)
  then show ?thesis by (auto simp: looksLikeIpv6_def render_ipv4_def split: list.split)
qed

section \<open>Radio counters\<close>

text \<open>One reading per reported stack, as the publish windows make them.\<close>

fun stats_reads :: "ot_stack list \<Rightarrow> ot_link \<Rightarrow> link_stats option list \<times> ot_link" where
  "stats_reads [] s = ([], s)"
| "stats_reads (st # sts) s =
    (let (r, s) = read_link_stats (s\<lparr>ot := st\<rparr>); (rs, s) = stats_reads sts s in (r # rs, s))"

text \<open>The five counters of a stack that reports both groups.\<close>

definition has_counters :: "ot_stack \<Rightarrow> bool" where
  "has_counters st \<longleftrightarrow> ot_radio st \<noteq> None \<and> ot_mac st \<noteq> None"

definition stack_tx_us :: "ot_stack \<Rightarrow> u64" where "stack_tx_us st = fst (the (ot_radio st))"
definition stack_rx_us :: "ot_stack \<Rightarrow> u64" where "stack_rx_us st = snd (the (ot_radio st))"
definition stack_retries :: "ot_stack \<Rightarrow> u32" where "stack_retries st = fst (the (ot_mac st))"
definition stack_cca :: "ot_stack \<Rightarrow> u32" where "stack_cca st = fst (snd (the (ot_mac st)))"
definition stack_no_ack :: "ot_stack \<Rightarrow> u32" where "stack_no_ack st = snd (snd (the (ot_mac st)))"

lemmas stack_counters = stack_tx_us_def stack_rx_us_def stack_retries_def stack_cca_def stack_no_ack_def

lemma read_link_stats_state: "snd (read_link_stats s) = s\<lparr>s_prev_counters := counters_now (ot s)\<rparr>"
  by (simp add: read_link_stats_def Let_def)

lemma counters_now_eq:
  "has_counters st \<Longrightarrow> counters_now st = \<lparr>radio_tx_time_us = stack_tx_us st, radio_rx_time_us = stack_rx_us st,
     tx_retries = stack_retries st, tx_cca_failures = stack_cca st, tx_no_ack_expiry = stack_no_ack st, snap_valid = True\<rparr>"
  by (auto simp: has_counters_def counters_now_def no_counters_def stack_counters Let_def)

text \<open>The deltas of one reading, all there, each against its own counter of the last reading.\<close>

definition deltas_from :: "ot_stack \<Rightarrow> ot_stack \<Rightarrow> link_stats \<Rightarrow> bool" where
  "deltas_from st0 st r \<longleftrightarrow>
     radioTxTimeUs r = Some (ucast (stack_tx_us st - stack_tx_us st0)) \<and>
     radioRxTimeUs r = Some (ucast (stack_rx_us st - stack_rx_us st0)) \<and>
     txRetries r = Some (stack_retries st - stack_retries st0) \<and>
     txCcaFailures r = Some (stack_cca st - stack_cca st0) \<and>
     txNoAckExpiry r = Some (stack_no_ack st - stack_no_ack st0)"

lemma read_with_counters:
  assumes "s_prev_counters s = counters_now st0" "has_counters st0" "has_counters (ot s)"
  shows "\<exists>r. read_link_stats s = (Some r, s\<lparr>s_prev_counters := counters_now (ot s)\<rparr>) \<and> deltas_from st0 (ot s) r"
proof -
  have "\<exists>r. fst (read_link_stats s) = Some r \<and> deltas_from st0 (ot s) r"
    using assms(3)
    by (simp add: read_link_stats_def counters_now_eq [OF assms(2)] counters_now_eq [OF assms(3)] assms(1)
        deltas_from_def has_counters_def Let_def)
  with read_link_stats_state [of s] show ?thesis by (cases "read_link_stats s") auto
qed

text \<open>The first reading of a boot only sets the baseline.\<close>

lemma first_read:
  assumes "\<not> snap_valid (s_prev_counters s)" "read_link_stats s = (r, s')" "r = Some st"
  shows "radioTxTimeUs st = None \<and> radioRxTimeUs st = None \<and> txRetries st = None \<and> txCcaFailures st = None \<and>
    txNoAckExpiry st = None"
  using assms by (auto simp: read_link_stats_def no_link_stats_def Let_def split: if_splits)

lemma counters_now_valid [simp]: "snap_valid (counters_now st)"
  by (simp add: counters_now_def Let_def no_counters_def split: option.split prod.split)

lemma ucast_sum: "ucast (a :: u64) + ucast b = (ucast (a + b) :: u32)"
proof -
  have "word_of_int (uint (a + b)) = (word_of_int (uint a + uint b) :: u32)"
    by (simp only: uint_word_ariths word_of_int_eq_iff take_bit_eq_mod) (simp add: mod_mod_cancel)
  then show ?thesis by (simp only: ucast_eq wi_hom_add)
qed

lemma ucast_minus_sum: "ucast (b - a :: u64) + ucast (c - b) = (ucast (c - a) :: u32)"
  by (simp add: ucast_sum)

lemma stats_reads_length: "length (fst (stats_reads sts s)) = length sts"
  by (induction sts arbitrary: s) (auto simp: case_prod_beta Let_def)

lemma reads_add_up:
  "s_prev_counters s = counters_now st0 \<Longrightarrow> \<forall>st \<in> set (st0 # sts). has_counters st \<Longrightarrow> stats_reads sts s = (rs, s') \<Longrightarrow>
   None \<notin> set rs \<and>
   (\<Sum>r \<leftarrow> rs. the (radioTxTimeUs (the r))) = ucast (stack_tx_us (last (st0 # sts)) - stack_tx_us st0) \<and>
   (\<Sum>r \<leftarrow> rs. the (radioRxTimeUs (the r))) = ucast (stack_rx_us (last (st0 # sts)) - stack_rx_us st0) \<and>
   (\<Sum>r \<leftarrow> rs. the (txRetries (the r))) = stack_retries (last (st0 # sts)) - stack_retries st0 \<and>
   (\<Sum>r \<leftarrow> rs. the (txCcaFailures (the r))) = stack_cca (last (st0 # sts)) - stack_cca st0 \<and>
   (\<Sum>r \<leftarrow> rs. the (txNoAckExpiry (the r))) = stack_no_ack (last (st0 # sts)) - stack_no_ack st0"
proof (induction sts arbitrary: s st0 rs)
  case (Cons st sts)
  obtain r where r: "read_link_stats (s\<lparr>ot := st\<rparr>) = (Some r, s\<lparr>ot := st, s_prev_counters := counters_now st\<rparr>)"
    and d: "deltas_from st0 st r"
    using read_with_counters [of "s\<lparr>ot := st\<rparr>" st0] Cons.prems(1,2) by auto
  obtain rs' where rs: "stats_reads sts (s\<lparr>ot := st, s_prev_counters := counters_now st\<rparr>) = (rs', s')" "rs = Some r # rs'"
    using Cons.prems(3) by (auto simp: r split: prod.splits)
  have "s_prev_counters (s\<lparr>ot := st, s_prev_counters := counters_now st\<rparr>) = counters_now st" by simp
  note ih = Cons.IH [OF this _ rs(1)]
  have "last (st0 # st # sts) = last (st # sts)" by simp
  then show ?case using ih Cons.prems(2) d
    by (simp add: rs(2) deltas_from_def ucast_minus_sum del: last.simps)
qed simp

section \<open>Properties\<close>

text \<open>
  C24: An IPv4 broker is dialled through a NAT64 prefix that the network data has published: once the
  prefix is known, the URI's host reads back as the 96 bits of such a route's prefix followed by the
  address's four bytes, never as the built-in default.
\<close>

theorem ipv4_broker_uses_learned_prefix:
  assumes run: "thread_run s seen" and known: "s_prefix_known s" and os: "length os = 4"
    and routes: "\<And>r. r \<in> seen \<Longrightarrow> length (rt_prefix r) = 16"
    and printer: "\<And>a. length a = 16 \<Longrightarrow> read_ip6 (ip6_text a) = Some a \<and> CHR '']'' \<notin> set (ip6_text a)"
  shows "\<exists>r \<in> seen. nat64_route r \<and>
    read_ip6 (uri_host (ot_brokerUri ip6_text (render_ipv4 os) port tls s)) = Some (take 12 (rt_prefix r) @ os)"
proof -
  from thread_run_prefix [OF run] known obtain r where r: "r \<in> seen" "nat64_route r"
    and p: "s_nat64_prefix s = take 12 (rt_prefix r)"
    by (auto simp: prefix_learned_def)
  let ?a = "take 12 (rt_prefix r) @ os"
  have a: "length ?a = 16" using routes [OF r(1)] os by simp
  have "parseIpv4 (render_ipv4 os) = Some os"
    using ipv4_fields_render [of "[]" os] split_render_ipv4 [of os] os by (cases os) (auto simp: parseIpv4_def)
  moreover have "\<not> looksLikeIpv6 (render_ipv4 os)" by (rule render_ipv4_family)
  ultimately have "ot_brokerUri ip6_text (render_ipv4 os) port tls s =
      mqttScheme tls @ ''://['' @ ip6_text ?a @ '']:'' @ render_int (int port)"
    by (simp add: ot_brokerUri_def make_nat64_uri_def bracketed_uri p)
  then show ?thesis using uri_host_bracketed printer [OF a] r by auto
qed

text \<open>
  C22: Nothing of the radio's counters is lost or counted twice between the publish windows: while the
  stack reports both counter groups at every reading, the first reading of a boot reports no deltas and
  sets the baseline, every later one reports all five, and over any number of them the transmit times,
  the receive times, the retries, the CCA failures and the expired acknowledgements each add up to what
  that counter moved since the first reading, in 32 bits, also when a counter wraps.
\<close>

theorem link_deltas_add_up:
  assumes "\<not> snap_valid (s_prev_counters s)" "\<forall>st \<in> set (st0 # sts). has_counters st"
    and "stats_reads (st0 # sts) s = (r0 # rs, s')"
  shows "(\<forall>r. r0 = Some r \<longrightarrow> radioTxTimeUs r = None \<and> radioRxTimeUs r = None \<and> txRetries r = None \<and>
      txCcaFailures r = None \<and> txNoAckExpiry r = None) \<and> None \<notin> set rs \<and>
    (\<Sum>r \<leftarrow> rs. the (radioTxTimeUs (the r))) = ucast (stack_tx_us (last (st0 # sts)) - stack_tx_us st0) \<and>
    (\<Sum>r \<leftarrow> rs. the (radioRxTimeUs (the r))) = ucast (stack_rx_us (last (st0 # sts)) - stack_rx_us st0) \<and>
    (\<Sum>r \<leftarrow> rs. the (txRetries (the r))) = stack_retries (last (st0 # sts)) - stack_retries st0 \<and>
    (\<Sum>r \<leftarrow> rs. the (txCcaFailures (the r))) = stack_cca (last (st0 # sts)) - stack_cca st0 \<and>
    (\<Sum>r \<leftarrow> rs. the (txNoAckExpiry (the r))) = stack_no_ack (last (st0 # sts)) - stack_no_ack st0"
proof -
  have r0: "read_link_stats (s\<lparr>ot := st0\<rparr>) = (r0, s\<lparr>ot := st0, s_prev_counters := counters_now st0\<rparr>)"
    and rs: "stats_reads sts (s\<lparr>ot := st0, s_prev_counters := counters_now st0\<rparr>) = (rs, s')"
    using assms(3) read_link_stats_state [of "s\<lparr>ot := st0\<rparr>"] by (auto split: prod.splits)
  have "s_prev_counters (s\<lparr>ot := st0, s_prev_counters := counters_now st0\<rparr>) = counters_now st0" by simp
  note sums = reads_add_up [OF this assms(2) rs]
  have "\<not> snap_valid (s_prev_counters (s\<lparr>ot := st0\<rparr>))" using assms(1) by simp
  note first = first_read [OF this r0]
  show ?thesis using sums first by blast
qed

text \<open>
  The reservation matters: a reading at which the stack reports no radio times leaves a baseline of zero,
  and the next one reports the total since boot.
\<close>

theorem missing_counters_reset_baseline:
  assumes "ot_radio st0 = None" "ot_radio st1 = Some (tx, rx)" "stats_reads [st0, st1] s = ([r0, r1], s')"
  shows "\<exists>st. r1 = Some st \<and> radioTxTimeUs st = Some (ucast tx) \<and> radioRxTimeUs st = Some (ucast rx)"
proof -
  have z: "radio_tx_time_us (counters_now st0) = 0" "radio_rx_time_us (counters_now st0) = 0"
    using assms(1) by (simp_all add: counters_now_def no_counters_def Let_def split: option.split)
  have n: "radio_tx_time_us (counters_now st1) = tx" "radio_rx_time_us (counters_now st1) = rx"
    using assms(2) by (simp_all add: counters_now_def no_counters_def Let_def split: option.split)
  have "r1 = fst (read_link_stats (s\<lparr>s_prev_counters := counters_now st0, ot := st1\<rparr>))"
    using assms(3) read_link_stats_state [of "s\<lparr>ot := st0\<rparr>"] by (auto simp: Let_def split: prod.splits)
  then show ?thesis using assms(2) by (simp add: read_link_stats_def z n Let_def)
qed

text \<open>
  A Wi-Fi name of the full 32 bytes (or a key of the full 64) loses its last byte on the way into the
  driver's configuration, which needs no terminator; any shorter one is copied as it is.
\<close>

theorem full_length_ssid_is_cut:
  "(length ssid < n \<longrightarrow> copyBounded n ssid = ssid @ replicate (n - length ssid) 0) \<and>
   (length ssid = n \<and> 0 < n \<longrightarrow> copyBounded n ssid = butlast ssid @ [0])"
  by (auto simp: copyBounded_def butlast_conv_take min_def)

section \<open>A small network\<close>

definition border_route :: ot_route where
  "border_route = \<lparr>rt_nat64 = True, rt_prefix = [0xfd, 0x3b, 0xee, 0x61, 0, 2, 0, 0, 0, 0, 0, 0, 0, 0, 0, 0], rt_length = 96\<rparr>"

definition child_stack :: "u32 \<Rightarrow> ot_stack" where
  "child_stack n = \<lparr>ot_role = RoleChild, ot_routes = [border_route], ot_parent = Some ([2, 0, 0, 0, 0, 0, 0, 1], 3),
     ot_parent_rssi = Some (- 60), ot_radio = Some (ucast n * 5000000000, ucast n * 9), ot_mac = Some (n * 3000000000, n * 5, n),
     ot_start_err = 0, ot_auto_start_err = 0, ot_tx_power_ok = (\<lambda>_. True)\<rparr>"

definition fresh_link :: ot_link where
  "fresh_link = \<lparr>s_groups = False, s_attached = False, s_prefix_known = False, s_route_known = False,
     s_nat64_prefix = wellknown_nat64_prefix, s_ot_tlv_hex = ''00030000'', s_uplink_rssi_dbm = UPLINK_RSSI_NONE,
     s_prev_counters = no_counters, poll_period_ms = 0, probing_parent = None, ot = child_stack 0,
     ot_arrivals = (\<lambda>_. [])\<rparr>"

definition started_link :: ot_link where
  "started_link = fresh_link\<lparr>s_groups := True, poll_period_ms := POLL_SLOW_MS\<rparr>"

lemma started_link_run: "thread_run (state_changed (child_stack 0) started_link) {border_route}"
proof -
  have "ot_start 254 fresh_link = Some (ESP_OK, started_link)"
    by (simp add: ot_start_def configure_ot_network_def fresh_link_def started_link_def child_stack_def
        parse_dataset_tlvs_def)
  from thread_run.changed [OF thread_run.started [OF this], of "child_stack 0"] show ?thesis
    by (simp add: child_stack_def)
qed

theorem ipv4_broker_uses_learned_prefix_witness:
  "\<exists>r \<in> {border_route}. nat64_route r \<and>
    hex_bytes (uri_host (ot_brokerUri render_hex (render_ipv4 [192, 168, 77, 250]) 1883 False
      (state_changed (child_stack 0) started_link))) = take 12 (rt_prefix r) @ [192, 168, 77, 250]"
proof -
  have "list_all (\<lambda>d. hex_char d \<noteq> CHR '']'') [0..<16]" by code_simp
  then have "hex_char d \<noteq> CHR '']''" if "d < 16" for d using that by (simp add: list_all_iff)
  moreover have "unat x div 16 < 16" "unat x mod 16 < 16" for x :: u8 using unat_u8_less [of x] by auto
  ultimately have no: "CHR '']'' \<notin> set (render_hex a)" for a
    unfolding render_hex_def by (induction a) (auto dest: sym)
  have known: "s_prefix_known (state_changed (child_stack 0) started_link)"
    by (simp add: state_changed_def process_state_change_def mark_attached_def register_enh_ack_probing_def
        log_thread_network_info_def child_stack_def started_link_def setNat64Prefix_def border_route_def)
  from ipv4_broker_uses_learned_prefix [OF started_link_run known, of "[192, 168, 77, 250]" "\<lambda>s. Some (hex_bytes s)"
      render_hex 1883 False]
  show ?thesis by (simp add: no hex_bytes_render border_route_def)
qed

theorem link_deltas_add_up_witness:
  "\<exists>r0 rs s'. stats_reads [child_stack 1, child_stack 2, child_stack 3] fresh_link = (r0 # rs, s') \<and>
     (\<Sum>r \<leftarrow> rs. the (txRetries (the r))) = 6000000000 \<and> (\<Sum>r \<leftarrow> rs. the (txCcaFailures (the r))) = 10 \<and>
     (\<Sum>r \<leftarrow> rs. the (radioRxTimeUs (the r))) = 18"
proof -
  obtain r0 rs s' where r: "stats_reads [child_stack 1, child_stack 2, child_stack 3] fresh_link = (r0 # rs, s')"
    using stats_reads_length [of "[child_stack 1, child_stack 2, child_stack 3]" fresh_link]
    by (cases "stats_reads [child_stack 1, child_stack 2, child_stack 3] fresh_link")
      (auto simp: length_Suc_conv simp del: stats_reads.simps)
  have "\<not> snap_valid (s_prev_counters fresh_link)" by (simp add: fresh_link_def no_counters_def)
  moreover have "\<forall>st \<in> set [child_stack 1, child_stack 2, child_stack 3]. has_counters st"
    by (simp add: has_counters_def child_stack_def)
  ultimately show ?thesis using link_deltas_add_up [OF _ _ r] r
    by (auto simp: stack_counters child_stack_def)
qed

theorem missing_counters_reset_baseline_witness:
  "\<exists>r0 st s'. stats_reads [(child_stack 1)\<lparr>ot_radio := None\<rparr>, child_stack 2] fresh_link = ([r0, Some st], s') \<and>
     radioRxTimeUs st = Some 18"
proof -
  obtain r0 r1 s' where r: "stats_reads [(child_stack 1)\<lparr>ot_radio := None\<rparr>, child_stack 2] fresh_link = ([r0, r1], s')"
    using stats_reads_length [of "[(child_stack 1)\<lparr>ot_radio := None\<rparr>, child_stack 2]" fresh_link]
    by (cases "stats_reads [(child_stack 1)\<lparr>ot_radio := None\<rparr>, child_stack 2] fresh_link")
      (auto simp: length_Suc_conv simp del: stats_reads.simps)
  have "ot_radio (child_stack 2) = Some (ucast (2 :: u32) * 5000000000, 18)" by (simp add: child_stack_def)
  from missing_counters_reset_baseline [OF _ this r] r show ?thesis by auto
qed

theorem full_length_ssid_is_cut_witness:
  "copyBounded 4 [1, 2, 3, 4] = [1, 2, 3, 0] \<and> copyBounded 4 [1, 2] = [1, 2, 0, 0]"
  using full_length_ssid_is_cut [of "[1, 2, 3, 4]" 4] full_length_ssid_is_cut [of "[1, 2]" 4] by (simp add: numeral_eq_Suc)

end
