(* ===== verification/OtaUpdater.thy ===== *)
theory OtaUpdater
  imports ConfigText
begin

text \<open>
  The firmware update over MQTT, \<open>main/ota_updater.cpp\<close>: the staged manifest, the chunk-pull session with
  its two-deep subscription window, the resumable partial download and the attempt budget.

  The session runs in the publish task, the message handlers in the MQTT event task. A session is
  given the messages that arrive around each of its waits, so every interleaving of the two tasks at
  the waits is an input. A handler holds the mutex while it changes the partial download and is one
  step. The update partition, its driver and the hash are parameters (\<open>ota_platform\<close>); what a status
  message says is a constructor with the values it prints. Log output is left out.
\<close>

section \<open>Manifest\<close>

record ota_manifest =
  m_version :: string
  m_size :: u32
  m_chunk_size :: u32
  m_sha256 :: "u8 list"
  m_force :: bool
  m_valid :: bool
  m_differs_from_running :: bool

definition no_manifest :: ota_manifest where
  "no_manifest = \<lparr>m_version = [], m_size = 0, m_chunk_size = 0, m_sha256 = replicate 32 0, m_force = False,
     m_valid = False, m_differs_from_running = False\<rparr>"

definition sameImage :: "ota_manifest \<Rightarrow> ota_manifest \<Rightarrow> bool" where
  "sameImage m o' \<longleftrightarrow> m_size m = m_size o' \<and> m_chunk_size m = m_chunk_size o' \<and> m_sha256 m = m_sha256 o'"

definition OTA_MAX_CHUNK_SIZE :: u32 where "OTA_MAX_CHUNK_SIZE = 8192"
definition OTA_MIN_BATTERY_PERCENT :: flt where "OTA_MIN_BATTERY_PERCENT = Fin 30"
definition OTA_MAX_NO_PROGRESS_ATTEMPTS :: int where "OTA_MAX_NO_PROGRESS_ATTEMPTS = 3"
definition SUBSCRIBE_PIPELINE :: u32 where "SUBSCRIBE_PIPELINE = 2"

text \<open>A value token after \<open>"key":\<close>: the unquoted text of a string, or the bare token.\<close>

definition manifest_value :: "string \<Rightarrow> string option" where
  "manifest_value rest =
    (case dropWhile (\<lambda>c. c = CHR '':'' \<or> c = CHR '' '') rest of
       [] \<Rightarrow> None
     | c # s \<Rightarrow>
         if c = CHR 0x22 then
           (case str_find s [CHR 0x22] 0 of None \<Rightarrow> None | Some k \<Rightarrow> Some (take k s))
         else Some (takeWhile (\<lambda>c. c \<noteq> CHR '','' \<and> c \<noteq> CHR ''}'' \<and> c \<noteq> CHR '' '') (c # s)))"

definition quoted :: "string \<Rightarrow> string" where
  "quoted key = [CHR 0x22] @ key @ [CHR 0x22]"

definition manifest_field :: "string \<Rightarrow> string \<Rightarrow> string option" where
  "manifest_field json key =
    (case str_find json (quoted key) 0 of
       None \<Rightarrow> None
     | Some pos \<Rightarrow> manifest_value (drop (pos + length (quoted key)) json))"

definition parse_size_field :: "string \<Rightarrow> string \<Rightarrow> u32 option" where
  "parse_size_field json key =
    (case manifest_field json key of
       None \<Rightarrow> None
     | Some tok \<Rightarrow> map_option (\<lambda>r. of_nat (fst r)) (from_chars_uint 32 tok))"

definition sha_nibble :: "char \<Rightarrow> nat option" where
  "sha_nibble c =
    (let n = char_code c in
     if 48 \<le> n \<and> n \<le> 57 then Some (n - 48)
     else if 97 \<le> n \<and> n \<le> 102 then Some (n - 97 + 10)
     else if 65 \<le> n \<and> n \<le> 70 then Some (n - 65 + 10)
     else None)"

fun sha_bytes :: "string \<Rightarrow> u8 list option" where
  "sha_bytes (h # l # s) =
    (case sha_nibble h of None \<Rightarrow> None | Some hi \<Rightarrow>
     case sha_nibble l of None \<Rightarrow> None | Some lo \<Rightarrow>
     map_option ((#) (of_nat (16 * hi + lo))) (sha_bytes s))"
| "sha_bytes _ = Some []"

definition parse_sha256_hex :: "string \<Rightarrow> u8 list option" where
  "parse_sha256_hex hex = (if length hex \<noteq> 64 then None else sha_bytes hex)"

text \<open>The manifest of a message body, when all of its mandatory fields are there and valid.\<close>

definition parse_manifest :: "string \<Rightarrow> string \<Rightarrow> ota_manifest option" where
  "parse_manifest running body =
    (case manifest_field body ''version'' of None \<Rightarrow> None | Some version \<Rightarrow>
     case parse_size_field body ''size'' of None \<Rightarrow> None | Some sz \<Rightarrow>
     case parse_size_field body ''chunk_size'' of None \<Rightarrow> None | Some chunk_size \<Rightarrow>
     case manifest_field body ''sha256'' of None \<Rightarrow> None | Some sha \<Rightarrow>
     if version = [] \<or> sz = 0 \<or> chunk_size = 0 \<or> OTA_MAX_CHUNK_SIZE < chunk_size then None
     else
       map_option (\<lambda>d. \<lparr>m_version = version, m_size = sz, m_chunk_size = chunk_size, m_sha256 = d,
           m_force = (manifest_field body ''force'' = Some ''true''), m_valid = True,
           m_differs_from_running = (version \<noteq> running)\<rparr>)
         (parse_sha256_hex sha))"

section \<open>State and platform\<close>

datatype ota_fail =
    NoReason | SubscribeFailed u32 | ConnectionLost u32 | ChunkRejected u32 | ChunkTimedOut u32
  | SessionCapExceeded | ShaMismatch | OtaEndFailed esp_err | SetBootFailed esp_err

datatype ota_status =
    Deferred flt | ExceedsSlot u32 | OtaBeginFailed esp_err | ShaSetupFailed
  | Starting string u32 u32 u32 | Downloading u32 u32 u32
  | OtaFailed ota_fail u32 u32 int | OtaSuccess string

datatype ota_action =
    OtaPublishStatus ota_status | OtaSubscribe string | OtaWindowBegin | OtaWindowEnd
  | TxPowerPin | TxPowerUnpin | DeleteInstallRequest | OtaRestart

text \<open>
  \<open>esp_ota\<close> and PSA: the next update partition's size, and each driver call on the driver's state \<open>'f\<close>
  or the hash operation \<open>'h\<close>.
\<close>

record ('f, 'h) ota_platform =
  p_version :: string
  p_slot_size :: "u32 option"
  p_begin :: "'f \<Rightarrow> esp_err \<times> 'f"
  p_write :: "u8 list \<Rightarrow> 'f \<Rightarrow> esp_err \<times> 'f"
  p_end :: "'f \<Rightarrow> esp_err \<times> 'f"
  p_abort :: "'f \<Rightarrow> 'f"
  p_set_boot :: "'f \<Rightarrow> esp_err \<times> 'f"
  p_hash_setup :: "'h option"
  p_hash_update :: "u8 list \<Rightarrow> 'h \<Rightarrow> bool \<times> 'h"
  p_hash_finish :: "'h \<Rightarrow> u8 list option \<times> 'h"
  p_hash_abort :: "'h \<Rightarrow> 'h"

record ('f, 'h) ota =
  s_topic_manifest :: string
  s_topic_image_prefix :: string
  s_topic_install :: string
  s_topic_installed :: string
  s_topic_status :: string
  s_manifest :: ota_manifest
  s_install_requested :: bool
  s_session_active :: bool
  s_conn_lost :: bool
  s_no_progress_attempts :: int
  s_partial_valid :: bool
  s_partial_manifest :: ota_manifest
  s_next_chunk :: u32
  s_received :: u32
  s_ota_handle :: bool
  s_flash :: 'f
  s_sha_op :: 'h
  s_bit_chunk :: bool
  s_bit_fail :: bool
  s_undelivered_status :: "ota_status option"

definition ota_topic :: "string \<Rightarrow> string \<Rightarrow> string" where
  "ota_topic device_id suffix = device_id @ CHR ''/'' # suffix"

definition ota_updater_init :: "string \<Rightarrow> ('f, 'h) ota \<Rightarrow> ('f, 'h) ota" where
  "ota_updater_init device_id s =
    s\<lparr>s_topic_manifest := ota_topic device_id ''ota/manifest'',
      s_topic_image_prefix := ota_topic device_id ''ota/image/'',
      s_topic_install := ota_topic device_id ''ota/install'',
      s_topic_installed := ota_topic device_id ''ota/installed'',
      s_topic_status := ota_topic device_id ''ota/status''\<rparr>"

section \<open>The message handlers\<close>

definition text_of :: "u8 list \<Rightarrow> string" where
  "text_of = map (\<lambda>b. char_of (unat b))"

definition bytes_len :: "u8 list \<Rightarrow> u32" where
  "bytes_len data = of_nat (length data)"

definition handle_manifest :: "string \<Rightarrow> u8 list \<Rightarrow> u32 \<Rightarrow> ('f, 'h) ota \<Rightarrow> ('f, 'h) ota" where
  "handle_manifest running data total_len s =
    (if total_len = 0 then s\<lparr>s_manifest := no_manifest\<rparr>
     else if bytes_len data \<noteq> total_len then s
     else (case parse_manifest running (text_of data) of None \<Rightarrow> s | Some m \<Rightarrow> s\<lparr>s_manifest := m\<rparr>))"

definition expected_len :: "('f, 'h) ota \<Rightarrow> u32" where
  "expected_len s =
    min (m_chunk_size (s_partial_manifest s))
      (m_size (s_partial_manifest s) - s_next_chunk s * m_chunk_size (s_partial_manifest s))"

definition handle_image_chunk ::
  "('f, 'h) ota_platform \<Rightarrow> u32 \<Rightarrow> u8 list \<Rightarrow> u32 \<Rightarrow> u32 \<Rightarrow> ('f, 'h) ota \<Rightarrow> ('f, 'h) ota" where
  "handle_image_chunk p index data offset total_len s =
    (if \<not> s_session_active s then s
     else if offset \<noteq> 0 \<or> total_len \<noteq> bytes_len data then s\<lparr>s_bit_fail := True\<rparr>
     else if index \<noteq> s_next_chunk s then s
     else if bytes_len data \<noteq> expected_len s then s\<lparr>s_bit_fail := True\<rparr>
     else
       (let (err, f) = p_write p data (s_flash s); s = s\<lparr>s_flash := f\<rparr> in
        if err \<noteq> ESP_OK then s\<lparr>s_bit_fail := True\<rparr>
        else
          (let (success, h) = p_hash_update p data (s_sha_op s); s = s\<lparr>s_sha_op := h\<rparr> in
           if \<not> success then s\<lparr>s_bit_fail := True\<rparr>
           else s\<lparr>s_next_chunk := index + 1, s_received := s_received s + bytes_len data, s_bit_chunk := True\<rparr>)))"

definition starts_with_text :: "string \<Rightarrow> string \<Rightarrow> bool" where
  "starts_with_text s prefix \<longleftrightarrow> take (length prefix) s = prefix"

definition ota_on_mqtt_data ::
  "('f, 'h) ota_platform \<Rightarrow> string \<Rightarrow> u8 list \<Rightarrow> u32 \<Rightarrow> u32 \<Rightarrow> ('f, 'h) ota \<Rightarrow> ('f, 'h) ota" where
  "ota_on_mqtt_data p topic data offset total_len s =
    (if topic = [] then s
     else if starts_with_text topic (s_topic_image_prefix s) then
       (case from_chars_uint 32 (drop (length (s_topic_image_prefix s)) topic) of
          None \<Rightarrow> s
        | Some (index, _) \<Rightarrow> handle_image_chunk p (of_nat index) data offset total_len s)
     else if topic = s_topic_manifest s then handle_manifest (p_version p) data total_len s
     else if topic = s_topic_install s then s\<lparr>s_install_requested := (data \<noteq> [])\<rparr>
     else s)"

definition ota_on_mqtt_error :: "('f, 'h) ota \<Rightarrow> ('f, 'h) ota" where
  "ota_on_mqtt_error s = (if \<not> s_session_active s then s else s\<lparr>s_conn_lost := True, s_bit_fail := True\<rparr>)"

definition ota_update_due :: "('f, 'h) ota \<Rightarrow> bool" where
  "ota_update_due s \<longleftrightarrow> s_install_requested s \<and> s_no_progress_attempts s < OTA_MAX_NO_PROGRESS_ATTEMPTS \<and>
     m_valid (s_manifest s) \<and> m_differs_from_running (s_manifest s)"

definition ota_session_in_progress :: "('f, 'h) ota \<Rightarrow> bool" where
  "ota_session_in_progress s = s_session_active s"

definition ota_session_ended_by_connection_loss :: "('f, 'h) ota \<Rightarrow> bool" where
  "ota_session_ended_by_connection_loss s = s_conn_lost s"

text \<open>What reaches the MQTT event task.\<close>

datatype ota_event = OtaData string "u8 list" u32 u32 | OtaConnError

fun ota_handle_event :: "('f, 'h) ota_platform \<Rightarrow> ota_event \<Rightarrow> ('f, 'h) ota \<Rightarrow> ('f, 'h) ota" where
  "ota_handle_event p (OtaData topic data offset total_len) s = ota_on_mqtt_data p topic data offset total_len s"
| "ota_handle_event p OtaConnError s = ota_on_mqtt_error s"

definition ota_events :: "('f, 'h) ota_platform \<Rightarrow> ota_event list \<Rightarrow> ('f, 'h) ota \<Rightarrow> ('f, 'h) ota" where
  "ota_events p evs s = fold (ota_handle_event p) evs s"

section \<open>The session\<close>

text \<open>
  What the session sees of the client: whether its \<open>n\<close>-th request is taken (a status that is enqueued, a
  subscription that is sent).
\<close>

type_synonym ota_client = "nat \<Rightarrow> bool"
type_synonym ('f, 'h) ota_run = "ota_action list \<times> ('f, 'h) ota"

definition publish_status :: "ota_client \<Rightarrow> ota_status \<Rightarrow> ('f, 'h) ota_run \<Rightarrow> ('f, 'h) ota_run" where
  "publish_status client st r =
    (let (acts, s) = r in
     (acts @ [OtaPublishStatus st], if client (length acts) then s else s\<lparr>s_undelivered_status := Some st\<rparr>))"

definition discard_partial :: "('f, 'h) ota_platform \<Rightarrow> ('f, 'h) ota \<Rightarrow> ('f, 'h) ota" where
  "discard_partial p s =
    s\<lparr>s_flash := (if s_ota_handle s then p_abort p (s_flash s) else s_flash s), s_ota_handle := False,
      s_sha_op := p_hash_abort p (s_sha_op s), s_partial_valid := False, s_next_chunk := 0, s_received := 0\<rparr>"

definition replay_status :: "ota_client \<Rightarrow> ('f, 'h) ota_run \<Rightarrow> ('f, 'h) ota_run" where
  "replay_status client r =
    (case s_undelivered_status (snd r) of
       None \<Rightarrow> r
     | Some st \<Rightarrow> publish_status client st (fst r, (snd r)\<lparr>s_undelivered_status := None\<rparr>))"

definition failed_attempt :: "ota_client \<Rightarrow> ota_status \<Rightarrow> ('f, 'h) ota_run \<Rightarrow> ('f, 'h) ota_run" where
  "failed_attempt client st r =
    (let (acts, s) = publish_status client st r in (acts, s\<lparr>s_no_progress_attempts := s_no_progress_attempts s + 1\<rparr>))"

text \<open>Keep a partial download of the same image, or begin a new one; \<open>False\<close> is an early return.\<close>

definition begin_partial ::
  "('f, 'h) ota_platform \<Rightarrow> ota_client \<Rightarrow> ota_manifest \<Rightarrow> ('f, 'h) ota_run \<Rightarrow> bool \<times> ('f, 'h) ota_run" where
  "begin_partial p client m r =
    (let (acts, s) = r in
     case p_slot_size p of
       None \<Rightarrow> (False, failed_attempt client (ExceedsSlot (m_size m)) (acts, s))
     | Some slot \<Rightarrow>
         if slot < m_size m then (False, failed_attempt client (ExceedsSlot (m_size m)) (acts, s))
         else
           (let (err, f) = p_begin p (s_flash s) in
            if err \<noteq> ESP_OK then
              (False, failed_attempt client (OtaBeginFailed err) (acts, s\<lparr>s_flash := f, s_ota_handle := False\<rparr>))
            else
              (let s = s\<lparr>s_flash := f, s_ota_handle := True\<rparr> in
               case p_hash_setup p of
                 None \<Rightarrow> (False, failed_attempt client ShaSetupFailed (acts, discard_partial p s))
               | Some h \<Rightarrow>
                   (True, acts, s\<lparr>s_sha_op := h, s_partial_manifest := m, s_partial_valid := True,
                      s_next_chunk := 0, s_received := 0\<rparr>))))"

definition prepare_partial ::
  "('f, 'h) ota_platform \<Rightarrow> ota_client \<Rightarrow> ota_manifest \<Rightarrow> ('f, 'h) ota_run \<Rightarrow> bool \<times> ('f, 'h) ota_run" where
  "prepare_partial p client m r =
    (let (acts, s) = r;
         s = (if s_partial_valid s \<and> \<not> sameImage m (s_partial_manifest s) then discard_partial p s else s)
     in if s_partial_valid s then (True, acts, s) else begin_partial p client m (acts, s))"

definition subscribe_chunk ::
  "ota_client \<Rightarrow> u32 \<Rightarrow> ota_fail \<times> ('f, 'h) ota_run \<Rightarrow> bool \<times> ota_fail \<times> ('f, 'h) ota_run" where
  "subscribe_chunk client chunk fr =
    (let (reason, acts, s) = fr;
         taken = client (length acts);
         acts = acts @ [OtaSubscribe (s_topic_image_prefix s @ render_nat (unat chunk))]
     in if taken then (True, reason, acts, s) else (False, SubscribeFailed chunk, acts, s))"

definition u32_range :: "u32 \<Rightarrow> u32 \<Rightarrow> u32 list" where
  "u32_range a b = map of_nat [unat a..<unat b]"

fun prime_window ::
  "ota_client \<Rightarrow> u32 list \<Rightarrow> ota_fail \<times> ('f, 'h) ota_run \<Rightarrow> bool \<times> ota_fail \<times> ('f, 'h) ota_run" where
  "prime_window client [] fr = (True, fr)"
| "prime_window client (k # ks) fr =
    (let (taken, fr) = subscribe_chunk client k fr in if taken then prime_window client ks fr else (False, fr))"

text \<open>One newly completed chunk: the window is topped up and about every tenth chunk is reported.\<close>

definition chunk_done ::
  "ota_client \<Rightarrow> u32 \<Rightarrow> u32 \<Rightarrow> u32 \<Rightarrow> ota_fail \<times> ('f, 'h) ota_run \<Rightarrow> bool \<times> ota_fail \<times> ('f, 'h) ota_run" where
  "chunk_done client total_chunks status_every c fr =
    (let (ok, reason, acts, s) =
       (if c + SUBSCRIBE_PIPELINE < total_chunks then subscribe_chunk client (c + SUBSCRIBE_PIPELINE) fr
        else (True, fr))
     in if ok \<and> (c + 1) mod status_every = 0 \<and> c + 1 < total_chunks
        then (ok, reason, publish_status client (Downloading (c + 1) total_chunks (s_received s)) (acts, s))
        else (ok, reason, acts, s))"

fun top_up ::
  "ota_client \<Rightarrow> u32 \<Rightarrow> u32 \<Rightarrow> u32 list \<Rightarrow> ota_fail \<times> ('f, 'h) ota_run \<Rightarrow> bool \<times> ota_fail \<times> ('f, 'h) ota_run" where
  "top_up client total_chunks status_every [] fr = (True, fr)"
| "top_up client total_chunks status_every (c # cs) fr =
    (let (ok, fr) = chunk_done client total_chunks status_every c fr in
     if ok then top_up client total_chunks status_every cs fr else (False, fr))"

text \<open>
  A wait: the messages handled until it returns, those handled between its return and the look at the
  progress, and whether the session cap has passed by the end of the iteration.
\<close>

record ota_wait =
  w_before :: "ota_event list"
  w_after :: "ota_event list"
  w_cap :: bool

datatype ota_fault = DivisionByZero | StillWaiting

fun session_loop ::
  "('f, 'h) ota_platform \<Rightarrow> ota_client \<Rightarrow> u32 \<Rightarrow> u32 \<Rightarrow> ota_wait list \<Rightarrow> bool \<Rightarrow> u32 \<Rightarrow>
   ota_fail \<times> ('f, 'h) ota_run \<Rightarrow> ota_fault + u32 \<times> ota_fail \<times> ('f, 'h) ota_run" where
  "session_loop p client total_chunks status_every [] subscribed_ok done fr =
    (if subscribed_ok \<and> done < total_chunks then Inl StillWaiting else Inr (done, fr))"
| "session_loop p client total_chunks status_every (w # ws) subscribed_ok done fr =
    (if \<not> (subscribed_ok \<and> done < total_chunks) then Inr (done, fr)
     else
       (let (reason, acts, s) = fr;
            s = ota_events p (w_before w) s;
            bit_chunk = s_bit_chunk s; bit_fail = s_bit_fail s;
            s = ota_events p (w_after w) (s\<lparr>s_bit_chunk := False, s_bit_fail := False\<rparr>)
        in if bit_fail then
             Inr (done, if s_conn_lost s then ConnectionLost done else ChunkRejected done, acts, s)
           else
             (let now_done = s_next_chunk s in
              if now_done = done then
                (if \<not> bit_chunk then Inr (done, ChunkTimedOut done, acts, s)
                 else session_loop p client total_chunks status_every ws True done (reason, acts, s))
              else
                (let (ok, fr) = top_up client total_chunks status_every (u32_range done now_done) (reason, acts, s) in
                 if now_done < total_chunks \<and> w_cap w then Inr (now_done, SessionCapExceeded, snd fr)
                 else session_loop p client total_chunks status_every ws ok now_done fr))))"

text \<open>Verification of a complete download; a failed one is dropped as well.\<close>

definition verify_image ::
  "('f, 'h) ota_platform \<Rightarrow> ota_manifest \<Rightarrow> ota_fail \<Rightarrow> ('f, 'h) ota \<Rightarrow> bool \<times> ota_fail \<times> ('f, 'h) ota" where
  "verify_image p m reason s =
    (let (digest, h) = p_hash_finish p (s_sha_op s); s = s\<lparr>s_sha_op := h\<rparr> in
     if \<not> (case digest of None \<Rightarrow> False | Some d \<Rightarrow> length d = 32 \<and> d = m_sha256 m) then (False, ShaMismatch, s)
     else
       (let (err, f) = p_end p (s_flash s); s = s\<lparr>s_flash := f, s_ota_handle := False\<rparr> in
        if err \<noteq> ESP_OK then (False, OtaEndFailed err, s)
        else
          (let (berr, f) = p_set_boot p (s_flash s); s = s\<lparr>s_flash := f\<rparr> in
           if berr \<noteq> ESP_OK then (False, SetBootFailed berr, s) else (True, reason, s))))"

definition finish_session ::
  "('f, 'h) ota_platform \<Rightarrow> ota_client \<Rightarrow> ota_manifest \<Rightarrow> u32 \<Rightarrow> u32 \<Rightarrow> u32 \<Rightarrow> ota_fail \<times> ('f, 'h) ota_run \<Rightarrow>
   bool \<times> ('f, 'h) ota_run" where
  "finish_session p client m total_chunks session_start_chunk done fr =
    (let (reason, acts, s) = fr;
         s = s\<lparr>s_session_active := False\<rparr>;
         (ok, reason, s) =
           (if done = total_chunks then
              (let (ok, reason, s) = verify_image p m reason s in (ok, reason, discard_partial p s))
            else (False, reason, s));
         progressed = s_next_chunk s - session_start_chunk;
         acts = acts @ [OtaWindowEnd, TxPowerUnpin]
     in if ok then
          (let (acts, s) = publish_status client (OtaSuccess (m_version m)) (acts, s)
           in (True, acts @ [DeleteInstallRequest, OtaRestart], s))
        else
          (let attempts = (if 0 < progressed then 0 else s_no_progress_attempts s + 1);
               s = s\<lparr>s_no_progress_attempts := attempts\<rparr>
           in (False, publish_status client (OtaFailed reason (s_received s) (s_next_chunk s) attempts) (acts, s))))"

text \<open>The session proper, from its first subscription on.\<close>

definition pull_session ::
  "('f, 'h) ota_platform \<Rightarrow> ota_client \<Rightarrow> ota_wait list \<Rightarrow> ota_manifest \<Rightarrow> u32 \<Rightarrow> ('f, 'h) ota_run \<Rightarrow>
   ota_fault + bool \<times> ('f, 'h) ota_run" where
  "pull_session p client waits m total_chunks r =
    (let session_start_chunk = s_next_chunk (snd r);
         (acts, s) = publish_status client
           (Starting (m_version m) (m_size m) total_chunks session_start_chunk) r;
         s = s\<lparr>s_bit_chunk := False, s_bit_fail := False, s_session_active := True\<rparr>;
         status_every = max (total_chunks div 10) 1;
         (ok, fr) = prime_window client
           (u32_range session_start_chunk (min (session_start_chunk + SUBSCRIBE_PIPELINE) total_chunks))
           (NoReason, acts @ [OtaWindowBegin, TxPowerPin], s)
     in case session_loop p client total_chunks status_every waits ok session_start_chunk fr of
          Inl fault \<Rightarrow> Inl fault
        | Inr (done, fr) \<Rightarrow> Inr (finish_session p client m total_chunks session_start_chunk done fr))"

text \<open>
  \<open>ota_run_session\<close>: the flag of the result is \<open>True\<close> when the session ends in the restart. The
  manifest is read after \<open>ota_update_due\<close> looked at it, so it can have been cleared in between.
\<close>

definition ota_run_session ::
  "('f, 'h) ota_platform \<Rightarrow> ota_client \<Rightarrow> flt option \<Rightarrow> ota_wait list \<Rightarrow> ('f, 'h) ota \<Rightarrow>
   ota_fault + bool \<times> ('f, 'h) ota_run" where
  "ota_run_session p client battery_percent waits s =
    (let (acts, s) = replay_status client ([], s\<lparr>s_conn_lost := False\<rparr>);
         m = s_manifest s
     in if (case battery_percent of None \<Rightarrow> False | Some b \<Rightarrow> f_lt b OTA_MIN_BATTERY_PERCENT) \<and> \<not> m_force m
        then Inr (False, publish_status client (Deferred (the battery_percent)) (acts, s))
        else
          (case udiv (m_size m + m_chunk_size m - 1) (m_chunk_size m) of
             None \<Rightarrow> Inl DivisionByZero
           | Some total_chunks \<Rightarrow>
               (let (proceed, acts, s) = prepare_partial p client m (acts, s) in
                if \<not> proceed then Inr (False, acts, s)
                else pull_session p client waits m total_chunks (acts, s))))"

end
