(* ===== verification/MqttFormat.thy ===== *)
theory MqttFormat
  imports NetLink OtaUpdater "HOL-Library.Sublist"
begin

text \<open>
  The texts of the MQTT sender (\<open>main/mqtt_sender.cpp\<close>): its format strings, the capacities its
  fixed buffers are given, and the builders of topics, Home Assistant discovery payloads, the state
  message and the backfill arrays. A buffer is the text in it, the empty text standing for a reported
  truncation. The second half shows that no message of the device is ever truncated, and what the
  state message is: one object with one member per reading, each a JSON value as long as it is finite.
\<close>

section \<open>Format strings\<close>

definition DISC_PART_HEAD :: string where
  "DISC_PART_HEAD =
    ''{{\"name\":\"{}\",''"

definition DISC_PART_DEVICE_CLASS :: string where
  "DISC_PART_DEVICE_CLASS =
    ''\"device_class\":\"{}\",''"

definition DISC_PART_DIAGNOSTIC :: string where
  "DISC_PART_DIAGNOSTIC =
    ''\"entity_category\":\"diagnostic\",''"

definition DISC_PART_STATE_CLASS :: string where
  "DISC_PART_STATE_CLASS =
    ''\"state_class\":\"{}\",''"

definition DISC_PART_UNIT :: string where
  "DISC_PART_UNIT =
    ''\"unit_of_measurement\":\"{}\",''"

definition DISC_PART_PRECISION :: string where
  "DISC_PART_PRECISION =
    ''\"suggested_display_precision\":{},''"

definition DISC_PART_EXPIRE :: string where
  "DISC_PART_EXPIRE =
    ''\"expire_after\":{},''"

definition DISC_PART_TAIL :: string where
  "DISC_PART_TAIL =
    ''\"state_topic\":\"{}/state\",\"value_template\":\"{{{{value_json.{}}}}}\",\"unique_id\":\"{}_{}\",\"device\":{{\"identifiers\":[\"{}\"],\"name\":\"{}\",\"sw_version\":\"{}\",\"manufacturer\":\"Seeed Studio\",\"model\":\"XIAO ESP32-C6\",\"serial_number\":\"{}\"}}}}''"

definition UPDATE_DISCOVERY_FMT :: string where
  "UPDATE_DISCOVERY_FMT =
    ''{{\"name\":\"Firmware\",\"device_class\":\"firmware\",\"state_topic\":\"{}\",\"latest_version_topic\":\"{}\",\"latest_version_template\":\"{{{{ value_json.version }}}}\",\"command_topic\":\"{}\",\"payload_install\":\"install\",\"retain\":true,\"qos\":1,\"unique_id\":\"{}_fw\",\"device\":{{\"identifiers\":[\"{}\"],\"name\":\"{}\",\"sw_version\":\"{}\",\"manufacturer\":\"Seeed Studio\",\"model\":\"XIAO ESP32-C6\",\"serial_number\":\"{}\"}}}}''"

definition CMD_PART_CONFIG_CAT :: string where
  "CMD_PART_CONFIG_CAT =
    ''\"entity_category\":\"config\",''"

definition CMD_PART_MODE_BOX :: string where
  "CMD_PART_MODE_BOX =
    ''\"mode\":\"box\",''"

definition CMD_PART_MINMAXSTEP :: string where
  "CMD_PART_MINMAXSTEP =
    ''\"min\":{},\"max\":{},\"step\":{},''"

definition CMD_PART_PAYLOADS :: string where
  "CMD_PART_PAYLOADS =
    ''\"payload_on\":\"{}\",\"payload_off\":\"{}\",''"

definition CMD_PART_TAIL :: string where
  "CMD_PART_TAIL =
    ''\"state_topic\":\"{}\",\"command_topic\":\"{}\",\"retain\":true,\"qos\":1,\"unique_id\":\"{}_{}\",\"device\":{{\"identifiers\":[\"{}\"],\"name\":\"{}\",\"sw_version\":\"{}\",\"manufacturer\":\"Seeed Studio\",\"model\":\"XIAO ESP32-C6\",\"serial_number\":\"{}\"}}}}''"

definition DISCOVERY_TOPIC_FMT :: string where
  "DISCOVERY_TOPIC_FMT =
    ''homeassistant/sensor/{}/{}/config''"

definition BINARY_DISCOVERY_TOPIC_FMT :: string where
  "BINARY_DISCOVERY_TOPIC_FMT =
    ''homeassistant/binary_sensor/{}/{}/config''"

definition UPDATE_DISCOVERY_TOPIC_FMT :: string where
  "UPDATE_DISCOVERY_TOPIC_FMT =
    ''homeassistant/update/{}/firmware/config''"

definition NUMBER_DISCOVERY_TOPIC_FMT :: string where
  "NUMBER_DISCOVERY_TOPIC_FMT =
    ''homeassistant/number/{}/{}/config''"

definition SWITCH_DISCOVERY_TOPIC_FMT :: string where
  "SWITCH_DISCOVERY_TOPIC_FMT =
    ''homeassistant/switch/{}/{}/config''"

definition STATE_TOPIC_FMT :: string where
  "STATE_TOPIC_FMT =
    ''{}/state''"

definition STATE_FMT_BOTH :: string where
  "STATE_FMT_BOTH =
    ''{{\"t\":{:.3g},\"h\":{:.3g}}}''"

definition STATE_FMT_TEMP :: string where
  "STATE_FMT_TEMP =
    ''{{\"t\":{:.3g}}}''"

definition STATE_FMT_HUMID :: string where
  "STATE_FMT_HUMID =
    ''{{\"h\":{:.3g}}}''"

definition STATE_BATT_SUFFIX_FMT :: string where
  "STATE_BATT_SUFFIX_FMT =
    '',\"b\":{:.2f},\"v\":{:.3f}}}''"

definition STATE_RSSI_SUFFIX_FMT :: string where
  "STATE_RSSI_SUFFIX_FMT =
    '',\"r\":{}}}''"

definition STATE_DIAG_SUFFIX_FMT :: string where
  "STATE_DIAG_SUFFIX_FMT =
    '',\"bc\":{},\"rr\":\"{}\"}}''"

definition STATE_HEATER_SUFFIX_FMT :: string where
  "STATE_HEATER_SUFFIX_FMT =
    '',\"hp\":\"{}\",\"hc\":{}}}''"

definition STATE_RADIO_SUFFIX_FMT :: string where
  "STATE_RADIO_SUFFIX_FMT =
    '',\"rt\":{:.2f},\"rx\":{:.2f}}}''"

definition STATE_LINKQ_SUFFIX_FMT :: string where
  "STATE_LINKQ_SUFFIX_FMT =
    '',\"tr\":{},\"cf\":{}}}''"

definition STATE_UPLINK_SUFFIX_FMT :: string where
  "STATE_UPLINK_SUFFIX_FMT =
    '',\"ur\":{}}}''"

definition STATE_TXPOWER_SUFFIX_FMT :: string where
  "STATE_TXPOWER_SUFFIX_FMT =
    '',\"tp\":{}}}''"

definition STATE_AWAKE_SUFFIX_FMT :: string where
  "STATE_AWAKE_SUFFIX_FMT =
    '',\"aw\":{:.2f}}}''"

definition BACKFILL_TOPIC_FMT :: string where
  "BACKFILL_TOPIC_FMT =
    ''{}/backfill''"

definition BACKFILL_ARRAY_OPEN :: string where
  "BACKFILL_ARRAY_OPEN =
    ''[''"

definition BACKFILL_ENTRY_FIRST_FMT :: string where
  "BACKFILL_ENTRY_FIRST_FMT =
    ''{{\"ago\":{},\"t\":{:.3g},\"h\":{:.3g}}}''"

definition BACKFILL_ENTRY_REST_FMT :: string where
  "BACKFILL_ENTRY_REST_FMT =
    '',{{\"ago\":{},\"t\":{:.3g},\"h\":{:.3g}}}''"

definition BACKFILL_ARRAY_CLOSE :: string where
  "BACKFILL_ARRAY_CLOSE =
    '']''"

section \<open>Entities\<close>

record discovery_spec =
  d_name :: string
  topic_slug :: string
  device_class :: "string option"
  state_class :: "string option"
  d_unit :: "string option"
  precision :: int
  d_key :: string
  diagnostic :: bool

text \<open>The fields a designated initializer leaves out.\<close>

definition spec_default :: discovery_spec where
  "spec_default = \<lparr>d_name = [], topic_slug = [], device_class = None, state_class = None, d_unit = None,
     precision = - 1, d_key = [], diagnostic = False\<rparr>"

text \<open>The degree sign is the two bytes of its UTF-8 form.\<close>

definition deg_c :: string where
  "deg_c = [CHR 0xC2, CHR 0xB0, CHR ''C'']"

definition MEASUREMENT :: "string option" where "MEASUREMENT = Some ''measurement''"

section \<open>Buffer capacities\<close>

definition max_len :: "string list \<Rightarrow> nat" where
  "max_len ss = foldr (\<lambda>s m. max (length s) m) ss 0"

definition MAX_DEVICE_ID_LEN :: nat where "MAX_DEVICE_ID_LEN = MQTT_MAX_DEVICE_ID_LEN"
definition MAX_DEVICE_NAME_LEN :: nat where "MAX_DEVICE_NAME_LEN = MQTT_MAX_DEVICE_NAME_LEN"

definition MAX_NAME_LEN :: nat where
  "MAX_NAME_LEN = max_len [''Temperature'', ''Humidity'', ''Battery'', ''Voltage'', ''Signal strength'', ''Boot count'',
     ''Reset reason'', ''Heater problem'', ''Heater run count'', ''Radio TX time'', ''Radio RX time'', ''TX retries'',
     ''CCA failures'', ''Uplink signal strength'', ''TX power (active)'', ''HP awake time'']"

definition MAX_DEVICE_CLASS_LEN :: nat where
  "MAX_DEVICE_CLASS_LEN =
     max_len [''temperature'', ''humidity'', ''battery'', ''voltage'', ''signal_strength'', ''problem'']"

definition MAX_TOPIC_SLUG_LEN :: nat where
  "MAX_TOPIC_SLUG_LEN = max MAX_DEVICE_CLASS_LEN
     (max_len [''rssi'', ''boot_count'', ''reset_reason'', ''csl_status'', ''heater_problem'', ''heater_run_count'',
       ''radio_tx_time'', ''radio_rx_time'', ''tx_retries'', ''cca_failures'', ''tx_no_ack_expiry'',
       ''link_quality_out'', ''uplink_rssi'', ''tx_power_active'', ''hp_awake_time'', ''mqtt_connect_time'',
       ''mqtt_client_start_time'', ''mqtt_subscribe_time'', ''mqtt_discovery_time'', ''mqtt_state_publish_time'',
       ''mqtt_state_publish_raw_time'', ''mqtt_client_stop_time''])"

definition MAX_STATE_CLASS_LEN :: nat where
  "MAX_STATE_CLASS_LEN = max_len [''measurement'', ''total_increasing'']"

definition MAX_UNIT_LEN :: nat where "MAX_UNIT_LEN = max_len [deg_c, ''%'', ''V'', ''dBm'', ''ms'']"
definition MAX_KEY_LEN :: nat where "MAX_KEY_LEN = max_len [''t'', ''bc'', ''rr'', ''hp'', ''hc'']"
definition MAX_PRECISION_LEN :: nat where "MAX_PRECISION_LEN = 1"
definition MAX_EXPIRE_LEN :: nat where "MAX_EXPIRE_LEN = 10"
definition MAX_FORMATTED_FLOAT_LEN :: nat where "MAX_FORMATTED_FLOAT_LEN = 24"

definition MAX_OTA_TOPIC_LEN :: nat where
  "MAX_OTA_TOPIC_LEN = MAX_DEVICE_ID_LEN + 1 + max_len [''ota/manifest'', ''ota/install'', ''ota/installed'']"

definition MAX_SW_VERSION_LEN :: nat where "MAX_SW_VERSION_LEN = 32 - 1"
definition MAX_SERIAL_LEN :: nat where "MAX_SERIAL_LEN = 2 * MQTT_MAC_ADDRESS_BYTES"

definition MAX_DISCOVERY_TOPIC_LEN :: nat where
  "MAX_DISCOVERY_TOPIC_LEN =
     max (length DISCOVERY_TOPIC_FMT) (length BINARY_DISCOVERY_TOPIC_FMT) + MAX_DEVICE_ID_LEN + MAX_TOPIC_SLUG_LEN"

definition MAX_UPDATE_DISCOVERY_TOPIC_LEN :: nat where
  "MAX_UPDATE_DISCOVERY_TOPIC_LEN = length UPDATE_DISCOVERY_TOPIC_FMT + MAX_DEVICE_ID_LEN"

definition MAX_STATE_TOPIC_LEN :: nat where "MAX_STATE_TOPIC_LEN = length STATE_TOPIC_FMT + MAX_DEVICE_ID_LEN"
definition MAX_BACKFILL_TOPIC_LEN :: nat where "MAX_BACKFILL_TOPIC_LEN = length BACKFILL_TOPIC_FMT + MAX_DEVICE_ID_LEN"

definition MAX_CFG_NAME_LEN :: nat where
  "MAX_CFG_NAME_LEN = max_len [''Temperature offset'', ''Temperature min change'', ''Humidity offset'',
     ''Humidity min change'', ''Max publish gap'', ''Heater period'', ''Heater high-RH trigger'', ''External antenna'',
     ''TX power'', ''Sensor samples'', ''Sleep clock cal samples'', ''Sleep clock cal period'']"

definition MAX_CFG_SUFFIX_LEN :: nat where "MAX_CFG_SUFFIX_LEN = max_len (map cfg_suffix cfg_keys)"
definition MAX_CFG_TOPIC_LEN :: nat where "MAX_CFG_TOPIC_LEN = MAX_DEVICE_ID_LEN + 1 + MAX_CFG_SUFFIX_LEN"
definition MAX_CFG_SLUG_LEN :: nat where "MAX_CFG_SLUG_LEN = MAX_CFG_SUFFIX_LEN - length ''cfg/''"
definition MAX_CFG_UNIT_LEN :: nat where "MAX_CFG_UNIT_LEN = max MAX_UNIT_LEN (length ''min'')"

definition MAX_NUMBER_DISCOVERY_TOPIC_LEN :: nat where
  "MAX_NUMBER_DISCOVERY_TOPIC_LEN = length NUMBER_DISCOVERY_TOPIC_FMT + MAX_DEVICE_ID_LEN + MAX_CFG_SLUG_LEN"

definition MAX_SWITCH_DISCOVERY_TOPIC_LEN :: nat where
  "MAX_SWITCH_DISCOVERY_TOPIC_LEN = length SWITCH_DISCOVERY_TOPIC_FMT + MAX_DEVICE_ID_LEN + MAX_CFG_SLUG_LEN"

definition TOPIC_BUF :: nat where
  "TOPIC_BUF = foldr max [MAX_DISCOVERY_TOPIC_LEN, MAX_UPDATE_DISCOVERY_TOPIC_LEN, MAX_STATE_TOPIC_LEN,
     MAX_BACKFILL_TOPIC_LEN, MAX_NUMBER_DISCOVERY_TOPIC_LEN, MAX_SWITCH_DISCOVERY_TOPIC_LEN] 0 + 1"

definition DISCOVERY_PAYLOAD_BUF :: nat where
  "DISCOVERY_PAYLOAD_BUF = length DISC_PART_HEAD
     + length DISC_PART_DEVICE_CLASS + length DISC_PART_DIAGNOSTIC + length DISC_PART_STATE_CLASS
     + length DISC_PART_UNIT + length DISC_PART_PRECISION + length DISC_PART_EXPIRE
     + length DISC_PART_TAIL
     + MAX_NAME_LEN + MAX_DEVICE_CLASS_LEN + MAX_STATE_CLASS_LEN + MAX_UNIT_LEN
     + MAX_PRECISION_LEN + MAX_EXPIRE_LEN
     + 3 * MAX_DEVICE_ID_LEN + 2 * MAX_KEY_LEN + MAX_DEVICE_NAME_LEN + MAX_SW_VERSION_LEN
     + MAX_SERIAL_LEN + 1"

definition UPDATE_DISCOVERY_PAYLOAD_BUF :: nat where
  "UPDATE_DISCOVERY_PAYLOAD_BUF = length UPDATE_DISCOVERY_FMT
     + 3 * MAX_OTA_TOPIC_LEN + 2 * MAX_DEVICE_ID_LEN + MAX_DEVICE_NAME_LEN
     + MAX_SW_VERSION_LEN + MAX_SERIAL_LEN + 1"

definition CMD_DISCOVERY_PAYLOAD_BUF :: nat where
  "CMD_DISCOVERY_PAYLOAD_BUF = length DISC_PART_HEAD
     + length CMD_PART_CONFIG_CAT + length CMD_PART_MODE_BOX + length CMD_PART_MINMAXSTEP
     + length DISC_PART_UNIT + length CMD_PART_PAYLOADS + length CMD_PART_TAIL
     + MAX_CFG_NAME_LEN + 3 * MAX_FORMATTED_FLOAT_LEN + MAX_CFG_UNIT_LEN
     + length ''ON'' + length ''OFF''
     + 2 * MAX_CFG_TOPIC_LEN + 2 * MAX_DEVICE_ID_LEN + MAX_CFG_SLUG_LEN
     + MAX_DEVICE_NAME_LEN + MAX_SW_VERSION_LEN + MAX_SERIAL_LEN + 1"

definition MAX_BATTERY_PCT_LEN :: nat where "MAX_BATTERY_PCT_LEN = length ''100.00''"
definition MAX_RSSI_LEN :: nat where "MAX_RSSI_LEN = length ''-2147483648''"
definition MAX_BOOT_COUNT_LEN :: nat where "MAX_BOOT_COUNT_LEN = 10"
definition MAX_HEATER_RUN_COUNT_LEN :: nat where "MAX_HEATER_RUN_COUNT_LEN = 10"
definition MAX_LINK_COUNTER_LEN :: nat where "MAX_LINK_COUNTER_LEN = 10"
definition MAX_ON_OFF_LEN :: nat where "MAX_ON_OFF_LEN = length ''OFF''"
definition MAX_TXPOWER_LEN :: nat where "MAX_TXPOWER_LEN = length ''-128''"

definition STATE_BUF :: nat where
  "STATE_BUF = foldr max [length STATE_FMT_BOTH + 2 * MAX_FORMATTED_FLOAT_LEN,
       length STATE_FMT_TEMP + MAX_FORMATTED_FLOAT_LEN, length STATE_FMT_HUMID + MAX_FORMATTED_FLOAT_LEN] 0
     + length STATE_BATT_SUFFIX_FMT + MAX_BATTERY_PCT_LEN + MAX_FORMATTED_FLOAT_LEN
     + length STATE_RSSI_SUFFIX_FMT + MAX_RSSI_LEN
     + length STATE_DIAG_SUFFIX_FMT + MAX_BOOT_COUNT_LEN + MQTT_MAX_RESET_REASON_LEN
     + length STATE_HEATER_SUFFIX_FMT + MAX_ON_OFF_LEN + MAX_HEATER_RUN_COUNT_LEN
     + length STATE_RADIO_SUFFIX_FMT + 2 * MAX_FORMATTED_FLOAT_LEN
     + length STATE_LINKQ_SUFFIX_FMT + 2 * MAX_LINK_COUNTER_LEN
     + length STATE_UPLINK_SUFFIX_FMT + MAX_RSSI_LEN
     + length STATE_TXPOWER_SUFFIX_FMT + MAX_TXPOWER_LEN
     + length STATE_AWAKE_SUFFIX_FMT + MAX_FORMATTED_FLOAT_LEN + 1"

definition BACKFILL_BATCH_SIZE :: nat where "BACKFILL_BATCH_SIZE = 20"

definition MAX_BACKFILL_ENTRY_LEN :: nat where
  "MAX_BACKFILL_ENTRY_LEN = length BACKFILL_ENTRY_REST_FMT + MAX_EXPIRE_LEN + 2 * MAX_FORMATTED_FLOAT_LEN"

definition BACKFILL_PAYLOAD_BUF :: nat where
  "BACKFILL_PAYLOAD_BUF = length BACKFILL_ARRAY_OPEN
     + BACKFILL_BATCH_SIZE * MAX_BACKFILL_ENTRY_LEN + length BACKFILL_ARRAY_CLOSE + 1"

section \<open>Messages\<close>

record mqtt_msg =
  msg_topic :: string
  msg_payload :: string
  msg_qos :: nat
  msg_retain :: bool

text \<open>
  \<open>app_main\<close> gives the sender the device id for both the id and the name.
\<close>

definition cfg_device_id :: "mqtt_config \<Rightarrow> string" where "cfg_device_id c = deviceId (mc_secrets c)"
definition cfg_device_name :: "mqtt_config \<Rightarrow> string" where "cfg_device_name c = deviceId (mc_secrets c)"

definition serial_from_device_id :: "string \<Rightarrow> string" where
  "serial_from_device_id device_id =
    (if MAX_SERIAL_LEN < length device_id then drop (length device_id - MAX_SERIAL_LEN) device_id else device_id)"

text \<open>
  The two ways the builders extend a buffer whose text is not empty: behind it, and over its closing
  brace.
\<close>

definition append_if :: "(flt \<Rightarrow> string) \<Rightarrow> nat \<Rightarrow> bool \<Rightarrow> string \<Rightarrow> fmt_arg list \<Rightarrow> string \<Rightarrow> string" where
  "append_if fmt N b f args t = (if t \<noteq> [] \<and> b then format_append fmt N t (length t) f args else t)"

definition append_over :: "(flt \<Rightarrow> string) \<Rightarrow> nat \<Rightarrow> bool \<Rightarrow> string \<Rightarrow> fmt_arg list \<Rightarrow> string \<Rightarrow> string" where
  "append_over fmt N b f args t = (if t \<noteq> [] \<and> b then format_append fmt N t (length t - 1) f args else t)"

definition opt_arg :: "string option \<Rightarrow> fmt_arg list" where
  "opt_arg s = (case s of None \<Rightarrow> [] | Some t \<Rightarrow> [AStr t])"

text \<open>\<open>version\<close> is the running firmware's version string.\<close>

definition build_discovery_payload :: "(flt \<Rightarrow> string) \<Rightarrow> string \<Rightarrow> mqtt_config \<Rightarrow> discovery_spec \<Rightarrow> string" where
  "build_discovery_payload fmt version c spec =
    (let N = DISCOVERY_PAYLOAD_BUF; device_id = cfg_device_id c;
         t = format_into fmt N DISC_PART_HEAD [AStr (d_name spec)];
         t = append_if fmt N (device_class spec \<noteq> None) DISC_PART_DEVICE_CLASS (opt_arg (device_class spec)) t;
         t = append_if fmt N (diagnostic spec) DISC_PART_DIAGNOSTIC [] t;
         t = append_if fmt N (state_class spec \<noteq> None) DISC_PART_STATE_CLASS (opt_arg (state_class spec)) t;
         t = append_if fmt N (d_unit spec \<noteq> None) DISC_PART_UNIT (opt_arg (d_unit spec)) t;
         t = append_if fmt N (0 \<le> precision spec) DISC_PART_PRECISION [AInt (precision spec)] t;
         t = append_if fmt N (0 < mc_expire_after_sec c) DISC_PART_EXPIRE [AInt (uint (mc_expire_after_sec c))] t
     in append_if fmt N True DISC_PART_TAIL
          [AStr device_id, AStr (d_key spec), AStr device_id, AStr (d_key spec), AStr device_id,
           AStr (cfg_device_name c), AStr version, AStr (serial_from_device_id device_id)] t)"

definition publish_on :: "string \<Rightarrow> (flt \<Rightarrow> string) \<Rightarrow> string \<Rightarrow> mqtt_config \<Rightarrow> discovery_spec \<Rightarrow> mqtt_msg list" where
  "publish_on topic_fmt fmt version c spec =
    (let topic = format_into fmt TOPIC_BUF topic_fmt [AStr (cfg_device_id c), AStr (topic_slug spec)];
         payload = build_discovery_payload fmt version c spec
     in if topic = [] \<or> payload = [] then []
        else [\<lparr>msg_topic = topic, msg_payload = payload, msg_qos = 1, msg_retain = True\<rparr>])"

definition publish_discovery :: "(flt \<Rightarrow> string) \<Rightarrow> string \<Rightarrow> mqtt_config \<Rightarrow> discovery_spec \<Rightarrow> mqtt_msg list" where
  "publish_discovery = publish_on DISCOVERY_TOPIC_FMT"

definition publish_binary_discovery :: "(flt \<Rightarrow> string) \<Rightarrow> string \<Rightarrow> mqtt_config \<Rightarrow> discovery_spec \<Rightarrow> mqtt_msg list" where
  "publish_binary_discovery = publish_on BINARY_DISCOVERY_TOPIC_FMT"

definition publish_update_discovery :: "(flt \<Rightarrow> string) \<Rightarrow> string \<Rightarrow> mqtt_config \<Rightarrow> mqtt_msg list" where
  "publish_update_discovery fmt version c =
    (let device_id = cfg_device_id c;
         topic = format_into fmt TOPIC_BUF UPDATE_DISCOVERY_TOPIC_FMT [AStr device_id];
         payload = format_into fmt UPDATE_DISCOVERY_PAYLOAD_BUF UPDATE_DISCOVERY_FMT
           [AStr (ota_topic device_id ''ota/installed''), AStr (ota_topic device_id ''ota/manifest''),
            AStr (ota_topic device_id ''ota/install''), AStr device_id, AStr device_id,
            AStr (cfg_device_name c), AStr version, AStr (serial_from_device_id device_id)]
     in if topic = [] \<or> payload = [] then []
        else [\<lparr>msg_topic = topic, msg_payload = payload, msg_qos = 1, msg_retain = True\<rparr>,
              \<lparr>msg_topic = ota_topic device_id ''ota/installed'', msg_payload = version, msg_qos = 1, msg_retain = True\<rparr>])"

section \<open>Configuration entities\<close>

fun val_arg :: "cfg_val \<Rightarrow> fmt_arg" where
  "val_arg (CF v) = AFlt v"
| "val_arg (CU v) = AInt (uint v)"
| "val_arg (CI v) = AInt v"
| "val_arg (CB b) = AStr (if b then ''ON'' else ''OFF'')"

record number_entity =
  n_key :: cfg_key
  n_name :: string
  n_slug :: string
  n_step :: cfg_val
  n_unit :: "string option"

definition publish_number_discovery ::
  "(flt \<Rightarrow> string) \<Rightarrow> string \<Rightarrow> mqtt_config \<Rightarrow> runtime_config \<Rightarrow> number_entity \<Rightarrow> mqtt_msg list" where
  "publish_number_discovery fmt version c rc n =
    (let N = CMD_DISCOVERY_PAYLOAD_BUF; device_id = cfg_device_id c; topic = s_topic rc (n_key n);
         config_topic = format_into fmt TOPIC_BUF NUMBER_DISCOVERY_TOPIC_FMT [AStr device_id, AStr (n_slug n)];
         t = format_into fmt N DISC_PART_HEAD [AStr (n_name n)];
         t = append_if fmt N True CMD_PART_CONFIG_CAT [] t;
         t = append_if fmt N True CMD_PART_MODE_BOX [] t;
         t = append_if fmt N True CMD_PART_MINMAXSTEP
               [val_arg (cfg_min (n_key n)), val_arg (cfg_max (n_key n)), val_arg (n_step n)] t;
         t = append_if fmt N (n_unit n \<noteq> None) DISC_PART_UNIT (opt_arg (n_unit n)) t;
         payload = append_if fmt N True CMD_PART_TAIL
               [AStr topic, AStr topic, AStr device_id, AStr (n_slug n), AStr device_id,
                AStr (cfg_device_name c), AStr version, AStr (serial_from_device_id device_id)] t;
         value = cfg_text fmt (current_val rc (n_key n))
     in if config_topic = [] \<or> payload = [] then []
        else \<lparr>msg_topic = config_topic, msg_payload = payload, msg_qos = 1, msg_retain = True\<rparr> #
          (if length value \<le> 32
           then [\<lparr>msg_topic = topic, msg_payload = value, msg_qos = 1, msg_retain = True\<rparr>] else []))"

definition number_entities :: "number_entity list" where
  "number_entities =
    [\<lparr>n_key = TempOffset, n_name = ''Temperature offset'', n_slug = ''temp_offset'',
       n_step = CF (f32 (1 / 10)), n_unit = Some deg_c\<rparr>,
     \<lparr>n_key = TempMinChange, n_name = ''Temperature min change'', n_slug = ''temp_min_change'',
       n_step = CF (f32 (5 / 100)), n_unit = Some deg_c\<rparr>,
     \<lparr>n_key = RhOffset, n_name = ''Humidity offset'', n_slug = ''rh_offset'',
       n_step = CF (f32 (5 / 10)), n_unit = Some ''%''\<rparr>,
     \<lparr>n_key = RhMinChange, n_name = ''Humidity min change'', n_slug = ''rh_min_change'',
       n_step = CF (f32 (5 / 10)), n_unit = Some ''%''\<rparr>,
     \<lparr>n_key = MaxPublishGapSec, n_name = ''Max publish gap'', n_slug = ''max_publish_gap_sec'',
       n_step = CU 1, n_unit = Some ''s''\<rparr>,
     \<lparr>n_key = HeaterPeriodMin, n_name = ''Heater period'', n_slug = ''heater_period_minutes'',
       n_step = CU 1, n_unit = Some ''min''\<rparr>,
     \<lparr>n_key = HeaterHighRhMin, n_name = ''Heater high-RH trigger'', n_slug = ''heater_high_rh_trigger_minutes'',
       n_step = CU 1, n_unit = Some ''min''\<rparr>,
     \<lparr>n_key = TxPowerDbm, n_name = ''TX power'', n_slug = ''tx_power_dbm'',
       n_step = CI 1, n_unit = Some ''dBm''\<rparr>,
     \<lparr>n_key = SensorSamples, n_name = ''Sensor samples'', n_slug = ''sensor_samples'',
       n_step = CU 1, n_unit = None\<rparr>,
     \<lparr>n_key = RtcCalSamples, n_name = ''Sleep clock cal samples'', n_slug = ''rtc_cal_samples'',
       n_step = CU 1, n_unit = None\<rparr>,
     \<lparr>n_key = RtcCalPeriodSec, n_name = ''Sleep clock cal period'', n_slug = ''rtc_cal_period_sec'',
       n_step = CU 30, n_unit = Some ''s''\<rparr>]"

text \<open>An empty retained message at QoS 0, which removes a retired entity.\<close>

definition retire :: "(flt \<Rightarrow> string) \<Rightarrow> string \<Rightarrow> fmt_arg list \<Rightarrow> mqtt_msg list" where
  "retire fmt topic_fmt args =
    (let topic = format_into fmt TOPIC_BUF topic_fmt args in
     if topic = [] then [] else [\<lparr>msg_topic = topic, msg_payload = [], msg_qos = 0, msg_retain = True\<rparr>])"

definition retire_old_max_skip_cycles_discovery :: "(flt \<Rightarrow> string) \<Rightarrow> mqtt_config \<Rightarrow> mqtt_msg list" where
  "retire_old_max_skip_cycles_discovery fmt c =
    retire fmt NUMBER_DISCOVERY_TOPIC_FMT [AStr (cfg_device_id c), AStr ''max_skip_cycles'']"

definition retire_old_battery_adc_time_discovery :: "(flt \<Rightarrow> string) \<Rightarrow> mqtt_config \<Rightarrow> mqtt_msg list" where
  "retire_old_battery_adc_time_discovery fmt c =
    retire fmt DISCOVERY_TOPIC_FMT [AStr (cfg_device_id c), AStr ''battery_adc_time'']"

definition retire_old_rtc_cal_mode :: "(flt \<Rightarrow> string) \<Rightarrow> mqtt_config \<Rightarrow> mqtt_msg list" where
  "retire_old_rtc_cal_mode fmt c =
    retire fmt NUMBER_DISCOVERY_TOPIC_FMT [AStr (cfg_device_id c), AStr ''rtc_cal_mode''] @
    retire fmt ''{}/cfg/rtc_cal_mode'' [AStr (cfg_device_id c)]"

definition RETIRED_SLUGS :: "string list" where
  "RETIRED_SLUGS = [''mqtt_connect_time'', ''mqtt_client_start_time'', ''mqtt_subscribe_time'', ''mqtt_discovery_time'',
     ''mqtt_state_publish_time'', ''mqtt_state_publish_raw_time'', ''mqtt_client_stop_time'',
     ''tx_no_ack_expiry'', ''link_quality_out'']"

definition retire_old_link_and_phase_diagnostics :: "(flt \<Rightarrow> string) \<Rightarrow> mqtt_config \<Rightarrow> mqtt_msg list" where
  "retire_old_link_and_phase_diagnostics fmt c =
    concat (map (\<lambda>slug. retire fmt DISCOVERY_TOPIC_FMT [AStr (cfg_device_id c), AStr slug]) RETIRED_SLUGS)"

definition retire_old_csl_status_discovery :: "(flt \<Rightarrow> string) \<Rightarrow> mqtt_config \<Rightarrow> mqtt_msg list" where
  "retire_old_csl_status_discovery fmt c =
    retire fmt DISCOVERY_TOPIC_FMT [AStr (cfg_device_id c), AStr ''csl_status'']"

definition publish_number_discoveries ::
  "(flt \<Rightarrow> string) \<Rightarrow> string \<Rightarrow> mqtt_config \<Rightarrow> runtime_config \<Rightarrow> mqtt_msg list" where
  "publish_number_discoveries fmt version c rc =
    concat (map (publish_number_discovery fmt version c rc) number_entities) @
    retire_old_max_skip_cycles_discovery fmt c @ retire_old_rtc_cal_mode fmt c"

definition publish_switch_discovery ::
  "(flt \<Rightarrow> string) \<Rightarrow> string \<Rightarrow> mqtt_config \<Rightarrow> runtime_config \<Rightarrow> mqtt_msg list" where
  "publish_switch_discovery fmt version c rc =
    (let N = CMD_DISCOVERY_PAYLOAD_BUF; device_id = cfg_device_id c; topic = s_topic rc ExtAntenna;
         config_topic = format_into fmt TOPIC_BUF SWITCH_DISCOVERY_TOPIC_FMT [AStr device_id, AStr ''ext_antenna''];
         t = format_into fmt N DISC_PART_HEAD [AStr ''External antenna''];
         t = append_if fmt N True CMD_PART_CONFIG_CAT [] t;
         t = append_if fmt N True CMD_PART_PAYLOADS [AStr ''ON'', AStr ''OFF''] t;
         payload = append_if fmt N True CMD_PART_TAIL
               [AStr topic, AStr topic, AStr device_id, AStr ''ext_antenna'', AStr device_id,
                AStr (cfg_device_name c), AStr version, AStr (serial_from_device_id device_id)] t
     in if config_topic = [] \<or> payload = [] then []
        else [\<lparr>msg_topic = config_topic, msg_payload = payload, msg_qos = 1, msg_retain = True\<rparr>,
              \<lparr>msg_topic = topic, msg_payload = (if s_ext_antenna_on rc then ''ON'' else ''OFF''),
               msg_qos = 1, msg_retain = True\<rparr>])"

section \<open>The state message\<close>

record publish_params =
  pp_temperature :: "flt option"
  pp_humidity :: "flt option"
  pp_battery_percent :: "flt option"
  pp_battery_millivolts :: "int option"
  pp_heater_problem :: "bool option"
  pp_heater_run_count :: "u32 option"

definition hasBatt :: "publish_params \<Rightarrow> bool" where
  "hasBatt p \<longleftrightarrow> pp_battery_percent p \<noteq> None \<and> pp_battery_millivolts p \<noteq> None"

definition hasHeater :: "publish_params \<Rightarrow> bool" where
  "hasHeater p \<longleftrightarrow> pp_heater_problem p \<noteq> None \<and> pp_heater_run_count p \<noteq> None"

definition hasAny :: "publish_params \<Rightarrow> bool" where
  "hasAny p \<longleftrightarrow> pp_temperature p \<noteq> None \<or> pp_humidity p \<noteq> None"

definition link_rssi :: "link_stats option \<Rightarrow> int option" where
  "link_rssi l = (case l of None \<Rightarrow> None | Some s \<Rightarrow> rssiDbm s)"

definition hasRadioStats :: "link_stats option \<Rightarrow> bool" where
  "hasRadioStats l \<longleftrightarrow> (case l of None \<Rightarrow> False | Some s \<Rightarrow> radioTxTimeUs s \<noteq> None \<and> radioRxTimeUs s \<noteq> None)"

definition hasLinkQuality :: "link_stats option \<Rightarrow> bool" where
  "hasLinkQuality l \<longleftrightarrow> (case l of None \<Rightarrow> False | Some s \<Rightarrow> txRetries s \<noteq> None \<and> txCcaFailures s \<noteq> None)"

definition hasUplinkRssi :: "link_stats option \<Rightarrow> bool" where
  "hasUplinkRssi l \<longleftrightarrow> (case l of None \<Rightarrow> False | Some s \<Rightarrow> uplinkRssiDbm s \<noteq> None)"

text \<open>A \<open>uint32_t\<close> or \<open>int\<close> converted to \<open>float\<close> and divided by 1000.\<close>

definition thousandth :: "int \<Rightarrow> flt" where
  "thousandth n = f_div f32 (f_int f32 n) (Fin 1000)"

definition state_base :: "(flt \<Rightarrow> string) \<Rightarrow> publish_params \<Rightarrow> string" where
  "state_base fmt p =
    (case (pp_temperature p, pp_humidity p) of
       (Some t, Some h) \<Rightarrow> format_into fmt STATE_BUF STATE_FMT_BOTH [AFlt t, AFlt h]
     | (Some t, None) \<Rightarrow> format_into fmt STATE_BUF STATE_FMT_TEMP [AFlt t]
     | (None, h) \<Rightarrow> format_into fmt STATE_BUF STATE_FMT_HUMID [AFlt (case h of None \<Rightarrow> Fin 0 | Some v \<Rightarrow> v)])"

definition state_message ::
  "(flt \<Rightarrow> string) \<Rightarrow> mqtt_config \<Rightarrow> publish_params \<Rightarrow> link_stats option \<Rightarrow> int \<Rightarrow> u32 \<Rightarrow> string" where
  "state_message fmt c p link tx_power_dbm hpAwakeUs =
    (let N = STATE_BUF; l = (case link of None \<Rightarrow> no_link_stats | Some s \<Rightarrow> s);
         t = state_base fmt p;
         t = append_over fmt N (hasBatt p) STATE_BATT_SUFFIX_FMT
               [AFlt (the (pp_battery_percent p)), AFlt (thousandth (the (pp_battery_millivolts p)))] t;
         t = append_over fmt N (link_rssi link \<noteq> None) STATE_RSSI_SUFFIX_FMT [AInt (the (link_rssi link))] t;
         t = append_over fmt N (hasHeater p) STATE_HEATER_SUFFIX_FMT
               [AStr (if the (pp_heater_problem p) then ''ON'' else ''OFF''), AInt (uint (the (pp_heater_run_count p)))] t;
         t = append_over fmt N (hasRadioStats link) STATE_RADIO_SUFFIX_FMT
               [AFlt (thousandth (uint (the (radioTxTimeUs l)))), AFlt (thousandth (uint (the (radioRxTimeUs l))))] t;
         t = append_over fmt N (hasLinkQuality link) STATE_LINKQ_SUFFIX_FMT
               [AInt (uint (the (txRetries l))), AInt (uint (the (txCcaFailures l)))] t;
         t = append_over fmt N (hasUplinkRssi link) STATE_UPLINK_SUFFIX_FMT [AInt (the (uplinkRssiDbm l))] t;
         t = append_over fmt N True STATE_DIAG_SUFFIX_FMT [AInt (uint (mc_boot_count c)), AStr (mc_reset_reason c)] t;
         t = append_over fmt N True STATE_TXPOWER_SUFFIX_FMT [AInt tx_power_dbm] t
     in append_over fmt N True STATE_AWAKE_SUFFIX_FMT [AFlt (thousandth (uint hpAwakeUs))] t)"

section \<open>The backfill array\<close>

definition entry_args :: "history_entry \<Rightarrow> fmt_arg list" where
  "entry_args e = [AInt (uint (ago_sec e)), AFlt (ent_temp_c e), AFlt (ent_hum_pct e)]"

fun backfill_entries :: "(flt \<Rightarrow> string) \<Rightarrow> bool \<Rightarrow> history_entry list \<Rightarrow> string \<Rightarrow> string" where
  "backfill_entries fmt first [] t = t"
| "backfill_entries fmt first (e # es) t =
    backfill_entries fmt False es
      (append_if fmt BACKFILL_PAYLOAD_BUF True
        (if first then BACKFILL_ENTRY_FIRST_FMT else BACKFILL_ENTRY_REST_FMT) (entry_args e) t)"

definition backfill_payload :: "(flt \<Rightarrow> string) \<Rightarrow> history_entry list \<Rightarrow> string" where
  "backfill_payload fmt replayed =
    append_if fmt BACKFILL_PAYLOAD_BUF True BACKFILL_ARRAY_CLOSE []
      (backfill_entries fmt True replayed (format_into fmt BACKFILL_PAYLOAD_BUF BACKFILL_ARRAY_OPEN []))"

section \<open>Chains of appended parts\<close>

type_synonym part = "bool \<times> string \<times> fmt_arg list"

definition part_text :: "(flt \<Rightarrow> string) \<Rightarrow> part \<Rightarrow> string" where
  "part_text fmt p = (case p of (b, f, args) \<Rightarrow> if b then format_text fmt f args else [])"

definition append_parts :: "(flt \<Rightarrow> string) \<Rightarrow> nat \<Rightarrow> part list \<Rightarrow> string \<Rightarrow> string" where
  "append_parts fmt N ps t = fold (\<lambda>(b, f, args). append_if fmt N b f args) ps t"

definition append_overs :: "(flt \<Rightarrow> string) \<Rightarrow> nat \<Rightarrow> part list \<Rightarrow> string \<Rightarrow> string" where
  "append_overs fmt N ps t = fold (\<lambda>(b, f, args). append_over fmt N b f args) ps t"

lemma append_parts_text:
  "t \<noteq> [] \<Longrightarrow> length t + length (concat (map (part_text fmt) ps)) \<le> N - 1 \<Longrightarrow>
   append_parts fmt N ps t = t @ concat (map (part_text fmt) ps)"
proof (induction ps arbitrary: t)
  case (Cons p ps)
  obtain b f args where p: "p = (b, f, args)" by (metis prod.exhaust)
  have "append_if fmt N b f args t = t @ part_text fmt p"
    using Cons.prems by (auto simp: p append_if_def format_append_def part_text_def Let_def)
  then show ?case
    using Cons.IH [of "t @ part_text fmt p"] Cons.prems by (simp add: append_parts_def p)
qed (simp add: append_parts_def)

text \<open>The parts that go over a closing brace each end in one; \<open>inner\<close> drops it.\<close>

definition inner :: "(flt \<Rightarrow> string) \<Rightarrow> part \<Rightarrow> string" where
  "inner fmt p = butlast (part_text fmt p)"

lemma append_overs_text:
  assumes "\<And>b f args. (b, f, args) \<in> set ps \<Longrightarrow> b \<Longrightarrow> \<exists>x. format_text fmt f args = x @ ''}''"
    and "length t + length (concat (map (inner fmt) ps)) + 1 \<le> N - 1"
  shows "append_overs fmt N ps (t @ ''}'') = t @ concat (map (inner fmt) ps) @ ''}''"
  using assms
proof (induction ps arbitrary: t)
  case (Cons p ps)
  obtain b f args where p: "p = (b, f, args)" by (metis prod.exhaust)
  have "append_over fmt N b f args (t @ ''}'') = (t @ inner fmt p) @ ''}''"
  proof (cases b)
    case True
    with Cons.prems(1) p obtain x where x: "format_text fmt f args = x @ ''}''" by fastforce
    then show ?thesis
      using Cons.prems(2) True by (simp add: p append_over_def format_append_def inner_def part_text_def Let_def)
  qed (simp add: p append_over_def inner_def part_text_def)
  then show ?case
    using Cons.IH [of "t @ inner fmt p"] Cons.prems by (auto simp: append_overs_def p)
qed (simp add: append_overs_def)

text \<open>The length of a list of parts, from bounds on their arguments.\<close>

fun parts_fit :: "(flt \<Rightarrow> string) \<Rightarrow> part list \<Rightarrow> nat list list \<Rightarrow> bool" where
  "parts_fit fmt [] nss \<longleftrightarrow> True"
| "parts_fit fmt ((b, f, args) # ps) (ns # nss) \<longleftrightarrow>
    (b \<longrightarrow> args_fit fmt (format_fields f) args ns) \<and> parts_fit fmt ps nss"
| "parts_fit fmt (p # ps) [] \<longleftrightarrow> False"

definition part_bound :: "part \<Rightarrow> nat list \<Rightarrow> nat" where
  "part_bound p ns = (case p of (b, f, args) \<Rightarrow> length f + sum_list ns - 2 * length (format_fields f))"

lemma parts_length:
  "parts_fit fmt ps nss \<Longrightarrow> length (concat (map (part_text fmt) ps)) \<le> sum_list (map2 part_bound ps nss)"
proof (induction fmt ps nss rule: parts_fit.induct)
  case (2 fmt b f args ps ns nss)
  have "length (part_text fmt (b, f, args)) \<le> part_bound (b, f, args) ns"
    using 2(2) format_length [of fmt f args ns] by (auto simp: part_text_def part_bound_def)
  then show ?case using 2 by simp
qed simp_all

lemma inner_length: "length (inner fmt p) \<le> length (part_text fmt p)"
  by (simp add: inner_def)

text \<open>What the format strings are made of.\<close>

lemma fmt_lengths:
  "length DISC_PART_HEAD = 14"
  "length DISC_PART_DEVICE_CLASS = 20"
  "length DISC_PART_DIAGNOSTIC = 31"
  "length DISC_PART_STATE_CLASS = 19"
  "length DISC_PART_UNIT = 27"
  "length DISC_PART_PRECISION = 33"
  "length DISC_PART_EXPIRE = 18"
  "length DISC_PART_TAIL = 226"
  "length UPDATE_DISCOVERY_FMT = 381"
  "length CMD_PART_CONFIG_CAT = 27"
  "length CMD_PART_MODE_BOX = 13"
  "length CMD_PART_MINMAXSTEP = 28"
  "length CMD_PART_PAYLOADS = 37"
  "length CMD_PART_TAIL = 222"
  "length DISCOVERY_TOPIC_FMT = 33"
  "length BINARY_DISCOVERY_TOPIC_FMT = 40"
  "length UPDATE_DISCOVERY_TOPIC_FMT = 39"
  "length NUMBER_DISCOVERY_TOPIC_FMT = 33"
  "length SWITCH_DISCOVERY_TOPIC_FMT = 33"
  "length STATE_TOPIC_FMT = 8"
  "length STATE_FMT_BOTH = 25"
  "length STATE_FMT_TEMP = 14"
  "length STATE_FMT_HUMID = 14"
  "length STATE_BATT_SUFFIX_FMT = 24"
  "length STATE_RSSI_SUFFIX_FMT = 9"
  "length STATE_DIAG_SUFFIX_FMT = 20"
  "length STATE_HEATER_SUFFIX_FMT = 20"
  "length STATE_RADIO_SUFFIX_FMT = 26"
  "length STATE_LINKQ_SUFFIX_FMT = 18"
  "length STATE_UPLINK_SUFFIX_FMT = 10"
  "length STATE_TXPOWER_SUFFIX_FMT = 10"
  "length STATE_AWAKE_SUFFIX_FMT = 14"
  "length BACKFILL_TOPIC_FMT = 11"
  "length BACKFILL_ARRAY_OPEN = 1"
  "length BACKFILL_ENTRY_FIRST_FMT = 34"
  "length BACKFILL_ENTRY_REST_FMT = 35"
  "length BACKFILL_ARRAY_CLOSE = 1"
  by (simp_all add: DISC_PART_HEAD_def DISC_PART_DEVICE_CLASS_def DISC_PART_DIAGNOSTIC_def
      DISC_PART_STATE_CLASS_def DISC_PART_UNIT_def DISC_PART_PRECISION_def DISC_PART_EXPIRE_def
      DISC_PART_TAIL_def UPDATE_DISCOVERY_FMT_def CMD_PART_CONFIG_CAT_def CMD_PART_MODE_BOX_def
      CMD_PART_MINMAXSTEP_def CMD_PART_PAYLOADS_def CMD_PART_TAIL_def DISCOVERY_TOPIC_FMT_def
      BINARY_DISCOVERY_TOPIC_FMT_def UPDATE_DISCOVERY_TOPIC_FMT_def NUMBER_DISCOVERY_TOPIC_FMT_def
      SWITCH_DISCOVERY_TOPIC_FMT_def STATE_TOPIC_FMT_def STATE_FMT_BOTH_def STATE_FMT_TEMP_def
      STATE_FMT_HUMID_def STATE_BATT_SUFFIX_FMT_def STATE_RSSI_SUFFIX_FMT_def STATE_DIAG_SUFFIX_FMT_def
      STATE_HEATER_SUFFIX_FMT_def STATE_RADIO_SUFFIX_FMT_def STATE_LINKQ_SUFFIX_FMT_def
      STATE_UPLINK_SUFFIX_FMT_def STATE_TXPOWER_SUFFIX_FMT_def STATE_AWAKE_SUFFIX_FMT_def
      BACKFILL_TOPIC_FMT_def BACKFILL_ARRAY_OPEN_def BACKFILL_ENTRY_FIRST_FMT_def BACKFILL_ENTRY_REST_FMT_def
      BACKFILL_ARRAY_CLOSE_def)

lemma disc_fields:
  "format_fields DISC_PART_HEAD = ['''']" "format_fields DISC_PART_DEVICE_CLASS = ['''']"
  "format_fields DISC_PART_DIAGNOSTIC = []" "format_fields DISC_PART_STATE_CLASS = ['''']"
  "format_fields DISC_PART_UNIT = ['''']" "format_fields DISC_PART_PRECISION = ['''']"
  "format_fields DISC_PART_EXPIRE = ['''']" "format_fields DISC_PART_TAIL = ['''', '''', '''', '''', '''', '''', '''', '''']"
  by code_simp+

lemma cmd_fields:
  "format_fields CMD_PART_CONFIG_CAT = []" "format_fields CMD_PART_MODE_BOX = []"
  "format_fields CMD_PART_MINMAXSTEP = ['''', '''', '''']" "format_fields CMD_PART_PAYLOADS = ['''', '''']"
  "format_fields CMD_PART_TAIL = ['''', '''', '''', '''', '''', '''', '''', '''']"
  by code_simp+

lemma update_fields: "format_fields UPDATE_DISCOVERY_FMT = ['''', '''', '''', '''', '''', '''', '''', '''']"
  by code_simp

lemma topic_fields:
  "format_fields DISCOVERY_TOPIC_FMT = ['''', '''']" "format_fields BINARY_DISCOVERY_TOPIC_FMT = ['''', '''']"
  "format_fields UPDATE_DISCOVERY_TOPIC_FMT = ['''']" "format_fields NUMBER_DISCOVERY_TOPIC_FMT = ['''', '''']"
  "format_fields SWITCH_DISCOVERY_TOPIC_FMT = ['''', '''']" "format_fields STATE_TOPIC_FMT = ['''']"
  "format_fields BACKFILL_TOPIC_FMT = ['''']" "format_fields ''{}/cfg/rtc_cal_mode'' = ['''']"
  by code_simp+

section \<open>Nothing is truncated\<close>

text \<open>A configuration \<open>app_main\<close> can hand over, with the version of the running image.\<close>

definition config_ok :: "mqtt_config \<Rightarrow> string \<Rightarrow> bool" where
  "config_ok c version \<longleftrightarrow> length (deviceId (mc_secrets c)) \<le> MQTT_MAX_DEVICE_ID_LEN \<and>
     length (mc_reset_reason c) \<le> MQTT_MAX_RESET_REASON_LEN \<and> length version \<le> MAX_SW_VERSION_LEN"

definition spec_ok :: "discovery_spec \<Rightarrow> bool" where
  "spec_ok s \<longleftrightarrow> length (d_name s) \<le> MAX_NAME_LEN \<and> length (topic_slug s) \<le> MAX_TOPIC_SLUG_LEN \<and>
     length (d_key s) \<le> MAX_KEY_LEN \<and> precision s < 10 \<and>
     (\<forall>x. device_class s = Some x \<longrightarrow> length x \<le> MAX_DEVICE_CLASS_LEN) \<and>
     (\<forall>x. state_class s = Some x \<longrightarrow> length x \<le> MAX_STATE_CLASS_LEN) \<and>
     (\<forall>x. d_unit s = Some x \<longrightarrow> length x \<le> MAX_UNIT_LEN)"

lemma max_lens:
  "MAX_NAME_LEN = 22" "MAX_DEVICE_CLASS_LEN = 15" "MAX_TOPIC_SLUG_LEN = 27" "MAX_STATE_CLASS_LEN = 16" "MAX_UNIT_LEN = 3"
  "MAX_KEY_LEN = 2" "MQTT_MAX_RESET_REASON_LEN = 15" "MAX_CFG_SUFFIX_LEN = 34" "MAX_CFG_UNIT_LEN = 3"
  "MAX_CFG_NAME_LEN = 23" "MAX_CFG_SLUG_LEN = 30"
  by (simp_all add: MAX_NAME_LEN_def MAX_DEVICE_CLASS_LEN_def MAX_TOPIC_SLUG_LEN_def MAX_STATE_CLASS_LEN_def
      MAX_UNIT_LEN_def MAX_KEY_LEN_def MQTT_MAX_RESET_REASON_LEN_def MAX_CFG_SUFFIX_LEN_def MAX_CFG_UNIT_LEN_def
      MAX_CFG_NAME_LEN_def MAX_CFG_SLUG_LEN_def max_len_def deg_c_def cfg_keys_def)

lemma id_lens:
  "MQTT_MAX_DEVICE_ID_LEN = 81" "MAX_DEVICE_ID_LEN = 81" "MAX_DEVICE_NAME_LEN = 64" "MAX_SERIAL_LEN = 16"
  "MAX_SW_VERSION_LEN = 31" "MAX_CFG_TOPIC_LEN = 116" "MAX_OTA_TOPIC_LEN = 95"
  by (simp_all add: MQTT_MAX_DEVICE_ID_LEN_def MQTT_MAX_DEVICE_NAME_LEN_def MQTT_MAC_ADDRESS_BYTES_def MAX_DEVICE_ID_LEN_def
      MAX_DEVICE_NAME_LEN_def MAX_SERIAL_LEN_def MAX_SW_VERSION_LEN_def MAX_CFG_TOPIC_LEN_def max_lens MAX_OTA_TOPIC_LEN_def
      max_len_def)

lemma length_serial: "length (serial_from_device_id s) \<le> 16"
  by (simp add: serial_from_device_id_def id_lens)

lemma head_text: "format_text fmt DISC_PART_HEAD [AStr n] = ''{\"name\":\"'' @ n @ ''\",''"
  by (simp add: format_text_def DISC_PART_HEAD_def format_pieces.simps)

definition tail_args :: "mqtt_config \<Rightarrow> string \<Rightarrow> string \<Rightarrow> string \<Rightarrow> string \<Rightarrow> fmt_arg list" where
  "tail_args c version a b slug =
    (let device_id = cfg_device_id c in
     [AStr a, AStr b, AStr device_id, AStr slug, AStr device_id, AStr (cfg_device_name c), AStr version,
      AStr (serial_from_device_id device_id)])"

definition discovery_parts :: "string \<Rightarrow> mqtt_config \<Rightarrow> discovery_spec \<Rightarrow> part list" where
  "discovery_parts version c spec =
    [(device_class spec \<noteq> None, DISC_PART_DEVICE_CLASS, opt_arg (device_class spec)),
     (diagnostic spec, DISC_PART_DIAGNOSTIC, []),
     (state_class spec \<noteq> None, DISC_PART_STATE_CLASS, opt_arg (state_class spec)),
     (d_unit spec \<noteq> None, DISC_PART_UNIT, opt_arg (d_unit spec)),
     (0 \<le> precision spec, DISC_PART_PRECISION, [AInt (precision spec)]),
     (0 < mc_expire_after_sec c, DISC_PART_EXPIRE, [AInt (uint (mc_expire_after_sec c))]),
     (True, DISC_PART_TAIL, tail_args c version (cfg_device_id c) (d_key spec) (d_key spec))]"

lemma build_discovery_payload_parts:
  "build_discovery_payload fmt version c spec =
   append_parts fmt DISCOVERY_PAYLOAD_BUF (discovery_parts version c spec)
     (format_into fmt DISCOVERY_PAYLOAD_BUF DISC_PART_HEAD [AStr (d_name spec)])"
  by (simp add: build_discovery_payload_def append_parts_def discovery_parts_def tail_args_def Let_def)

lemma tail_args_fit:
  assumes "config_ok c version" "length a \<le> ka" "length b \<le> kb" "length slug \<le> ks"
  shows "args_fit fmt (['''', '''', '''', '''', '''', '''', '''', '''']) (tail_args c version a b slug) [ka, kb, 81, ks, 81, 81, 31, 16]"
  using assms length_serial
  by (simp add: config_ok_def id_lens tail_args_def cfg_device_id_def cfg_device_name_def Let_def)

lemma discovery_parts_fit:
  assumes c: "config_ok c version" and s: "spec_ok spec"
  shows "parts_fit fmt (discovery_parts version c spec)
    [[15], [], [16], [3], [1], [10], [81, 2, 81, 2, 81, 81, 31, 16]]"
proof -
  have "length (render_int (precision spec)) \<le> 1" if "0 \<le> precision spec"
    using length_render_int [of "precision spec" 1] that s by (simp add: spec_ok_def)
  moreover have "args_fit fmt (['''', '''', '''', '''', '''', '''', '''', '''']) (tail_args c version (cfg_device_id c) (d_key spec) (d_key spec))
      [81, 2, 81, 2, 81, 81, 31, 16]"
    using c s by (intro tail_args_fit) (simp_all add: config_ok_def spec_ok_def max_lens id_lens cfg_device_id_def)
  ultimately show ?thesis
    using s length_render_int_u32
    by (auto simp: discovery_parts_def disc_fields opt_arg_def spec_ok_def max_lens split: option.split)
qed

lemma discovery_payload_text:
  assumes c: "config_ok c version" and s: "spec_ok spec"
  shows "build_discovery_payload fmt version c spec =
    ''{\"name\":\"'' @ d_name spec @ ''\",'' @ concat (map (part_text fmt) (discovery_parts version c spec))"
proof -
  let ?bound = "sum_list
      (map2 part_bound (discovery_parts version c spec) [[15], [], [16], [3], [1], [10], [81, 2, 81, 2, 81, 81, 31, 16]])"
  have "length (concat (map (part_text fmt) (discovery_parts version c spec))) \<le> ?bound"
    by (rule parts_length [OF discovery_parts_fit [OF c s]])
  moreover have "?bound + 34 < DISCOVERY_PAYLOAD_BUF"
    by (simp add: part_bound_def discovery_parts_def disc_fields fmt_lengths DISCOVERY_PAYLOAD_BUF_def max_lens id_lens
        MAX_PRECISION_LEN_def MAX_EXPIRE_LEN_def)
  ultimately have len: "length (concat (map (part_text fmt) (discovery_parts version c spec))) + 34 < DISCOVERY_PAYLOAD_BUF"
    by linarith
  have n: "length (d_name spec) \<le> 22" using s by (simp add: spec_ok_def max_lens)
  have "format_into fmt DISCOVERY_PAYLOAD_BUF DISC_PART_HEAD [AStr (d_name spec)] = ''{\"name\":\"'' @ d_name spec @ ''\",''"
    using len n by (simp add: format_into_def head_text Let_def)
  then show ?thesis
    unfolding build_discovery_payload_parts using len n by (subst append_parts_text) simp_all
qed

lemma TOPIC_BUF_eval: "TOPIC_BUF = 149"
  by (simp add: TOPIC_BUF_def MAX_DISCOVERY_TOPIC_LEN_def MAX_UPDATE_DISCOVERY_TOPIC_LEN_def MAX_STATE_TOPIC_LEN_def
      MAX_BACKFILL_TOPIC_LEN_def MAX_NUMBER_DISCOVERY_TOPIC_LEN_def MAX_SWITCH_DISCOVERY_TOPIC_LEN_def
      fmt_lengths max_lens id_lens)

lemma topic_texts:
  "format_text fmt DISCOVERY_TOPIC_FMT [AStr a, AStr b] = ''homeassistant/sensor/'' @ a @ ''/'' @ b @ ''/config''"
  "format_text fmt BINARY_DISCOVERY_TOPIC_FMT [AStr a, AStr b] = ''homeassistant/binary_sensor/'' @ a @ ''/'' @ b @ ''/config''"
  "format_text fmt UPDATE_DISCOVERY_TOPIC_FMT [AStr a] = ''homeassistant/update/'' @ a @ ''/firmware/config''"
  "format_text fmt NUMBER_DISCOVERY_TOPIC_FMT [AStr a, AStr b] = ''homeassistant/number/'' @ a @ ''/'' @ b @ ''/config''"
  "format_text fmt SWITCH_DISCOVERY_TOPIC_FMT [AStr a, AStr b] = ''homeassistant/switch/'' @ a @ ''/'' @ b @ ''/config''"
  "format_text fmt STATE_TOPIC_FMT [AStr a] = a @ ''/state''"
  "format_text fmt BACKFILL_TOPIC_FMT [AStr a] = a @ ''/backfill''"
  "format_text fmt ''{}/cfg/rtc_cal_mode'' [AStr a] = a @ ''/cfg/rtc_cal_mode''"
  by (simp_all add: format_text_def DISCOVERY_TOPIC_FMT_def BINARY_DISCOVERY_TOPIC_FMT_def UPDATE_DISCOVERY_TOPIC_FMT_def
      NUMBER_DISCOVERY_TOPIC_FMT_def SWITCH_DISCOVERY_TOPIC_FMT_def STATE_TOPIC_FMT_def BACKFILL_TOPIC_FMT_def
      format_pieces.simps)

lemma format_into_text: "length (format_text fmt f args) < N \<Longrightarrow> format_into fmt N f args = format_text fmt f args"
  unfolding format_into_def Let_def by (rule if_not_P) linarith

text \<open>One discovery message, complete.\<close>

lemma publish_on_one:
  assumes "config_ok c version" "spec_ok spec"
    and "topic_fmt = DISCOVERY_TOPIC_FMT \<or> topic_fmt = BINARY_DISCOVERY_TOPIC_FMT"
  shows "publish_on topic_fmt fmt version c spec =
    [\<lparr>msg_topic = format_text fmt topic_fmt [AStr (cfg_device_id c), AStr (topic_slug spec)],
      msg_payload = build_discovery_payload fmt version c spec, msg_qos = 1, msg_retain = True\<rparr>]"
proof -
  have "length (format_text fmt topic_fmt [AStr (cfg_device_id c), AStr (topic_slug spec)]) < TOPIC_BUF"
    using assms by (auto simp: topic_texts TOPIC_BUF_eval config_ok_def spec_ok_def id_lens max_lens cfg_device_id_def)
  moreover have "format_text fmt topic_fmt [AStr (cfg_device_id c), AStr (topic_slug spec)] \<noteq> []"
    using assms(3) by (auto simp: topic_texts)
  moreover have "build_discovery_payload fmt version c spec \<noteq> []"
    using discovery_payload_text [OF assms(1,2)] by simp
  ultimately show ?thesis by (simp add: publish_on_def format_into_text)
qed

lemma update_pieces:
  "case format_pieces UPDATE_DISCOVERY_FMT of Some (Lit c # ps) \<Rightarrow> length ps + 17 = length UPDATE_DISCOVERY_FMT | _ \<Rightarrow> False"
  by code_simp

lemma publish_update_two:
  assumes c: "config_ok c version"
  shows "\<exists>m. publish_update_discovery fmt version c =
    [m, \<lparr>msg_topic = ota_topic (cfg_device_id c) ''ota/installed'', msg_payload = version, msg_qos = 1, msg_retain = True\<rparr>] \<and>
    msg_topic m = ''homeassistant/update/'' @ cfg_device_id c @ ''/firmware/config'' \<and> msg_qos m = 1"
proof -
  define args where "args = [AStr (ota_topic (cfg_device_id c) ''ota/installed''), AStr (ota_topic (cfg_device_id c) ''ota/manifest''),
    AStr (ota_topic (cfg_device_id c) ''ota/install''), AStr (cfg_device_id c), AStr (cfg_device_id c),
    AStr (cfg_device_name c), AStr version, AStr (serial_from_device_id (cfg_device_id c))]"
  from update_pieces obtain k ps where ps: "format_pieces UPDATE_DISCOVERY_FMT = Some (Lit k # ps)"
    and len: "length ps + 17 = length UPDATE_DISCOVERY_FMT"
    by (auto split: option.splits list.splits piece.splits)
  have id: "length (cfg_device_id c) \<le> 81" "length version \<le> 31" "cfg_device_name c = cfg_device_id c"
    using c by (simp_all add: config_ok_def id_lens cfg_device_id_def cfg_device_name_def)
  have fields: "piece_fields (Lit k # ps) = ['''', '''', '''', '''', '''', '''', '''', '''']"
    using format_fields_pieces [OF ps] update_fields by simp
  have "args_fit fmt (piece_fields (Lit k # ps)) args [95, 94, 93, 81, 81, 81, 31, 16]"
    unfolding fields using id length_serial [of "cfg_device_id c"] by (simp add: args_def ota_topic_def)
  from fill_length [OF this]
  have "length (format_text fmt UPDATE_DISCOVERY_FMT args) < UPDATE_DISCOVERY_PAYLOAD_BUF"
    using len by (simp add: format_text_pieces [OF ps] UPDATE_DISCOVERY_PAYLOAD_BUF_def id_lens)
  moreover have "format_text fmt UPDATE_DISCOVERY_FMT args \<noteq> []"
    by (simp add: format_text_pieces [OF ps])
  moreover have "length (format_text fmt UPDATE_DISCOVERY_TOPIC_FMT [AStr (cfg_device_id c)]) < TOPIC_BUF"
    using id by (simp add: topic_texts TOPIC_BUF_eval)
  ultimately show ?thesis
    unfolding publish_update_discovery_def Let_def args_def [symmetric]
    by (simp add: format_into_text topic_texts)
qed

text \<open>The configuration entities, over a runtime configuration that was set up for this device.\<close>

definition rc_ok :: "mqtt_config \<Rightarrow> runtime_config \<Rightarrow> bool" where
  "rc_ok c rc \<longleftrightarrow> (\<forall>k. s_topic rc k = full_topic (cfg_device_id c) (cfg_suffix k)) \<and>
     - 128 \<le> tx_accepted rc \<and> tx_accepted rc \<le> 127"

definition fmt_ok :: "(flt \<Rightarrow> string) \<Rightarrow> bool" where
  "fmt_ok fmt \<longleftrightarrow> (\<forall>v. length (fmt v) \<le> MAX_FORMATTED_FLOAT_LEN)"

lemma length_cfg_suffix: "length (cfg_suffix k) \<le> 34"
  by (cases k) simp_all

lemma length_topic: "config_ok c version \<Longrightarrow> rc_ok c rc \<Longrightarrow> length (s_topic rc k) \<le> 116"
  using length_cfg_suffix [of k] by (simp add: rc_ok_def full_topic_def config_ok_def cfg_device_id_def id_lens)

definition number_parts :: "string \<Rightarrow> mqtt_config \<Rightarrow> runtime_config \<Rightarrow> number_entity \<Rightarrow> part list" where
  "number_parts version c rc n =
    [(True, CMD_PART_CONFIG_CAT, []), (True, CMD_PART_MODE_BOX, []),
     (True, CMD_PART_MINMAXSTEP, [val_arg (cfg_min (n_key n)), val_arg (cfg_max (n_key n)), val_arg (n_step n)]),
     (n_unit n \<noteq> None, DISC_PART_UNIT, opt_arg (n_unit n)),
     (True, CMD_PART_TAIL, tail_args c version (s_topic rc (n_key n)) (s_topic rc (n_key n)) (n_slug n))]"

definition switch_parts :: "string \<Rightarrow> mqtt_config \<Rightarrow> runtime_config \<Rightarrow> part list" where
  "switch_parts version c rc =
    [(True, CMD_PART_CONFIG_CAT, []), (True, CMD_PART_PAYLOADS, [AStr ''ON'', AStr ''OFF'']),
     (True, CMD_PART_TAIL, tail_args c version (s_topic rc ExtAntenna) (s_topic rc ExtAntenna) ''ext_antenna'')]"

definition small_val :: "cfg_val \<Rightarrow> bool" where
  "small_val v \<longleftrightarrow> (case v of CI i \<Rightarrow> \<bar>i\<bar> < 1000 | CB b \<Rightarrow> False | _ \<Rightarrow> True)"

lemma length_val_arg: "fmt_ok fmt \<Longrightarrow> small_val v \<Longrightarrow> length (render_arg fmt '''' (val_arg v)) \<le> 24"
proof (cases v)
  case (CU w)
  then show ?thesis using length_render_int_u32 [of w] by simp
next
  case (CI i)
  assume "small_val v"
  with CI length_render_int [of i 3] show ?thesis by (auto simp: small_val_def split: if_splits)
qed (auto simp: fmt_ok_def MAX_FORMATTED_FLOAT_LEN_def small_val_def)

definition entity_ok :: "number_entity \<Rightarrow> bool" where
  "entity_ok n \<longleftrightarrow> length (n_name n) \<le> 23 \<and> length (n_slug n) \<le> 30 \<and> small_val (n_step n) \<and>
     n_key n \<noteq> ExtAntenna \<and> (\<forall>x. n_unit n = Some x \<longrightarrow> length x \<le> 3)"

lemma number_entities_ok: "list_all entity_ok number_entities"
  by (simp add: number_entities_def entity_ok_def small_val_def deg_c_def)

lemma small_ranges: "k \<noteq> ExtAntenna \<Longrightarrow> small_val (cfg_min k) \<and> small_val (cfg_max k)"
  by (cases k) (simp_all add: small_val_def)

lemma number_parts_fit:
  assumes "config_ok c version" "rc_ok c rc" "fmt_ok fmt" "entity_ok n"
  shows "parts_fit fmt (number_parts version c rc n)
    [[], [], [24, 24, 24], [3], [116, 116, 81, 30, 81, 81, 31, 16]]"
proof -
  have "args_fit fmt ['''', '''', '''', '''', '''', '''', '''', '''']
      (tail_args c version (s_topic rc (n_key n)) (s_topic rc (n_key n)) (n_slug n)) [116, 116, 81, 30, 81, 81, 31, 16]"
    using assms length_topic by (intro tail_args_fit) (auto simp: entity_ok_def)
  then show ?thesis
    using assms small_ranges [of "n_key n"] length_val_arg [OF assms(3)]
    by (auto simp: number_parts_def cmd_fields disc_fields opt_arg_def entity_ok_def split: option.split)
qed

lemma cmd_payload_text:
  assumes fit: "parts_fit fmt ps nss" and n: "length name \<le> 23"
    and bound: "sum_list (map2 part_bound ps nss) + 34 < CMD_DISCOVERY_PAYLOAD_BUF"
  shows "append_parts fmt CMD_DISCOVERY_PAYLOAD_BUF ps (format_into fmt CMD_DISCOVERY_PAYLOAD_BUF DISC_PART_HEAD [AStr name]) =
    ''{\"name\":\"'' @ name @ ''\",'' @ concat (map (part_text fmt) ps)"
proof -
  have len: "length (concat (map (part_text fmt) ps)) + 34 < CMD_DISCOVERY_PAYLOAD_BUF"
    using parts_length [OF fit] bound by linarith
  have "format_into fmt CMD_DISCOVERY_PAYLOAD_BUF DISC_PART_HEAD [AStr name] = ''{\"name\":\"'' @ name @ ''\",''"
    using len n by (subst format_into_text) (simp_all add: head_text)
  then show ?thesis using len n by (subst append_parts_text) simp_all
qed

lemma number_payload_parts:
  "publish_number_discovery fmt version c rc n =
    (let topic = format_into fmt TOPIC_BUF NUMBER_DISCOVERY_TOPIC_FMT [AStr (cfg_device_id c), AStr (n_slug n)];
         payload = append_parts fmt CMD_DISCOVERY_PAYLOAD_BUF (number_parts version c rc n)
           (format_into fmt CMD_DISCOVERY_PAYLOAD_BUF DISC_PART_HEAD [AStr (n_name n)]);
         value = cfg_text fmt (current_val rc (n_key n))
     in if topic = [] \<or> payload = [] then []
        else \<lparr>msg_topic = topic, msg_payload = payload, msg_qos = 1, msg_retain = True\<rparr> #
          (if length value \<le> 32
           then [\<lparr>msg_topic = s_topic rc (n_key n), msg_payload = value, msg_qos = 1, msg_retain = True\<rparr>] else []))"
  by (simp add: publish_number_discovery_def append_parts_def number_parts_def tail_args_def Let_def)

lemma length_value:
  assumes "fmt_ok fmt" "rc_ok c rc"
  shows "length (cfg_text fmt (current_val rc k)) \<le> 32"
proof -
  have "length (fmt v) \<le> 32" for v
    using assms(1) le_trans [of "length (fmt v)" 24 32] by (simp add: fmt_ok_def MAX_FORMATTED_FLOAT_LEN_def)
  moreover have "length (render_nat (unat w)) \<le> 32" for w :: u32
    using length_render_int_u32 [of w] by (simp add: render_int_def)
  moreover have "\<bar>tx_accepted rc\<bar> < 10 ^ 3" using assms(2) by (auto simp: rc_ok_def)
  then have "length (render_int (tx_accepted rc)) \<le> 32"
    using length_render_int [of "tx_accepted rc" 3] by (auto split: if_splits)
  ultimately show ?thesis by (cases k) simp_all
qed

text \<open>Two messages per entity: its configuration and the retained value.\<close>

definition value_msg :: "(flt \<Rightarrow> string) \<Rightarrow> runtime_config \<Rightarrow> cfg_key \<Rightarrow> mqtt_msg" where
  "value_msg fmt rc k = \<lparr>msg_topic = s_topic rc k, msg_payload = cfg_text fmt (current_val rc k), msg_qos = 1,
     msg_retain = True\<rparr>"

lemma publish_number_two:
  assumes "config_ok c version" "rc_ok c rc" "fmt_ok fmt" "entity_ok n"
  shows "publish_number_discovery fmt version c rc n =
    [\<lparr>msg_topic = ''homeassistant/number/'' @ cfg_device_id c @ ''/'' @ n_slug n @ ''/config'',
      msg_payload = ''{\"name\":\"'' @ n_name n @ ''\",'' @ concat (map (part_text fmt) (number_parts version c rc n)),
      msg_qos = 1, msg_retain = True\<rparr>, value_msg fmt rc (n_key n)]"
proof -
  have "length (format_text fmt NUMBER_DISCOVERY_TOPIC_FMT [AStr (cfg_device_id c), AStr (n_slug n)]) < TOPIC_BUF"
    using assms by (simp add: topic_texts TOPIC_BUF_eval config_ok_def entity_ok_def id_lens cfg_device_id_def)
  moreover have "sum_list (map2 part_bound (number_parts version c rc n)
      [[], [], [24, 24, 24], [3], [116, 116, 81, 30, 81, 81, 31, 16]]) + 34 < CMD_DISCOVERY_PAYLOAD_BUF"
    by (simp add: part_bound_def number_parts_def disc_fields cmd_fields fmt_lengths CMD_DISCOVERY_PAYLOAD_BUF_def
        max_lens id_lens MAX_FORMATTED_FLOAT_LEN_def)
  moreover have "length (n_name n) \<le> 23" using assms(4) by (simp add: entity_ok_def)
  ultimately show ?thesis
    using cmd_payload_text [OF number_parts_fit [OF assms]] length_value [OF assms(3,2)]
    by (simp add: number_payload_parts format_into_text topic_texts value_msg_def)
qed

lemma publish_switch_two:
  assumes "config_ok c version" "rc_ok c rc"
  shows "publish_switch_discovery fmt version c rc =
    [\<lparr>msg_topic = ''homeassistant/switch/'' @ cfg_device_id c @ ''/ext_antenna/config'',
      msg_payload = ''{\"name\":\"External antenna\",'' @ concat (map (part_text fmt) (switch_parts version c rc)),
      msg_qos = 1, msg_retain = True\<rparr>, value_msg fmt rc ExtAntenna]"
proof -
  have t: "length (format_text fmt SWITCH_DISCOVERY_TOPIC_FMT [AStr (cfg_device_id c), AStr ''ext_antenna'']) < TOPIC_BUF"
    using assms by (simp add: topic_texts TOPIC_BUF_eval config_ok_def id_lens cfg_device_id_def)
  have "args_fit fmt ['''', '''', '''', '''', '''', '''', '''', '''']
      (tail_args c version (s_topic rc ExtAntenna) (s_topic rc ExtAntenna) ''ext_antenna'') [116, 116, 81, 30, 81, 81, 31, 16]"
    using assms length_topic by (intro tail_args_fit) auto
  then have fit: "parts_fit fmt (switch_parts version c rc) [[], [2, 3], [116, 116, 81, 30, 81, 81, 31, 16]]"
    by (simp add: switch_parts_def cmd_fields)
  have "sum_list (map2 part_bound (switch_parts version c rc) [[], [2, 3], [116, 116, 81, 30, 81, 81, 31, 16]]) + 34
      < CMD_DISCOVERY_PAYLOAD_BUF"
    by (simp add: part_bound_def switch_parts_def disc_fields cmd_fields fmt_lengths CMD_DISCOVERY_PAYLOAD_BUF_def
        max_lens id_lens MAX_FORMATTED_FLOAT_LEN_def)
  from cmd_payload_text [OF fit _ this, of "''External antenna''"]
  have p: "append_parts fmt CMD_DISCOVERY_PAYLOAD_BUF (switch_parts version c rc)
      (format_into fmt CMD_DISCOVERY_PAYLOAD_BUF DISC_PART_HEAD [AStr ''External antenna'']) =
    ''{\"name\":\"External antenna\",'' @ concat (map (part_text fmt) (switch_parts version c rc))"
    by simp
  have "publish_switch_discovery fmt version c rc =
    (let topic = format_into fmt TOPIC_BUF SWITCH_DISCOVERY_TOPIC_FMT [AStr (cfg_device_id c), AStr ''ext_antenna''];
         payload = append_parts fmt CMD_DISCOVERY_PAYLOAD_BUF (switch_parts version c rc)
           (format_into fmt CMD_DISCOVERY_PAYLOAD_BUF DISC_PART_HEAD [AStr ''External antenna''])
     in if topic = [] \<or> payload = [] then []
        else [\<lparr>msg_topic = topic, msg_payload = payload, msg_qos = 1, msg_retain = True\<rparr>, value_msg fmt rc ExtAntenna])"
    by (simp add: publish_switch_discovery_def append_parts_def switch_parts_def tail_args_def value_msg_def Let_def)
  then show ?thesis by (simp add: p format_into_text [OF t] topic_texts)
qed

text \<open>Removals go out at QoS 0: they are never acknowledged.\<close>

lemma retire_qos: "m \<in> set (retire fmt f args) \<Longrightarrow> msg_qos m = 0"
  by (auto simp: retire_def Let_def split: if_splits)

section \<open>The state message is one object\<close>

definition json_member :: "string \<times> string \<Rightarrow> string" where
  "json_member m = CHR 0x22 # fst m @ CHR 0x22 # CHR '':'' # snd m"

text \<open>The text of an object with the given members, values as text.\<close>

fun json_object :: "(string \<times> string) list \<Rightarrow> string" where
  "json_object [] = ''{}''"
| "json_object (m # ms) = CHR ''{'' # json_member m @ concat (map (\<lambda>m. CHR '','' # json_member m) ms) @ ''}''"

definition quote :: "string \<Rightarrow> string" where
  "quote s = CHR 0x22 # s @ [CHR 0x22]"

text \<open>The members the message is meant to have: one per reading that is present, then the constants.\<close>

definition state_fields ::
  "mqtt_config \<Rightarrow> publish_params \<Rightarrow> link_stats option \<Rightarrow> int \<Rightarrow> u32 \<Rightarrow> (string \<times> string) list" where
  "state_fields c p link tx_power_dbm hpAwakeUs =
    (let l = (case link of None \<Rightarrow> no_link_stats | Some s \<Rightarrow> s) in
     (case pp_temperature p of None \<Rightarrow> [] | Some t \<Rightarrow> [(''t'', float_g 3 t)]) @
     (case pp_humidity p of None \<Rightarrow> [] | Some h \<Rightarrow> [(''h'', float_g 3 h)]) @
     (if hasBatt p then [(''b'', float_f 2 (the (pp_battery_percent p))),
        (''v'', float_f 3 (thousandth (the (pp_battery_millivolts p))))] else []) @
     (case link_rssi link of None \<Rightarrow> [] | Some r \<Rightarrow> [(''r'', render_int r)]) @
     (if hasHeater p then [(''hp'', quote (if the (pp_heater_problem p) then ''ON'' else ''OFF'')),
        (''hc'', render_int (uint (the (pp_heater_run_count p))))] else []) @
     (if hasRadioStats link then [(''rt'', float_f 2 (thousandth (uint (the (radioTxTimeUs l))))),
        (''rx'', float_f 2 (thousandth (uint (the (radioRxTimeUs l)))))] else []) @
     (if hasLinkQuality link then [(''tr'', render_int (uint (the (txRetries l)))),
        (''cf'', render_int (uint (the (txCcaFailures l))))] else []) @
     (if hasUplinkRssi link then [(''ur'', render_int (the (uplinkRssiDbm l)))] else []) @
     [(''bc'', render_int (uint (mc_boot_count c))), (''rr'', quote (mc_reset_reason c)),
      (''tp'', render_int tx_power_dbm), (''aw'', float_f 2 (thousandth (uint hpAwakeUs)))])"

definition state_parts ::
  "mqtt_config \<Rightarrow> publish_params \<Rightarrow> link_stats option \<Rightarrow> int \<Rightarrow> u32 \<Rightarrow> part list" where
  "state_parts c p link tx_power_dbm hpAwakeUs =
    (let l = (case link of None \<Rightarrow> no_link_stats | Some s \<Rightarrow> s) in
     [(hasBatt p, STATE_BATT_SUFFIX_FMT,
        [AFlt (the (pp_battery_percent p)), AFlt (thousandth (the (pp_battery_millivolts p)))]),
      (link_rssi link \<noteq> None, STATE_RSSI_SUFFIX_FMT, [AInt (the (link_rssi link))]),
      (hasHeater p, STATE_HEATER_SUFFIX_FMT,
        [AStr (if the (pp_heater_problem p) then ''ON'' else ''OFF''), AInt (uint (the (pp_heater_run_count p)))]),
      (hasRadioStats link, STATE_RADIO_SUFFIX_FMT,
        [AFlt (thousandth (uint (the (radioTxTimeUs l)))), AFlt (thousandth (uint (the (radioRxTimeUs l))))]),
      (hasLinkQuality link, STATE_LINKQ_SUFFIX_FMT, [AInt (uint (the (txRetries l))), AInt (uint (the (txCcaFailures l)))]),
      (hasUplinkRssi link, STATE_UPLINK_SUFFIX_FMT, [AInt (the (uplinkRssiDbm l))]),
      (True, STATE_DIAG_SUFFIX_FMT, [AInt (uint (mc_boot_count c)), AStr (mc_reset_reason c)]),
      (True, STATE_TXPOWER_SUFFIX_FMT, [AInt tx_power_dbm]),
      (True, STATE_AWAKE_SUFFIX_FMT, [AFlt (thousandth (uint hpAwakeUs))])])"

lemma state_message_parts:
  "state_message fmt c p link tx awake = append_overs fmt STATE_BUF (state_parts c p link tx awake) (state_base fmt p)"
  by (simp add: state_message_def append_overs_def state_parts_def Let_def)

lemma state_texts:
  "format_text fmt STATE_FMT_BOTH [AFlt a, AFlt b] = ''{\"t\":'' @ float_g 3 a @ '',\"h\":'' @ float_g 3 b @ ''}''"
  "format_text fmt STATE_FMT_TEMP [AFlt a] = ''{\"t\":'' @ float_g 3 a @ ''}''"
  "format_text fmt STATE_FMT_HUMID [AFlt a] = ''{\"h\":'' @ float_g 3 a @ ''}''"
  "format_text fmt STATE_BATT_SUFFIX_FMT [AFlt a, AFlt b] = '',\"b\":'' @ float_f 2 a @ '',\"v\":'' @ float_f 3 b @ ''}''"
  "format_text fmt STATE_RSSI_SUFFIX_FMT [AInt i] = '',\"r\":'' @ render_int i @ ''}''"
  "format_text fmt STATE_HEATER_SUFFIX_FMT [AStr s, AInt i] = '',\"hp\":\"'' @ s @ ''\",\"hc\":'' @ render_int i @ ''}''"
  "format_text fmt STATE_RADIO_SUFFIX_FMT [AFlt a, AFlt b] = '',\"rt\":'' @ float_f 2 a @ '',\"rx\":'' @ float_f 2 b @ ''}''"
  "format_text fmt STATE_LINKQ_SUFFIX_FMT [AInt i, AInt j] = '',\"tr\":'' @ render_int i @ '',\"cf\":'' @ render_int j @ ''}''"
  "format_text fmt STATE_UPLINK_SUFFIX_FMT [AInt i] = '',\"ur\":'' @ render_int i @ ''}''"
  "format_text fmt STATE_DIAG_SUFFIX_FMT [AInt i, AStr s] = '',\"bc\":'' @ render_int i @ '',\"rr\":\"'' @ s @ ''\"}''"
  "format_text fmt STATE_TXPOWER_SUFFIX_FMT [AInt i] = '',\"tp\":'' @ render_int i @ ''}''"
  "format_text fmt STATE_AWAKE_SUFFIX_FMT [AFlt a] = '',\"aw\":'' @ float_f 2 a @ ''}''"
  by (simp_all add: format_text_def STATE_FMT_BOTH_def STATE_FMT_TEMP_def STATE_FMT_HUMID_def STATE_BATT_SUFFIX_FMT_def
      STATE_RSSI_SUFFIX_FMT_def STATE_HEATER_SUFFIX_FMT_def STATE_RADIO_SUFFIX_FMT_def STATE_LINKQ_SUFFIX_FMT_def
      STATE_UPLINK_SUFFIX_FMT_def STATE_DIAG_SUFFIX_FMT_def STATE_TXPOWER_SUFFIX_FMT_def STATE_AWAKE_SUFFIX_FMT_def
      format_pieces.simps)

lemma representable_pow32: "representable 24 (- 149) (2 ^ 32)" "representable 24 (- 149) (- (2 ^ 32))"
proof -
  have p: "(2 :: rat) powi 32 = 2 ^ 32" by (simp only: power_int_numeral)
  show "representable 24 (- 149) (2 ^ 32)"
    unfolding representable_def p [symmetric] by (rule exI [of _ 1], rule exI [of _ 32]) simp
  show "representable 24 (- 149) (- (2 ^ 32))"
    unfolding representable_def p [symmetric] by (rule exI [of _ "- 1"], rule exI [of _ 32]) simp
qed

lemma thousandth_in:
  assumes "\<bar>n\<bar> \<le> 2 ^ 32"
  shows "f_in (- 4294968) 4294968 (thousandth n)" and "0 \<le> n \<Longrightarrow> f_in 0 4294968 (thousandth n)"
proof -
  have n: "- (2 ^ 32) \<le> (of_int n :: rat)" "(of_int n :: rat) \<le> 2 ^ 32"
  proof -
    have "of_int n \<le> (of_int (2 ^ 32) :: rat)" "of_int (- (2 ^ 32)) \<le> (of_int n :: rat)"
      unfolding of_int_le_iff using assms by auto
    then show "- (2 ^ 32) \<le> (of_int n :: rat)" "(of_int n :: rat) \<le> 2 ^ 32" by simp_all
  qed
  have "\<exists>r. f_int f32 n = Fin r \<and> - (2 ^ 32) \<le> r \<and> r \<le> 2 ^ 32"
    using r32.mk_between [of "- (2 ^ 32)" "2 ^ 32" "of_int n"] n representable_pow32 by (auto simp: f_int_def)
  then obtain r where r: "f_int f32 n = Fin r" "- (2 ^ 32) \<le> r" "r \<le> 2 ^ 32" by blast
  have t: "thousandth n = f32 (r / 1000)" by (simp add: thousandth_def r)
  show "f_in (- 4294968) 4294968 (thousandth n)"
    using f32_in_int [of "- 4294968" "r / 1000" 4294968] r by (simp add: t)
  assume "0 \<le> n"
  then have "f_le (f32 0) (f_int f32 n)" unfolding f_int_def by (intro f32_mono) simp
  moreover have "f32 0 = Fin 0" using f32_int [of 0] by simp
  ultimately have "0 \<le> r" by (simp add: r)
  then show "f_in 0 4294968 (thousandth n)"
    using f32_in_int [of 0 "r / 1000" 4294968] r by (simp add: t)
qed

text \<open>The readings a cycle can carry: floats, a percentage, and integers of their C types.\<close>

definition readings_ok :: "publish_params \<Rightarrow> link_stats option \<Rightarrow> int \<Rightarrow> bool" where
  "readings_ok p link tx_power_dbm \<longleftrightarrow>
    (\<forall>t. pp_temperature p = Some t \<longrightarrow> float_value t) \<and> (\<forall>h. pp_humidity p = Some h \<longrightarrow> float_value h) \<and>
    (\<forall>b. pp_battery_percent p = Some b \<longrightarrow> f_in 0 100 b) \<and> (\<forall>v. pp_battery_millivolts p = Some v \<longrightarrow> \<bar>v\<bar> \<le> 2 ^ 31) \<and>
    (\<forall>r. link_rssi link = Some r \<longrightarrow> \<bar>r\<bar> \<le> 2 ^ 31) \<and>
    (\<forall>l r. link = Some l \<and> uplinkRssiDbm l = Some r \<longrightarrow> \<bar>r\<bar> \<le> 2 ^ 31) \<and>
    - 128 \<le> tx_power_dbm \<and> tx_power_dbm \<le> 127"

lemma length_render_i32: "\<bar>r\<bar> \<le> 2 ^ 31 \<Longrightarrow> length (render_int r) \<le> 11"
  using length_render_int [of r 10] by (auto split: if_splits)

lemma length_milli:
  "length (float_f 2 (thousandth (uint (w :: u32)))) \<le> 10"
  "\<bar>v\<bar> \<le> 2 ^ 31 \<Longrightarrow> length (float_f 3 (thousandth v)) \<le> 12"
proof -
  have "uint w \<le> 2 ^ 32" using uint_lt2p [of w] by simp
  then have "f_in 0 (of_nat 4294968) (thousandth (uint w))" using thousandth_in(2) [of "uint w"] by simp
  from length_float_f [OF this, of 7 2] show "length (float_f 2 (thousandth (uint w))) \<le> 10" by simp
  assume "\<bar>v\<bar> \<le> 2 ^ 31"
  then have "f_in (- 4294968) (of_nat 4294968) (thousandth v)" using thousandth_in(1) [of v] by simp
  from length_float_f [OF this, of 7 3] show "length (float_f 3 (thousandth v)) \<le> 12" by simp
qed

definition rest_fields ::
  "mqtt_config \<Rightarrow> publish_params \<Rightarrow> link_stats option \<Rightarrow> int \<Rightarrow> u32 \<Rightarrow> (string \<times> string) list" where
  "rest_fields c p link tx_power_dbm hpAwakeUs =
    state_fields c (p\<lparr>pp_temperature := None, pp_humidity := None\<rparr>) link tx_power_dbm hpAwakeUs"

lemma inner_if: "inner fmt (b, f, args) = (if b then butlast (format_text fmt f args) else [])"
  by (simp add: inner_def part_text_def)

lemma state_parts_inner:
  "concat (map (inner fmt) (state_parts c p link tx awake)) =
   concat (map (\<lambda>m. CHR '','' # json_member m) (rest_fields c p link tx awake))"
proof -
  have o: "(case x of None \<Rightarrow> [] | Some r \<Rightarrow> f r) = (if x \<noteq> None then f (the x) else [])" for x :: "'z option" and f
    by (cases x) simp_all
  show ?thesis
    unfolding state_parts_def rest_fields_def state_fields_def Let_def o
    by (simp add: inner_if state_texts butlast_append json_member_def quote_def hasBatt_def hasHeater_def)
qed

lemma concat_length_bound:
  "list_all2 (\<lambda>p k. length (f p) \<le> k) ps ks \<Longrightarrow> length (concat (map f ps)) \<le> sum_list ks"
  by (induction rule: list_all2_induct) auto

lemma state_parts_length:
  assumes c: "config_ok c version" and r: "readings_ok p link tx"
  shows "length (concat (map (inner fmt) (state_parts c p link tx awake))) \<le> 217"
proof -
  have b: "length (float_f 2 (the (pp_battery_percent p))) \<le> 6"
      "length (float_f 3 (thousandth (the (pp_battery_millivolts p)))) \<le> 12" if "hasBatt p"
  proof -
    from that obtain x v where x: "pp_battery_percent p = Some x" "pp_battery_millivolts p = Some v"
      by (auto simp: hasBatt_def)
    with r have "f_in 0 (of_nat 100) x" "\<bar>v\<bar> \<le> 2 ^ 31" by (auto simp: readings_ok_def)
    with length_float_f [of 0 100 x 3 2] length_milli(2) [of v]
    show "length (float_f 2 (the (pp_battery_percent p))) \<le> 6"
      "length (float_f 3 (thousandth (the (pp_battery_millivolts p)))) \<le> 12" by (simp_all add: x)
  qed
  have bs: "length (float_f 2 (the (pp_battery_percent p))) +
      length (float_f 3 (thousandth (the (pp_battery_millivolts p)))) \<le> 18" if "hasBatt p"
    using b that by fastforce
  have rs: "length (render_int (the (link_rssi link))) \<le> 11" if "link_rssi link \<noteq> None"
    using that r by (auto simp: readings_ok_def intro: length_render_i32)
  have ur: "length (render_int (the (uplinkRssiDbm (case link of None \<Rightarrow> no_link_stats | Some s \<Rightarrow> s)))) \<le> 11" if "hasUplinkRssi link"
    using that r by (cases link) (auto simp: hasUplinkRssi_def readings_ok_def intro: length_render_i32)
  have "\<bar>tx\<bar> < 10 ^ 3" using r by (auto simp: readings_ok_def)
  then have tx: "length (render_int tx) \<le> 4" using length_render_int [of tx 3] by (auto split: if_splits)
  have rr: "length (mc_reset_reason c) \<le> 15" using c by (simp add: config_ok_def max_lens)
  let ?l = "case link of None \<Rightarrow> no_link_stats | Some s \<Rightarrow> s"
  have "list_all2 (\<lambda>p k. length (inner fmt p) \<le> k) (state_parts c p link tx awake) [28, 16, 27, 32, 32, 17, 39, 10, 16]"
    unfolding state_parts_def Let_def
    using b bs rs ur tx rr length_render_int_u32 [of "the (pp_heater_run_count p)"]
      length_render_int_u32 [of "the (txRetries ?l)"] length_render_int_u32 [of "the (txCcaFailures ?l)"]
      length_render_int_u32 [of "mc_boot_count c"] length_milli(1) [of "the (radioTxTimeUs ?l)"]
      length_milli(1) [of "the (radioRxTimeUs ?l)"] length_milli(1) [of awake]
    by (simp add: inner_if state_texts butlast_append del: not_None_eq)
  then have "length (concat (map (inner fmt) (state_parts c p link tx awake))) \<le> sum_list [28, 16, 27, 32, 32, 17, 39, 10, 16]"
    by (rule concat_length_bound)
  then show ?thesis by simp
qed

lemma state_base_text:
  assumes "hasAny p" "readings_ok p link tx"
  shows "\<exists>ms. state_base fmt p = CHR ''{'' # ms @ ''}'' \<and> length ms \<le> 31 \<and>
    (\<forall>rest. json_object ((case pp_temperature p of None \<Rightarrow> [] | Some t \<Rightarrow> [(''t'', float_g 3 t)]) @
       (case pp_humidity p of None \<Rightarrow> [] | Some h \<Rightarrow> [(''h'', float_g 3 h)]) @ rest) =
     CHR ''{'' # ms @ concat (map (\<lambda>m. CHR '','' # json_member m) rest) @ ''}'')"
proof -
  have g: "length (float_g 3 v) \<le> 11" if "pp_temperature p = Some v \<or> pp_humidity p = Some v" for v
    using that assms(2) by (intro length_float_g) (auto simp: readings_ok_def)
  have buf: "33 < STATE_BUF" by (simp add: STATE_BUF_def fmt_lengths)
  show ?thesis
  proof (cases "pp_temperature p")
    case None
    then obtain h where h: "pp_humidity p = Some h" using assms(1) by (auto simp: hasAny_def)
    with g [of h] buf None show ?thesis
      by (simp add: state_base_def format_into_text state_texts json_member_def)
  next
    case (Some t)
    show ?thesis
    proof (cases "pp_humidity p")
      case None
      with g [of t] buf Some show ?thesis
        by (simp add: state_base_def format_into_text state_texts json_member_def)
    next
      case h: (Some h)
      with g [of t] g [of h] buf Some show ?thesis
        by (simp add: state_base_def format_into_text state_texts json_member_def)
    qed
  qed
qed

lemma state_message_object:
  assumes "config_ok c version" "readings_ok p link tx" "hasAny p"
  shows "state_message fmt c p link tx awake = json_object (state_fields c p link tx awake)"
proof -
  obtain ms where ms: "state_base fmt p = (CHR ''{'' # ms) @ ''}''" "length ms \<le> 31"
    and obj: "\<And>rest. json_object ((case pp_temperature p of None \<Rightarrow> [] | Some t \<Rightarrow> [(''t'', float_g 3 t)]) @
       (case pp_humidity p of None \<Rightarrow> [] | Some h \<Rightarrow> [(''h'', float_g 3 h)]) @ rest) =
     CHR ''{'' # ms @ concat (map (\<lambda>m. CHR '','' # json_member m) rest) @ ''}''"
    using state_base_text [OF assms(3,2), of fmt] by auto
  have buf: "260 < STATE_BUF" by (simp add: STATE_BUF_def fmt_lengths MAX_FORMATTED_FLOAT_LEN_def)
  have closes: "\<exists>x. format_text fmt f args = x @ ''}''" if "(b, f, args) \<in> set (state_parts c p link tx awake)" for b f args
    using that by (auto simp: state_parts_def state_texts Let_def)
  have "state_message fmt c p link tx awake =
      (CHR ''{'' # ms) @ concat (map (inner fmt) (state_parts c p link tx awake)) @ ''}''"
    unfolding state_message_parts ms(1)
    using state_parts_length [OF assms(1,2), of fmt awake] ms(2) buf closes by (intro append_overs_text) auto
  moreover have others: "hasBatt (p\<lparr>pp_temperature := None, pp_humidity := None\<rparr>) = hasBatt p"
      "hasHeater (p\<lparr>pp_temperature := None, pp_humidity := None\<rparr>) = hasHeater p"
    by (simp_all add: hasBatt_def hasHeater_def)
  then have "state_fields c p link tx awake =
      (case pp_temperature p of None \<Rightarrow> [] | Some t \<Rightarrow> [(''t'', float_g 3 t)]) @
      (case pp_humidity p of None \<Rightarrow> [] | Some h \<Rightarrow> [(''h'', float_g 3 h)]) @ rest_fields c p link tx awake"
    by (simp add: state_fields_def rest_fields_def Let_def others)
  ultimately show ?thesis by (simp only: obj state_parts_inner append_Cons)
qed

section \<open>JSON values\<close>

text \<open>
  The numbers of RFC 8259: a sign, digits without a leading zero, and possibly a fraction and an exponent;
  and strings without escapes, whose characters are printable and neither a quote nor a backslash.
\<close>

definition json_digits :: "string \<Rightarrow> bool" where
  "json_digits s \<longleftrightarrow> s \<noteq> [] \<and> list_all is_digit s"

definition json_int :: "string \<Rightarrow> bool" where
  "json_int s \<longleftrightarrow> json_digits s \<and> (hd s = CHR ''0'' \<longrightarrow> s = ''0'')"

definition json_exponent :: "string \<Rightarrow> bool" where
  "json_exponent s \<longleftrightarrow>
    (case s of [] \<Rightarrow> True
     | c # t \<Rightarrow> (c = CHR ''e'' \<or> c = CHR ''E'') \<and>
         json_digits (case t of d # u \<Rightarrow> if d = CHR ''+'' \<or> d = CHR ''-'' then u else t | [] \<Rightarrow> t))"

definition json_fraction :: "string \<Rightarrow> bool" where
  "json_fraction s \<longleftrightarrow>
    (if take 1 s = ''.'' then json_digits (takeWhile is_digit (tl s)) \<and> json_exponent (dropWhile is_digit (tl s))
     else json_exponent s)"

definition json_number :: "string \<Rightarrow> bool" where
  "json_number s =
    (let t = (if take 1 s = ''-'' then tl s else s) in
     json_int (takeWhile is_digit t) \<and> json_fraction (dropWhile is_digit t))"

definition plain_char :: "char \<Rightarrow> bool" where
  "plain_char c \<longleftrightarrow> 32 \<le> char_code c \<and> char_code c < 127 \<and> c \<noteq> CHR 0x22 \<and> c \<noteq> CHR 0x5C"

definition json_string :: "string \<Rightarrow> bool" where
  "json_string s \<longleftrightarrow>
    2 \<le> length s \<and> hd s = CHR 0x22 \<and> last s = CHR 0x22 \<and> list_all plain_char (butlast (tl s))"

definition json_value :: "string \<Rightarrow> bool" where
  "json_value s \<longleftrightarrow> json_number s \<or> json_string s"

lemma json_string_quote: "list_all plain_char s \<Longrightarrow> json_string (quote s)"
  by (simp add: json_string_def quote_def)

lemma digits_prefix:
  assumes "list_all is_digit ds" "r = [] \<or> \<not> is_digit (hd r)"
  shows "takeWhile is_digit (ds @ r) = ds" "dropWhile is_digit (ds @ r) = r"
  using assms by (cases r; simp add: list_all_iff takeWhile_append2 dropWhile_append2)+

lemma json_digits_pad: "json_digits (pad_nat k n)"
proof -
  have "is_digit (CHR ''0'')" by (simp add: is_digit_def char_code_def)
  then show ?thesis
    using render_nat_digits [of n] by (auto simp: json_digits_def pad_nat_def Let_def list_all_iff)
qed

lemma render_nat_head: "hd (render_nat n) = CHR ''0'' \<Longrightarrow> n = 0"
proof (induction n rule: render_nat.induct)
  case (1 n)
  show ?case
  proof (cases "n < 10")
    case True
    with 1 have "char_code (digit_char n) = char_code (CHR ''0'')" by (simp add: render_nat.simps [of n])
    with True show ?thesis by (simp add: char_code_def [of "CHR ''0''"])
  next
    case False
    moreover have "hd (render_nat n) = hd (render_nat (n div 10))"
      using False render_nat_digits [of "n div 10"] by (simp add: render_nat.simps [of n])
    ultimately show ?thesis using 1 by simp
  qed
qed

lemma render_zero: "render_nat 0 = ''0''"
  by code_simp

lemma json_int_nat: "json_int (render_nat n)"
proof -
  note render_zero
  then show ?thesis
    using render_nat_digits [of n] render_nat_head [of n] by (auto simp: json_int_def json_digits_def)
qed

lemma json_number_parts:
  assumes "sg = [] \<or> sg = ''-''" "json_int ds" "json_fraction r" "r = [] \<or> \<not> is_digit (hd r)"
  shows "json_number (sg @ ds @ r)"
proof -
  have "take 1 (ds @ r) \<noteq> ''-''"
    using assms(2) by (cases ds) (auto simp: json_int_def json_digits_def)
  moreover have "list_all is_digit ds" using assms(2) by (simp add: json_int_def json_digits_def)
  moreover have "takeWhile is_digit (ds @ r) = ds" "dropWhile is_digit (ds @ r) = r"
    using digits_prefix calculation(2) assms(4) by blast+
  ultimately have "json_number (ds @ r)" "json_number (CHR ''-'' # ds @ r)"
    using assms(2,3) by (simp_all only: json_number_def Let_def if_False) simp_all
  with assms(1) show ?thesis by auto
qed

lemma json_exponent_no_digit: "json_exponent r \<Longrightarrow> r = [] \<or> \<not> is_digit (hd r)"
  by (cases r) (auto simp: json_exponent_def is_digit_def char_code_def)

lemma json_fraction_point:
  assumes "json_digits ds" "json_exponent r"
  shows "json_fraction (CHR ''.'' # ds @ r)"
  using assms digits_prefix [of ds r] json_exponent_no_digit [OF assms(2)]
  by (simp add: json_fraction_def json_digits_def)

lemma json_fraction_plain: "json_exponent r \<Longrightarrow> json_fraction r"
  by (cases r) (auto simp: json_fraction_def json_exponent_def)

lemma json_number_render_int: "json_number (render_int i)"
  using json_number_parts [of "[]" "render_nat (nat i)" "[]"] json_number_parts [of "''-''" "render_nat (nat (- i))" "[]"]
  by (simp add: render_int_def json_int_nat json_fraction_plain json_exponent_def)

text \<open>Digits, then nothing or a point and more digits: what the fixed notation prints, stripped or not.\<close>

definition decimal_text :: "string \<Rightarrow> bool" where
  "decimal_text s \<longleftrightarrow> (\<exists>n. s = render_nat n \<or> (\<exists>ds. json_digits ds \<and> s = render_nat n @ CHR ''.'' # ds))"

lemma decimal_fixed: "decimal_text (fixed_point p n)"
  using json_digits_pad by (auto simp: decimal_text_def fixed_point_def)

lemma no_point: "CHR ''.'' \<notin> set (render_nat n)"
  using render_nat_digits [of n] by (auto simp: list_all_iff)

lemma decimal_strip:
  assumes "decimal_text s"
  shows "decimal_text (strip_zeros s)"
proof -
  from assms obtain n where "s = render_nat n \<or> (\<exists>ds. json_digits ds \<and> s = render_nat n @ CHR ''.'' # ds)"
    by (auto simp: decimal_text_def)
  then show ?thesis
  proof
    assume "s = render_nat n"
    then show ?thesis using no_point [of n] by (auto simp: strip_zeros_def decimal_text_def)
  next
    assume "\<exists>ds. json_digits ds \<and> s = render_nat n @ CHR ''.'' # ds"
    then obtain ds where ds: "json_digits ds" and s: "s = render_nat n @ CHR ''.'' # ds" by blast
    define t where "t = dropWhile (\<lambda>c. c = CHR ''0'') (rev ds)"
    have d: "dropWhile (\<lambda>c. c = CHR ''0'') (rev s) =
        (if t = [] then CHR ''.'' # rev (render_nat n) else t @ CHR ''.'' # rev (render_nat n))"
      by (auto simp: s t_def dropWhile_append dropWhile_eq_Nil_conv)
    have digits: "\<forall>c \<in> set t. is_digit c"
      using ds set_dropWhileD [of _ _ "rev ds"] by (auto simp: t_def json_digits_def list_all_iff)
    show ?thesis
    proof (cases t)
      case Nil
      then have "strip_zeros s = render_nat n" by (simp add: strip_zeros_def d) (simp add: s)
      then show ?thesis by (auto simp: decimal_text_def)
    next
      case (Cons c cs)
      then have "c \<noteq> CHR ''.''" using digits by auto
      then have "strip_zeros s = render_nat n @ CHR ''.'' # rev t"
        by (simp add: strip_zeros_def d Cons) (simp add: s)
      moreover have "json_digits (rev t)" using digits Cons by (simp add: json_digits_def list_all_iff)
      ultimately show ?thesis by (auto simp: decimal_text_def)
    qed
  qed
qed

lemma json_decimal:
  assumes "decimal_text s" "sg = [] \<or> sg = ''-''" "json_exponent r"
  shows "json_number (sg @ s @ r)"
proof -
  note no_digit = json_exponent_no_digit [OF assms(3)]
  from assms(1) obtain n where "s = render_nat n \<or> (\<exists>ds. json_digits ds \<and> s = render_nat n @ CHR ''.'' # ds)"
    by (auto simp: decimal_text_def)
  then show ?thesis
  proof
    assume "s = render_nat n"
    then show ?thesis
      using json_number_parts [OF assms(2) json_int_nat json_fraction_plain [OF assms(3)] no_digit] by simp
  next
    assume "\<exists>ds. json_digits ds \<and> s = render_nat n @ CHR ''.'' # ds"
    then obtain ds where "json_digits ds" "s = render_nat n @ CHR ''.'' # ds" by blast
    with json_number_parts [OF assms(2) json_int_nat json_fraction_point [OF _ assms(3)]] show ?thesis by simp
  qed
qed

lemma json_exponent_text: "json_exponent (exp_text e)" "json_exponent []"
  using json_digits_pad [of 2 "nat \<bar>e\<bar>"] by (auto simp: exp_text_def json_exponent_def)

lemma sign_text_cases: "sign_text r = [] \<or> sign_text r = ''-''"
  by (simp add: sign_text_def)

lemma json_float_f: "json_number (float_f p v) \<longleftrightarrow> (\<exists>r. v = Fin r)"
proof (cases v)
  case (Fin r)
  then show ?thesis
    using json_decimal [OF decimal_fixed sign_text_cases json_exponent_text(2)] by simp
qed (simp_all add: json_number_def json_int_def json_digits_def is_digit_def char_code_def)

lemma json_float_g: "json_number (float_g p v) \<longleftrightarrow> (\<exists>r. v = Fin r)"
proof (cases v)
  case (Fin r)
  have zero: "json_number ''0''"
    using json_number_render_int [of 0] by (simp add: render_int_def render_zero)
  show ?thesis
    using json_decimal [OF decimal_strip [OF decimal_fixed] sign_text_cases]
      json_exponent_text zero Fin by (fastforce split: prod.split)
qed (simp_all add: json_number_def json_int_def json_digits_def is_digit_def char_code_def)

lemma not_json_string: "json_string (float_g p v) \<Longrightarrow> \<exists>r. v = Fin r"
  by (cases v) (auto simp: json_string_def)

text \<open>What the message's text is: the object's members are all JSON, their names plain and each there once.\<close>

definition json_members :: "(string \<times> string) list \<Rightarrow> bool" where
  "json_members ms \<longleftrightarrow>
    distinct (map fst ms) \<and> list_all (\<lambda>m. list_all plain_char (fst m) \<and> json_value (snd m)) ms"

lemma json_value_milli:
  "\<bar>n\<bar> \<le> 2 ^ 32 \<Longrightarrow> json_value (float_f p (thousandth n))"
  using thousandth_in(1) [of n] by (auto simp: json_value_def json_float_f elim!: f_inE)

definition finite_opt :: "flt option \<Rightarrow> bool" where
  "finite_opt v \<longleftrightarrow> (case v of None \<Rightarrow> True | Some (Fin r) \<Rightarrow> True | Some _ \<Rightarrow> False)"


text \<open>
  Every member of the state message is there once and JSON, except for a temperature or a humidity that is
  no number: infinities and NaN print as \<open>inf\<close> and \<open>nan\<close>, which JSON has no value for.
\<close>

lemma json_value_g: "json_value (float_g p v) \<longleftrightarrow> (\<exists>r. v = Fin r)"
  using json_float_g [of p v] not_json_string [of p v] by (auto simp: json_value_def)

lemma json_value_float_f: "f_in a b v \<Longrightarrow> json_value (float_f p v)"
  by (auto simp: json_value_def json_float_f elim!: f_inE)

lemma json_value_awake: "json_value (float_f p (thousandth (uint (w :: u32))))"
  using uint_lt2p [of w] by (intro json_value_milli) simp

lemma json_value_render_int: "json_value (render_int i)"
  by (simp add: json_value_def json_number_render_int)

lemma json_value_quote: "list_all plain_char s \<Longrightarrow> json_value (quote s)"
  by (simp add: json_value_def json_string_quote)

lemma plain_switch: "list_all plain_char (if b then ''ON'' else ''OFF'')"
  by (simp add: plain_char_def char_code_def)

definition state_names :: "string list" where
  "state_names = [''t'', ''h'', ''b'', ''v'', ''r'', ''hp'', ''hc'', ''rt'', ''rx'', ''tr'', ''cf'', ''ur'', ''bc'', ''rr'', ''tp'', ''aw'']"

lemma state_fields_names: "subseq (map fst (state_fields c p link tx awake)) state_names"
proof -
  have names: "state_names = [''t''] @ [''h''] @ [''b'', ''v''] @ [''r''] @ [''hp'', ''hc''] @ [''rt'', ''rx''] @
      [''tr'', ''cf''] @ [''ur''] @ [''bc'', ''rr'', ''tp'', ''aw'']"
    by (simp add: state_names_def)
  show ?thesis
    unfolding state_fields_def Let_def names map_append
    by (intro list_emb_append_mono) (auto split: option.split)
qed

lemma state_fields_distinct: "distinct (map fst (state_fields c p link tx awake))"
proof -
  obtain N where "map fst (state_fields c p link tx awake) = nths state_names N"
    using state_fields_names [of c p link tx awake] by (auto simp: subseq_conv_nths)
  moreover have "distinct state_names" by (simp add: state_names_def)
  ultimately show ?thesis by (simp add: distinct_nthsI)
qed

lemma state_fields_json:
  assumes r: "readings_ok p link tx" and rr: "list_all plain_char (mc_reset_reason c)"
  shows "json_members (state_fields c p link tx awake) \<longleftrightarrow> finite_opt (pp_temperature p) \<and> finite_opt (pp_humidity p)"
proof -
  define J where "J = (\<lambda>m. list_all plain_char (fst m) \<and> json_value (snd m))"
  have "list_all J [(''b'', float_f 2 (the (pp_battery_percent p))), (''v'', float_f 3 (thousandth (the (pp_battery_millivolts p))))]"
    if "hasBatt p"
    using that r
    by (auto simp: J_def plain_char_def char_code_def hasBatt_def readings_ok_def intro!: json_value_float_f json_value_milli)
  moreover have "list_all J (case v of None \<Rightarrow> [] | Some x \<Rightarrow> [(k, float_g 3 x)]) \<longleftrightarrow> finite_opt v"
    if "list_all plain_char k" for k v
    using that by (auto simp: J_def finite_opt_def json_value_g split: option.split flt.split)
  then have "list_all J (case pp_temperature p of None \<Rightarrow> [] | Some t \<Rightarrow> [(''t'', float_g 3 t)]) \<longleftrightarrow> finite_opt (pp_temperature p)"
      "list_all J (case pp_humidity p of None \<Rightarrow> [] | Some h \<Rightarrow> [(''h'', float_g 3 h)]) \<longleftrightarrow> finite_opt (pp_humidity p)"
    by (simp_all add: plain_char_def char_code_def)
  moreover have "list_all J (case link_rssi link of None \<Rightarrow> [] | Some r \<Rightarrow> [(''r'', render_int r)])"
    by (simp add: J_def plain_char_def char_code_def json_value_render_int split: option.split)
  moreover have "json_value (quote (if b then ''ON'' else ''OFF''))" for b
    by (rule json_value_quote [OF plain_switch])
  moreover have "json_value (quote (mc_reset_reason c))" by (rule json_value_quote [OF rr])
  ultimately have "list_all J (state_fields c p link tx awake) \<longleftrightarrow> finite_opt (pp_temperature p) \<and> finite_opt (pp_humidity p)"
    unfolding state_fields_def Let_def
    by (simp add: J_def [THEN fun_cong] plain_char_def char_code_def json_value_render_int json_value_awake)
  then show ?thesis by (simp add: json_members_def state_fields_distinct J_def)
qed

section \<open>The backlog message is an array of objects\<close>

definition entry_object :: "history_entry \<Rightarrow> string" where
  "entry_object e = json_object [(''ago'', render_int (uint (ago_sec e))), (''t'', float_g 3 (ent_temp_c e)),
    (''h'', float_g 3 (ent_hum_pct e))]"

fun json_array :: "string list \<Rightarrow> string" where
  "json_array [] = ''[]''"
| "json_array (x # xs) = CHR ''['' # x @ concat (map (\<lambda>y. CHR '','' # y) xs) @ '']''"

definition entries_ok :: "history_entry list \<Rightarrow> bool" where
  "entries_ok es \<longleftrightarrow> length es \<le> BACKFILL_BATCH_SIZE \<and>
    list_all (\<lambda>e. float_value (ent_temp_c e) \<and> float_value (ent_hum_pct e)) es"

lemma entry_texts:
  "format_text fmt BACKFILL_ENTRY_FIRST_FMT (entry_args e) = entry_object e"
  "format_text fmt BACKFILL_ENTRY_REST_FMT (entry_args e) = CHR '','' # entry_object e"
  by (simp_all add: format_text_def BACKFILL_ENTRY_FIRST_FMT_def BACKFILL_ENTRY_REST_FMT_def entry_args_def
      format_pieces.simps entry_object_def json_member_def)

lemma length_entry_object:
  "float_value (ent_temp_c e) \<Longrightarrow> float_value (ent_hum_pct e) \<Longrightarrow> length (entry_object e) \<le> 50"
  using length_render_int_u32 [of "ago_sec e"] length_float_g [of "ent_temp_c e"] length_float_g [of "ent_hum_pct e"]
  by (simp add: entry_object_def json_member_def)

lemma backfill_rest_text:
  assumes "list_all (\<lambda>e. float_value (ent_temp_c e) \<and> float_value (ent_hum_pct e)) es" "t \<noteq> []"
    and "length t + 51 * length es < BACKFILL_PAYLOAD_BUF"
  shows "backfill_entries fmt False es t = t @ concat (map (\<lambda>e. CHR '','' # entry_object e) es)"
  using assms
proof (induction es arbitrary: t)
  case (Cons e es)
  let ?t = "t @ CHR '','' # entry_object e"
  have len: "length (entry_object e) \<le> 50" using Cons.prems(1) by (intro length_entry_object) simp_all
  with Cons.prems have "append_if fmt BACKFILL_PAYLOAD_BUF True BACKFILL_ENTRY_REST_FMT (entry_args e) t = ?t"
    by (simp add: append_if_def format_append_def entry_texts)
  with len Cons.prems Cons.IH [of ?t] show ?case by simp
qed simp

lemma length_entries:
  "list_all (\<lambda>e. float_value (ent_temp_c e) \<and> float_value (ent_hum_pct e)) es \<Longrightarrow>
   length (concat (map (\<lambda>e. CHR '','' # entry_object e) es)) \<le> 51 * length es"
proof (induction es)
  case (Cons e es)
  then show ?case using length_entry_object [of e] by simp
qed simp

lemma backfill_payload_array:
  assumes "entries_ok es"
  shows "backfill_payload fmt es = json_array (map entry_object es)"
proof -
  have buf: "1100 < BACKFILL_PAYLOAD_BUF"
    by (simp add: BACKFILL_PAYLOAD_BUF_def MAX_BACKFILL_ENTRY_LEN_def fmt_lengths BACKFILL_BATCH_SIZE_def MAX_EXPIRE_LEN_def
        MAX_FORMATTED_FLOAT_LEN_def)
  have ends: "format_into fmt BACKFILL_PAYLOAD_BUF BACKFILL_ARRAY_OPEN [] = ''[''"
      "format_text fmt BACKFILL_ARRAY_CLOSE [] = '']''"
    using buf by (simp_all add: format_into_text format_text_def BACKFILL_ARRAY_OPEN_def BACKFILL_ARRAY_CLOSE_def format_pieces.simps)
  have close: "append_if fmt BACKFILL_PAYLOAD_BUF True BACKFILL_ARRAY_CLOSE [] t = t @ '']''"
    if "t \<noteq> []" "length t \<le> 1050" for t
    using that buf by (simp add: append_if_def format_append_def ends)
  show ?thesis
  proof (cases es)
    case Nil
    then show ?thesis by (simp add: backfill_payload_def ends close)
  next
    case (Cons e r)
    from assms Cons have len: "length (entry_object e) \<le> 50" and r: "length r \<le> 19"
      "list_all (\<lambda>e. float_value (ent_temp_c e) \<and> float_value (ent_hum_pct e)) r"
      by (auto simp: entries_ok_def BACKFILL_BATCH_SIZE_def intro: length_entry_object)
    have "append_if fmt BACKFILL_PAYLOAD_BUF True BACKFILL_ENTRY_FIRST_FMT (entry_args e) ''['' = CHR ''['' # entry_object e"
      using len buf by (simp add: append_if_def format_append_def entry_texts Let_def)
    with len r buf length_entries [OF r(2)] show ?thesis
      by (simp add: backfill_payload_def ends Cons backfill_rest_text close map_concat comp_def)
  qed
qed

end
