(* ===== verification/MqttSender.thy ===== *)
theory MqttSender
  imports MqttFormat HistoryLog Diagnostics "HOL-Library.Monad_Syntax"
begin

unbundle bit_operations_syntax

text \<open>
  The publish cycle, \<open>main/mqtt_sender.cpp\<close>: the event handler of the MQTT client, the persistent and the
  temporary client, the discovery set owed this boot, the cycle itself with its acknowledgement wait, the
  replay of the backlog, the close of the session and the update sessions, and the task that runs it.

  The client library is the environment. \<open>e_events k\<close> holds what other tasks do between the \<open>k\<close>-th and the
  next access of the publish task to shared state: the MQTT events its handler gets and the light sleeps
  that are reported. All of it is arbitrary, so every interleaving is an input, and what the library or
  the broker guarantees is a hypothesis where a theorem needs it. The cycle records in \<open>sd_trace\<close> what it
  does and what it is told. \<open>None\<close> is a cycle that does not return: a wait that goes on, or a division by a
  zero poll interval.
\<close>

section \<open>Event handler\<close>

text \<open>The context of a connection together with the bits of its event group.\<close>

record mqtt_ctx =
  bit_connected :: bool
  bit_all_acked :: bool
  bit_error :: bool
  bit_ack_event :: bool
  expected_acks :: int
  received_acks :: int
  session_present :: bool
  subscribed :: bool

definition fresh_ctx :: mqtt_ctx where
  "fresh_ctx = \<lparr>bit_connected = False, bit_all_acked = False, bit_error = False, bit_ack_event = False,
     expected_acks = 0, received_acks = 0, session_present = False, subscribed = False\<rparr>"

text \<open>
  The events: \<open>EvConnected\<close> with the CONNACK's session flag, \<open>EvSubscribed\<close> with whether the client flags the
  SUBACK as failed, \<open>EvData\<close> with topic, data, offset and length of the whole message.
\<close>

datatype mqtt_event =
    EvConnected bool | EvPublished | EvSubscribed bool | EvUnsubscribed
  | EvData string "u8 list" u32 u32 | EvError | EvDisconnected | EvOther

definition ack_arrived :: "mqtt_ctx \<Rightarrow> mqtt_ctx" where
  "ack_arrived c =
    (let n = received_acks c + 1; c = c\<lparr>received_acks := n\<rparr>;
         c = (if expected_acks c \<le> n then c\<lparr>bit_all_acked := True\<rparr> else c)
     in c\<lparr>bit_ack_event := True\<rparr>)"

fun mqtt_event_handler ::
  "('f, 'h) ota_platform \<Rightarrow> mqtt_event \<Rightarrow> mqtt_ctx \<times> ('f, 'h) ota \<times> runtime_config \<Rightarrow>
   mqtt_ctx \<times> ('f, 'h) ota \<times> runtime_config" where
  "mqtt_event_handler p (EvConnected present) (c, ou, rc) =
    (c\<lparr>session_present := present, bit_connected := True\<rparr>, ou, rc)"
| "mqtt_event_handler p EvPublished (c, ou, rc) = (ack_arrived c, ou, rc)"
| "mqtt_event_handler p (EvSubscribed failed) (c, ou, rc) =
    ((if failed then c else c\<lparr>subscribed := True\<rparr>)\<lparr>bit_ack_event := True\<rparr>, ou, rc)"
| "mqtt_event_handler p EvUnsubscribed (c, ou, rc) = (c\<lparr>bit_ack_event := True\<rparr>, ou, rc)"
| "mqtt_event_handler p (EvData topic data offset total_len) (c, ou, rc) =
    (c, ota_on_mqtt_data p topic data offset total_len ou, runtime_config_on_mqtt_data topic (text_of data) rc)"
| "mqtt_event_handler p EvError (c, ou, rc) = (c\<lparr>bit_error := True\<rparr>, ota_on_mqtt_error ou, rc)"
| "mqtt_event_handler p EvDisconnected (c, ou, rc) = (c, ota_on_mqtt_error ou, rc)"
| "mqtt_event_handler p EvOther (c, ou, rc) = (c, ou, rc)"

section \<open>State, environment and trace\<close>

text \<open>The fields \<open>build_client_config\<close> sets; \<open>cc_certificate\<close> is \<open>None\<close> for the public bundle.\<close>

record client_config =
  cc_uri :: string
  cc_username :: string
  cc_password :: string
  cc_client_id :: string
  cc_disable_clean_session :: bool
  cc_disable_keepalive :: bool
  cc_retransmit_ms :: nat
  cc_rx_size :: nat
  cc_out_size :: nat
  cc_skip_common_name :: bool
  cc_certificate :: "string option"
  cc_crt_bundle :: bool
  cc_timeout_ms :: nat
  cc_disable_auto_reconnect :: bool

datatype client_kind = Persistent | Temporary

datatype sender_action =
    GroupCreate client_kind
  | GroupDelete client_kind
  | ClientInit client_kind client_config
  | ClientSetUri string
  | ClientStart client_kind
  | ClientStop client_kind
  | ClientDestroy client_kind
  | SubscribeTopics "(string \<times> nat) list"
  | SetLinger
  | PublishMsg mqtt_msg
  | WaitBits u32
  | TaskDelay u32
  | CfgAct cfg_action
  | OtaAct ota_action

datatype env_event = Mqtt mqtt_event | Slept int

datatype trace_item = Do sender_action | Got mqtt_event

text \<open>
  One connection of the temporary client: whether the client could be created, the events of its connect
  wait, and what the update session sees.
\<close>

record ota_round =
  or_init :: bool
  or_events :: "mqtt_event list"
  or_client :: ota_client
  or_waits :: "ota_wait list"

record ('f, 'h, 'l, 'n) sender_env =
  e_platform :: "('f, 'h) ota_platform"
  e_link :: "'l network_link"
  e_api :: "'n nvs_api"
  e_fmt :: "flt \<Rightarrow> string"
  e_events :: "nat \<Rightarrow> env_event list"
  e_event_group :: bool
  e_client_init :: bool
  e_socket :: "nat \<Rightarrow> int"
  e_outbox :: "nat \<Rightarrow> nat"
  e_tick :: "nat \<Rightarrow> u32"
  e_tcp_idle :: "nat \<Rightarrow> bool"
  e_time_us :: "nat \<Rightarrow> int"
  e_ota_group :: bool
  e_ota_rounds :: "ota_round list"

text \<open>
  The file's static variables and the state of the modules the cycle calls. \<open>s_client\<close> and \<open>s_client_eg\<close> are
  whether the persistent client and its event group exist.
\<close>

record ('f, 'h, 'l, 'n) sender =
  s_cfg :: mqtt_config
  s_tls_ca_cert_pem :: string
  s_client_id :: string
  s_client :: bool
  s_client_eg :: bool
  s_ctx :: mqtt_ctx
  s_session_subscribed :: bool
  s_discovery_sent_mask :: u16
  sd_ota :: "('f, 'h) ota"
  sd_rc :: runtime_config
  sd_nvs :: 'n
  sd_log :: history_log
  sd_awake :: awake_stats
  sd_link :: 'l
  sd_step :: nat
  sd_trace :: "trace_item list"

definition tell :: "trace_item list \<Rightarrow> ('f, 'h, 'l, 'n) sender \<Rightarrow> ('f, 'h, 'l, 'n) sender" where
  "tell items s = s\<lparr>sd_trace := sd_trace s @ items\<rparr>"

definition act :: "sender_action \<Rightarrow> ('f, 'h, 'l, 'n) sender \<Rightarrow> ('f, 'h, 'l, 'n) sender" where
  "act a s = tell [Do a] s"

fun env_handle ::
  "('f, 'h) ota_platform \<Rightarrow> env_event \<Rightarrow> ('f, 'h, 'l, 'n) sender \<Rightarrow> ('f, 'h, 'l, 'n) sender" where
  "env_handle p (Mqtt ev) s =
    (let (c, ou, rc) = mqtt_event_handler p ev (s_ctx s, sd_ota s, sd_rc s)
     in tell [Got ev] (s\<lparr>s_ctx := c, sd_ota := ou, sd_rc := rc\<rparr>))"
| "env_handle p (Slept us) s = s\<lparr>sd_awake := awake_on_light_sleep_exit us (sd_awake s)\<rparr>"

text \<open>What the other tasks do until the publish task goes on.\<close>

definition serve ::
  "('f, 'h, 'l, 'n) sender_env \<Rightarrow> ('f, 'h, 'l, 'n) sender \<Rightarrow> ('f, 'h, 'l, 'n) sender" where
  "serve e s = fold (env_handle (e_platform e)) (e_events e (sd_step s)) (s\<lparr>sd_step := sd_step s + 1\<rparr>)"

definition upd_ctx :: "(mqtt_ctx \<Rightarrow> mqtt_ctx) \<Rightarrow> ('f, 'h, 'l, 'n) sender \<Rightarrow> ('f, 'h, 'l, 'n) sender" where
  "upd_ctx f s = s\<lparr>s_ctx := f (s_ctx s)\<rparr>"

definition upd_link :: "('l \<Rightarrow> 'l) \<Rightarrow> ('f, 'h, 'l, 'n) sender \<Rightarrow> ('f, 'h, 'l, 'n) sender" where
  "upd_link f s = s\<lparr>sd_link := f (sd_link s)\<rparr>"

definition use_tls :: "('f, 'h, 'l, 'n) sender \<Rightarrow> bool" where
  "use_tls s = mqtt_tls (mc_secrets (s_cfg s))"

section \<open>Clients\<close>

definition BROKER_REACHABLE_WAIT_MS :: u32 where "BROKER_REACHABLE_WAIT_MS = 5000"
definition OUTBOX_DRAIN_CAP_MS :: u32 where "OUTBOX_DRAIN_CAP_MS = 1000"
definition CLOSE_TAIL_CAP_MS :: u32 where "CLOSE_TAIL_CAP_MS = 300"
definition CLOSE_TAIL_CHECK_MS :: u32 where "CLOSE_TAIL_CHECK_MS = 20"
definition SENSOR_MQTT_RX_BUFFER_SIZE :: nat where "SENSOR_MQTT_RX_BUFFER_SIZE = 2048"
definition OTA_MQTT_RX_BUFFER_SIZE :: nat where "OTA_MQTT_RX_BUFFER_SIZE = unat OTA_MAX_CHUNK_SIZE + 512"

definition wrap_pem_certificate :: "string \<Rightarrow> string" where
  "wrap_pem_certificate base64_body =
    (if base64_body = [] then []
     else ''-----BEGIN CERTIFICATE-----'' @ [CHR 0x0A] @ base64_body @ [CHR 0x0A] @
       ''-----END CERTIFICATE-----'' @ [CHR 0x0A])"

definition build_client_config ::
  "string \<Rightarrow> nat \<Rightarrow> string \<Rightarrow> bool \<Rightarrow> ('f, 'h, 'l, 'n) sender \<Rightarrow> client_config" where
  "build_client_config uri rx_buffer_size client_id persistent_session s =
    (let sec = mc_secrets (s_cfg s); tls = use_tls s in
     \<lparr>cc_uri = uri, cc_username = mqtt_user sec, cc_password = mqtt_pass sec, cc_client_id = client_id,
       cc_disable_clean_session = persistent_session, cc_disable_keepalive = True, cc_retransmit_ms = 30000,
       cc_rx_size = rx_buffer_size, cc_out_size = 2048, cc_skip_common_name = tls,
       cc_certificate = (if tls \<and> s_tls_ca_cert_pem s \<noteq> [] then Some (s_tls_ca_cert_pem s) else None),
       cc_crt_bundle = (tls \<and> s_tls_ca_cert_pem s = []), cc_timeout_ms = (if tls then 8000 else 3000),
       cc_disable_auto_reconnect = True\<rparr>)"

definition clear_bits :: "mqtt_ctx \<Rightarrow> mqtt_ctx" where
  "clear_bits c = c\<lparr>bit_connected := False, bit_all_acked := False, bit_error := False, bit_ack_event := False\<rparr>"

definition connect_wait_ms :: "('f, 'h, 'l, 'n) sender \<Rightarrow> u32" where
  "connect_wait_ms s = (if use_tls s then 15000 else 5000)"

text \<open>The flag is \<open>False\<close> for a null handle.\<close>

definition start_persistent_client ::
  "('f, 'h, 'l, 'n) sender_env \<Rightarrow> string \<Rightarrow> ('f, 'h, 'l, 'n) sender \<Rightarrow> bool \<times> ('f, 'h, 'l, 'n) sender" where
  "start_persistent_client e uri s =
    (let (ready, s) =
       (if \<not> s_client s then
          (if \<not> e_event_group e then (False, s\<lparr>s_client_eg := False\<rparr>)
           else
             (let s = act (ClientInit Persistent
                        (build_client_config uri SENSOR_MQTT_RX_BUFFER_SIZE (s_client_id s) True s))
                      (act (GroupCreate Persistent) (s\<lparr>s_client_eg := True\<rparr>))
              in (e_client_init e, s\<lparr>s_client := e_client_init e\<rparr>)))
        else (True, act (ClientSetUri uri) s))
     in if \<not> ready then (False, s)
        else
          (True, act (ClientStart Persistent)
             (upd_ctx (\<lambda>c. (clear_bits c)\<lparr>session_present := False, subscribed := False\<rparr>) s)))"

definition set_abortive_close ::
  "('f, 'h, 'l, 'n) sender_env \<Rightarrow> ('f, 'h, 'l, 'n) sender \<Rightarrow> ('f, 'h, 'l, 'n) sender" where
  "set_abortive_close e s = (if e_socket e (sd_step s) < 0 then s else act SetLinger s)"

section \<open>Discovery owed this boot\<close>

definition DISC_TEMP :: u16 where "DISC_TEMP = push_bit 0 1"
definition DISC_HUM :: u16 where "DISC_HUM = push_bit 1 1"
definition DISC_BATT :: u16 where "DISC_BATT = push_bit 2 1"
definition DISC_UPDATE :: u16 where "DISC_UPDATE = push_bit 3 1"
definition DISC_RSSI :: u16 where "DISC_RSSI = push_bit 4 1"
definition DISC_DIAG :: u16 where "DISC_DIAG = push_bit 5 1"
definition DISC_NUMBERS :: u16 where "DISC_NUMBERS = push_bit 6 1"
definition DISC_SWITCH :: u16 where "DISC_SWITCH = push_bit 7 1"
definition DISC_HEATER :: u16 where "DISC_HEATER = push_bit 8 1"
definition DISC_RADIO :: u16 where "DISC_RADIO = push_bit 9 1"
definition DISC_LINKQ :: u16 where "DISC_LINKQ = push_bit 10 1"
definition DISC_UPLINK :: u16 where "DISC_UPLINK = push_bit 11 1"
definition DISC_TXPOWER :: u16 where "DISC_TXPOWER = push_bit 12 1"
definition DISC_AWAKE :: u16 where "DISC_AWAKE = push_bit 13 1"

definition owed :: "u16 \<Rightarrow> u16 \<Rightarrow> bool" where
  "owed need d \<longleftrightarrow> need AND d \<noteq> 0"

definition flag :: "bool \<Rightarrow> u16 \<Rightarrow> u16" where
  "flag b d = (if b then d else 0)"

definition discoveryWant :: "publish_params \<Rightarrow> link_stats option \<Rightarrow> u16" where
  "discoveryWant p link =
    flag (pp_temperature p \<noteq> None) DISC_TEMP OR flag (pp_humidity p \<noteq> None) DISC_HUM OR
    flag (hasBatt p) DISC_BATT OR flag (link_rssi link \<noteq> None) DISC_RSSI OR flag (hasHeater p) DISC_HEATER OR
    flag (hasRadioStats link) DISC_RADIO OR flag (hasLinkQuality link) DISC_LINKQ OR
    flag (hasUplinkRssi link) DISC_UPLINK OR DISC_DIAG OR DISC_UPDATE OR DISC_NUMBERS OR DISC_SWITCH OR
    DISC_TXPOWER OR DISC_AWAKE"

definition discoveryNeed :: "publish_params \<Rightarrow> link_stats option \<Rightarrow> u16 \<Rightarrow> u16" where
  "discoveryNeed p link sent_mask = (if hasAny p then discoveryWant p link AND NOT sent_mask else 0)"

definition NUMBER_ENTITY_COUNT :: int where "NUMBER_ENTITY_COUNT = 11"
definition NUMBER_ENTITY_MSGS :: int where "NUMBER_ENTITY_MSGS = NUMBER_ENTITY_COUNT * 2"

definition discovery_msgs :: "u16 \<Rightarrow> int" where
  "discovery_msgs need =
    (if owed need DISC_TEMP then 1 else 0) + (if owed need DISC_HUM then 1 else 0) +
    (if owed need DISC_BATT then 2 else 0) + (if owed need DISC_RSSI then 1 else 0) +
    (if owed need DISC_DIAG then 2 else 0) + (if owed need DISC_UPDATE then 2 else 0) +
    (if owed need DISC_NUMBERS then NUMBER_ENTITY_MSGS else 0) + (if owed need DISC_SWITCH then 2 else 0) +
    (if owed need DISC_HEATER then 2 else 0) + (if owed need DISC_RADIO then 2 else 0) +
    (if owed need DISC_LINKQ then 2 else 0) + (if owed need DISC_UPLINK then 1 else 0) +
    (if owed need DISC_TXPOWER then 1 else 0) + (if owed need DISC_AWAKE then 1 else 0)"

definition expected_count :: "publish_params \<Rightarrow> u16 \<Rightarrow> int" where
  "expected_count p need = (if hasAny p then 1 else 0) + discovery_msgs need"

text \<open>The entities, as their designated initializers give them.\<close>

definition sensor_spec :: "string \<Rightarrow> string \<Rightarrow> string option \<Rightarrow> string option \<Rightarrow> int \<Rightarrow> string \<Rightarrow> discovery_spec" where
  "sensor_spec name slug dev_class unit prec key =
    spec_default\<lparr>d_name := name, topic_slug := slug, device_class := dev_class, state_class := MEASUREMENT,
      d_unit := unit, precision := prec, d_key := key, diagnostic := True\<rparr>"

definition discovery_messages ::
  "(flt \<Rightarrow> string) \<Rightarrow> string \<Rightarrow> mqtt_config \<Rightarrow> runtime_config \<Rightarrow> u16 \<Rightarrow> mqtt_msg list" where
  "discovery_messages fmt version c rc need =
    (let sensor = publish_discovery fmt version c;
         on = (\<lambda>d ms. if owed need d then concat ms else [])
     in on DISC_TEMP [sensor ((sensor_spec ''Temperature'' ''temperature'' (Some ''temperature'') (Some deg_c) 1 ''t'')
            \<lparr>diagnostic := False\<rparr>)] @
        on DISC_HUM [sensor ((sensor_spec ''Humidity'' ''humidity'' (Some ''humidity'') (Some ''%'') 0 ''h'')
            \<lparr>diagnostic := False\<rparr>)] @
        on DISC_BATT [sensor (sensor_spec ''Battery'' ''battery'' (Some ''battery'') (Some ''%'') 2 ''b''),
           sensor (sensor_spec ''Voltage'' ''voltage'' (Some ''voltage'') (Some ''V'') 2 ''v''),
           retire_old_battery_adc_time_discovery fmt c] @
        on DISC_RSSI [sensor (sensor_spec ''Signal strength'' ''rssi'' (Some ''signal_strength'') (Some ''dBm'') 0 ''r'')] @
        on DISC_DIAG [sensor (spec_default\<lparr>d_name := ''Boot count'', topic_slug := ''boot_count'',
             state_class := Some ''total_increasing'', d_key := ''bc'', diagnostic := True\<rparr>),
           sensor (spec_default\<lparr>d_name := ''Reset reason'', topic_slug := ''reset_reason'', d_key := ''rr'',
             diagnostic := True\<rparr>),
           retire_old_csl_status_discovery fmt c] @
        on DISC_HEATER [publish_binary_discovery fmt version c
             (spec_default\<lparr>d_name := ''Heater problem'', topic_slug := ''heater_problem'',
               device_class := Some ''problem'', d_key := ''hp'', diagnostic := True\<rparr>),
           sensor (spec_default\<lparr>d_name := ''Heater run count'', topic_slug := ''heater_run_count'',
             state_class := Some ''total_increasing'', d_key := ''hc'', diagnostic := True\<rparr>)] @
        on DISC_RADIO [sensor (sensor_spec ''Radio TX time'' ''radio_tx_time'' None (Some ''ms'') 1 ''rt''),
           sensor (sensor_spec ''Radio RX time'' ''radio_rx_time'' None (Some ''ms'') 1 ''rx'')] @
        on DISC_LINKQ [sensor (sensor_spec ''TX retries'' ''tx_retries'' None None 0 ''tr''),
           sensor (sensor_spec ''CCA failures'' ''cca_failures'' None None 0 ''cf'')] @
        on DISC_UPLINK [sensor (sensor_spec ''Uplink signal strength'' ''uplink_rssi'' (Some ''signal_strength'')
             (Some ''dBm'') 0 ''ur'')] @
        on DISC_TXPOWER [sensor (sensor_spec ''TX power (active)'' ''tx_power_active'' None (Some ''dBm'') 0 ''tp'')] @
        on DISC_AWAKE [sensor (sensor_spec ''HP awake time'' ''hp_awake_time'' None (Some ''ms'') 2 ''aw''),
           retire_old_link_and_phase_diagnostics fmt c] @
        on DISC_UPDATE [publish_update_discovery fmt version c] @
        on DISC_NUMBERS [publish_number_discoveries fmt version c rc] @
        on DISC_SWITCH [publish_switch_discovery fmt version c rc])"

section \<open>Publishing and waiting for acknowledgements\<close>

definition publish_msg ::
  "('f, 'h, 'l, 'n) sender_env \<Rightarrow> mqtt_msg \<Rightarrow> ('f, 'h, 'l, 'n) sender \<Rightarrow> ('f, 'h, 'l, 'n) sender" where
  "publish_msg e m s = serve e (act (PublishMsg m) s)"

definition publish_msgs ::
  "('f, 'h, 'l, 'n) sender_env \<Rightarrow> mqtt_msg list \<Rightarrow> ('f, 'h, 'l, 'n) sender \<Rightarrow> ('f, 'h, 'l, 'n) sender" where
  "publish_msgs e ms s = fold (publish_msg e) ms s"

text \<open>The counters are set before anything is published; the handler can run between any two of the stores.\<close>

definition expect_acks ::
  "('f, 'h, 'l, 'n) sender_env \<Rightarrow> int \<Rightarrow> ('f, 'h, 'l, 'n) sender \<Rightarrow> ('f, 'h, 'l, 'n) sender" where
  "expect_acks e expected s =
    (let s = serve e (upd_ctx (\<lambda>c. c\<lparr>expected_acks := expected\<rparr>) s);
         s = serve e (upd_ctx (\<lambda>c. c\<lparr>received_acks := 0\<rparr>) s)
     in serve e (upd_ctx (\<lambda>c. c\<lparr>bit_all_acked := False\<rparr>) s))"

definition wait_all_acked ::
  "('f, 'h, 'l, 'n) sender_env \<Rightarrow> ('f, 'h, 'l, 'n) sender \<Rightarrow> bool \<times> ('f, 'h, 'l, 'n) sender" where
  "wait_all_acked e s = (let s = serve e (act (WaitBits 4000) s) in (bit_all_acked (s_ctx s), s))"

definition state_topic :: "(flt \<Rightarrow> string) \<Rightarrow> mqtt_config \<Rightarrow> string" where
  "state_topic fmt c = format_into fmt TOPIC_BUF STATE_TOPIC_FMT [AStr (cfg_device_id c)]"

definition state_msg ::
  "(flt \<Rightarrow> string) \<Rightarrow> mqtt_config \<Rightarrow> publish_params \<Rightarrow> link_stats option \<Rightarrow> int \<Rightarrow> u32 \<Rightarrow> mqtt_msg list" where
  "state_msg fmt c p link tx_power_dbm hpAwakeUs =
    (let payload = state_message fmt c p link tx_power_dbm hpAwakeUs; topic = state_topic fmt c in
     if payload = [] \<or> topic = [] then []
     else [\<lparr>msg_topic = topic, msg_payload = payload, msg_qos = 1, msg_retain = False\<rparr>])"

text \<open>The state message and, when it could be built, the wait for every acknowledgement of the cycle.\<close>

definition publish_state ::
  "('f, 'h, 'l, 'n) sender_env \<Rightarrow> publish_params \<Rightarrow> link_stats option \<Rightarrow> u32 \<Rightarrow> u16 \<Rightarrow> bool \<Rightarrow>
   ('f, 'h, 'l, 'n) sender \<Rightarrow> bool \<times> ('f, 'h, 'l, 'n) sender" where
  "publish_state e p link hpAwakeUs need subscribe s =
    (case state_msg (e_fmt e) (s_cfg s) p link (s_tx_power_active_dbm (sd_rc s)) hpAwakeUs of
       [] \<Rightarrow> (False, s)
     | ms \<Rightarrow>
         (let (ok, s) = wait_all_acked e (publish_msgs e ms s);
              s = (if ok then s\<lparr>s_discovery_sent_mask := s_discovery_sent_mask s OR need\<rparr> else s);
              s = (if ok \<and> subscribe \<and> subscribed (s_ctx s) then s\<lparr>s_session_subscribed := True\<rparr> else s)
          in (ok, s)))"

section \<open>Replay of the backlog\<close>

definition BACKFILL_MAX_BATCHES_PER_CYCLE :: nat where "BACKFILL_MAX_BATCHES_PER_CYCLE = 5"

definition backfill_topic :: "(flt \<Rightarrow> string) \<Rightarrow> mqtt_config \<Rightarrow> string" where
  "backfill_topic fmt c = format_into fmt TOPIC_BUF BACKFILL_TOPIC_FMT [AStr (cfg_device_id c)]"

definition peek_batch ::
  "('f, 'h, 'l, 'n) sender_env \<Rightarrow> ('f, 'h, 'l, 'n) sender \<Rightarrow> history_entry list \<times> ('f, 'h, 'l, 'n) sender" where
  "peek_batch e s =
    (let (es, l) = history_log_peek_batch (e_time_us e (sd_step s)) (of_nat BACKFILL_BATCH_SIZE) (sd_log s)
     in (es, s\<lparr>sd_log := l\<rparr>))"

fun replay_batches ::
  "('f, 'h, 'l, 'n) sender_env \<Rightarrow> string \<Rightarrow> nat \<Rightarrow> ('f, 'h, 'l, 'n) sender \<Rightarrow> ('f, 'h, 'l, 'n) sender" where
  "replay_batches e topic 0 s = s"
| "replay_batches e topic (Suc left) s =
    (if \<not> history_log_has_pending (sd_log s) then s
     else
       (let (replayed, s) = peek_batch e s; payload = backfill_payload (e_fmt e) replayed in
        if replayed = [] \<or> payload = [] then s
        else
          (let m = \<lparr>msg_topic = topic, msg_payload = payload, msg_qos = 1, msg_retain = False\<rparr>;
               (acked, s) = wait_all_acked e (publish_msg e m (expect_acks e 1 s))
           in if \<not> acked then s
              else replay_batches e topic left
                (s\<lparr>sd_log := history_log_advance (of_nat (length replayed)) (sd_log s)\<rparr>))))"

definition replay_history_if_pending ::
  "('f, 'h, 'l, 'n) sender_env \<Rightarrow> ('f, 'h, 'l, 'n) sender \<Rightarrow> ('f, 'h, 'l, 'n) sender" where
  "replay_history_if_pending e s =
    (let topic = backfill_topic (e_fmt e) (s_cfg s) in
     if topic = [] then s else replay_batches e topic BACKFILL_MAX_BATCHES_PER_CYCLE s)"

section \<open>Closing the session\<close>

definition wait_ack_event ::
  "('f, 'h, 'l, 'n) sender_env \<Rightarrow> u32 \<Rightarrow> ('f, 'h, 'l, 'n) sender \<Rightarrow> ('f, 'h, 'l, 'n) sender" where
  "wait_ack_event e timeout s = upd_ctx (\<lambda>c. c\<lparr>bit_ack_event := False\<rparr>) (serve e (act (WaitBits timeout) s))"

partial_function (option) drain_loop ::
  "('f, 'h, 'l, 'n) sender_env \<Rightarrow> u32 \<Rightarrow> u32 \<Rightarrow> ('f, 'h, 'l, 'n) sender \<Rightarrow> ('f, 'h, 'l, 'n) sender option" where
  "drain_loop e start cap s =
    (if e_outbox e (sd_step s) = 0 then Some s
     else if cap \<le> e_tick e (sd_step s) - start then Some s
     else drain_loop e start cap (wait_ack_event e (cap - (e_tick e (sd_step s) - start)) s))"

definition wait_outbox_empty ::
  "('f, 'h, 'l, 'n) sender_env \<Rightarrow> u32 \<Rightarrow> ('f, 'h, 'l, 'n) sender \<Rightarrow> ('f, 'h, 'l, 'n) sender option" where
  "wait_outbox_empty e cap_ms s = drain_loop e (e_tick e (sd_step s)) cap_ms s"

text \<open>\<open>e_tcp_idle\<close> is the answer of \<open>tcp_idle_fn\<close> on lwIP's connection lists.\<close>

definition lwip_tcp_idle :: "('f, 'h, 'l, 'n) sender_env \<Rightarrow> ('f, 'h, 'l, 'n) sender \<Rightarrow> bool" where
  "lwip_tcp_idle e s = e_tcp_idle e (sd_step s)"

partial_function (option) tail_loop ::
  "('f, 'h, 'l, 'n) sender_env \<Rightarrow> u32 \<Rightarrow> ('f, 'h, 'l, 'n) sender \<Rightarrow> ('f, 'h, 'l, 'n) sender option" where
  "tail_loop e start s =
    (if lwip_tcp_idle e s then Some s
     else if \<not> e_tick e (sd_step s) - start < CLOSE_TAIL_CAP_MS then Some s
     else tail_loop e start (serve e (act (TaskDelay CLOSE_TAIL_CHECK_MS) s)))"

definition client_stop ::
  "('f, 'h, 'l, 'n) sender_env \<Rightarrow> ('f, 'h, 'l, 'n) sender \<Rightarrow> ('f, 'h, 'l, 'n) sender" where
  "client_stop e s = serve e (act (ClientStop Persistent) s)"

definition close_session ::
  "('f, 'h, 'l, 'n) sender_env \<Rightarrow> bool \<Rightarrow> ('f, 'h, 'l, 'n) sender \<Rightarrow> ('f, 'h, 'l, 'n) sender option" where
  "close_session e clean s =
    (if \<not> clean then Some (client_stop e s)
     else do {
       s \<leftarrow> wait_outbox_empty e OUTBOX_DRAIN_CAP_MS (upd_link (onSessionClosing (e_link e)) s);
       let s = client_stop e s;
       s \<leftarrow> tail_loop e (e_tick e (sd_step s)) s;
       Some (upd_link (onSessionClosed (e_link e)) s)
     })"

section \<open>Update sessions\<close>

text \<open>
  The temporary client: its id is never the persistent client's. Registering and starting a client that
  could not be created does nothing.
\<close>

definition ota_client_id :: "mqtt_config \<Rightarrow> string" where
  "ota_client_id c = cfg_device_id c @ ''-ota''"

definition start_client ::
  "('f, 'h, 'l, 'n) sender_env \<Rightarrow> string \<Rightarrow> bool \<Rightarrow> mqtt_ctx \<Rightarrow> ('f, 'h, 'l, 'n) sender \<Rightarrow> mqtt_ctx \<times> ('f, 'h, 'l, 'n) sender" where
  "start_client e uri created c s =
    (clear_bits c,
     tell (Do (ClientInit Temporary (build_client_config uri OTA_MQTT_RX_BUFFER_SIZE
                 (ota_client_id (s_cfg s)) False s)) #
           (if created then [Do (ClientStart Temporary)] else [])) s)"

fun ota_event_step ::
  "('f, 'h) ota_platform \<Rightarrow> mqtt_event \<Rightarrow> mqtt_ctx \<times> ('f, 'h, 'l, 'n) sender \<Rightarrow> mqtt_ctx \<times> ('f, 'h, 'l, 'n) sender" where
  "ota_event_step p ev (c, s) =
    (let (c, ou, rc) = mqtt_event_handler p ev (c, sd_ota s, sd_rc s) in (c, s\<lparr>sd_ota := ou, sd_rc := rc\<rparr>))"

text \<open>Connecting the temporary client and waiting; a client that was not created gets no events.\<close>

definition ota_connect ::
  "('f, 'h, 'l, 'n) sender_env \<Rightarrow> string \<Rightarrow> ota_round \<Rightarrow> mqtt_ctx \<Rightarrow> ('f, 'h, 'l, 'n) sender \<Rightarrow>
   mqtt_ctx \<times> ('f, 'h, 'l, 'n) sender" where
  "ota_connect e uri rd c s =
    (let (c, s) = start_client e uri (or_init rd) c s
     in fold (ota_event_step (e_platform e)) (if or_init rd then or_events rd else [])
          (c, act (WaitBits (connect_wait_ms s)) s))"

definition tx_set :: "('f, 'h, 'l, 'n) sender_env \<Rightarrow> ('f, 'h, 'l, 'n) sender \<Rightarrow> tx_link" where
  "tx_set e s = Some (\<lambda>dbm. setTxPowerDbm (e_link e) dbm (sd_link s) = ESP_OK)"

text \<open>What a session does outside the updater: the link's hooks and the pinned TX power.\<close>

fun ota_effect ::
  "('f, 'h, 'l, 'n) sender_env \<Rightarrow> ota_action \<Rightarrow> ('f, 'h, 'l, 'n) sender \<Rightarrow> ('f, 'h, 'l, 'n) sender" where
  "ota_effect e OtaWindowBegin s = upd_link (onOtaWindowBegin (e_link e)) s"
| "ota_effect e OtaWindowEnd s = upd_link (onOtaWindowEnd (e_link e)) s"
| "ota_effect e TxPowerPin s =
    tell (map (Do \<circ> CfgAct) (runtime_config_tx_power_pin_max_for_ota (tx_set e s) (sd_rc s))) s"
| "ota_effect e TxPowerUnpin s =
    tell (map (Do \<circ> CfgAct) (runtime_config_tx_power_unpin_after_ota (tx_set e s) (sd_rc s))) s"
| "ota_effect e _ s = s"

definition ota_act ::
  "('f, 'h, 'l, 'n) sender_env \<Rightarrow> ota_action \<Rightarrow> ('f, 'h, 'l, 'n) sender \<Rightarrow> ('f, 'h, 'l, 'n) sender" where
  "ota_act e a s = ota_effect e a (act (OtaAct a) s)"

text \<open>A session of the updater; the flag is its restart.\<close>

definition ota_session ::
  "('f, 'h, 'l, 'n) sender_env \<Rightarrow> flt option \<Rightarrow> ota_round \<Rightarrow> ('f, 'h, 'l, 'n) sender \<Rightarrow>
   (bool \<times> ('f, 'h, 'l, 'n) sender) option" where
  "ota_session e battery_percent rd s =
    (case ota_run_session (e_platform e) (or_client rd) battery_percent (or_waits rd) (sd_ota s) of
       Inl _ \<Rightarrow> None
     | Inr (restart, acts, ou) \<Rightarrow> Some (restart, fold (ota_act e) acts (s\<lparr>sd_ota := ou\<rparr>)))"

definition destroy_client :: "bool \<Rightarrow> ('f, 'h, 'l, 'n) sender \<Rightarrow> ('f, 'h, 'l, 'n) sender" where
  "destroy_client created s =
    (if created then tell [Do (ClientStop Temporary), Do (ClientDestroy Temporary)] s else s)"

definition broker_uri :: "('f, 'h, 'l, 'n) sender_env \<Rightarrow> ('f, 'h, 'l, 'n) sender \<Rightarrow> string" where
  "broker_uri e s =
    (let sec = mc_secrets (s_cfg s)
     in brokerUri (e_link e) (mqtt_broker_address sec) (mqtt_port sec) (use_tls s) (sd_link s))"

text \<open>
  One connection with its session, then as many more as end by connection loss with the update still
  due. The client of a connection is stopped and destroyed before the next one and on every return.
\<close>

fun ota_rounds ::
  "('f, 'h, 'l, 'n) sender_env \<Rightarrow> flt option \<Rightarrow> string \<Rightarrow> ota_round list \<Rightarrow> mqtt_ctx \<Rightarrow>
   ('f, 'h, 'l, 'n) sender \<Rightarrow> (bool \<times> ('f, 'h, 'l, 'n) sender) option" where
  "ota_rounds e battery_percent uri [] c s = None"
| "ota_rounds e battery_percent uri (rd # rds) c s =
    (let (c, s) = ota_connect e uri rd c s in
     if \<not> (or_init rd \<and> bit_connected c) then Some (False, destroy_client (or_init rd) s)
     else
       (case ota_session e battery_percent rd s of
          None \<Rightarrow> None
        | Some (True, s) \<Rightarrow> Some (True, s)
        | Some (False, s) \<Rightarrow>
            (let s = destroy_client True s in
             if \<not> (ota_update_due (sd_ota s) \<and> ota_session_ended_by_connection_loss (sd_ota s)) then Some (False, s)
             else
               (let uri = broker_uri e s in
                if uri = [] then Some (False, s) else ota_rounds e battery_percent uri rds c s))))"

definition run_ota_if_due ::
  "('f, 'h, 'l, 'n) sender_env \<Rightarrow> string \<Rightarrow> flt option \<Rightarrow> ('f, 'h, 'l, 'n) sender \<Rightarrow>
   (bool \<times> ('f, 'h, 'l, 'n) sender) option" where
  "run_ota_if_due e uri battery_percent s =
    (if \<not> ota_update_due (sd_ota s) then Some (False, s)
     else if \<not> e_ota_group e then Some (False, s)
     else do {
       (restart, s) \<leftarrow> ota_rounds e battery_percent uri (e_ota_rounds e) fresh_ctx (act (GroupCreate Temporary) s);
       Some (restart, if restart then s else act (GroupDelete Temporary) s)
     })"

section \<open>The cycle\<close>

text \<open>A resumed session keeps its subscriptions; anything else subscribes. The flag is \<open>subscribe\<close>.\<close>

definition subscribe_if_needed ::
  "('f, 'h, 'l, 'n) sender_env \<Rightarrow> ('f, 'h, 'l, 'n) sender \<Rightarrow> bool \<times> ('f, 'h, 'l, 'n) sender" where
  "subscribe_if_needed e s =
    (let s = (if \<not> session_present (s_ctx s) then s\<lparr>s_session_subscribed := False\<rparr> else s);
         subscribe = \<not> s_session_subscribed s
     in (subscribe,
         if subscribe then
           serve e (act (SubscribeTopics [(s_topic_manifest (sd_ota s), 1), (s_topic_install (sd_ota s), 1),
             (s_topic_wildcard (sd_rc s), 1)]) s)
         else s))"

definition read_telemetry ::
  "('f, 'h, 'l, 'n) sender_env \<Rightarrow> ('f, 'h, 'l, 'n) sender \<Rightarrow> link_stats option \<times> u32 \<times> ('f, 'h, 'l, 'n) sender" where
  "read_telemetry e s =
    (let (link, l) = readLinkStats (e_link e) (sd_link s);
         (awake, a) = hp_awake_stats_get_and_reset_us (e_time_us e (sd_step s)) (sd_awake s)
     in (link, awake, s\<lparr>sd_link := l, sd_awake := a\<rparr>))"

definition apply_config ::
  "('f, 'h, 'l, 'n) sender_env \<Rightarrow> ('f, 'h, 'l, 'n) sender \<Rightarrow> ('f, 'h, 'l, 'n) sender option" where
  "apply_config e s =
    (case runtime_config_apply_pending (e_api e) (e_fmt e) (tx_set e s) True (sd_rc s, sd_nvs s) of
       None \<Rightarrow> None
     | Some (_, acts, rc, n) \<Rightarrow>
         Some (serve e (tell (map (Do \<circ> CfgAct) acts) (s\<lparr>sd_rc := rc, sd_nvs := n\<rparr>))))"

text \<open>
  The branch of a connected client: the session and the telemetry, what is published with its
  acknowledgement, and, after that or when nothing was to be published, the backlog and the configuration.
  The flags are \<open>subscribe\<close> and \<open>ok\<close>.
\<close>

definition open_session ::
  "('f, 'h, 'l, 'n) sender_env \<Rightarrow> ('f, 'h, 'l, 'n) sender \<Rightarrow> bool \<times> link_stats option \<times> u32 \<times> ('f, 'h, 'l, 'n) sender" where
  "open_session e s =
    (let (subscribe, s) = subscribe_if_needed e (set_abortive_close e s);
         (link, hpAwakeUs, s) = read_telemetry e s
     in (subscribe, link, hpAwakeUs, s))"

definition publish_all ::
  "('f, 'h, 'l, 'n) sender_env \<Rightarrow> publish_params \<Rightarrow> bool \<Rightarrow> link_stats option \<Rightarrow> u32 \<Rightarrow>
   ('f, 'h, 'l, 'n) sender \<Rightarrow> bool \<times> ('f, 'h, 'l, 'n) sender" where
  "publish_all e p subscribe link hpAwakeUs s =
    (let need = discoveryNeed p link (s_discovery_sent_mask s);
         s = expect_acks e (expected_count p need) s;
         s = publish_msgs e (discovery_messages (e_fmt e) (p_version (e_platform e)) (s_cfg s) (sd_rc s) need) s
     in if hasAny p then publish_state e p link hpAwakeUs need subscribe s else (False, s))"

definition connected_cycle ::
  "('f, 'h, 'l, 'n) sender_env \<Rightarrow> publish_params \<Rightarrow> ('f, 'h, 'l, 'n) sender \<Rightarrow>
   (bool \<times> ('f, 'h, 'l, 'n) sender) option" where
  "connected_cycle e p s =
    (let (subscribe, link, hpAwakeUs, s) = open_session e s;
         (ok, s) = publish_all e p subscribe link hpAwakeUs s
     in if ok \<or> \<not> hasAny p then map_option (Pair ok) (apply_config e (replay_history_if_pending e s))
        else Some (ok, s))"

definition persistent_cycle ::
  "('f, 'h, 'l, 'n) sender_env \<Rightarrow> publish_params \<Rightarrow> string \<Rightarrow> ('f, 'h, 'l, 'n) sender \<Rightarrow>
   (bool \<times> ('f, 'h, 'l, 'n) sender) option" where
  "persistent_cycle e p uri s =
    (let (client, s) = start_persistent_client e uri s in
     if \<not> client then Some (False, s)
     else
       (let s = serve e (act (WaitBits (connect_wait_ms s)) s); connected = bit_connected (s_ctx s) in do {
          (ok, s) \<leftarrow> (if connected then connected_cycle e p s else Some (False, s));
          s \<leftarrow> close_session e (connected \<and> (ok \<or> \<not> hasAny p)) s;
          Some (ok, s)
        }))"

datatype cycle_result = Returned bool | Restarted

definition run_publish_cycle ::
  "('f, 'h, 'l, 'n) sender_env \<Rightarrow> publish_params \<Rightarrow> ('f, 'h, 'l, 'n) sender \<Rightarrow>
   (cycle_result \<times> ('f, 'h, 'l, 'n) sender) option" where
  "run_publish_cycle e p s =
    (let s = upd_link (onPublishWindowBegin (e_link e)) s;
         (reachable, l) = waitForBrokerReachable (e_link e) (mqtt_broker_address (mc_secrets (s_cfg s)))
           BROKER_REACHABLE_WAIT_MS (sd_link s);
         s = s\<lparr>sd_link := l\<rparr>;
         uri = broker_uri e s;
         leave = (\<lambda>ok s. Some (Returned ok, upd_link (onPublishWindowEnd (e_link e)) s))
     in if \<not> reachable then leave False s
        else if uri = [] then leave False s
        else do {
          (ok, s) \<leftarrow> (if ota_update_due (sd_ota s) \<and> \<not> hasAny p then Some (False, s)
                       else persistent_cycle e p uri s);
          (restart, s) \<leftarrow> (if ok \<or> \<not> hasAny p then run_ota_if_due e uri (pp_battery_percent p) s
                            else Some (False, s));
          if restart then Some (Restarted, s) else leave ok s
        })"

text \<open>The idle event group is part of the task's state, below.\<close>

definition client_id_of_mac :: "u8 list \<Rightarrow> string" where
  "client_id_of_mac mac =
    format_plain ''ESP32_{:02x}{:02X}{:02X}'' (map (\<lambda>b. AInt (uint b)) (take 3 (drop 3 mac)))"

definition mqtt_sender_init ::
  "u8 list \<Rightarrow> mqtt_config \<Rightarrow> ('f, 'h, 'l, 'n) sender \<Rightarrow> ('f, 'h, 'l, 'n) sender" where
  "mqtt_sender_init mac cfg s =
    s\<lparr>s_cfg := cfg, s_tls_ca_cert_pem := wrap_pem_certificate (mqtt_tls_ca_cert (mc_secrets cfg)),
      sd_ota := ota_updater_init (cfg_device_id cfg) (sd_ota s), s_client_id := client_id_of_mac mac\<rparr>"

section \<open>The publish task\<close>

text \<open>
  The task that runs a cycle, between the steps that other tasks can see: the outcome is stored, the
  running flag cleared, the idle bit set. \<open>mqtt_send_sensor_data\<close> in the same way: the flag is exchanged,
  the idle bit cleared, the task created; a failed creation takes both back. \<open>s_idle_eg\<close> is \<open>None\<close> before the
  event group exists.
\<close>

datatype task_phase = CycleRunning | OutcomeStored | RunningCleared
datatype sender_pc = NotSending | FlagTaken | BitCleared | FlagReturned

record publish_api =
  s_task_running :: bool
  s_last_ok :: bool
  s_idle_eg :: "bool option"
  pa_tasks :: "task_phase list"
  pa_pc :: sender_pc

definition mqtt_is_busy :: "publish_api \<Rightarrow> bool" where
  "mqtt_is_busy a = s_task_running a"

definition mqtt_last_publish_succeeded :: "publish_api \<Rightarrow> bool" where
  "mqtt_last_publish_succeeded a = s_last_ok a"

text \<open>The state is the one in which the wait ends, with the bit set or at its timeout.\<close>

definition mqtt_wait_for_idle :: "publish_api \<Rightarrow> bool" where
  "mqtt_wait_for_idle a = (case s_idle_eg a of None \<Rightarrow> True | Some b \<Rightarrow> b)"

definition init_idle_group :: "bool \<Rightarrow> publish_api \<Rightarrow> publish_api" where
  "init_idle_group created a =
    (if s_idle_eg a = None \<and> created then a\<lparr>s_idle_eg := Some True\<rparr> else a)"

definition set_idle :: "bool \<Rightarrow> publish_api \<Rightarrow> publish_api" where
  "set_idle b a = a\<lparr>s_idle_eg := map_option (\<lambda>_. b) (s_idle_eg a)\<rparr>"

text \<open>One step of \<open>mqtt_send_sensor_data\<close>; \<open>created\<close> is the result of \<open>xTaskCreate\<close>.\<close>

fun send_step :: "bool \<Rightarrow> publish_api \<Rightarrow> publish_api" where
  "send_step created a =
    (case pa_pc a of
       NotSending \<Rightarrow> if s_task_running a then a else a\<lparr>s_task_running := True, pa_pc := FlagTaken\<rparr>
     | FlagTaken \<Rightarrow> (set_idle False a)\<lparr>pa_pc := BitCleared\<rparr>
     | BitCleared \<Rightarrow>
         if created then a\<lparr>pa_tasks := pa_tasks a @ [CycleRunning], pa_pc := NotSending\<rparr>
         else a\<lparr>s_task_running := False, pa_pc := FlagReturned\<rparr>
     | FlagReturned \<Rightarrow> (set_idle True a)\<lparr>pa_pc := NotSending\<rparr>)"

text \<open>One step of the \<open>i\<close>-th task; \<open>ok\<close> is the result of its cycle.\<close>

definition task_step :: "bool \<Rightarrow> nat \<Rightarrow> publish_api \<Rightarrow> publish_api" where
  "task_step ok i a =
    (case pa_tasks a ! i of
       CycleRunning \<Rightarrow> a\<lparr>s_last_ok := ok, pa_tasks := (pa_tasks a)[i := OutcomeStored]\<rparr>
     | OutcomeStored \<Rightarrow> a\<lparr>s_task_running := False, pa_tasks := (pa_tasks a)[i := RunningCleared]\<rparr>
     | RunningCleared \<Rightarrow>
         (set_idle True a)\<lparr>pa_tasks := take i (pa_tasks a) @ drop (Suc i) (pa_tasks a)\<rparr>)"

definition api_start :: publish_api where
  "api_start = \<lparr>s_task_running = False, s_last_ok = False, s_idle_eg = None, pa_tasks = [], pa_pc = NotSending\<rparr>"

text \<open>Everything the two sides can do; \<open>disciplined\<close> restricts the caller to sending when it sees the idle bit.\<close>

inductive api_run :: "bool \<Rightarrow> publish_api \<Rightarrow> bool" for disciplined where
  start: "api_run disciplined (init_idle_group created api_start)"
| send: "api_run disciplined a \<Longrightarrow> disciplined \<and> pa_pc a = NotSending \<longrightarrow> mqtt_wait_for_idle a \<Longrightarrow>
    api_run disciplined (send_step created a)"
| task: "api_run disciplined a \<Longrightarrow> i < length (pa_tasks a) \<Longrightarrow> api_run disciplined (task_step ok i a)"

inductive_cases api_runE: "api_run disciplined a"

end
