(* ===== verification/MqttCycle.thy ===== *)
theory MqttCycle
  imports MqttSender ConfigProps
begin

unbundle bit_operations_syntax

text \<open>
  The publish cycle in parts: how many acknowledgements a set of messages asks for and how a stretch of
  the trace counts them, what each part of a cycle leaves alone (\<open>keeps\<close>), and the decomposition of a
  cycle that reports success (\<open>cycle_parts\<close>).
\<close>

section \<open>Acknowledgements\<close>

definition acked_msgs :: "mqtt_msg list \<Rightarrow> nat" where
  "acked_msgs ms = length (filter (\<lambda>m. msg_qos m = 1) ms)"

lemma acked_msgs_simps [simp]:
  "acked_msgs [] = 0"
  "acked_msgs (m # ms) = (if msg_qos m = 1 then 1 else 0) + acked_msgs ms"
  "acked_msgs (xs @ ys) = acked_msgs xs + acked_msgs ys"
  by (simp_all add: acked_msgs_def)

lemma acked_retire [simp]: "acked_msgs (retire fmt f args) = 0"
  using retire_qos [of _ fmt f args] by (auto simp: acked_msgs_def filter_empty_conv)

lemma acked_retires [simp]:
  "acked_msgs (retire_old_battery_adc_time_discovery fmt c) = 0"
  "acked_msgs (retire_old_csl_status_discovery fmt c) = 0"
  "acked_msgs (retire_old_max_skip_cycles_discovery fmt c) = 0"
  "acked_msgs (retire_old_rtc_cal_mode fmt c) = 0"
  by (simp_all add: retire_old_battery_adc_time_discovery_def retire_old_csl_status_discovery_def
      retire_old_max_skip_cycles_discovery_def retire_old_rtc_cal_mode_def)

lemma acked_retire_link [simp]: "acked_msgs (retire_old_link_and_phase_diagnostics fmt c) = 0"
proof -
  have "acked_msgs (concat (map (\<lambda>x. retire fmt f (g x)) xs)) = 0" for f g and xs :: "string list"
    by (induction xs) simp_all
  then show ?thesis by (simp add: retire_old_link_and_phase_diagnostics_def)
qed

lemma acked_publish_on:
  "config_ok c version \<Longrightarrow> spec_ok spec \<Longrightarrow> acked_msgs (publish_discovery fmt version c spec) = 1"
  "config_ok c version \<Longrightarrow> spec_ok spec \<Longrightarrow> acked_msgs (publish_binary_discovery fmt version c spec) = 1"
  by (simp_all add: publish_discovery_def publish_binary_discovery_def publish_on_one)

lemma acked_numbers:
  assumes "config_ok c version" "rc_ok c rc" "fmt_ok fmt"
  shows "acked_msgs (publish_number_discoveries fmt version c rc) = 22"
proof -
  have "acked_msgs (concat (map (publish_number_discovery fmt version c rc) ns)) = 2 * length ns"
    if "list_all entity_ok ns" for ns
    using that by (induction ns) (simp_all add: publish_number_two [OF assms] value_msg_def)
  from this [OF number_entities_ok] show ?thesis
    by (simp add: publish_number_discoveries_def number_entities_def)
qed

text \<open>Every entity the cycle announces keeps within the lengths the buffers are derived from.\<close>

lemma sensor_specs_ok:
  "spec_ok (sensor_spec name slug dev unit prec key) \<longleftrightarrow>
    length name \<le> 22 \<and> length slug \<le> 27 \<and> length key \<le> 2 \<and> prec < 10 \<and>
    (\<forall>x. dev = Some x \<longrightarrow> length x \<le> 15) \<and> (\<forall>x. unit = Some x \<longrightarrow> length x \<le> 3)"
  "spec_ok (sensor_spec name slug dev unit prec key\<lparr>diagnostic := b\<rparr>) \<longleftrightarrow> spec_ok (sensor_spec name slug dev unit prec key)"
  by (auto simp: spec_ok_def sensor_spec_def max_lens MEASUREMENT_def)

lemma default_specs_ok:
  "spec_ok (spec_default\<lparr>d_name := name, topic_slug := slug, state_class := st, d_key := key, diagnostic := b\<rparr>) \<longleftrightarrow>
    length name \<le> 22 \<and> length slug \<le> 27 \<and> length key \<le> 2 \<and> (\<forall>x. st = Some x \<longrightarrow> length x \<le> 16)"
  "spec_ok (spec_default\<lparr>d_name := name, topic_slug := slug, d_key := key, diagnostic := b\<rparr>) \<longleftrightarrow>
    length name \<le> 22 \<and> length slug \<le> 27 \<and> length key \<le> 2"
  "spec_ok (spec_default\<lparr>d_name := name, topic_slug := slug, device_class := dev, d_key := key, diagnostic := b\<rparr>) \<longleftrightarrow>
    length name \<le> 22 \<and> length slug \<le> 27 \<and> length key \<le> 2 \<and> (\<forall>x. dev = Some x \<longrightarrow> length x \<le> 15)"
  by (auto simp: spec_ok_def spec_default_def max_lens)

lemma acked_if: "acked_msgs (if b then ms else []) = (if b then acked_msgs ms else 0)"
  by simp

lemma acked_discovery:
  assumes "config_ok c version" "rc_ok c rc" "fmt_ok fmt"
  shows "int (acked_msgs (discovery_messages fmt version c rc need)) = discovery_msgs need"
proof -
  obtain m where update: "publish_update_discovery fmt version c = [m,
      \<lparr>msg_topic = ota_topic (cfg_device_id c) ''ota/installed'', msg_payload = version, msg_qos = 1, msg_retain = True\<rparr>]"
    "msg_qos m = 1"
    using publish_update_two [OF assms(1), of fmt] by auto
  have switch: "acked_msgs (publish_switch_discovery fmt version c rc) = 2"
    by (simp add: publish_switch_two [OF assms(1,2)] value_msg_def)
  show ?thesis
    unfolding discovery_messages_def discovery_msgs_def Let_def
    by (simp add: acked_if acked_publish_on [OF assms(1)] sensor_specs_ok default_specs_ok deg_c_def
        acked_numbers [OF assms] switch update NUMBER_ENTITY_MSGS_def NUMBER_ENTITY_COUNT_def)
qed

section \<open>What the other tasks change\<close>

text \<open>
  Whatever is handled while the publish task waits or works, only the context, the two message sinks, the
  sleep accounting and the trace change.
\<close>

lemma env_handle_frame [simp]:
  "s_cfg (env_handle p ev s) = s_cfg s" "s_client (env_handle p ev s) = s_client s"
  "s_session_subscribed (env_handle p ev s) = s_session_subscribed s"
  "s_discovery_sent_mask (env_handle p ev s) = s_discovery_sent_mask s"
  "sd_log (env_handle p ev s) = sd_log s" "sd_link (env_handle p ev s) = sd_link s"
  "sd_step (env_handle p ev s) = sd_step s" "sd_nvs (env_handle p ev s) = sd_nvs s"
  by (cases ev; simp add: tell_def Let_def split: prod.splits)+

lemma serve_frame [simp]:
  "s_cfg (serve e s) = s_cfg s" "s_client (serve e s) = s_client s"
  "s_session_subscribed (serve e s) = s_session_subscribed s"
  "s_discovery_sent_mask (serve e s) = s_discovery_sent_mask s"
  "sd_log (serve e s) = sd_log s" "sd_link (serve e s) = sd_link s"
  "sd_step (serve e s) = sd_step s + 1" "sd_nvs (serve e s) = sd_nvs s"
proof -
  have f: "s_cfg (fold (env_handle p) evs t) = s_cfg t \<and> s_client (fold (env_handle p) evs t) = s_client t \<and>
      s_session_subscribed (fold (env_handle p) evs t) = s_session_subscribed t \<and>
      s_discovery_sent_mask (fold (env_handle p) evs t) = s_discovery_sent_mask t \<and>
      sd_log (fold (env_handle p) evs t) = sd_log t \<and> sd_link (fold (env_handle p) evs t) = sd_link t \<and>
      sd_step (fold (env_handle p) evs t) = sd_step t \<and> sd_nvs (fold (env_handle p) evs t) = sd_nvs t" for p evs t
    by (induction evs arbitrary: t) simp_all
  show "s_cfg (serve e s) = s_cfg s" "s_client (serve e s) = s_client s"
    "s_session_subscribed (serve e s) = s_session_subscribed s"
    "s_discovery_sent_mask (serve e s) = s_discovery_sent_mask s"
    "sd_log (serve e s) = sd_log s" "sd_link (serve e s) = sd_link s"
    "sd_step (serve e s) = sd_step s + 1" "sd_nvs (serve e s) = sd_nvs s"
    by (simp_all add: serve_def f)
qed

lemma tell_frame [simp]:
  "s_cfg (tell i s) = s_cfg s" "s_client (tell i s) = s_client s" "s_ctx (tell i s) = s_ctx s"
  "s_session_subscribed (tell i s) = s_session_subscribed s"
  "s_discovery_sent_mask (tell i s) = s_discovery_sent_mask s"
  "sd_ota (tell i s) = sd_ota s" "sd_rc (tell i s) = sd_rc s" "sd_nvs (tell i s) = sd_nvs s"
  "sd_log (tell i s) = sd_log s" "sd_link (tell i s) = sd_link s" "sd_step (tell i s) = sd_step s"
  "sd_awake (tell i s) = sd_awake s" "sd_trace (tell i s) = sd_trace s @ i"
  by (simp_all add: tell_def)

lemma act_frame [simp]:
  "s_cfg (act a s) = s_cfg s" "s_client (act a s) = s_client s" "s_ctx (act a s) = s_ctx s"
  "s_session_subscribed (act a s) = s_session_subscribed s"
  "s_discovery_sent_mask (act a s) = s_discovery_sent_mask s"
  "sd_ota (act a s) = sd_ota s" "sd_rc (act a s) = sd_rc s" "sd_nvs (act a s) = sd_nvs s"
  "sd_log (act a s) = sd_log s" "sd_link (act a s) = sd_link s" "sd_step (act a s) = sd_step s"
  "sd_awake (act a s) = sd_awake s" "sd_trace (act a s) = sd_trace s @ [Do a]"
  by (simp_all add: act_def)

lemma upd_ctx_frame [simp]:
  "s_cfg (upd_ctx f s) = s_cfg s" "s_client (upd_ctx f s) = s_client s" "s_ctx (upd_ctx f s) = f (s_ctx s)"
  "s_session_subscribed (upd_ctx f s) = s_session_subscribed s"
  "s_discovery_sent_mask (upd_ctx f s) = s_discovery_sent_mask s"
  "sd_ota (upd_ctx f s) = sd_ota s" "sd_rc (upd_ctx f s) = sd_rc s" "sd_nvs (upd_ctx f s) = sd_nvs s"
  "sd_log (upd_ctx f s) = sd_log s" "sd_link (upd_ctx f s) = sd_link s" "sd_step (upd_ctx f s) = sd_step s"
  "sd_trace (upd_ctx f s) = sd_trace s"
  by (simp_all add: upd_ctx_def)

lemma upd_link_frame [simp]:
  "s_cfg (upd_link f s) = s_cfg s" "s_client (upd_link f s) = s_client s" "s_ctx (upd_link f s) = s_ctx s"
  "s_session_subscribed (upd_link f s) = s_session_subscribed s"
  "s_discovery_sent_mask (upd_link f s) = s_discovery_sent_mask s"
  "sd_ota (upd_link f s) = sd_ota s" "sd_rc (upd_link f s) = sd_rc s" "sd_nvs (upd_link f s) = sd_nvs s"
  "sd_log (upd_link f s) = sd_log s" "sd_link (upd_link f s) = f (sd_link s)" "sd_step (upd_link f s) = sd_step s"
  "sd_trace (upd_link f s) = sd_trace s"
  by (simp_all add: upd_link_def)

text \<open>What a stretch of the trace holds: published messages, acknowledgements, and the broker's word on the session.\<close>

definition sent_msgs :: "trace_item list \<Rightarrow> mqtt_msg list" where
  "sent_msgs tr = concat (map (\<lambda>i. case i of Do (PublishMsg m) \<Rightarrow> [m] | _ \<Rightarrow> []) tr)"

definition pubacks :: "trace_item list \<Rightarrow> nat" where
  "pubacks tr = length (filter (\<lambda>i. i = Got EvPublished) tr)"

lemma sent_msgs_simps [simp]:
  "sent_msgs [] = []" "sent_msgs (xs @ ys) = sent_msgs xs @ sent_msgs ys"
  "sent_msgs (Got ev # tr) = sent_msgs tr" "sent_msgs (Do (PublishMsg m) # tr) = m # sent_msgs tr"
  "sent_msgs (Do (WaitBits t) # tr) = sent_msgs tr"
  by (simp_all add: sent_msgs_def)

lemma pubacks_simps [simp]:
  "pubacks [] = 0" "pubacks (xs @ ys) = pubacks xs + pubacks ys" "pubacks (Do a # tr) = pubacks tr"
  "pubacks (Got ev # tr) = (if ev = EvPublished then 1 else 0) + pubacks tr"
  by (simp_all add: pubacks_def)

text \<open>A stretch in which the counters run on: every acknowledgement is counted, and none is imagined.\<close>

definition counts ::
  "('f, 'h, 'l, 'n) sender \<Rightarrow> trace_item list \<Rightarrow> ('f, 'h, 'l, 'n) sender \<Rightarrow> bool" where
  "counts s tr t \<longleftrightarrow> sd_trace t = sd_trace s @ tr \<and> expected_acks (s_ctx t) = expected_acks (s_ctx s) \<and>
     received_acks (s_ctx t) = received_acks (s_ctx s) + int (pubacks tr) \<and>
     (bit_all_acked (s_ctx t) \<longrightarrow> bit_all_acked (s_ctx s) \<or> expected_acks (s_ctx t) \<le> received_acks (s_ctx t))"

lemma counts_refl: "counts s [] s"
  by (simp add: counts_def)

lemma counts_trans: "counts s tr t \<Longrightarrow> counts t tr' u \<Longrightarrow> counts s (tr @ tr') u"
  by (auto simp: counts_def)

lemma counts_act: "counts s [Do a] (act a s)"
  by (simp add: counts_def act_def)

lemma counts_env_handle: "\<exists>tr. counts s tr (env_handle p ev s) \<and> sent_msgs tr = []"
proof (cases ev)
  case (Mqtt m)
  have "counts s [Got m] (env_handle p ev s)"
    by (cases m) (auto simp: Mqtt counts_def tell_def ack_arrived_def Let_def)
  then show ?thesis by (intro exI [of _ "[Got m]"]) simp
next
  case (Slept us)
  then show ?thesis by (intro exI [of _ "[]"]) (simp add: counts_def)
qed

lemma counts_serve: "\<exists>tr. counts s tr (serve e s) \<and> sent_msgs tr = []"
proof -
  have "\<exists>tr. counts s tr (fold (env_handle p) evs s) \<and> sent_msgs tr = []"
    for p evs and s :: "('a, 'b, 'c, 'd) sender"
  proof (induction evs arbitrary: s)
    case Nil
    show ?case by (intro exI [of _ "[]"]) (simp add: counts_refl)
  next
    case (Cons ev evs)
    obtain tr where "counts s tr (env_handle p ev s)" "sent_msgs tr = []" using counts_env_handle by blast
    moreover obtain tr' where "counts (env_handle p ev s) tr' (fold (env_handle p) evs (env_handle p ev s))" "sent_msgs tr' = []"
      using Cons.IH by blast
    ultimately show ?case by (intro exI [of _ "tr @ tr'"]) (auto intro: counts_trans)
  qed
  from this [of "s\<lparr>sd_step := sd_step s + 1\<rparr>" "e_platform e" "e_events e (sd_step s)"] show ?thesis
    by (simp add: serve_def counts_def)
qed

lemma counts_publish_msgs: "\<exists>tr. counts s tr (publish_msgs e ms s) \<and> sent_msgs tr = ms"
proof (induction ms arbitrary: s)
  case Nil
  show ?case by (intro exI [of _ "[]"]) (simp add: publish_msgs_def counts_refl)
next
  case (Cons m ms)
  obtain tr where "counts (act (PublishMsg m) s) tr (publish_msg e m s)" "sent_msgs tr = []"
    unfolding publish_msg_def using counts_serve by blast
  moreover obtain tr' where "counts (publish_msg e m s) tr' (publish_msgs e ms (publish_msg e m s))" "sent_msgs tr' = ms"
    using Cons.IH by blast
  ultimately have "counts s ([Do (PublishMsg m)] @ tr @ tr') (publish_msgs e ms (publish_msg e m s))"
      "sent_msgs ([Do (PublishMsg m)] @ tr @ tr') = m # ms"
    using counts_trans [OF counts_act counts_trans] by simp_all
  then show ?case unfolding publish_msgs_def by auto
qed

lemma publish_msgs_frame [simp]:
  "s_cfg (publish_msgs e ms s) = s_cfg s" "s_client (publish_msgs e ms s) = s_client s"
  "s_session_subscribed (publish_msgs e ms s) = s_session_subscribed s"
  "s_discovery_sent_mask (publish_msgs e ms s) = s_discovery_sent_mask s"
  "sd_log (publish_msgs e ms s) = sd_log s" "sd_link (publish_msgs e ms s) = sd_link s"
  by (induction ms arbitrary: s; simp add: publish_msgs_def publish_msg_def act_def)+

text \<open>The counters are fresh: from the reset on, the bit is set only by enough acknowledgements.\<close>

lemma expect_acks_fresh:
  "\<exists>pre tr. sd_trace (expect_acks e n s) = sd_trace s @ pre @ tr \<and> sent_msgs (pre @ tr) = [] \<and>
    expected_acks (s_ctx (expect_acks e n s)) = n \<and>
    received_acks (s_ctx (expect_acks e n s)) = int (pubacks tr) \<and>
    (bit_all_acked (s_ctx (expect_acks e n s)) \<longrightarrow> n \<le> int (pubacks tr))"
proof -
  define s1 where "s1 = serve e (upd_ctx (\<lambda>c. c\<lparr>expected_acks := n\<rparr>) s)"
  define s2 where "s2 = serve e (upd_ctx (\<lambda>c. c\<lparr>received_acks := 0\<rparr>) s1)"
  obtain t1 where 1: "counts (upd_ctx (\<lambda>c. c\<lparr>expected_acks := n\<rparr>) s) t1 s1" "sent_msgs t1 = []"
    unfolding s1_def using counts_serve by blast
  obtain t2 where 2: "counts (upd_ctx (\<lambda>c. c\<lparr>received_acks := 0\<rparr>) s1) t2 s2" "sent_msgs t2 = []"
    unfolding s2_def using counts_serve by blast
  obtain t3 where 3: "counts (upd_ctx (\<lambda>c. c\<lparr>bit_all_acked := False\<rparr>) s2) t3 (expect_acks e n s)" "sent_msgs t3 = []"
    unfolding expect_acks_def Let_def s1_def [symmetric] s2_def [symmetric] using counts_serve by blast
  have "sd_trace (expect_acks e n s) = sd_trace s @ t1 @ (t2 @ t3)" "expected_acks (s_ctx (expect_acks e n s)) = n"
    "received_acks (s_ctx (expect_acks e n s)) = int (pubacks (t2 @ t3))"
    "bit_all_acked (s_ctx (expect_acks e n s)) \<longrightarrow> n \<le> int (pubacks (t2 @ t3))"
    using 1 2 3 by (auto simp: counts_def)
  with 1 2 3 show ?thesis by (intro exI [of _ t1] exI [of _ "t2 @ t3"]) simp
qed

lemma expect_acks_frame [simp]:
  "s_cfg (expect_acks e n s) = s_cfg s" "s_client (expect_acks e n s) = s_client s"
  "s_session_subscribed (expect_acks e n s) = s_session_subscribed s"
  "s_discovery_sent_mask (expect_acks e n s) = s_discovery_sent_mask s"
  "sd_log (expect_acks e n s) = sd_log s" "sd_link (expect_acks e n s) = sd_link s"
  by (simp_all add: expect_acks_def Let_def)

lemma counts_wait_all_acked:
  "\<exists>tr. counts s tr (snd (wait_all_acked e s)) \<and> sent_msgs tr = [] \<and>
    fst (wait_all_acked e s) = bit_all_acked (s_ctx (snd (wait_all_acked e s)))"
proof -
  obtain tr where "counts (act (WaitBits 4000) s) tr (serve e (act (WaitBits 4000) s))" "sent_msgs tr = []"
    using counts_serve by blast
  then show ?thesis
    using counts_trans [OF counts_act] by (intro exI [of _ "[Do (WaitBits 4000)] @ tr"]) (simp add: wait_all_acked_def Let_def)
qed

lemma wait_all_acked_frame [simp]:
  "s_cfg (snd (wait_all_acked e s)) = s_cfg s" "s_client (snd (wait_all_acked e s)) = s_client s"
  "s_session_subscribed (snd (wait_all_acked e s)) = s_session_subscribed s"
  "s_discovery_sent_mask (snd (wait_all_acked e s)) = s_discovery_sent_mask s"
  "sd_log (snd (wait_all_acked e s)) = sd_log s" "sd_link (snd (wait_all_acked e s)) = sd_link s"
  by (simp_all add: wait_all_acked_def Let_def act_def)

text \<open>
  A batch published between the reset of the counters and the wait: when the wait sees the bit, at least
  as many acknowledgements as expected were handled in that stretch.
\<close>

lemma acked_batch:
  assumes "wait_all_acked e (publish_msgs e ms (expect_acks e n s)) = (ok, t)"
  shows "\<exists>tr. sd_trace t = sd_trace s @ tr \<and> sent_msgs tr = ms \<and> (ok \<longrightarrow> n \<le> int (pubacks tr))"
proof -
  let ?s1 = "expect_acks e n s"
  obtain pre tr1 where 1: "sd_trace ?s1 = sd_trace s @ pre @ tr1" "sent_msgs (pre @ tr1) = []"
    "expected_acks (s_ctx ?s1) = n" "received_acks (s_ctx ?s1) = int (pubacks tr1)"
    "bit_all_acked (s_ctx ?s1) \<longrightarrow> n \<le> int (pubacks tr1)"
    using expect_acks_fresh by blast
  obtain tr2 where 2: "counts ?s1 tr2 (publish_msgs e ms ?s1)" "sent_msgs tr2 = ms" using counts_publish_msgs by blast
  obtain tr3 where 3: "counts (publish_msgs e ms ?s1) tr3 t" "sent_msgs tr3 = []" "ok = bit_all_acked (s_ctx t)"
    using counts_wait_all_acked [of "publish_msgs e ms ?s1" e] assms by auto
  from counts_trans [OF 2(1) 3(1)] 1 2(2) 3(2,3)
  show ?thesis by (intro exI [of _ "pre @ tr1 @ tr2 @ tr3"]) (auto simp: counts_def)
qed

section \<open>The cycle around the acknowledged batch\<close>

text \<open>
  What a cycle does outside the decision about the acknowledged batch, as elementary steps: something is
  done, the other tasks are served, the wait state, the link, the backlog or another module changes.
\<close>

fun is_do :: "trace_item \<Rightarrow> bool" where
  "is_do (Do a) = True"
| "is_do (Got ev) = False"

lemma is_do_cfg [simp]: "list_all is_do (map (Do \<circ> f) xs)"
  by (induction xs) simp_all

inductive estep :: "('f, 'h, 'l, 'n) sender_env \<Rightarrow> ('f, 'h, 'l, 'n) sender \<Rightarrow> ('f, 'h, 'l, 'n) sender \<Rightarrow> bool" for e where
  did: "list_all is_do items \<Longrightarrow> estep e s (tell items s)"
| served: "estep e s (serve e s)"
| context_changed: "(\<And>c. subscribed (f c) = subscribed c) \<Longrightarrow> estep e s (upd_ctx f s)"
| link_changed: "estep e s (upd_link g s)"
| link_set: "estep e s (s\<lparr>sd_link := l\<rparr>)"
| log_changed: "estep e s (s\<lparr>sd_log := l\<rparr>)"
| ota_changed: "estep e s (s\<lparr>sd_ota := ou\<rparr>)"
| inbox_changed: "estep e s (s\<lparr>sd_ota := ou, sd_rc := rc\<rparr>)"
| config_changed: "estep e s (s\<lparr>sd_rc := rc, sd_nvs := n\<rparr>)"

definition keeps :: "('f, 'h, 'l, 'n) sender_env \<Rightarrow> ('f, 'h, 'l, 'n) sender \<Rightarrow> ('f, 'h, 'l, 'n) sender \<Rightarrow> bool" where
  "keeps e = (estep e)\<^sup>*\<^sup>*"

lemma keeps_refl [intro, simp]: "keeps e s s"
  by (simp add: keeps_def)

lemma keeps_trans [trans]: "keeps e s t \<Longrightarrow> keeps e t u \<Longrightarrow> keeps e s u"
  by (simp add: keeps_def)

lemma keeps_step: "estep e s t \<Longrightarrow> keeps e s t"
  by (simp add: keeps_def)

lemma keeps_tell [simp]: "list_all is_do items \<Longrightarrow> keeps e s (tell items s)"
  by (rule keeps_step) (rule did)

lemma keeps_act [simp]: "keeps e s (act a s)"
  by (simp add: act_def)

lemma keeps_serve [simp]: "keeps e s (serve e s)"
  by (rule keeps_step) (rule served)

lemma keeps_upd_ctx: "(\<And>c. subscribed (f c) = subscribed c) \<Longrightarrow> keeps e s (upd_ctx f s)"
  by (rule keeps_step) (rule context_changed)

lemma keeps_upd_link [simp]: "keeps e s (upd_link g s)"
  by (rule keeps_step) (rule link_changed)

lemma keeps_serve_act [simp]: "keeps e s (serve e (act a s))"
  by (rule keeps_trans [OF keeps_act keeps_serve])

lemma keeps_serve_ctx: "(\<And>c. subscribed (f c) = subscribed c) \<Longrightarrow> keeps e s (serve e (upd_ctx f s))"
  by (rule keeps_trans [OF keeps_upd_ctx keeps_serve])

text \<open>The discovery mask, the subscription flag and the client survive, and the trace only grows.\<close>

lemma estep_frame:
  "estep e s t \<Longrightarrow> (\<exists>tr. sd_trace t = sd_trace s @ tr) \<and> s_discovery_sent_mask t = s_discovery_sent_mask s \<and>
    s_session_subscribed t = s_session_subscribed s \<and> s_cfg t = s_cfg s \<and> s_client t = s_client s"
proof (induction rule: estep.induct)
  case (served s)
  then show ?case using counts_serve [of s e] by (auto simp: counts_def)
qed simp_all

lemma keepsD:
  assumes "keeps e s t"
  shows "\<exists>tr. sd_trace t = sd_trace s @ tr" "s_discovery_sent_mask t = s_discovery_sent_mask s"
    "s_session_subscribed t = s_session_subscribed s" "s_cfg t = s_cfg s" "s_client t = s_client s"
proof -
  have "(estep e)\<^sup>*\<^sup>* s t \<Longrightarrow> (\<exists>tr. sd_trace t = sd_trace s @ tr) \<and> s_discovery_sent_mask t = s_discovery_sent_mask s \<and>
    s_session_subscribed t = s_session_subscribed s \<and> s_cfg t = s_cfg s \<and> s_client t = s_client s"
    by (induction rule: rtranclp_induct) (auto dest!: estep_frame)
  with assms show "\<exists>tr. sd_trace t = sd_trace s @ tr" "s_discovery_sent_mask t = s_discovery_sent_mask s"
    "s_session_subscribed t = s_session_subscribed s" "s_cfg t = s_cfg s" "s_client t = s_client s"
    by (auto simp: keeps_def)
qed

lemma keeps_publish_msg [simp]: "keeps e s (publish_msg e m s)"
  by (simp add: publish_msg_def)

lemma keeps_publish_msgs [simp]: "keeps e s (publish_msgs e ms s)"
proof (induction ms arbitrary: s)
  case (Cons m ms)
  then show ?case using keeps_trans [OF keeps_publish_msg [of e s m]] by (simp add: publish_msgs_def)
qed (simp add: publish_msgs_def)

lemma keeps_expect_acks [simp]: "keeps e s (expect_acks e n s)"
  unfolding expect_acks_def Let_def
  by (rule keeps_trans [OF keeps_serve_ctx keeps_trans [OF keeps_serve_ctx keeps_serve_ctx]]) simp_all

lemma keeps_wait_all_acked [simp]: "wait_all_acked e s = (ok, t) \<Longrightarrow> keeps e s t"
  by (auto simp: wait_all_acked_def Let_def)

lemma keeps_log [simp]: "keeps e s (s\<lparr>sd_log := l\<rparr>)"
  by (rule keeps_step) (rule log_changed)

lemma keeps_peek: "peek_batch e s = (es, t) \<Longrightarrow> keeps e s t"
  by (auto simp: peek_batch_def Let_def split: prod.splits)

lemma keeps_replay_batches: "keeps e s (replay_batches e topic n s)"
proof (induction n arbitrary: s)
  case (Suc n)
  obtain es t where p: "peek_batch e s = (es, t)" by fastforce
  let ?m = "\<lparr>msg_topic = topic, msg_payload = backfill_payload (e_fmt e) es, msg_qos = 1, msg_retain = False\<rparr>"
  obtain acked u where w: "wait_all_acked e (publish_msg e ?m (expect_acks e 1 t)) = (acked, u)" by fastforce
  have "keeps e t u"
    using keeps_trans [OF keeps_trans [OF keeps_expect_acks keeps_publish_msg] keeps_wait_all_acked [OF w]] .
  then have su: "keeps e s u" using keeps_trans [OF keeps_peek [OF p]] by blast
  let ?v = "u\<lparr>sd_log := history_log_advance (of_nat (length es)) (sd_log u)\<rparr>"
  have "keeps e s (replay_batches e topic n ?v)"
    using su keeps_trans [OF keeps_log Suc.IH [of ?v]] by (rule keeps_trans)
  with su keeps_peek [OF p] show ?case by (simp add: p w [simplified] Let_def)
qed simp

lemma keeps_replay [simp]: "keeps e s (replay_history_if_pending e s)"
  by (simp add: replay_history_if_pending_def Let_def keeps_replay_batches keeps_refl)

lemmas drain_loop_induct = drain_loop.raw_induct [rotated, consumes 1]
lemmas tail_loop_induct = tail_loop.raw_induct [rotated, consumes 1]

lemma keeps_drain: "drain_loop e start cap s = Some t \<Longrightarrow> keeps e s t"
proof (induction rule: drain_loop_induct)
  case (1 loop e start cap s t)
  let ?u = "wait_ack_event e (cap - (e_tick e (sd_step s) - start)) s"
  have "keeps e s ?u"
    unfolding wait_ack_event_def by (rule keeps_trans [OF keeps_serve_act keeps_upd_ctx]) simp
  then show ?case using 1(2) 1(1) [of e start cap ?u t] keeps_trans [of e s ?u t] by (auto split: if_splits)
qed

lemma keeps_tail: "tail_loop e start s = Some t \<Longrightarrow> keeps e s t"
proof (induction rule: tail_loop_induct)
  case (1 loop e start s t)
  let ?u = "serve e (act (TaskDelay CLOSE_TAIL_CHECK_MS) s)"
  show ?case using 1(2) 1(1) [of e start ?u t] keeps_trans [of e s ?u t] by (auto split: if_splits)
qed

lemma keeps_close:
  assumes "close_session e clean s = Some t"
  shows "keeps e s t"
proof (cases clean)
  case True
  with assms obtain u v where u: "wait_outbox_empty e OUTBOX_DRAIN_CAP_MS (upd_link (onSessionClosing (e_link e)) s) = Some u"
    and v: "tail_loop e (e_tick e (sd_step (client_stop e u))) (client_stop e u) = Some v"
    and t: "t = upd_link (onSessionClosed (e_link e)) v"
    by (auto simp: close_session_def Let_def split: bind_splits)
  have "keeps e s u" using keeps_trans [OF keeps_upd_link keeps_drain] u by (simp add: wait_outbox_empty_def)
  also have "keeps e u (client_stop e u)" by (simp add: client_stop_def)
  also have "keeps e (client_stop e u) v" by (rule keeps_tail [OF v])
  also have "keeps e v t" by (simp add: t)
  finally show ?thesis .
qed (use assms in \<open>auto simp: close_session_def client_stop_def\<close>)

lemma keeps_apply_config: "apply_config e s = Some t \<Longrightarrow> keeps e s t"
proof -
  have "keeps e s (serve e (tell i (s\<lparr>sd_rc := rc, sd_nvs := n\<rparr>)))"
    if "list_all is_do i" for i rc n
    using that by (intro keeps_trans [OF keeps_step [OF config_changed] keeps_trans [OF keeps_tell keeps_serve]])
  then show "apply_config e s = Some t \<Longrightarrow> keeps e s t" by (auto simp: apply_config_def split: option.splits)
qed

lemma keeps_start_client: "start_client e uri b c s = (c', t) \<Longrightarrow> keeps e' s t"
  by (auto simp: start_client_def)

lemma keeps_ota_events: "keeps e' s (snd (fold (ota_event_step p) evs (c, s)))"
proof (induction evs arbitrary: c s)
  case (Cons ev evs)
  obtain c' t where t: "ota_event_step p ev (c, s) = (c', t)" by fastforce
  then have "keeps e' s t" by (auto split: prod.splits intro: keeps_step [OF inbox_changed])
  then show ?case using Cons.IH [of t c'] keeps_trans [of e' s t] by (simp add: t del: ota_event_step.simps)
qed (simp add: keeps_refl)

lemma keeps_ota_connect:
  assumes "ota_connect e uri rd c s = (c', t)"
  shows "keeps e' s t"
proof -
  obtain c1 s1 where 1: "start_client e uri (or_init rd) c s = (c1, s1)" by fastforce
  let ?s2 = "act (WaitBits (connect_wait_ms s1)) s1"
  have t: "t = snd (fold (ota_event_step (e_platform e)) (if or_init rd then or_events rd else []) (c1, ?s2))"
    using assms 1 by (simp add: ota_connect_def)
  have "keeps e' ?s2 t" unfolding t by (rule keeps_ota_events)
  moreover have "keeps e' s ?s2" using keeps_trans [OF keeps_start_client [OF 1]] by simp
  ultimately show ?thesis by (rule keeps_trans [rotated])
qed

lemma keeps_ota_act: "keeps e' s (ota_act e a s)"
proof -
  have "keeps e' t (ota_effect e a t)" for t by (cases a) (simp_all add: keeps_refl)
  from keeps_trans [OF _ this] show ?thesis by (simp add: ota_act_def)
qed

lemma keeps_ota_session: "ota_session e b rd s = Some (r, t) \<Longrightarrow> keeps e' s t"
proof -
  have "keeps e' s (fold (ota_act e) acts s)" for acts
    by (induction acts arbitrary: s) (auto intro: keeps_refl keeps_trans [OF keeps_ota_act])
  moreover have "keeps e' s u" if "keeps e' (s\<lparr>sd_ota := ou\<rparr>) u" for ou u
    by (rule keeps_trans [OF keeps_step [OF ota_changed] that])
  moreover have "keeps e' v (fold (ota_act e) acts v)" for acts v
    by (induction acts arbitrary: v) (auto intro: keeps_refl keeps_trans [OF keeps_ota_act])
  ultimately show "ota_session e b rd s = Some (r, t) \<Longrightarrow> keeps e' s t"
    by (auto simp: ota_session_def split: sum.splits prod.splits)
qed

lemma keeps_destroy [simp]: "keeps e' s (destroy_client b s)"
  by (simp add: destroy_client_def keeps_refl)

lemma keeps_ota_rounds: "ota_rounds e b uri rds c s = Some (r, t) \<Longrightarrow> keeps e' s t"
proof (induction rds arbitrary: uri c s)
  case (Cons rd rds)
  obtain c1 s1 where 1: "ota_connect e uri rd c s = (c1, s1)" by fastforce
  have s1: "keeps e' s s1" by (rule keeps_ota_connect [OF 1])
  show ?case
  proof (cases "or_init rd \<and> bit_connected c1")
    case False
    with Cons.prems 1 s1 show ?thesis by (auto intro: keeps_trans)
  next
    case True
    with Cons.prems 1 obtain r2 s2 where 2: "ota_session e b rd s1 = Some (r2, s2)"
      by (auto split: option.splits)
    have s2: "keeps e' s s2" using s1 keeps_ota_session [OF 2] by (rule keeps_trans)
    have d: "keeps e' s (destroy_client True s2)" using s2 by (rule keeps_trans) simp
    have ih: "keeps e' (destroy_client True s2) t"
      if "ota_rounds e b u rds c1 (destroy_client True s2) = Some (r, t)" for u using that by (rule Cons.IH)
    show ?thesis
    proof (cases r2)
      case True
      with Cons.prems 1 2 s2 \<open>or_init rd \<and> bit_connected c1\<close> show ?thesis by auto
    next
      case False
      with Cons.prems 1 2 \<open>or_init rd \<and> bit_connected c1\<close> d ih
      show ?thesis by (auto simp: Let_def split: if_splits intro: keeps_trans)
    qed
  qed
qed simp

lemma keeps_run_ota: "run_ota_if_due e uri b s = Some (r, t) \<Longrightarrow> keeps e' s t"
proof -
  have "keeps e' s u" "keeps e' s (act a u)"
    if "ota_rounds e b uri rds c (act (GroupCreate Temporary) s) = Some (r', u)" for rds c r' u a
    using keeps_trans [OF keeps_act keeps_ota_rounds [OF that]] keeps_trans [OF _ keeps_act] by blast+
  then show "run_ota_if_due e uri b s = Some (r, t) \<Longrightarrow> keeps e' s t"
    by (auto simp: run_ota_if_due_def keeps_refl split: if_splits bind_splits)
qed

section \<open>A connected cycle in parts\<close>

lemma publish_msgs_append: "publish_msgs e ys (publish_msgs e xs s) = publish_msgs e (xs @ ys) s"
  by (simp add: publish_msgs_def)

text \<open>The messages the handler stores never touch what the builders read of the runtime configuration.\<close>

lemma on_data_rc [simp]:
  "s_topic (runtime_config_on_mqtt_data topic data rc) = s_topic rc"
  "s_topic_wildcard (runtime_config_on_mqtt_data topic data rc) = s_topic_wildcard rc"
  "s_tx_power_active_dbm (runtime_config_on_mqtt_data topic data rc) = s_tx_power_active_dbm rc"
  "s_poll_interval_sec (runtime_config_on_mqtt_data topic data rc) = s_poll_interval_sec rc"
  "tx_accepted (runtime_config_on_mqtt_data topic data rc) = tx_accepted rc"
  by (simp_all add: runtime_config_on_mqtt_data_def tx_accepted_def split: option.splits)

definition same_rc :: "('f, 'h, 'l, 'n) sender \<Rightarrow> ('f, 'h, 'l, 'n) sender \<Rightarrow> bool" where
  "same_rc s t \<longleftrightarrow> (\<forall>c. rc_ok c (sd_rc t) = rc_ok c (sd_rc s)) \<and>
     s_tx_power_active_dbm (sd_rc t) = s_tx_power_active_dbm (sd_rc s) \<and>
     s_poll_interval_sec (sd_rc t) = s_poll_interval_sec (sd_rc s)"

lemma same_rc_refl: "same_rc s s"
  by (simp add: same_rc_def)

lemma same_rc_trans: "same_rc s t \<Longrightarrow> same_rc t u \<Longrightarrow> same_rc s u"
  by (simp add: same_rc_def)

lemma same_rc_handle: "same_rc s (env_handle p ev s)"
proof (cases ev)
  case (Mqtt m)
  then show ?thesis by (cases m) (simp_all add: same_rc_def rc_ok_def)
qed (simp add: same_rc_def)

lemma same_rc_events: "same_rc s (fold (env_handle p) evs s)"
proof (induction evs arbitrary: s)
  case (Cons ev evs)
  show ?case using same_rc_trans [OF same_rc_handle Cons.IH] by simp
qed (simp add: same_rc_refl)

lemma same_rc_serve: "same_rc s (serve e s)"
  using same_rc_events [of "s\<lparr>sd_step := sd_step s + 1\<rparr>" "e_platform e" "e_events e (sd_step s)"]
  by (simp add: serve_def same_rc_def)

lemma serve_rc [simp]:
  "rc_ok c (sd_rc (serve e s)) = rc_ok c (sd_rc s)"
  "s_tx_power_active_dbm (sd_rc (serve e s)) = s_tx_power_active_dbm (sd_rc s)"
  "s_poll_interval_sec (sd_rc (serve e s)) = s_poll_interval_sec (sd_rc s)"
  using same_rc_serve [of s e] by (simp_all add: same_rc_def)

lemma expect_acks_rc [simp]:
  "rc_ok c (sd_rc (expect_acks e n s)) = rc_ok c (sd_rc s)"
  "s_tx_power_active_dbm (sd_rc (expect_acks e n s)) = s_tx_power_active_dbm (sd_rc s)"
  "s_poll_interval_sec (sd_rc (expect_acks e n s)) = s_poll_interval_sec (sd_rc s)"
  by (simp_all add: expect_acks_def Let_def)

lemma publish_msgs_rc [simp]:
  "rc_ok c (sd_rc (publish_msgs e ms s)) = rc_ok c (sd_rc s)"
  "s_tx_power_active_dbm (sd_rc (publish_msgs e ms s)) = s_tx_power_active_dbm (sd_rc s)"
  "s_poll_interval_sec (sd_rc (publish_msgs e ms s)) = s_poll_interval_sec (sd_rc s)"
  by (induction ms arbitrary: s; simp add: publish_msgs_def publish_msg_def)+

lemma wait_all_acked_poll:
  "wait_all_acked e s = (ok, t) \<Longrightarrow> s_poll_interval_sec (sd_rc t) = s_poll_interval_sec (sd_rc s)"
  by (auto simp: wait_all_acked_def Let_def)

lemma open_session_frame:
  assumes "open_session e s = (subscribe, link, awake, t)"
  shows "\<exists>tr. sd_trace t = sd_trace s @ tr" "s_discovery_sent_mask t = s_discovery_sent_mask s" "s_cfg t = s_cfg s"
    "rc_ok c (sd_rc t) = rc_ok c (sd_rc s)" "sd_log t = sd_log s"
    "s_session_subscribed t = (\<not> subscribe)"
proof -
  obtain u where u: "subscribe_if_needed e (set_abortive_close e s) = (subscribe, u)"
    and t: "sd_trace t = sd_trace u" "s_discovery_sent_mask t = s_discovery_sent_mask u" "s_cfg t = s_cfg u"
      "sd_rc t = sd_rc u" "sd_log t = sd_log u" "s_session_subscribed t = s_session_subscribed u"
    using assms by (auto simp: open_session_def read_telemetry_def Let_def split: prod.splits)
  define v where "v = set_abortive_close e s"
  have v: "keeps e s v" "sd_rc v = sd_rc s" "sd_log v = sd_log s"
    by (simp_all add: v_def set_abortive_close_def)
  define w where "w = (if \<not> session_present (s_ctx v) then v\<lparr>s_session_subscribed := False\<rparr> else v)"
  have w: "sd_trace w = sd_trace v" "s_discovery_sent_mask w = s_discovery_sent_mask v" "s_cfg w = s_cfg v"
    "sd_rc w = sd_rc v" "sd_log w = sd_log v" by (simp_all add: w_def)
  have u': "u = (if subscribe then serve e (act (SubscribeTopics [(s_topic_manifest (sd_ota w), 1),
      (s_topic_install (sd_ota w), 1), (s_topic_wildcard (sd_rc w), 1)]) w) else w)" "subscribe = (\<not> s_session_subscribed w)"
    using u unfolding subscribe_if_needed_def v_def [symmetric] w_def [symmetric] Let_def by auto
  then have "keeps e w u" by (auto intro: keeps_refl)
  then show "\<exists>tr. sd_trace t = sd_trace s @ tr" "s_discovery_sent_mask t = s_discovery_sent_mask s" "s_cfg t = s_cfg s"
    "s_session_subscribed t = (\<not> subscribe)"
    using v w t u'(2) keepsD [of e w u] keepsD [of e s v] by auto
  show "rc_ok c (sd_rc t) = rc_ok c (sd_rc s)" "sd_log t = sd_log s"
    using u' v w t by (auto simp: act_def)
qed

lemma state_msg_one:
  assumes "state_msg fmt c p link tx awake \<noteq> []"
  shows "\<exists>m. state_msg fmt c p link tx awake = [m] \<and> msg_qos m = 1 \<and> msg_topic m = state_topic fmt c \<and>
    msg_payload m = state_message fmt c p link tx awake"
  using assms by (auto simp: state_msg_def Let_def split: if_splits)

lemma publish_all_ok:
  assumes c: "config_ok (s_cfg s) (p_version (e_platform e))" and rc: "rc_ok (s_cfg s) (sd_rc s)" and f: "fmt_ok (e_fmt e)"
    and run: "publish_all e p subscribe link awake s = (True, t)"
  shows "hasAny p \<and> (\<exists>tr rc m. sd_trace t = sd_trace s @ tr \<and>
    sent_msgs tr = discovery_messages (e_fmt e) (p_version (e_platform e)) (s_cfg s) rc
      (discoveryNeed p link (s_discovery_sent_mask s)) @ [m] \<and>
    msg_topic m = state_topic (e_fmt e) (s_cfg s) \<and>
    msg_payload m = state_message (e_fmt e) (s_cfg s) p link (s_tx_power_active_dbm (sd_rc s)) awake \<and>
    acked_msgs (sent_msgs tr) \<le> pubacks tr)"
proof -
  define need where "need = discoveryNeed p link (s_discovery_sent_mask s)"
  define s1 where "s1 = expect_acks e (expected_count p need) s"
  define ds where "ds = discovery_messages (e_fmt e) (p_version (e_platform e)) (s_cfg s1) (sd_rc s1) need"
  define ms where "ms = state_msg (e_fmt e) (s_cfg s) p link (s_tx_power_active_dbm (sd_rc s)) awake"
  have any: "hasAny p" and st: "publish_state e p link awake need subscribe (publish_msgs e ds s1) = (True, t)"
    using run by (auto simp: publish_all_def Let_def need_def s1_def ds_def split: if_splits)
  have ms': "state_msg (e_fmt e) (s_cfg (publish_msgs e ds s1)) p link (s_tx_power_active_dbm (sd_rc (publish_msgs e ds s1))) awake = ms"
    by (simp add: ms_def s1_def)
  have ne: "ms \<noteq> []" using st unfolding publish_state_def ms' by auto
  obtain u where w: "wait_all_acked e (publish_msgs e ms (publish_msgs e ds s1)) = (True, u)" and tr: "sd_trace t = sd_trace u"
  proof -
    obtain ok u where w: "wait_all_acked e (publish_msgs e ms (publish_msgs e ds s1)) = (ok, u)" by fastforce
    with st ne have "ok" "sd_trace t = sd_trace u"
      unfolding publish_state_def ms' by (auto simp: neq_Nil_conv Let_def split: if_splits)
    with w that show ?thesis by simp
  qed
  obtain m where m: "ms = [m]" "msg_qos m = 1" "msg_topic m = state_topic (e_fmt e) (s_cfg s)"
    "msg_payload m = state_message (e_fmt e) (s_cfg s) p link (s_tx_power_active_dbm (sd_rc s)) awake"
    using state_msg_one ne unfolding ms_def by metis
  from acked_batch [OF w [unfolded publish_msgs_append s1_def]] obtain tr where
    tr: "sd_trace t = sd_trace s @ tr" "sent_msgs tr = ds @ [m]" "expected_count p need \<le> int (pubacks tr)"
    using tr m(1) by auto
  have "int (acked_msgs ds) = discovery_msgs need"
    unfolding ds_def by (rule acked_discovery) (use c rc f in \<open>simp_all add: s1_def\<close>)
  then have "acked_msgs (sent_msgs tr) \<le> pubacks tr" using tr any m(2) by (simp add: expected_count_def)
  moreover have "ds = discovery_messages (e_fmt e) (p_version (e_platform e)) (s_cfg s) (sd_rc s1) need"
    by (simp add: ds_def s1_def)
  ultimately show ?thesis using any tr m unfolding need_def by blast
qed

lemma publish_all_mask:
  assumes "publish_all e p subscribe link awake s = (ok, t)"
  shows "s_discovery_sent_mask t =
      (if ok then s_discovery_sent_mask s OR discoveryNeed p link (s_discovery_sent_mask s) else s_discovery_sent_mask s)"
    "\<exists>tr. sd_trace t = sd_trace s @ tr" "s_cfg t = s_cfg s"
proof -
  define need where "need = discoveryNeed p link (s_discovery_sent_mask s)"
  define s1 where "s1 = expect_acks e (expected_count p need) s"
  define s2 where "s2 = publish_msgs e
      (discovery_messages (e_fmt e) (p_version (e_platform e)) (s_cfg s1) (sd_rc s1) need) s1"
  have s2: "keeps e s s2" unfolding s2_def s1_def using keeps_trans [OF keeps_expect_acks keeps_publish_msgs] by blast
  have t: "(if hasAny p then publish_state e p link awake need subscribe s2 else (False, s2)) = (ok, t)"
    using assms unfolding publish_all_def Let_def need_def s1_def s2_def .
  define ms where "ms = state_msg (e_fmt e) (s_cfg s2) p link (s_tx_power_active_dbm (sd_rc s2)) awake"
  obtain b u where w: "wait_all_acked e (publish_msgs e ms s2) = (b, u)" by fastforce
  have u: "keeps e s u" using keeps_trans [OF s2 keeps_trans [OF keeps_publish_msgs keeps_wait_all_acked [OF w]]] .
  have "t = s2 \<and> \<not> ok \<or> ok = b \<and> sd_trace t = sd_trace u \<and> s_cfg t = s_cfg u \<and>
      s_discovery_sent_mask t = (if ok then s_discovery_sent_mask u OR need else s_discovery_sent_mask u)"
    using t w by (auto simp: publish_state_def ms_def [symmetric] Let_def split: if_splits list.splits)
  then show "s_discovery_sent_mask t =
      (if ok then s_discovery_sent_mask s OR discoveryNeed p link (s_discovery_sent_mask s) else s_discovery_sent_mask s)"
    "\<exists>tr. sd_trace t = sd_trace s @ tr" "s_cfg t = s_cfg s"
    using u s2 keepsD [of e s u] keepsD [of e s s2] by (auto simp: need_def)
qed

lemma connected_parts:
  assumes "connected_cycle e p s = Some (ok, t)"
  shows "\<exists>subscribe link awake u v. open_session e s = (subscribe, link, awake, u) \<and>
    publish_all e p subscribe link awake u = (ok, v) \<and> keeps e v t"
proof -
  obtain subscribe link awake u where u: "open_session e s = (subscribe, link, awake, u)" by (metis prod_cases4)
  obtain b v where v: "publish_all e p subscribe link awake u = (b, v)" by fastforce
  have "keeps e v w" if "apply_config e (replay_history_if_pending e v) = Some w" for w
    using keeps_trans [OF keeps_replay keeps_apply_config [OF that]] .
  with assms u v show ?thesis by (auto simp: connected_cycle_def keeps_refl split: if_splits)
qed

text \<open>A persistent cycle that reports success went through a connected one.\<close>

definition continues :: "('f, 'h, 'l, 'n) sender \<Rightarrow> ('f, 'h, 'l, 'n) sender \<Rightarrow> bool" where
  "continues s t \<longleftrightarrow> (\<exists>tr. sd_trace t = sd_trace s @ tr) \<and> s_discovery_sent_mask t = s_discovery_sent_mask s \<and>
     s_cfg t = s_cfg s"

lemma keeps_continues: "keeps e s t \<Longrightarrow> continues s t"
  using keepsD [of e s t] by (simp add: continues_def)

lemma continues_trans [trans]: "continues s t \<Longrightarrow> continues t u \<Longrightarrow> continues s u"
  by (auto simp: continues_def)

lemma persistent_parts:
  assumes "persistent_cycle e p uri s = Some (ok, t)"
  shows "\<not> ok \<and> continues s t \<or>
    (\<exists>u v. connected_cycle e p u = Some (ok, v) \<and> keeps e v t \<and> continues s u \<and>
      (\<forall>c. rc_ok c (sd_rc u) = rc_ok c (sd_rc s)))"
proof -
  obtain client s1 where s1: "start_persistent_client e uri s = (client, s1)" by fastforce
  have f: "continues s s1" "sd_rc s1 = sd_rc s"
    using s1 by (auto simp: start_persistent_client_def continues_def Let_def split: if_splits)
  show ?thesis
  proof (cases client)
    case False
    with assms s1 f show ?thesis by (auto simp: persistent_cycle_def)
  next
    case True
    define s2 where "s2 = serve e (act (WaitBits (connect_wait_ms s1)) s1)"
    have "keeps e s1 s2" by (simp add: s2_def)
    with f(1) have 2: "continues s s2" by (blast intro: continues_trans keeps_continues)
    have rc: "rc_ok c (sd_rc s2) = rc_ok c (sd_rc s)" for c by (simp add: s2_def f)
    obtain v where v: "(if bit_connected (s_ctx s2) then connected_cycle e p s2 else Some (False, s2)) = Some (ok, v)"
      and close: "close_session e (bit_connected (s_ctx s2) \<and> (ok \<or> \<not> hasAny p)) v = Some t"
      using assms True s1 unfolding persistent_cycle_def s2_def by (auto simp: Let_def split: bind_splits if_splits)
    have close: "keeps e v t" by (rule keeps_close [OF close])
    show ?thesis
    proof (cases "bit_connected (s_ctx s2)")
      case True
      with v close 2 rc show ?thesis by auto
    next
      case False
      with v close 2 show ?thesis by (auto intro: continues_trans keeps_continues)
    qed
  qed
qed

lemma cycle_parts:
  assumes "run_publish_cycle e p s = Some (Returned ok, t)"
  shows "\<exists>u v. (\<forall>e'. keeps e' s u) \<and> sd_rc u = sd_rc s \<and> sd_step u = sd_step s \<and> (\<forall>e'. keeps e' v t) \<and>
    (v = u \<and> \<not> ok \<or> (\<exists>uri. persistent_cycle e p uri u = Some (ok, v)))"
proof -
  define s1 where "s1 = upd_link (onPublishWindowBegin (e_link e)) s"
  obtain reachable l where r: "waitForBrokerReachable (e_link e) (mqtt_broker_address (mc_secrets (s_cfg s1)))
      BROKER_REACHABLE_WAIT_MS (sd_link s1) = (reachable, l)" by fastforce
  define s2 where "s2 = s1\<lparr>sd_link := l\<rparr>"
  have k: "keeps e' s s2" "sd_rc s2 = sd_rc s" "sd_step s2 = sd_step s" for e'
    using keeps_trans [OF keeps_upd_link keeps_step [OF link_set]] by (auto simp: s2_def s1_def)
  note unf = run_publish_cycle_def s1_def [symmetric] Let_def r prod.case s2_def [symmetric]
  show ?thesis
  proof (cases "reachable \<and> broker_uri e s2 \<noteq> []")
    case False
    then have "t = upd_link (onPublishWindowEnd (e_link e)) s2 \<and> \<not> ok"
      using assms unfolding unf by (auto split: if_splits)
    then have "keeps e' s2 t" "\<not> ok" for e' by simp_all
    with k show ?thesis by blast
  next
    case True
    let ?run = "if ota_update_due (sd_ota s2) \<and> \<not> hasAny p then Some (False, s2)
      else persistent_cycle e p (broker_uri e s2) s2"
    obtain v w where v: "?run = Some (ok, v)"
      and w: "(if ok \<or> \<not> hasAny p then run_ota_if_due e (broker_uri e s2) (pp_battery_percent p) v
          else Some (False, v)) = Some (False, w)"
      and t: "t = upd_link (onPublishWindowEnd (e_link e)) w"
      using assms True unfolding unf by (auto split: if_splits bind_splits)
    have "keeps e' v w" for e' using w keeps_run_ota [of e _ _ v _ w e'] by (auto simp: keeps_refl split: if_splits)
    then have "keeps e' v t" for e' by (rule keeps_trans) (simp add: t)
    with v k show ?thesis by (auto split: if_splits)
  qed
qed

end
