(* ===== verification/MqttProps.thy ===== *)
theory MqttProps
  imports MqttCycle
begin

unbundle bit_operations_syntax

text \<open>
  What a publish cycle keeps beyond its message count: the subscriptions of the broker's session, the
  order of the backlog, the windows of the radio, the waits of the close, the life of the temporary
  client, and the task that runs the cycle.
\<close>

section \<open>Subscriptions across sessions\<close>

text \<open>
  What the broker has said of the session: a CONNACK without one ends the subscriptions it held, an
  accepted SUBACK makes them hold.
\<close>

fun session_says :: "trace_item \<Rightarrow> bool \<Rightarrow> bool" where
  "session_says (Got (EvConnected present)) holds \<longleftrightarrow> present \<and> holds"
| "session_says (Got (EvSubscribed failed)) holds \<longleftrightarrow> holds \<or> \<not> failed"
| "session_says _ holds \<longleftrightarrow> holds"

definition session_holds :: "trace_item list \<Rightarrow> bool" where
  "session_holds tr = fold session_says tr False"

lemma session_holds_simps [simp]:
  "session_holds [] = False" "session_holds (tr @ [i]) = session_says i (session_holds tr)"
  by (simp_all add: session_holds_def)

text \<open>The two flags never claim more than the broker has said.\<close>

definition flags_backed :: "('f, 'h, 'l, 'n) sender \<Rightarrow> bool" where
  "flags_backed s \<longleftrightarrow> (subscribed (s_ctx s) \<or> s_session_subscribed s \<longrightarrow> session_holds (sd_trace s))"

definition no_connack :: "env_event list \<Rightarrow> bool" where
  "no_connack evs \<longleftrightarrow> (\<forall>b. Mqtt (EvConnected b) \<notin> set evs)"

lemma did_holds: "list_all is_do items \<Longrightarrow> session_holds (tr @ items) = session_holds tr"
proof (induction items arbitrary: tr)
  case (Cons i items)
  then show ?case using Cons.IH [of "tr @ [i]"] by (cases i) simp_all
qed simp

lemma handle_flags:
  "flags_backed s \<Longrightarrow> (\<And>b. ev \<noteq> Mqtt (EvConnected b)) \<Longrightarrow> flags_backed (env_handle p ev s)"
proof (cases ev)
  case (Mqtt m)
  assume "flags_backed s" "\<And>b. ev \<noteq> Mqtt (EvConnected b)"
  with Mqtt show ?thesis
    by (cases m) (auto simp: flags_backed_def tell_def ack_arrived_def Let_def)
qed (simp add: flags_backed_def)

lemma serve_flags: "flags_backed s \<Longrightarrow> no_connack (e_events e (sd_step s)) \<Longrightarrow> flags_backed (serve e s)"
proof -
  have "flags_backed (fold (env_handle p) evs u)" if "flags_backed u" "no_connack evs"
    for p evs and u :: "('a, 'b, 'c, 'd) sender"
    using that
  proof (induction evs arbitrary: u)
    case (Cons ev evs)
    then have "flags_backed (env_handle p ev u)" by (intro handle_flags) (auto simp: no_connack_def)
    with Cons show ?case by (simp add: no_connack_def)
  qed simp
  then show "flags_backed s \<Longrightarrow> no_connack (e_events e (sd_step s)) \<Longrightarrow> flags_backed (serve e s)"
    by (simp add: serve_def flags_backed_def)
qed

lemma keeps_flags:
  assumes "keeps e s t" "flags_backed s" "\<forall>k \<ge> sd_step s. no_connack (e_events e k)"
  shows "flags_backed t \<and> sd_step s \<le> sd_step t"
proof -
  have "(estep e)\<^sup>*\<^sup>* s t" using assms(1) by (simp add: keeps_def)
  then show ?thesis
  proof (induction rule: rtranclp_induct)
    case (step t u)
    from step(2) step(3) show ?case
    proof (induction rule: estep.induct)
      case (served v)
      with assms(3) show ?case by (auto intro: serve_flags)
    qed (simp_all add: flags_backed_def did_holds)
  qed (simp add: assms(2))
qed

text \<open>
  A client connects once per start: its CONNACK is handled by the end of the connect wait, if at all, and
  before any SUBACK.
\<close>

definition is_session_event :: "env_event \<Rightarrow> bool" where
  "is_session_event ev \<longleftrightarrow> (\<exists>b. ev = Mqtt (EvConnected b) \<or> ev = Mqtt (EvSubscribed b))"

definition one_connack :: "('f, 'h, 'l, 'n) sender_env \<Rightarrow> nat \<Rightarrow> bool" where
  "one_connack e n \<longleftrightarrow> no_connack (tl (filter is_session_event (e_events e n))) \<and>
     (\<forall>k > n. no_connack (e_events e k))"

text \<open>At the end of the connect wait the flag may rest on the session flag of the CONNACK.\<close>

definition connack_backed :: "('f, 'h, 'l, 'n) sender \<Rightarrow> bool" where
  "connack_backed s \<longleftrightarrow> (subscribed (s_ctx s) \<longrightarrow> session_holds (sd_trace s)) \<and>
     (s_session_subscribed s \<and> (bit_connected (s_ctx s) \<longrightarrow> session_present (s_ctx s)) \<longrightarrow> session_holds (sd_trace s))"

lemma handle_connack_backed:
  "connack_backed s \<Longrightarrow> (\<And>b. ev \<noteq> Mqtt (EvConnected b)) \<Longrightarrow> connack_backed (env_handle p ev s)"
proof (cases ev)
  case (Mqtt m)
  assume "connack_backed s" "\<And>b. ev \<noteq> Mqtt (EvConnected b)"
  with Mqtt show ?thesis
    by (cases m) (auto simp: connack_backed_def tell_def ack_arrived_def Let_def)
qed (simp add: connack_backed_def)

lemma fold_connack_backed:
  "no_connack evs \<Longrightarrow> connack_backed s \<Longrightarrow> connack_backed (fold (env_handle p) evs s)"
proof (induction evs arbitrary: s)
  case (Cons ev evs)
  then have "connack_backed (env_handle p ev s)" by (intro handle_connack_backed) (auto simp: no_connack_def)
  with Cons show ?case by (simp add: no_connack_def)
qed simp

lemma no_connack_filter: "no_connack (filter is_session_event evs) \<Longrightarrow> no_connack evs"
  by (auto simp: no_connack_def is_session_event_def)

lemma fold_connect_wait:
  "no_connack (tl (filter is_session_event evs)) \<Longrightarrow> flags_backed s \<Longrightarrow> \<not> subscribed (s_ctx s) \<Longrightarrow>
   \<not> bit_connected (s_ctx s) \<Longrightarrow> connack_backed (fold (env_handle p) evs s)"
proof (induction evs arbitrary: s)
  case Nil
  then show ?case by (simp add: connack_backed_def flags_backed_def)
next
  case (Cons ev evs)
  let ?s = "env_handle p ev s"
  show ?case
  proof (cases "is_session_event ev")
    case True
    then have "no_connack evs" using Cons.prems(1) by (auto intro: no_connack_filter)
    moreover have "connack_backed ?s"
      using True Cons.prems by (auto simp: is_session_event_def connack_backed_def flags_backed_def tell_def)
    ultimately show ?thesis by (simp add: fold_connack_backed)
  next
    case False
    then have "flags_backed ?s" using Cons.prems(2) by (intro handle_flags) (auto simp: is_session_event_def)
    moreover have "\<not> subscribed (s_ctx ?s) \<and> \<not> bit_connected (s_ctx ?s)"
    proof (cases ev)
      case (Mqtt m)
      with False Cons.prems show ?thesis
        by (cases m) (auto simp: is_session_event_def ack_arrived_def Let_def)
    qed (use Cons.prems in simp)
    ultimately show ?thesis using False Cons by simp
  qed
qed

lemma connect_wait_backed:
  assumes "start_persistent_client e uri s = (True, s1)" "flags_backed s"
    and "no_connack (tl (filter is_session_event (e_events e (sd_step s))))"
  shows "connack_backed (serve e (act a s1))" "sd_step (serve e (act a s1)) = sd_step s + 1"
proof -
  have s1: "sd_step s1 = sd_step s" "flags_backed s1" "\<not> subscribed (s_ctx s1)" "\<not> bit_connected (s_ctx s1)"
    using assms(1,2) did_holds [of _ "sd_trace s"]
    by (auto simp: start_persistent_client_def flags_backed_def clear_bits_def Let_def split: if_splits)
  then show "connack_backed (serve e (act a s1))"
    unfolding serve_def using assms(3)
    by (intro fold_connect_wait) (simp_all add: flags_backed_def)
  show "sd_step (serve e (act a s1)) = sd_step s + 1" by (simp add: s1)
qed

text \<open>The rest of a connected cycle.\<close>

definition subscribes :: "trace_item list \<Rightarrow> bool" where
  "subscribes tr \<longleftrightarrow> list_ex (\<lambda>i. case i of Do (SubscribeTopics _) \<Rightarrow> True | _ \<Rightarrow> False) tr"

lemma subscribes_append [simp]: "subscribes (xs @ ys) \<longleftrightarrow> subscribes xs \<or> subscribes ys"
  by (simp add: subscribes_def)

lemma open_session_flags:
  assumes run: "open_session e s = (subscribe, link, awake, t)" and s: "connack_backed s" "bit_connected (s_ctx s)"
    and later: "\<forall>k \<ge> sd_step s. no_connack (e_events e k)"
  shows "flags_backed t \<and> sd_step s \<le> sd_step t"
    and "subscribe \<longrightarrow> (\<exists>tr. sd_trace t = sd_trace s @ tr \<and> subscribes tr)"
proof -
  obtain u where u: "subscribe_if_needed e (set_abortive_close e s) = (subscribe, u)"
    and t: "sd_trace t = sd_trace u" "s_session_subscribed t = s_session_subscribed u" "s_ctx t = s_ctx u" "sd_step t = sd_step u"
    using run by (auto simp: open_session_def read_telemetry_def Let_def split: prod.splits)
  define v where "v = set_abortive_close e s"
  have v: "connack_backed v" "bit_connected (s_ctx v)" "sd_step v = sd_step s"
    using s did_holds [of _ "sd_trace s"] by (auto simp: v_def set_abortive_close_def connack_backed_def)
  define w where "w = (if \<not> session_present (s_ctx v) then v\<lparr>s_session_subscribed := False\<rparr> else v)"
  have w: "flags_backed w" "sd_step w = sd_step v"
    using v by (auto simp: w_def flags_backed_def connack_backed_def)
  let ?topics = "[(s_topic_manifest (sd_ota w), 1), (s_topic_install (sd_ota w), 1), (s_topic_wildcard (sd_rc w), 1)]"
  have u': "u = (if subscribe then serve e (act (SubscribeTopics ?topics) w) else w)"
    using u unfolding subscribe_if_needed_def v_def [symmetric] w_def [symmetric] Let_def by auto
  have "keeps e w u" by (simp add: u')
  from keeps_flags [OF this w(1)] later w(2) v(3)
  have "flags_backed u \<and> sd_step s \<le> sd_step u" by auto
  then show "flags_backed t \<and> sd_step s \<le> sd_step t" by (simp add: flags_backed_def t)
  have "\<exists>tr. sd_trace v = sd_trace s @ tr" by (simp add: v_def set_abortive_close_def)
  moreover have "sd_trace w = sd_trace v" by (simp add: w_def)
  moreover have "\<exists>tr. sd_trace u = sd_trace w @ tr \<and> subscribes tr" if subscribe
  proof -
    have "u = serve e (act (SubscribeTopics ?topics) w)" using that by (simp only: u' if_True)
    then have "\<exists>tr. sd_trace u = sd_trace (act (SubscribeTopics ?topics) w) @ tr" using keepsD(1) [OF keeps_serve] by blast
    then obtain tr where "sd_trace u = (sd_trace w @ [Do (SubscribeTopics ?topics)]) @ tr" unfolding act_frame ..
    then show ?thesis by (intro exI [of _ "Do (SubscribeTopics ?topics) # tr"]) (simp add: subscribes_def)
  qed
  ultimately show "subscribe \<longrightarrow> (\<exists>tr. sd_trace t = sd_trace s @ tr \<and> subscribes tr)"
    using t(1) by fastforce
qed

lemma publish_all_flags:
  assumes run: "publish_all e p subscribe link awake s = (ok, t)" and s: "flags_backed s"
    and later: "\<forall>k \<ge> sd_step s. no_connack (e_events e k)"
  shows "flags_backed t \<and> sd_step s \<le> sd_step t" and "s_session_subscribed s \<longrightarrow> s_session_subscribed t"
proof -
  define need where "need = discoveryNeed p link (s_discovery_sent_mask s)"
  define s1 where "s1 = expect_acks e (expected_count p need) s"
  define s2 where "s2 = publish_msgs e
      (discovery_messages (e_fmt e) (p_version (e_platform e)) (s_cfg s1) (sd_rc s1) need) s1"
  have s2: "keeps e s s2" unfolding s2_def s1_def using keeps_trans [OF keeps_expect_acks keeps_publish_msgs] by blast
  have t: "(if hasAny p then publish_state e p link awake need subscribe s2 else (False, s2)) = (ok, t)"
    using run unfolding publish_all_def Let_def need_def s1_def s2_def .
  define ms where "ms = state_msg (e_fmt e) (s_cfg s2) p link (s_tx_power_active_dbm (sd_rc s2)) awake"
  obtain b u where w: "wait_all_acked e (publish_msgs e ms s2) = (b, u)" by fastforce
  have u: "keeps e s u" using keeps_trans [OF s2 keeps_trans [OF keeps_publish_msgs keeps_wait_all_acked [OF w]]] .
  note fs = keeps_flags [OF s2 s later] keeps_flags [OF u s later] keepsD(3) [OF s2] keepsD(3) [OF u]
  have "t = s2 \<or> sd_trace t = sd_trace u \<and> s_ctx t = s_ctx u \<and> sd_step t = sd_step u \<and>
      (s_session_subscribed t \<longleftrightarrow> s_session_subscribed u \<or> ok \<and> subscribe \<and> subscribed (s_ctx u))"
    using t w by (auto simp: publish_state_def ms_def [symmetric] Let_def split: if_splits list.splits)
  then show "flags_backed t \<and> sd_step s \<le> sd_step t" "s_session_subscribed s \<longrightarrow> s_session_subscribed t"
    using fs by (auto simp: flags_backed_def)
qed

lemma persistent_flags:
  assumes run: "persistent_cycle e p uri s = Some (ok, t)" and s: "flags_backed s" and env: "one_connack e (sd_step s)"
  shows "flags_backed t \<and> (ok \<longrightarrow> (\<exists>tr. sd_trace t = sd_trace s @ tr \<and> (\<not> subscribes tr \<longrightarrow> s_session_subscribed t)))"
proof -
  obtain client s1 where s1: "start_persistent_client e uri s = (client, s1)" by fastforce
  have tr1: "\<exists>tr. sd_trace s1 = sd_trace s @ tr"
    using s1 by (auto simp: start_persistent_client_def Let_def split: if_splits)
  show ?thesis
  proof (cases client)
    case False
    have "flags_backed s1" using s1 False s did_holds [of _ "sd_trace s"]
      by (auto simp: start_persistent_client_def flags_backed_def Let_def split: if_splits)
    with run s1 False show ?thesis by (auto simp: persistent_cycle_def)
  next
    case True
    define s2 where "s2 = serve e (act (WaitBits (connect_wait_ms s1)) s1)"
    have 2: "connack_backed s2" "sd_step s2 = sd_step s + 1"
      using connect_wait_backed [of e uri s s1] s1 True s env by (simp_all add: s2_def one_connack_def)
    have later: "\<forall>k \<ge> sd_step s2. no_connack (e_events e k)" using env 2(2) by (simp add: one_connack_def)
    obtain v where v: "(if bit_connected (s_ctx s2) then connected_cycle e p s2 else Some (False, s2)) = Some (ok, v)"
      and close: "close_session e (bit_connected (s_ctx s2) \<and> (ok \<or> \<not> hasAny p)) v = Some t"
      using run True s1 unfolding persistent_cycle_def s2_def by (auto simp: Let_def split: bind_splits if_splits)
    have close: "keeps e v t" by (rule keeps_close [OF close])
    have tr2: "\<exists>tr. sd_trace s2 = sd_trace s @ tr"
      using tr1 keepsD(1) [of e s1 s2] by (auto simp: s2_def)
    show ?thesis
    proof (cases "bit_connected (s_ctx s2)")
      case False
      with 2 have "flags_backed s2" by (auto simp: connack_backed_def flags_backed_def)
      moreover have "keeps e s2 t" "\<not> ok" using v close False by auto
      ultimately show ?thesis using keeps_flags [of e s2 t] later by blast
    next
      case True
      then have "connected_cycle e p s2 = Some (ok, v)" using v by simp
      from connected_parts [OF this] obtain subscribe link awake u w where
        u: "open_session e s2 = (subscribe, link, awake, u)"
        and w: "publish_all e p subscribe link awake u = (ok, w)" and k: "keeps e w v" by blast
      note fu = open_session_flags [OF u 2(1) True later]
      have "\<forall>k \<ge> sd_step u. no_connack (e_events e k)" using fu(1) later by auto
      note fw = publish_all_flags [OF w _ this]
      have wt: "keeps e w t" using k close by (rule keeps_trans)
      have "flags_backed w" "\<forall>k \<ge> sd_step w. no_connack (e_events e k)" using fu(1) fw(1) later by auto
      then have "flags_backed t" using keeps_flags [OF wt] by blast
      moreover have "\<exists>tr. sd_trace t = sd_trace s @ tr \<and> (\<not> subscribes tr \<longrightarrow> s_session_subscribed t)"
      proof -
        obtain a where "sd_trace s2 = sd_trace s @ a" using tr2 ..
        moreover obtain b where "sd_trace u = sd_trace s2 @ b" "subscribe \<longrightarrow> subscribes b"
          using fu(2) open_session_frame(1) [OF u] by (cases subscribe) blast+
        moreover obtain c where "sd_trace w = sd_trace u @ c" using publish_all_mask(2) [OF w] ..
        moreover obtain d where "sd_trace t = sd_trace w @ d" using keepsD(1) [OF wt] ..
        moreover have "s_session_subscribed t \<or> subscribe"
          using open_session_frame(6) [OF u] fw(2) fu(1) keepsD(3) [OF wt] by blast
        ultimately show ?thesis by (intro exI [of _ "a @ b @ c @ d"]) auto
      qed
      ultimately show ?thesis by blast
    qed
  qed
qed

lemma cycle_flags:
  assumes run: "run_publish_cycle e p s = Some (Returned ok, t)" and s: "flags_backed s" and env: "one_connack e (sd_step s)"
  shows "flags_backed t \<and> (ok \<longrightarrow> (\<exists>tr. sd_trace t = sd_trace s @ tr \<and> (\<not> subscribes tr \<longrightarrow> session_holds (sd_trace t))))"
proof -
  obtain u v where u: "\<forall>e'. keeps e' s u" "sd_step u = sd_step s" and v: "\<forall>e'. keeps e' v t"
    and parts: "v = u \<and> \<not> ok \<or> (\<exists>uri. persistent_cycle e p uri u = Some (ok, v))"
    using cycle_parts [OF run] by blast
  define still where "still = e\<lparr>e_events := \<lambda>_. []\<rparr>"
  have none: "\<forall>k \<ge> n. no_connack (e_events still k)" for n by (simp add: still_def no_connack_def)
  have fu: "flags_backed u" using keeps_flags [OF u(1) [rule_format] s none] by blast
  have ft: "flags_backed t" if "flags_backed v"
    using keeps_flags [OF v [rule_format] that none] by blast
  from parts show ?thesis
  proof
    assume "v = u \<and> \<not> ok"
    with fu ft show ?thesis by simp
  next
    assume "\<exists>uri. persistent_cycle e p uri u = Some (ok, v)"
    then obtain uri where run: "persistent_cycle e p uri u = Some (ok, v)" by blast
    from persistent_flags [OF run fu] env u(2) have "flags_backed v"
      and v': "ok \<longrightarrow> (\<exists>tr. sd_trace v = sd_trace u @ tr \<and> (\<not> subscribes tr \<longrightarrow> s_session_subscribed v))" by auto
    obtain tr1 tr2 where "sd_trace u = sd_trace s @ tr1" "sd_trace t = sd_trace v @ tr2"
      using keepsD(1) [OF u(1) [rule_format]] keepsD(1) [OF v [rule_format]] by blast
    moreover have "s_session_subscribed t = s_session_subscribed v" using keepsD(3) [OF v [rule_format]] .
    ultimately show ?thesis using ft [OF \<open>flags_backed v\<close>] v' by (auto simp: flags_backed_def)
  qed
qed

section \<open>The backlog\<close>

text \<open>A batch: when it was taken from the log, and its records.\<close>

type_synonym batch = "int \<times> hl_record list"

definition backfill_msg :: "string \<Rightarrow> batch \<Rightarrow> mqtt_msg" where
  "backfill_msg topic b =
    \<lparr>msg_topic = topic, msg_payload = json_array (map (\<lambda>r. entry_object (toEntry (fst b) r)) (snd b)),
     msg_qos = 1, msg_retain = False\<rparr>"

definition batch_records :: "batch list \<Rightarrow> hl_record list" where
  "batch_records bs = concat (map snd bs)"

lemma batch_records_simps [simp]:
  "batch_records [] = []" "batch_records (b # bs) = snd b @ batch_records bs"
  by (simp_all add: batch_records_def)

definition float_record :: "hl_record \<Rightarrow> bool" where
  "float_record r \<longleftrightarrow> float_value (rec_temp_c r) \<and> float_value (rec_hum_pct r)"

text \<open>
  What a replay does to a backlog \<open>q\<close>: the batches are consecutive and start at the oldest record; \<open>k\<close> of
  them, all or all but the last, were acknowledged, and just their records leave the log.
\<close>

definition replayed_in_order ::
  "string \<Rightarrow> nat \<Rightarrow> hl_record list \<Rightarrow> hl_record list \<Rightarrow> trace_item list \<Rightarrow> batch list \<Rightarrow> nat \<Rightarrow> bool" where
  "replayed_in_order topic n q q' tr bs k \<longleftrightarrow>
    sent_msgs tr = map (backfill_msg topic) bs \<and> length bs \<le> n \<and> k \<le> length bs \<and> length bs \<le> k + 1 \<and>
    k \<le> pubacks tr \<and> (\<forall>b \<in> set bs. length (snd b) \<le> BACKFILL_BATCH_SIZE) \<and>
    (\<exists>later. q = batch_records bs @ later) \<and> q' = drop (length (batch_records (take k bs))) q"

lemma replayed_in_order_Cons:
  "replayed_in_order topic n rest q' tr' bs k \<Longrightarrow> sent_msgs tr = [backfill_msg topic (now, b)] \<Longrightarrow> 1 \<le> pubacks tr \<Longrightarrow>
   length b \<le> BACKFILL_BATCH_SIZE \<Longrightarrow>
   replayed_in_order topic (Suc n) (b @ rest) q' (tr @ tr') ((now, b) # bs) (Suc k)"
  by (auto simp: replayed_in_order_def)

lemma peek_batch_spec:
  assumes "peek_batch e s = (es, t)"
  shows "es = map (toEntry (e_time_us e (sd_step s))) (take 20 (hl_pending (sd_log s)))"
    "hl_pending (sd_log t) = hl_pending (sd_log s)" "hl_distance (sd_log t) = hl_count (sd_log s)"
    "sd_trace t = sd_trace s"
proof -
  obtain l where l: "history_log_peek_batch (e_time_us e (sd_step s)) 20 (sd_log s) = (es, l)" "t = s\<lparr>sd_log := l\<rparr>"
    using assms by (auto simp: peek_batch_def BACKFILL_BATCH_SIZE_def split: prod.splits)
  from hl_peek_pending [OF l(1)] show
    "es = map (toEntry (e_time_us e (sd_step s))) (take 20 (hl_pending (sd_log s)))"
    "hl_pending (sd_log t) = hl_pending (sd_log s)" "hl_distance (sd_log t) = hl_count (sd_log s)"
    "sd_trace t = sd_trace s" by (simp_all add: l(2))
qed

lemma backfill_msg_payload:
  assumes "list_all float_record q" "q \<noteq> []" "length q \<le> 20"
  shows "backfill_payload fmt (map (toEntry now) q) = msg_payload (backfill_msg topic (now, q))"
    "backfill_payload fmt (map (toEntry now) q) \<noteq> []"
proof -
  have "entries_ok (map (toEntry now) q)"
    using assms by (auto simp: entries_ok_def BACKFILL_BATCH_SIZE_def toEntry_def float_record_def list_all_iff Let_def)
  from backfill_payload_array [OF this, of fmt]
  show "backfill_payload fmt (map (toEntry now) q) = msg_payload (backfill_msg topic (now, q))"
    by (simp add: backfill_msg_def comp_def)
  then show "backfill_payload fmt (map (toEntry now) q) \<noteq> []"
    using assms(2) by (cases q) (simp_all add: backfill_msg_def)
qed

lemma advance_batch:
  assumes "hl_distance l = hl_count l" "n \<le> hl_count l"
  shows "hl_pending (history_log_advance (of_nat n) l) = drop n (hl_pending l)"
proof -
  have "n < 2 ^ 32" using assms(2) by (simp add: hl_count_def)
  then have "unat (of_nat n :: u32) = n" by (simp add: unat_of_nat_u32)
  with hl_advance_pending(1) [of "of_nat n" l] assms show ?thesis by simp
qed

lemma replay_batches_spec:
  assumes "list_all float_record (hl_pending (sd_log s))"
  shows "\<exists>tr bs k. sd_trace (replay_batches e topic n s) = sd_trace s @ tr \<and>
    replayed_in_order topic n (hl_pending (sd_log s)) (hl_pending (sd_log (replay_batches e topic n s))) tr bs k"
  using assms
proof (induction n arbitrary: s)
  case 0
  show ?case by (intro exI [of _ "[]"] exI [of _ 0]) (simp add: replayed_in_order_def)
next
  case (Suc n)
  let ?q = "hl_pending (sd_log s)"
  have stop: ?case if "sd_trace (replay_batches e topic (Suc n) s) = sd_trace s"
      "hl_pending (sd_log (replay_batches e topic (Suc n) s)) = ?q"
    by (intro exI [of _ "[]"] exI [of _ 0]) (simp add: replayed_in_order_def that del: replay_batches.simps)
  obtain es t where p: "peek_batch e s = (es, t)" by fastforce
  note es = peek_batch_spec [OF p]
  let ?now = "e_time_us e (sd_step s)" and ?b = "take 20 ?q"
  show ?case
  proof (cases "history_log_has_pending (sd_log s) \<and> ?q \<noteq> []")
    case False
    then show ?thesis using es by (intro stop) (auto simp: p)
  next
    case True
    have b: "list_all float_record ?b" "?b \<noteq> []" "length ?b \<le> 20"
      using Suc.prems True by (auto simp: list_all_iff dest: in_set_takeD)
    define m where "m = backfill_msg topic (?now, ?b)"
    obtain acked u where u: "wait_all_acked e (publish_msg e m (expect_acks e 1 t)) = (acked, u)" by fastforce
    have log: "sd_log u = sd_log t"
      using u wait_all_acked_frame(5) [of e "publish_msg e m (expect_acks e 1 t)"] by (simp add: publish_msg_def)
    obtain tr where tr: "sd_trace u = sd_trace s @ tr" "sent_msgs tr = [m]" "acked \<longrightarrow> 1 \<le> pubacks tr"
      using acked_batch [of e "[m]" 1 t acked u] u es(4) by (auto simp: publish_msgs_def)
    have run: "replay_batches e topic (Suc n) s =
        (if \<not> acked then u else replay_batches e topic n
          (u\<lparr>sd_log := history_log_advance (of_nat (length es)) (sd_log u)\<rparr>))"
      using True b backfill_msg_payload(1) [OF b, of "e_fmt e" ?now topic]
        backfill_msg_payload(2) [OF b, of "e_fmt e" ?now] u
      by (simp add: p es(1) m_def backfill_msg_def)
    show ?thesis
    proof (cases acked)
      case False
      have "replayed_in_order topic (Suc n) ?q ?q tr [(?now, ?b)] 0"
        using tr by (auto simp: replayed_in_order_def m_def BACKFILL_BATCH_SIZE_def intro: append_take_drop_id [symmetric])
      moreover have "hl_pending (sd_log u) = ?q" by (simp add: log es)
      ultimately show ?thesis using run False tr(1) by auto
    next
      case True
      let ?u = "u\<lparr>sd_log := history_log_advance (of_nat (length es)) (sd_log u)\<rparr>"
      have "hl_count (sd_log t) = length ?q" using es(2) length_hl_pending by metis
      then have "hl_pending (sd_log ?u) = drop (length ?b) ?q"
        using advance_batch [of "sd_log t" "length es"] es by (simp add: log)
      also have "\<dots> = drop 20 ?q" by (metis append_take_drop_id append_eq_conv_conj)
      finally have pending: "hl_pending (sd_log ?u) = drop 20 ?q" .
      then have "list_all float_record (hl_pending (sd_log ?u))"
        using Suc.prems by (auto simp: list_all_iff dest: in_set_dropD)
      from Suc.IH [OF this] obtain tr' bs k where
        ih: "sd_trace (replay_batches e topic n ?u) = sd_trace ?u @ tr'"
          "replayed_in_order topic n (drop 20 ?q) (hl_pending (sd_log (replay_batches e topic n ?u))) tr' bs k"
        unfolding pending by blast
      from replayed_in_order_Cons [OF ih(2), of tr ?now ?b] tr True b(3)
      have "replayed_in_order topic (Suc n) ?q (hl_pending (sd_log (replay_batches e topic n ?u))) (tr @ tr')
          ((?now, ?b) # bs) (Suc k)"
        by (simp add: m_def BACKFILL_BATCH_SIZE_def)
      then show ?thesis using run True tr(1) ih(1) by auto
    qed
  qed
qed

section \<open>The radio's windows\<close>

text \<open>The link hooks among a session's actions: none, or one window that is opened and closed again.\<close>

definition link_acts :: "ota_action list \<Rightarrow> ota_action list" where
  "link_acts acts = filter (\<lambda>a. a = OtaWindowBegin \<or> a = OtaWindowEnd) acts"

lemma link_acts_simps [simp]:
  "link_acts [] = []" "link_acts (xs @ ys) = link_acts xs @ link_acts ys"
  "link_acts (OtaWindowBegin # xs) = OtaWindowBegin # link_acts xs"
  "link_acts (OtaWindowEnd # xs) = OtaWindowEnd # link_acts xs"
  "link_acts (OtaPublishStatus st # xs) = link_acts xs" "link_acts (OtaSubscribe t # xs) = link_acts xs"
  "link_acts (TxPowerPin # xs) = link_acts xs" "link_acts (TxPowerUnpin # xs) = link_acts xs"
  "link_acts (DeleteInstallRequest # xs) = link_acts xs" "link_acts (OtaRestart # xs) = link_acts xs"
  by (simp_all add: link_acts_def)

lemma status_link_acts [simp]: "link_acts (fst (publish_status client st r)) = link_acts (fst r)"
  by (cases r) (simp add: publish_status_def)

lemma status_link_actsD: "publish_status client st (acts0, s0) = (acts, s) \<Longrightarrow> link_acts acts = link_acts acts0"
  using status_link_acts [of client st "(acts0, s0)"] by (simp del: status_link_acts)

lemma replay_link_acts [simp]: "link_acts (fst (replay_status client r)) = link_acts (fst r)"
  by (simp add: replay_status_def split: option.split)

lemma failed_link_acts [simp]: "link_acts (fst (failed_attempt client st r)) = link_acts (fst r)"
  by (simp add: failed_attempt_def split_beta)

lemma prepare_link_acts: "link_acts (fst (snd (prepare_partial p client m r))) = link_acts (fst r)"
proof -
  have "link_acts (fst (snd (begin_partial p client m (acts, s)))) = link_acts acts" for acts s
    by (auto simp: begin_partial_def Let_def split: option.split prod.split)
  then show ?thesis by (auto simp: prepare_partial_def Let_def split_beta)
qed

lemma subscribe_link_acts:
  "subscribe_chunk client k fr = (ok, reason, acts, s) \<Longrightarrow> link_acts acts = link_acts (fst (snd fr))"
  by (cases fr) (auto simp: subscribe_chunk_def Let_def split: if_splits)

lemma prime_link_acts:
  "prime_window client ks fr = (ok, reason, acts, s) \<Longrightarrow> link_acts acts = link_acts (fst (snd fr))"
proof (induction ks arbitrary: fr)
  case (Cons k ks)
  obtain ok1 reason1 acts1 s1 where 1: "subscribe_chunk client k fr = (ok1, reason1, acts1, s1)" by (metis prod_cases4)
  from subscribe_link_acts [OF 1] Cons.IH [of "(reason1, acts1, s1)"] Cons.prems 1
  show ?case by (auto split: if_splits)
qed auto

lemma chunk_done_link_acts:
  assumes "chunk_done client n every c fr = (ok, reason, acts, s)"
  shows "link_acts acts = link_acts (fst (snd fr))"
proof -
  obtain ok1 reason1 acts1 s1 where
    1: "(if c + SUBSCRIBE_PIPELINE < n then subscribe_chunk client (c + SUBSCRIBE_PIPELINE) fr else (True, fr)) =
      (ok1, reason1, acts1, s1)" by (metis prod_cases4)
  then have "link_acts acts1 = link_acts (fst (snd fr))"
    by (auto split: if_splits dest: subscribe_link_acts)
  moreover have "link_acts acts = link_acts acts1"
    using assms unfolding chunk_done_def 1 by (auto split: if_splits dest: status_link_actsD)
  ultimately show ?thesis by simp
qed

lemma top_up_link_acts:
  "top_up client n every cs fr = (ok, reason, acts, s) \<Longrightarrow> link_acts acts = link_acts (fst (snd fr))"
proof (induction cs arbitrary: fr)
  case (Cons c cs)
  obtain ok1 reason1 acts1 s1 where 1: "chunk_done client n every c fr = (ok1, reason1, acts1, s1)" by (metis prod_cases4)
  from chunk_done_link_acts [OF 1] Cons.IH [of "(reason1, acts1, s1)"] Cons.prems 1
  show ?case by (auto split: if_splits)
qed auto

lemma loop_link_acts:
  "session_loop p client n every ws ok d fr = Inr (d', reason, acts, s) \<Longrightarrow> link_acts acts = link_acts (fst (snd fr))"
proof (induction ws arbitrary: ok d fr)
  case Nil
  then show ?case by (auto split: if_splits)
next
  case (Cons w ws)
  obtain reason0 acts0 s0 where fr: "fr = (reason0, acts0, s0)" by (metis prod_cases3)
  define s1 where "s1 = ota_events p (w_before w) s0"
  define s2 where "s2 = ota_events p (w_after w) (s1\<lparr>s_bit_chunk := False, s_bit_fail := False\<rparr>)"
  obtain ok3 reason3 acts3 s3 where
    3: "top_up client n every (u32_range d (s_next_chunk s2)) (reason0, acts0, s2) = (ok3, reason3, acts3, s3)"
    by (metis prod_cases4)
  from top_up_link_acts [OF 3] Cons.prems Cons.IH [of ok3 "s_next_chunk s2" "(reason3, acts3, s3)"]
    Cons.IH [of True d "(reason0, acts0, s2)"] 3
  show ?case by (auto simp: fr s1_def [symmetric] s2_def [symmetric] Let_def split: if_splits)
qed

lemma finish_link_acts:
  "finish_session p client m n k d (reason, acts, s) = (r, acts', s') \<Longrightarrow> link_acts acts' = link_acts acts @ [OtaWindowEnd]"
proof -
  assume run: "finish_session p client m n k d (reason, acts, s) = (r, acts', s')"
  have st: "link_acts a = link_acts acts @ [OtaWindowEnd]"
    if "publish_status client x (acts @ [OtaWindowEnd, TxPowerUnpin], u) = (a, v)" for x u a v
    using status_link_actsD [OF that] by simp
  from run show ?thesis
    unfolding finish_session_def Let_def by (auto split: prod.splits if_splits dest!: st)
qed

lemma session_link_acts:
  assumes "ota_run_session p client b waits s = Inr (r, acts, t)"
  shows "link_acts acts = [] \<or> link_acts acts = [OtaWindowBegin, OtaWindowEnd]"
proof -
  obtain acts0 s0 where 0: "replay_status client ([], s\<lparr>s_conn_lost := False\<rparr>) = (acts0, s0)" by fastforce
  have l0: "link_acts acts0 = []" using replay_link_acts [of client "([], s\<lparr>s_conn_lost := False\<rparr>)"] 0 by simp
  obtain go acts1 s1 where 1: "prepare_partial p client (s_manifest s0) (acts0, s0) = (go, acts1, s1)" by (metis prod_cases3)
  have l1: "link_acts acts1 = []" using prepare_link_acts [of p client "s_manifest s0" "(acts0, s0)"] 1 l0 by simp
  have pull: "link_acts a = [OtaWindowBegin, OtaWindowEnd]"
    if run: "pull_session p client waits m n (acts1, s1) = Inr (q, a, u)" for m n q a u
  proof -
    obtain acts2 s2 where 2: "publish_status client (Starting (m_version m) (m_size m) n (s_next_chunk s1)) (acts1, s1) = (acts2, s2)"
      by fastforce
    have l2: "link_acts acts2 = []" using status_link_actsD [OF 2] l1 by simp
    obtain ok3 reason3 acts3 s3 where 3: "prime_window client
        (u32_range (s_next_chunk s1) (min (s_next_chunk s1 + SUBSCRIBE_PIPELINE) n))
        (NoReason, acts2 @ [OtaWindowBegin, TxPowerPin], s2\<lparr>s_bit_chunk := False, s_bit_fail := False, s_session_active := True\<rparr>) =
        (ok3, reason3, acts3, s3)" by (metis prod_cases4)
    obtain d4 reason4 acts4 s4 where 4: "session_loop p client n (max (n div 10) 1) waits ok3 (s_next_chunk s1) (reason3, acts3, s3) =
        Inr (d4, reason4, acts4, s4)"
      and f: "finish_session p client m n (s_next_chunk s1) d4 (reason4, acts4, s4) = (q, a, u)"
      using run unfolding pull_session_def Let_def snd_conv 2 prod.case 3 by (auto split: sum.splits)
    show ?thesis using finish_link_acts [OF f] loop_link_acts [OF 4] prime_link_acts [OF 3] l2 by simp
  qed
  show ?thesis
    using assms l0 l1 pull unfolding ota_run_session_def 0 prod.case Let_def
    by (auto simp: 1 split: if_splits option.splits prod.splits dest: status_link_actsD)
qed

text \<open>What the parts of a cycle do to the link's state.\<close>

lemma ota_act_link: "sd_link (ota_act e a s) =
    (if a = OtaWindowBegin then onOtaWindowBegin (e_link e) (sd_link s)
     else if a = OtaWindowEnd then onOtaWindowEnd (e_link e) (sd_link s) else sd_link s)"
  by (cases a) (simp_all add: ota_act_def)

lemma fold_ota_act_link:
  "sd_link (fold (ota_act e) acts s) = sd_link (fold (ota_act e) (link_acts acts) s)"
proof (induction acts arbitrary: s)
  case (Cons a acts)
  have same: "sd_link u = sd_link v \<Longrightarrow> sd_link (fold (ota_act e) xs u) = sd_link (fold (ota_act e) xs v)" for xs u v
    by (induction xs arbitrary: u v) (simp_all add: ota_act_link)
  show ?case
  proof (cases "a = OtaWindowBegin \<or> a = OtaWindowEnd")
    case True
    then show ?thesis using Cons.IH by (auto simp: link_acts_def)
  next
    case False
    then have "sd_link (ota_act e a s) = sd_link s" by (simp add: ota_act_link)
    from same [OF this] False Cons.IH show ?thesis by (simp add: link_acts_def)
  qed
qed simp

lemma ota_events_link: "sd_link (snd (fold (ota_event_step p) evs cs)) = sd_link (snd cs)"
proof (induction evs arbitrary: cs)
  case (Cons ev evs)
  have "sd_link (snd (ota_event_step p ev cs)) = sd_link (snd cs)" by (cases cs) (simp add: split_beta)
  with Cons show ?case by simp
qed simp

lemma ota_connect_link: "sd_link (snd (ota_connect e uri rd c s)) = sd_link s"
  by (simp add: ota_connect_def start_client_def ota_events_link)

lemma start_persistent_link: "sd_link (snd (start_persistent_client e uri s)) = sd_link s"
  by (simp add: start_persistent_client_def Let_def)

lemma publish_all_link: "publish_all e p subscribe link awake s = (ok, t) \<Longrightarrow> sd_link t = sd_link s"
proof -
  have w: "wait_all_acked e u = (b, v) \<Longrightarrow> sd_link v = sd_link u" for u b v
    using wait_all_acked_frame(6) [of e u] by simp
  assume "publish_all e p subscribe link awake s = (ok, t)"
  then show "sd_link t = sd_link s"
    by (auto simp: publish_all_def publish_state_def Let_def split: if_splits list.splits prod.splits dest!: w)
qed

lemma replay_batches_link: "sd_link (replay_batches e topic n s) = sd_link s"
proof (induction n arbitrary: s)
  case (Suc n)
  have w: "wait_all_acked e u = (b, v) \<Longrightarrow> sd_link v = sd_link u" for u b v
    using wait_all_acked_frame(6) [of e u] by simp
  have p: "peek_batch e u = (es, v) \<Longrightarrow> sd_link v = sd_link u" for u es v
    by (auto simp: peek_batch_def Let_def split: prod.splits)
  show ?case using Suc by (auto simp: Let_def publish_msg_def split: prod.split dest!: w p)
qed simp

lemma replay_link: "sd_link (replay_history_if_pending e s) = sd_link s"
  by (simp add: replay_history_if_pending_def Let_def replay_batches_link)

lemma apply_config_link: "apply_config e s = Some t \<Longrightarrow> sd_link t = sd_link s"
  by (auto simp: apply_config_def split: option.splits)

context link_windows
begin

lemma close_window:
  assumes e: "e_link e = l"
  shows "window (sd_link s) \<Longrightarrow> close_session e clean s = Some t \<Longrightarrow> window (sd_link t)"
  by (auto simp: e close_session_def client_stop_def Let_def session_closed split: if_splits bind_splits)

lemma open_window:
  assumes e: "e_link e = l"
  shows "window (sd_link s) \<Longrightarrow> open_session e s = (subscribe, link, awake, t) \<Longrightarrow> window (sd_link t)"
proof -
  let ?u = "snd (subscribe_if_needed e (set_abortive_close e s))"
  assume "window (sd_link s)"
  then have "window (sd_link ?u)" by (simp add: subscribe_if_needed_def set_abortive_close_def Let_def)
  then have "window (snd (readLinkStats l (sd_link ?u)))" by (rule stats_window)
  moreover assume "open_session e s = (subscribe, link, awake, t)"
  then have "sd_link t = snd (readLinkStats l (sd_link ?u))"
    by (auto simp: open_session_def read_telemetry_def e split_beta)
  ultimately show "window (sd_link t)" by simp
qed

lemma connected_window:
  assumes e: "e_link e = l" and s: "window (sd_link s)" and run: "connected_cycle e p s = Some (ok, t)"
  shows "window (sd_link t)"
proof -
  obtain subscribe link awake u where u: "open_session e s = (subscribe, link, awake, u)" by (metis prod_cases4)
  obtain b v where v: "publish_all e p subscribe link awake u = (b, v)" by fastforce
  have "window (sd_link v)" using open_window [OF e s u] publish_all_link [OF v] by simp
  with run u v show ?thesis
    by (auto simp: connected_cycle_def replay_link split: if_splits dest!: apply_config_link)
qed

lemma persistent_window:
  assumes e: "e_link e = l" and s: "window (sd_link s)" and run: "persistent_cycle e p uri s = Some (ok, t)"
  shows "window (sd_link t)"
proof -
  obtain client s1 where s1: "start_persistent_client e uri s = (client, s1)" by fastforce
  then have w: "window (sd_link s1)" using start_persistent_link [of e uri s] s by simp
  define s2 where "s2 = serve e (act (WaitBits (connect_wait_ms s1)) s1)"
  have w2: "window (sd_link s2)" using w by (simp add: s2_def)
  show ?thesis
  proof (cases client)
    case True
    then obtain v where v: "(if bit_connected (s_ctx s2) then connected_cycle e p s2 else Some (False, s2)) = Some (ok, v)"
      and close: "close_session e (bit_connected (s_ctx s2) \<and> (ok \<or> \<not> hasAny p)) v = Some t"
      using run s1 unfolding persistent_cycle_def s2_def by (auto simp: Let_def split: bind_splits if_splits)
    from v w2 connected_window [OF e w2] have "window (sd_link v)" by (auto split: if_splits)
    from close_window [OF e this close] show ?thesis .
  qed (use run s1 w in \<open>auto simp: persistent_cycle_def\<close>)
qed

lemma session_window:
  assumes e: "e_link e = l" and s: "window (sd_link s)" and run: "ota_session e b rd s = Some (r, t)"
  shows "window (sd_link t)"
proof -
  obtain acts ou where o: "ota_run_session (e_platform e) (or_client rd) b (or_waits rd) (sd_ota s) = Inr (r, acts, ou)"
    and t: "t = fold (ota_act e) acts (s\<lparr>sd_ota := ou\<rparr>)"
    using run by (auto simp: ota_session_def split: sum.splits prod.splits)
  have "sd_link t = sd_link (fold (ota_act e) (link_acts acts) (s\<lparr>sd_ota := ou\<rparr>))"
    unfolding t by (rule fold_ota_act_link)
  with session_link_acts [OF o] s show ?thesis by (auto simp: ota_act_link e ota_end)
qed

lemma rounds_window:
  "e_link e = l \<Longrightarrow> window (sd_link s) \<Longrightarrow> ota_rounds e b uri rds c s = Some (r, t) \<Longrightarrow> window (sd_link t)"
proof (induction rds arbitrary: uri c s)
  case (Cons rd rds)
  obtain c1 s1 where 1: "ota_connect e uri rd c s = (c1, s1)" by fastforce
  have w1: "window (sd_link s1)" using ota_connect_link [of e uri rd c s] 1 Cons.prems(2) by simp
  have d: "sd_link (destroy_client x u) = sd_link u" for x and u :: "('f, 'h, 'l, 'n) sender" by (simp add: destroy_client_def)
  show ?case
  proof (cases "or_init rd \<and> bit_connected c1")
    case False
    with Cons.prems(3) 1 w1 show ?thesis by (auto simp: d)
  next
    case True
    with Cons.prems(3) 1 obtain q u where q: "ota_session e b rd s1 = Some (q, u)" by (auto split: option.splits)
    have wu: "window (sd_link (destroy_client True u))" "window (sd_link u)"
      using session_window [OF Cons.prems(1) w1 q] by (simp_all add: d)
    with Cons.prems(3) 1 True q Cons.IH [OF Cons.prems(1) wu(1)] show ?thesis
      by (cases q) (auto simp: Let_def split: if_splits)
  qed
qed simp

lemma run_ota_window:
  "e_link e = l \<Longrightarrow> window (sd_link s) \<Longrightarrow> run_ota_if_due e uri b s = Some (r, t) \<Longrightarrow> window (sd_link t)"
  using rounds_window [of e "act (GroupCreate Temporary) s"]
  by (auto simp: run_ota_if_due_def split: if_splits bind_splits)

text \<open>The window is open to the end of the cycle, and then closed.\<close>

lemma cycle_windows:
  assumes e: "e_link e = l" and run: "run_publish_cycle e p s = Some (r, t)"
  shows "case r of Returned ok \<Rightarrow> (\<exists>x. window x \<and> sd_link t = onPublishWindowEnd l x) \<and> idle (sd_link t)
    | Restarted \<Rightarrow> window (sd_link t)"
proof -
  define s1 where "s1 = upd_link (onPublishWindowBegin (e_link e)) s"
  obtain reachable x where r: "waitForBrokerReachable (e_link e) (mqtt_broker_address (mc_secrets (s_cfg s1)))
      BROKER_REACHABLE_WAIT_MS (sd_link s1) = (reachable, x)" by fastforce
  define s2 where "s2 = s1\<lparr>sd_link := x\<rparr>"
  have "window (sd_link s1)" by (simp add: s1_def e window_begin)
  from reachable_window [OF this, of "mqtt_broker_address (mc_secrets (s_cfg s1))" BROKER_REACHABLE_WAIT_MS] r
  have w: "window (sd_link s2)" by (simp add: s2_def e)
  note unf = run_publish_cycle_def s1_def [symmetric] Let_def r prod.case s2_def [symmetric]
  have leave: ?thesis if "window (sd_link u)" "r = Returned ok" "t = upd_link (onPublishWindowEnd (e_link e)) u" for u ok
    using that by (auto simp: e window_end)
  show ?thesis
  proof (cases "reachable \<and> broker_uri e s2 \<noteq> []")
    case False
    then have "r = Returned False" "t = upd_link (onPublishWindowEnd (e_link e)) s2"
      using run unfolding unf by (auto split: if_splits)
    with w show ?thesis by (rule leave)
  next
    case True
    let ?run = "if ota_update_due (sd_ota s2) \<and> \<not> hasAny p then Some (False, s2)
      else persistent_cycle e p (broker_uri e s2) s2"
    let ?ota = "\<lambda>ok v. if ok \<or> \<not> hasAny p then run_ota_if_due e (broker_uri e s2) (pp_battery_percent p) v
      else Some (False, v)"
    let ?fin = "\<lambda>ok q u. if q then Some (Restarted, u) else Some (Returned ok, upd_link (onPublishWindowEnd (e_link e)) u)"
    from True have conds: "reachable" "broker_uri e s2 \<noteq> []" by simp_all
    have "?run \<bind> (\<lambda>(ok, v). ?ota ok v \<bind> (\<lambda>(q, u). ?fin ok q u)) = Some (r, t)"
      using run unfolding unf by (simp only: conds not_True_eq_False if_False)
    then obtain x where "?run = Some x" and x: "(case x of (ok, v) \<Rightarrow> ?ota ok v \<bind> (\<lambda>(q, u). ?fin ok q u)) = Some (r, t)"
      unfolding Option.bind_eq_Some_conv by blast
    then obtain ok v where v: "?run = Some (ok, v)" and "?ota ok v \<bind> (\<lambda>(q, u). ?fin ok q u) = Some (r, t)"
      by (cases x) simp
    then obtain y where "?ota ok v = Some y" and "(case y of (q, u) \<Rightarrow> ?fin ok q u) = Some (r, t)"
      unfolding Option.bind_eq_Some_conv by blast
    then obtain q u where q: "?ota ok v = Some (q, u)" and t: "?fin ok q u = Some (r, t)"
      by (cases y) simp
    have wv: "window (sd_link v)"
    proof (cases "ota_update_due (sd_ota s2) \<and> \<not> hasAny p")
      case False
      then have "persistent_cycle e p (broker_uri e s2) s2 = Some (ok, v)" using v by (simp only: if_False)
      then show ?thesis by (rule persistent_window [OF e w])
    qed (use v w in simp)
    have "window (sd_link u)"
    proof (cases "ok \<or> \<not> hasAny p")
      case True
      then have "run_ota_if_due e (broker_uri e s2) (pp_battery_percent p) v = Some (q, u)" using q by (simp only: if_True)
      then show ?thesis by (rule run_ota_window [OF e wv])
    qed (use q wv in simp)
    then show ?thesis
    proof (cases q)
      case True
      with t have "r = Restarted" "t = u" by simp_all
      with \<open>window (sd_link u)\<close> show ?thesis by simp
    next
      case False
      with t have "r = Returned ok" "t = upd_link (onPublishWindowEnd (e_link e)) u" by simp_all
      with \<open>window (sd_link u)\<close> show ?thesis by (rule leave)
    qed
  qed
qed

end

section \<open>The waits of the close\<close>

text \<open>
  The tick counter of a clock that runs: it wraps in 32 bits, two looks at it are less than half its range
  apart, and time goes on.
\<close>

definition ticking :: "('f, 'h, 'l, 'n) sender_env \<Rightarrow> (nat \<Rightarrow> nat) \<Rightarrow> bool" where
  "ticking e T \<longleftrightarrow> (\<forall>k. e_tick e k = of_nat (T k)) \<and> (\<forall>k. T k \<le> T (k + 1) \<and> T (k + 1) < T k + 2 ^ 31) \<and>
     (\<forall>m. \<exists>k. m \<le> T k)"

lemma ticking_mono: "ticking e T \<Longrightarrow> i \<le> j \<Longrightarrow> T i \<le> T j"
  by (rule lift_Suc_mono_le [of T]) (simp_all add: ticking_def)

text \<open>The first step at which a cap below half the range has elapsed is seen as such, wrapped or not.\<close>

lemma cap_seen:
  assumes clock: "ticking e T" and cap: "unat cap \<le> 2 ^ 31"
  shows "\<exists>n \<ge> i. cap \<le> e_tick e n - e_tick e i \<and> (\<forall>k. i \<le> k \<and> k < n \<longrightarrow> T k < T i + unat cap)"
proof -
  define late where "late k \<longleftrightarrow> i \<le> k \<and> T i + unat cap \<le> T k" for k
  obtain k0 where "T i + unat cap \<le> T k0" using clock unfolding ticking_def by blast
  then have "late (max i k0)" using ticking_mono [OF clock, of k0 "max i k0"] by (simp add: late_def)
  define n where "n = Least late"
  have n: "late n" unfolding n_def by (rule LeastI [of late]) fact
  have before: "T k < T i + unat cap" if "i \<le> k" "k < n" for k
  proof -
    have "\<not> late k" using that(2) unfolding n_def by (rule not_less_Least)
    with that(1) show ?thesis by (simp add: late_def)
  qed
  have "T n < T i + 2 ^ 32"
  proof (cases "n = i")
    case False
    with n have "i \<le> n - 1" "n - 1 < n" "n = n - 1 + 1" by (auto simp: late_def)
    then have "T (n - 1) < T i + unat cap" "T n < T (n - 1) + 2 ^ 31"
      using before clock unfolding ticking_def by metis+
    with cap show ?thesis by simp
  qed simp
  moreover have "T i \<le> T n" using n ticking_mono [OF clock] by (simp add: late_def)
  moreover have tick: "e_tick e n - e_tick e i = of_nat (T n - T i)"
    using clock \<open>T i \<le> T n\<close> by (simp add: ticking_def of_nat_diff)
  ultimately have "unat (e_tick e n - e_tick e i) = T n - T i" unfolding tick by (intro unat_of_nat_u32) simp
  then have "cap \<le> e_tick e n - e_tick e i" using n unfolding word_le_nat_alt late_def by linarith
  with n before show ?thesis by (auto simp: late_def)
qed

lemma drain_ends:
  assumes "sd_step s \<le> n" "cap \<le> e_tick e n - start" "\<forall>k. sd_step s \<le> k \<and> k < n \<longrightarrow> P k"
  shows "\<exists>t. drain_loop e start cap s = Some t \<and> (\<forall>k. sd_step s \<le> k \<and> k < sd_step t \<longrightarrow> P k)"
  using assms
proof (induction "n - sd_step s" arbitrary: s)
  case 0
  then show ?case by (subst drain_loop.simps) auto
next
  case (Suc d)
  let ?u = "wait_ack_event e (cap - (e_tick e (sd_step s) - start)) s"
  have u: "sd_step ?u = sd_step s + 1" by (simp add: wait_ack_event_def)
  have lt: "sd_step s < n" using Suc.hyps(2) by simp
  have "d = n - sd_step ?u" "sd_step ?u \<le> n" using Suc.hyps(2) u by simp_all
  then obtain t where t: "drain_loop e start cap ?u = Some t" "\<forall>k. sd_step ?u \<le> k \<and> k < sd_step t \<longrightarrow> P k"
    using Suc.hyps(1) [of ?u] Suc.prems u by auto
  have "P (sd_step s)" using Suc.prems(3) lt by simp
  then have "\<forall>k. sd_step s \<le> k \<and> k < sd_step t \<longrightarrow> P k" using t(2) u by (metis Suc_eq_plus1 le_neq_implies_less Suc_leI)
  with t(1) show ?case by (subst drain_loop.simps) auto
qed

lemma tail_ends:
  assumes "sd_step s \<le> n" "CLOSE_TAIL_CAP_MS \<le> e_tick e n - start"
  shows "\<exists>t. tail_loop e start s = Some t"
  using assms
proof (induction "n - sd_step s" arbitrary: s)
  case 0
  then show ?case by (subst tail_loop.simps) auto
next
  case (Suc d)
  let ?u = "serve e (act (TaskDelay CLOSE_TAIL_CHECK_MS) s)"
  have "d = n - sd_step ?u" "sd_step ?u \<le> n" using Suc.hyps(2) by simp_all
  then obtain t where "tail_loop e start ?u = Some t" using Suc.hyps(1) [of ?u] Suc.prems by auto
  then show ?case by (subst tail_loop.simps) auto
qed

lemma drain_waits:
  assumes "ticking e T" "unat cap \<le> 2 ^ 31"
  shows "\<exists>t. wait_outbox_empty e cap s = Some t \<and>
    (\<forall>k. sd_step s \<le> k \<and> k < sd_step t \<longrightarrow> T k < T (sd_step s) + unat cap)"
proof -
  obtain n where n: "sd_step s \<le> n" "cap \<le> e_tick e n - e_tick e (sd_step s)"
    "\<forall>k. sd_step s \<le> k \<and> k < n \<longrightarrow> T k < T (sd_step s) + unat cap"
    using cap_seen [OF assms, of "sd_step s"] by blast
  from drain_ends [OF n] show ?thesis by (simp add: wait_outbox_empty_def)
qed

lemma close_returns:
  assumes "ticking e T"
  shows "\<exists>t. close_session e clean s = Some t"
proof (cases clean)
  case True
  have caps: "unat OUTBOX_DRAIN_CAP_MS \<le> 2 ^ 31" "unat CLOSE_TAIL_CAP_MS \<le> 2 ^ 31"
    by (simp_all add: OUTBOX_DRAIN_CAP_MS_def CLOSE_TAIL_CAP_MS_def)
  obtain u where u: "wait_outbox_empty e OUTBOX_DRAIN_CAP_MS (upd_link (onSessionClosing (e_link e)) s) = Some u"
    using drain_waits [OF assms caps(1)] by blast
  let ?v = "client_stop e u"
  obtain n where "sd_step ?v \<le> n" "CLOSE_TAIL_CAP_MS \<le> e_tick e n - e_tick e (sd_step ?v)"
    using cap_seen [OF assms caps(2), of "sd_step ?v"] by blast
  from tail_ends [OF this] obtain v where "tail_loop e (e_tick e (sd_step ?v)) ?v = Some v" by blast
  with u True show ?thesis by (simp add: close_session_def Let_def)
qed (simp add: close_session_def)

text \<open>A persistent cycle returns: its only unbounded waits are the two of the close.\<close>

lemma publish_all_poll:
  "publish_all e p subscribe link awake s = (ok, t) \<Longrightarrow> s_poll_interval_sec (sd_rc t) = s_poll_interval_sec (sd_rc s)"
  by (auto simp: publish_all_def publish_state_def Let_def split: if_splits list.splits prod.splits dest!: wait_all_acked_poll)

lemma replay_batches_poll: "s_poll_interval_sec (sd_rc (replay_batches e topic n s)) = s_poll_interval_sec (sd_rc s)"
proof (induction n arbitrary: s)
  case (Suc n)
  have p: "peek_batch e u = (es, v) \<Longrightarrow> sd_rc v = sd_rc u" for u es v
    by (auto simp: peek_batch_def Let_def split: prod.splits)
  show ?case using Suc by (auto simp: Let_def publish_msg_def split: prod.split dest!: wait_all_acked_poll p)
qed simp

lemma open_session_poll:
  "open_session e s = (subscribe, link, awake, t) \<Longrightarrow> s_poll_interval_sec (sd_rc t) = s_poll_interval_sec (sd_rc s)"
  by (auto simp: open_session_def read_telemetry_def subscribe_if_needed_def set_abortive_close_def Let_def
      split: prod.splits if_splits)

lemma apply_config_defined: "s_poll_interval_sec (sd_rc s) \<noteq> 0 \<Longrightarrow> \<exists>t. apply_config e s = Some t"
  using apply_defined [of "sd_rc s" "e_api e" "e_fmt e" "tx_set e s" True "sd_nvs s"] by (auto simp: apply_config_def)

lemma connected_returns:
  assumes "s_poll_interval_sec (sd_rc s) \<noteq> 0"
  shows "\<exists>ok t. connected_cycle e p s = Some (ok, t)"
proof -
  obtain subscribe link awake u where u: "open_session e s = (subscribe, link, awake, u)" by (metis prod_cases4)
  obtain ok v where v: "publish_all e p subscribe link awake u = (ok, v)" by fastforce
  have "s_poll_interval_sec (sd_rc (replay_history_if_pending e v)) \<noteq> 0"
    using assms open_session_poll [OF u] publish_all_poll [OF v]
    by (simp add: replay_history_if_pending_def Let_def replay_batches_poll)
  from apply_config_defined [OF this] u v show ?thesis by (auto simp: connected_cycle_def)
qed

lemma persistent_returns:
  assumes "ticking e T" "s_poll_interval_sec (sd_rc s) \<noteq> 0"
  shows "\<exists>ok t. persistent_cycle e p uri s = Some (ok, t)"
proof -
  obtain client s1 where s1: "start_persistent_client e uri s = (client, s1)" by fastforce
  then have "sd_rc s1 = sd_rc s" by (auto simp: start_persistent_client_def Let_def split: if_splits)
  then have "s_poll_interval_sec (sd_rc (serve e (act (WaitBits (connect_wait_ms s1)) s1))) \<noteq> 0"
    using assms(2) by simp
  note connected = connected_returns [OF this, of e p]
  let ?s = "serve e (act (WaitBits (connect_wait_ms s1)) s1)"
  obtain ok v where v: "(if bit_connected (s_ctx ?s) then connected_cycle e p ?s else Some (False, ?s)) = Some (ok, v)"
    using connected by (cases "bit_connected (s_ctx ?s)") auto
  obtain t where "close_session e (bit_connected (s_ctx ?s) \<and> (ok \<or> \<not> hasAny p)) v = Some t"
    using close_returns [OF assms(1)] by blast
  with v show ?thesis unfolding persistent_cycle_def s1 Let_def by (cases client) auto
qed

section \<open>The temporary client\<close>

text \<open>
  Whether a temporary client is alive after a stretch of the trace, \<open>None\<close> when one is started while
  another is alive or one is destroyed that is not.
\<close>

fun temp_alive :: "trace_item list \<Rightarrow> bool \<Rightarrow> bool option" where
  "temp_alive [] b = Some b"
| "temp_alive (i # tr) b =
    (if i = Do (ClientStart Temporary) then (if b then None else temp_alive tr True)
     else if i = Do (ClientDestroy Temporary) then (if b then temp_alive tr False else None)
     else temp_alive tr b)"

lemma temp_alive_append: "temp_alive (xs @ ys) b = (temp_alive xs b \<bind> temp_alive ys)"
  by (induction xs arbitrary: b) auto

definition client_neutral :: "trace_item list \<Rightarrow> bool" where
  "client_neutral tr \<longleftrightarrow> Do (ClientStart Temporary) \<notin> set tr \<and> Do (ClientDestroy Temporary) \<notin> set tr"

lemma temp_alive_neutral: "client_neutral tr \<Longrightarrow> temp_alive tr b = Some b"
  by (induction tr) (auto simp: client_neutral_def)

lemma ota_events_trace: "sd_trace (snd (fold (ota_event_step p) evs cs)) = sd_trace (snd cs)"
proof (induction evs arbitrary: cs)
  case (Cons ev evs)
  have "sd_trace (snd (ota_event_step p ev cs)) = sd_trace (snd cs)" by (cases cs) (simp add: split_beta)
  with Cons show ?case by simp
qed simp

lemma ota_connect_alive:
  "\<exists>tr. sd_trace (snd (ota_connect e uri rd c s)) = sd_trace s @ tr \<and> temp_alive tr False = Some (or_init rd)"
  by (auto simp: ota_connect_def start_client_def ota_events_trace)

lemma session_neutral:
  assumes "ota_session e b rd s = Some (r, t)"
  shows "\<exists>tr. sd_trace t = sd_trace s @ tr \<and> client_neutral tr"
proof -
  have a: "\<exists>tr. sd_trace (ota_act e x u) = sd_trace u @ tr \<and> client_neutral tr" for x u
    by (cases x) (auto simp: ota_act_def client_neutral_def)
  have "\<exists>tr. sd_trace (fold (ota_act e) acts u) = sd_trace u @ tr \<and> client_neutral tr" for acts u
  proof (induction acts arbitrary: u)
    case (Cons x acts)
    obtain tr where "sd_trace (ota_act e x u) = sd_trace u @ tr" "client_neutral tr" using a by blast
    moreover obtain tr' where "sd_trace (fold (ota_act e) acts (ota_act e x u)) = sd_trace (ota_act e x u) @ tr'" "client_neutral tr'"
      using Cons.IH by blast
    ultimately show ?case by (intro exI [of _ "tr @ tr'"]) (simp add: client_neutral_def)
  qed (simp add: client_neutral_def)
  from this [of _ "s\<lparr>sd_ota := _\<rparr>"] assms show ?thesis
    by (fastforce simp: ota_session_def split: sum.splits prod.splits)
qed

lemma destroy_alive: "\<exists>tr. sd_trace (destroy_client b s) = sd_trace s @ tr \<and> temp_alive tr b = Some False"
  by (simp add: destroy_client_def)

lemma if_someD: "(if a then Some x else if b then Some x else m) = Some y \<Longrightarrow> x = y \<or> m = Some y"
  by (auto split: if_splits)

lemma rounds_alive:
  "ota_rounds e b uri rds c s = Some (r, t) \<Longrightarrow> \<exists>tr. sd_trace t = sd_trace s @ tr \<and> temp_alive tr False = Some r"
proof (induction rds arbitrary: uri c s)
  case (Cons rd rds)
  obtain c1 s1 where 1: "ota_connect e uri rd c s = (c1, s1)" by fastforce
  obtain tr1 where tr1: "sd_trace s1 = sd_trace s @ tr1" "temp_alive tr1 False = Some (or_init rd)"
    using ota_connect_alive [of e uri rd c s] 1 by auto
  have leave: ?case if "sd_trace t = sd_trace u" "sd_trace u = sd_trace s1 @ tr" "temp_alive tr (or_init rd) = Some r" for u tr
    using that tr1 by (intro exI [of _ "tr1 @ tr"]) (simp add: temp_alive_append)
  show ?case
  proof (cases "or_init rd \<and> bit_connected c1")
    case False
    obtain tr where "sd_trace (destroy_client (or_init rd) s1) = sd_trace s1 @ tr" "temp_alive tr (or_init rd) = Some False"
      using destroy_alive by blast
    moreover have "r = False" "t = destroy_client (or_init rd) s1"
      using Cons.prems 1 False by (simp_all only: ota_rounds.simps Let_def case_prod_conv if_True not_False_eq_True option.inject prod.inject)
    ultimately show ?thesis using leave [of "destroy_client (or_init rd) s1" tr] by simp
  next
    case True
    note run = Cons.prems [unfolded ota_rounds.simps 1 Let_def case_prod_conv, simplified True]
    then obtain q u where q: "ota_session e b rd s1 = Some (q, u)" by (cases "ota_session e b rd s1") auto
    note run = run [unfolded q option.case case_prod_conv]
    obtain tr2 where tr2: "sd_trace u = sd_trace s1 @ tr2" "client_neutral tr2" using session_neutral [OF q] by blast
    show ?thesis
    proof (cases q)
      case True
      with run have "r = True" "t = u" by simp_all
      with leave [of u tr2] tr2 temp_alive_neutral [OF tr2(2)] \<open>or_init rd \<and> bit_connected c1\<close> show ?thesis by simp
    next
      case False
      let ?d = "destroy_client True u"
      obtain tr3 where tr3: "sd_trace ?d = sd_trace u @ tr3" "temp_alive tr3 True = Some False" using destroy_alive by blast
      have d: "temp_alive (tr1 @ tr2 @ tr3) False = Some False" "sd_trace ?d = sd_trace s @ tr1 @ tr2 @ tr3"
        using tr1 tr2 tr3 temp_alive_neutral [OF tr2(2)] \<open>or_init rd \<and> bit_connected c1\<close>
        by (simp_all add: temp_alive_append)
      from run False have "(if \<not> (ota_update_due (sd_ota ?d) \<and> ota_session_ended_by_connection_loss (sd_ota ?d)) then Some (False, ?d)
        else if broker_uri e ?d = [] then Some (False, ?d) else ota_rounds e b (broker_uri e ?d) rds c1 ?d) = Some (r, t)"
        by simp
      from if_someD [OF this]
      consider "t = ?d" "r = False" | "ota_rounds e b (broker_uri e ?d) rds c1 ?d = Some (r, t)" by blast
      then show ?thesis
      proof cases
        case 1
        with d show ?thesis by blast
      next
        case 2
        from Cons.IH [OF this] obtain tr where "sd_trace t = sd_trace ?d @ tr" "temp_alive tr False = Some r" by blast
        moreover from d(1) \<open>temp_alive tr False = Some r\<close> have "temp_alive ((tr1 @ tr2 @ tr3) @ tr) False = Some r"
          unfolding temp_alive_append [of "tr1 @ tr2 @ tr3" tr] by simp
        ultimately show ?thesis using d(2) by (intro exI [of _ "tr1 @ tr2 @ tr3 @ tr"]) simp
      qed
    qed
  qed
qed simp

section \<open>The publish task\<close>

definition cycles_alive :: "publish_api \<Rightarrow> nat" where
  "cycles_alive a = length (filter (\<lambda>t. t \<noteq> RunningCleared) (pa_tasks a)) +
     (if pa_pc a = FlagTaken \<or> pa_pc a = BitCleared then 1 else 0)"

lemma set_idle_frame [simp]:
  "s_task_running (set_idle b a) = s_task_running a" "s_last_ok (set_idle b a) = s_last_ok a"
  "pa_tasks (set_idle b a) = pa_tasks a" "pa_pc (set_idle b a) = pa_pc a"
  "s_idle_eg (set_idle b a) = map_option (\<lambda>_. b) (s_idle_eg a)"
  by (simp_all add: set_idle_def)

lemma filter_length_update:
  "i < length xs \<Longrightarrow> length (filter P (xs[i := y])) + (if P (xs ! i) then 1 else 0) = length (filter P xs) + (if P y then 1 else 0)"
proof (induction xs arbitrary: i)
  case (Cons x xs)
  then show ?case by (cases i) auto
qed simp

lemma filter_length_remove:
  "i < length xs \<Longrightarrow> length (filter P (take i xs @ drop (Suc i) xs)) + (if P (xs ! i) then 1 else 0) = length (filter P xs)"
proof (induction xs arbitrary: i)
  case (Cons x xs)
  then show ?case by (cases i) auto
qed simp

lemma api_run_alive: "api_run d a \<Longrightarrow> s_task_running a \<longleftrightarrow> cycles_alive a = 1" "api_run d a \<Longrightarrow> cycles_alive a \<le> 1"
proof -
  have "api_run d a \<Longrightarrow> (s_task_running a \<longleftrightarrow> cycles_alive a = 1) \<and> cycles_alive a \<le> 1"
  proof (induction rule: api_run.induct)
    case (start created)
    show ?case by (simp add: init_idle_group_def api_start_def cycles_alive_def)
  next
    case (send a created)
    then show ?case
      by (cases "pa_pc a"; cases "filter (\<lambda>t. t \<noteq> RunningCleared) (pa_tasks a)") (auto simp: cycles_alive_def)
  next
    case (task a i ok)
    then show ?case
      using filter_length_update [of i "pa_tasks a" "\<lambda>t. t \<noteq> RunningCleared"]
        filter_length_remove [of i "pa_tasks a" "\<lambda>t. t \<noteq> RunningCleared"]
      by (cases "pa_tasks a ! i") (auto simp: task_step_def cycles_alive_def split: if_splits)
  qed
  then show "api_run d a \<Longrightarrow> s_task_running a \<longleftrightarrow> cycles_alive a = 1" "api_run d a \<Longrightarrow> cycles_alive a \<le> 1" by blast+
qed

text \<open>With a caller that sends only when it sees the idle bit, the bit is the truth.\<close>

definition idle_bit_true :: "publish_api \<Rightarrow> bool" where
  "idle_bit_true a \<longleftrightarrow>
    (case s_idle_eg a of
       None \<Rightarrow> True
     | Some True \<Rightarrow> pa_tasks a = [] \<and> (pa_pc a = NotSending \<or> pa_pc a = FlagTaken)
     | Some False \<Rightarrow> length (pa_tasks a) = 1 \<and> pa_pc a = NotSending \<or>
         pa_tasks a = [] \<and> (pa_pc a = BitCleared \<or> pa_pc a = FlagReturned))"

lemma api_run_idle: "api_run True a \<Longrightarrow> idle_bit_true a"
proof (induction rule: api_run.induct)
  case (start created)
  show ?case by (simp add: init_idle_group_def api_start_def idle_bit_true_def)
next
  case (send a created)
  then show ?case
    by (cases "pa_pc a"; cases "s_idle_eg a")
      (auto simp: idle_bit_true_def mqtt_wait_for_idle_def split: bool.splits)
next
  case (task a i ok)
  then show ?case
    by (cases "pa_tasks a ! i"; cases "s_idle_eg a")
      (auto simp: idle_bit_true_def task_step_def split: bool.splits)
qed

section \<open>Client ids\<close>

lemma hex_text_no_a: "CHR ''a'' \<notin> set (hex_text True n)"
proof -
  have d: "CHR ''a'' \<noteq> (if k < 10 then digit_char k else char_of (55 + k))" if "k < 16" for k :: nat
  proof -
    have "k \<in> {0..<16}" using that by simp
    then show ?thesis by (simp add: atLeastLessThan_nat_numeral digit_char_def) (auto simp: char_of_def)
  qed
  show ?thesis using d [of "n div 16 mod 16"] d [of "n mod 16"]
    by (cases "n div 16 mod 16 < 10"; cases "n mod 16 < 10") (simp_all add: hex_text_def Let_def)
qed

lemma client_ids_differ: "length mac = 6 \<Longrightarrow> client_id_of_mac mac \<noteq> ota_client_id c"
proof
  assume "length mac = 6" and eq: "client_id_of_mac mac = ota_client_id c"
  then obtain a b d where "take 3 (drop 3 mac) = [a, b, d]"
    by (auto simp: numeral_eq_Suc length_Suc_conv)
  moreover have "format_pieces ''ESP32_{:02x}{:02X}{:02X}'' =
      Some (map Lit ''ESP32_'' @ [Field '':02x'', Field '':02X'', Field '':02X''])"
    by code_simp
  ultimately have "client_id_of_mac mac = ''ESP32_'' @ hex_text False (nat (uint a)) @
      hex_text True (nat (uint b)) @ hex_text True (nat (uint d))"
    by (simp add: client_id_of_mac_def format_plain_def format_text_def)
  moreover have "hex_text True (nat (uint d)) \<noteq> []" by (simp add: hex_text_def Let_def)
  ultimately have "last (client_id_of_mac mac) \<in> set (hex_text True (nat (uint d)))"
    by (simp add: last_in_set)
  moreover have "last (ota_client_id c) = CHR ''a''" by (simp add: ota_client_id_def)
  ultimately show False using hex_text_no_a eq by metis
qed

end
