(* ===== verification/OtaProps.thy ===== *)
theory OtaProps
  imports OtaUpdater
begin

text \<open>
  What the updater guarantees: only a verified image boots, a partial download is a prefix of the staged
  image, a session ends within two waits per missing chunk, and the manifest the staging tool writes is
  read back. A complete but bad image that was resumed refills the attempt budget.

  \<open>ota_download\<close> is the interface of an invariant of the download: what the chunk handler, a fresh start
  and an idle state must guarantee so that every session keeps it. It is interpreted twice, for the
  agreement of flash and hash and for the prefix of a staged image.
\<close>

section \<open>What the handlers leave alone\<close>

text \<open>The part of the state a download is about.\<close>

definition dl_view where
  "dl_view s = (s_partial_valid s, s_partial_manifest s, s_next_chunk s, s_received s, s_flash s, s_sha_op s,
     s_topic_image_prefix s)"

lemma dl_view_updates [simp]:
  "dl_view (s\<lparr>s_conn_lost := b\<rparr>) = dl_view s" "dl_view (s\<lparr>s_bit_fail := b\<rparr>) = dl_view s"
  "dl_view (s\<lparr>s_bit_chunk := b\<rparr>) = dl_view s" "dl_view (s\<lparr>s_manifest := m\<rparr>) = dl_view s"
  "dl_view (s\<lparr>s_install_requested := b\<rparr>) = dl_view s" "dl_view (s\<lparr>s_session_active := b\<rparr>) = dl_view s"
  "dl_view (s\<lparr>s_no_progress_attempts := i\<rparr>) = dl_view s" "dl_view (s\<lparr>s_undelivered_status := u\<rparr>) = dl_view s"
  by (simp_all add: dl_view_def)

definition session_view where
  "session_view s = (s_partial_valid s, s_partial_manifest s, s_session_active s, s_topic_image_prefix s,
     s_no_progress_attempts s, s_ota_handle s)"

lemma chunk_session_view: "session_view (handle_image_chunk p index data offset total_len s) = session_view s"
  by (simp add: handle_image_chunk_def session_view_def Let_def split: prod.split)

lemma session_view_updates [simp]:
  "session_view (s\<lparr>s_conn_lost := b\<rparr>) = session_view s" "session_view (s\<lparr>s_bit_fail := b\<rparr>) = session_view s"
  "session_view (s\<lparr>s_bit_chunk := b\<rparr>) = session_view s" "session_view (s\<lparr>s_manifest := m\<rparr>) = session_view s"
  "session_view (s\<lparr>s_install_requested := b\<rparr>) = session_view s"
  "session_view (s\<lparr>s_undelivered_status := u\<rparr>) = session_view s"
  by (simp_all add: session_view_def)

lemma event_session_view: "session_view (ota_handle_event p e s) = session_view s"
  by (cases e)
    (simp_all add: ota_on_mqtt_data_def handle_manifest_def ota_on_mqtt_error_def chunk_session_view split: option.split)

lemma events_session_view: "session_view (ota_events p evs s) = session_view s"
proof (induction evs arbitrary: s)
  case (Cons e evs)
  then show ?case using event_session_view [of p e s] by (simp add: ota_events_def)
qed (simp add: ota_events_def)

lemma publish_status_eq:
  "publish_status client st (acts, s) =
    (acts @ [OtaPublishStatus st], s\<lparr>s_undelivered_status := (if client (length acts) then s_undelivered_status s else Some st)\<rparr>)"
  by (simp add: publish_status_def)

lemma subscribe_state: "subscribe_chunk client k (reason, acts, s) = (ok, reason', acts', s') \<Longrightarrow> s' = s"
  by (auto simp: subscribe_chunk_def Let_def split: if_splits)

lemma prime_state: "prime_window client ks (reason, acts, s) = (ok, reason', acts', s') \<Longrightarrow> s' = s"
proof (induction ks arbitrary: reason acts)
  case (Cons k ks)
  obtain t r1 a1 s1 where sub: "subscribe_chunk client k (reason, acts, s) = (t, r1, a1, s1)" by (metis prod.exhaust)
  from subscribe_state [OF this] Cons sub show ?case by (auto split: if_splits)
qed simp

text \<open>Topping the window up changes nothing but the status kept for the next session.\<close>

lemma chunk_done_state:
  "chunk_done client t e c (reason, acts, s) = (ok, reason', acts', s') \<Longrightarrow> \<exists>u. s' = s\<lparr>s_undelivered_status := u\<rparr>"
proof -
  assume run: "chunk_done client t e c (reason, acts, s) = (ok, reason', acts', s')"
  obtain o1 r1 a1 s1 where sub: "subscribe_chunk client (c + SUBSCRIBE_PIPELINE) (reason, acts, s) = (o1, r1, a1, s1)"
    by (metis prod.exhaust)
  have "s1 = s" by (rule subscribe_state [OF sub])
  then have "s' = s \<or> (\<exists>u. s' = s\<lparr>s_undelivered_status := u\<rparr>)"
    using run sub by (simp add: chunk_done_def publish_status_eq split: if_splits) blast+
  then show ?thesis
  proof
    assume "s' = s"
    then have "s' = s\<lparr>s_undelivered_status := s_undelivered_status s\<rparr>" by simp
    then show ?thesis by blast
  qed
qed

lemma top_up_state:
  "top_up client t e cs (reason, acts, s) = (ok, reason', acts', s') \<Longrightarrow> \<exists>u. s' = s\<lparr>s_undelivered_status := u\<rparr>"
proof (induction cs arbitrary: reason acts s)
  case Nil
  then have "s' = s\<lparr>s_undelivered_status := s_undelivered_status s\<rparr>" by simp
  then show ?case by blast
next
  case (Cons c cs)
  obtain o1 r1 a1 s1 where d: "chunk_done client t e c (reason, acts, s) = (o1, r1, a1, s1)" by (metis prod.exhaust)
  from chunk_done_state [OF this] obtain u where u: "s1 = s\<lparr>s_undelivered_status := u\<rparr>" by blast
  show ?case
  proof (cases o1)
    case True
    then have "top_up client t e cs (r1, a1, s1) = (ok, reason', acts', s')" using Cons.prems d by simp
    from Cons.IH [OF this] u show ?thesis by auto
  next
    case False
    then show ?thesis using Cons.prems d u by auto
  qed
qed


section \<open>Invariants of the download\<close>

fun carried :: "string \<Rightarrow> (u32 \<Rightarrow> u8 list \<Rightarrow> bool) \<Rightarrow> ota_event \<Rightarrow> bool" where
  "carried prefix good (OtaData topic data _ _) \<longleftrightarrow>
     (\<forall>i r. starts_with_text topic prefix \<longrightarrow> from_chars_uint 32 (drop (length prefix) topic) = Some (i, r) \<longrightarrow>
        good (of_nat i) data)"
| "carried _ _ OtaConnError \<longleftrightarrow> True"

definition waits_carried :: "string \<Rightarrow> (u32 \<Rightarrow> u8 list \<Rightarrow> bool) \<Rightarrow> ota_wait list \<Rightarrow> bool" where
  "waits_carried prefix good ws \<longleftrightarrow>
     (\<forall>w \<in> set ws. list_all (carried prefix good) (w_before w) \<and> list_all (carried prefix good) (w_after w))"

definition fresh_partial where
  "fresh_partial p m h s =
    s\<lparr>s_flash := snd (p_begin p (s_flash s)), s_ota_handle := True, s_sha_op := h, s_partial_manifest := m,
      s_partial_valid := True, s_next_chunk := 0, s_received := 0\<rparr>"

lemma begin_partial_True:
  "begin_partial p client m (acts, s) = (True, acts', s') \<Longrightarrow>
   \<exists>slot h. p_slot_size p = Some slot \<and> m_size m \<le> slot \<and> p_hash_setup p = Some h \<and>
     fst (p_begin p (s_flash s)) = ESP_OK \<and> s' = fresh_partial p m h s"
  by (auto simp: begin_partial_def fresh_partial_def Let_def failed_attempt_def not_less
      split: option.splits prod.splits if_splits)

lemma begin_partial_False:
  "begin_partial p client m (acts, s) = (False, acts', s') \<Longrightarrow> \<not> s_partial_valid s \<Longrightarrow>
   \<not> s_partial_valid s' \<and> s_session_active s' = s_session_active s \<and> s_topic_image_prefix s' = s_topic_image_prefix s"
  by (auto simp: begin_partial_def failed_attempt_def publish_status_eq discard_partial_def Let_def
      split: option.splits prod.splits if_splits)

definition boots :: "('f, 'h) ota_platform \<Rightarrow> ota_manifest \<Rightarrow> ('f, 'h) ota \<Rightarrow> 'f \<Rightarrow> bool" where
  "boots p m s f \<longleftrightarrow> fst (p_hash_finish p (s_sha_op s)) = Some (m_sha256 m) \<and> fst (p_end p (s_flash s)) = ESP_OK \<and>
     fst (p_set_boot p (snd (p_end p (s_flash s)))) = ESP_OK \<and> f = snd (p_set_boot p (snd (p_end p (s_flash s))))"

lemma verify_True:
  "verify_image p m reason s = (True, reason', s') \<Longrightarrow> boots p m s (s_flash s') \<and> \<not> s_ota_handle s'"
  by (auto simp: verify_image_def boots_def Let_def split: prod.splits option.splits if_splits)

lemma verify_frame:
  "verify_image p m reason s = (ok, reason', s') \<Longrightarrow>
   s_session_active s' = s_session_active s \<and> s_topic_image_prefix s' = s_topic_image_prefix s"
  by (auto simp: verify_image_def Let_def split: prod.splits if_splits)

lemma finish_session_cases:
  assumes "finish_session p client m t start done (reason, acts, s) = (r, acts', s')"
  shows "\<not> s_session_active s' \<and> s_topic_image_prefix s' = s_topic_image_prefix s \<and>
    (if done = t then \<not> s_partial_valid s' else dl_view s' = dl_view s) \<and>
    (r \<longrightarrow> done = t \<and> boots p m s (s_flash s'))"
proof (cases "done = t")
  case True
  let ?s = "s\<lparr>s_session_active := False\<rparr>"
  obtain ok reason1 s1 where v: "verify_image p m reason ?s = (ok, reason1, s1)" by (metis prod.exhaust)
  note f = verify_frame [OF v]
  have b: "boots p m s (s_flash s1) \<and> \<not> s_ota_handle s1" if ok
    using verify_True [OF v [unfolded eqTrueI [OF that]]] by (simp add: boots_def)
  show ?thesis
    using assms f b True
    by (auto simp: finish_session_def v discard_partial_def publish_status_eq Let_def split: if_splits)
next
  case False
  then show ?thesis using assms
    by (auto simp: finish_session_def publish_status_eq dl_view_def Let_def split: if_splits)
qed

lemma replay_view:
  "replay_status client (acts, s) = (acts', s') \<Longrightarrow>
   dl_view s' = dl_view s \<and> s_session_active s' = s_session_active s \<and> s_manifest s' = s_manifest s \<and>
   s_no_progress_attempts s' = s_no_progress_attempts s"
  by (auto simp: replay_status_def publish_status_eq split: option.splits)

locale ota_download =
  fixes p :: "('f, 'h) ota_platform" and prefix :: string and good :: "u32 \<Rightarrow> u8 list \<Rightarrow> bool"
    and staged :: "ota_manifest \<Rightarrow> bool" and J :: "('f, 'h) ota \<Rightarrow> bool"
  assumes frame: "J s \<Longrightarrow> dl_view s' = dl_view s \<Longrightarrow> (s_session_active s' \<Longrightarrow> s_partial_valid s') \<Longrightarrow> J s'"
    and active: "J s \<Longrightarrow> s_session_active s \<Longrightarrow> s_partial_valid s"
    and topic: "J s \<Longrightarrow> s_topic_image_prefix s = prefix"
    and idle: "\<not> s_partial_valid s \<Longrightarrow> \<not> s_session_active s \<Longrightarrow> s_topic_image_prefix s = prefix \<Longrightarrow> J s"
    and chunk: "J s \<Longrightarrow> good index data \<Longrightarrow> J (handle_image_chunk p index data offset total_len s)"
    and start: "\<not> s_session_active s \<Longrightarrow> s_topic_image_prefix s = prefix \<Longrightarrow> fst (p_begin p (s_flash s)) = ESP_OK \<Longrightarrow>
      p_slot_size p = Some slot \<Longrightarrow> m_size m \<le> slot \<Longrightarrow> p_hash_setup p = Some h \<Longrightarrow> staged m \<Longrightarrow> J (fresh_partial p m h s)"
begin

lemma J_update:
  assumes "J s" "dl_view s' = dl_view s" "s_session_active s' = s_session_active s"
  shows "J s'"
proof (rule frame [OF assms(1,2)])
  assume "s_session_active s'"
  then have "s_partial_valid s" using active assms(1,3) by simp
  then show "s_partial_valid s'" using assms(2) by (simp add: dl_view_def)
qed

lemma event: "J s \<Longrightarrow> carried prefix good e \<Longrightarrow> J (ota_handle_event p e s)"
proof (cases e)
  case (OtaData t data offset total_len)
  assume J: "J s" and c: "carried prefix good e"
  note [simp] = topic [OF J]
  have u: "J (s\<lparr>s_manifest := m\<rparr>)" "J (s\<lparr>s_install_requested := b\<rparr>)" for m b
    by (rule J_update [OF J]; simp)+
  show ?thesis
    using J c chunk u
    by (auto simp: OtaData ota_on_mqtt_data_def handle_manifest_def split: option.split)
next
  case OtaConnError
  assume J: "J s"
  moreover have "J (s\<lparr>s_conn_lost := True, s_bit_fail := True\<rparr>)" by (rule J_update [OF J]; simp)
  ultimately show ?thesis by (simp add: OtaConnError ota_on_mqtt_error_def)
qed

lemma events: "J s \<Longrightarrow> list_all (carried prefix good) evs \<Longrightarrow> J (ota_events p evs s)"
  by (induction evs arbitrary: s) (simp_all add: ota_events_def event)

lemma loop:
  "session_loop p client t every ws ok done (reason, acts, s) = Inr (done', reason', acts', s') \<Longrightarrow> J s \<Longrightarrow>
   waits_carried prefix good ws \<Longrightarrow> J s' \<and> session_view s' = session_view s"
proof (induction ws arbitrary: ok "done" reason acts s)
  case Nil
  then show ?case by (simp split: if_splits)
next
  case (Cons w ws)
  let ?s1 = "ota_events p (w_before w) s"
  let ?s2 = "ota_events p (w_after w) (?s1\<lparr>s_bit_chunk := False, s_bit_fail := False\<rparr>)"
  have good: "list_all (carried prefix good) (w_before w)" "list_all (carried prefix good) (w_after w)"
    "waits_carried prefix good ws"
    using Cons.prems(3) by (simp_all add: waits_carried_def)
  have "J ?s1" by (rule events [OF Cons.prems(2) good(1)])
  then have "J (?s1\<lparr>s_bit_chunk := False, s_bit_fail := False\<rparr>)" by (rule J_update; simp)
  then have J2: "J ?s2" by (rule events [OF _ good(2)])
  have v2: "session_view ?s2 = session_view s" by (simp add: events_session_view)
  obtain o1 r1 a1 s3 where t: "top_up client t every (u32_range done (s_next_chunk ?s2)) (reason, acts, ?s2) = (o1, r1, a1, s3)"
    by (metis prod.exhaust)
  from top_up_state [OF this] obtain u where u: "s3 = ?s2\<lparr>s_undelivered_status := u\<rparr>" by blast
  have J3: "J s3" unfolding u by (rule J_update [OF J2]; simp)
  have v3: "session_view s3 = session_view s" by (simp add: u v2)
  show ?case
    using Cons.prems(1) Cons.prems(2) J2 v2 J3 v3 Cons.IH [OF _ J2 good(3)] Cons.IH [OF _ J3 good(3)]
    by (simp add: t Let_def split: if_splits)
qed

lemma prepare:
  assumes "prepare_partial p client m (acts, s) = (proceed, acts', s')" "J s" "\<not> s_session_active s" "staged m"
  shows "J s' \<and> \<not> s_session_active s' \<and> (proceed \<longrightarrow> s_partial_valid s' \<and> sameImage m (s_partial_manifest s'))"
proof -
  let ?s1 = "if s_partial_valid s \<and> \<not> sameImage m (s_partial_manifest s) then discard_partial p s else s"
  have top: "s_topic_image_prefix s = prefix" by (rule topic [OF assms(2)])
  then have s1: "s_topic_image_prefix ?s1 = prefix" "\<not> s_session_active ?s1"
    using assms(3) by (simp_all add: discard_partial_def)
  have J1: "J ?s1" using assms(2) s1 idle [of "discard_partial p s"] by (simp add: discard_partial_def split: if_splits)
  show ?thesis
  proof (cases "s_partial_valid ?s1")
    case True
    then have "s_partial_valid s" "sameImage m (s_partial_manifest s)"
      by (simp_all add: discard_partial_def split: if_splits)
    then show ?thesis using assms(1,2,3) by (simp add: prepare_partial_def)
  next
    case False
    then have b: "begin_partial p client m (acts, ?s1) = (proceed, acts', s')"
      using assms(1) by (simp add: prepare_partial_def Let_def)
    show ?thesis
    proof (cases proceed)
      case True
      then obtain slot h where "p_slot_size p = Some slot" "m_size m \<le> slot" "p_hash_setup p = Some h"
        "fst (p_begin p (s_flash ?s1)) = ESP_OK" "s' = fresh_partial p m h ?s1"
        using begin_partial_True [OF b [unfolded eqTrueI [OF True]]] by blast
      then show ?thesis
        using start [OF s1(2,1)] assms(4) s1(2) by (simp add: fresh_partial_def sameImage_def)
    next
      case f: False
      then have "begin_partial p client m (acts, ?s1) = (False, acts', s')" using b by simp
      from begin_partial_False [OF this False]
      have "\<not> s_partial_valid s' \<and> \<not> s_session_active s' \<and> s_topic_image_prefix s' = prefix" using s1 by blast
      then show ?thesis using idle f by blast
    qed
  qed
qed

text \<open>A session that runs to its end, and what it ended on.\<close>

lemma pull:
  assumes "pull_session p client ws m t (acts, s) = Inr (r, acts', s')" "J s" "s_partial_valid s"
    and "waits_carried prefix good ws"
  obtains ok every "done" fr1 reason a1 s1 where
    "session_loop p client t every ws ok (s_next_chunk s) fr1 = Inr (done, reason, a1, s1)"
    "finish_session p client m t (s_next_chunk s) done (reason, a1, s1) = (r, acts', s')"
    "J (snd (snd fr1))" "dl_view (snd (snd fr1)) = dl_view s" "J s1" "s_partial_valid s1"
    "s_partial_manifest s1 = s_partial_manifest s"
proof -
  let ?s0 = "s\<lparr>s_undelivered_status :=
      (if client (length acts) then s_undelivered_status s
       else Some (Starting (m_version m) (m_size m) t (s_next_chunk s))),
    s_bit_chunk := False, s_bit_fail := False, s_session_active := True\<rparr>"
  let ?a0 = "acts @ [OtaPublishStatus (Starting (m_version m) (m_size m) t (s_next_chunk s)), OtaWindowBegin, TxPowerPin]"
  have J0: "J ?s0" by (rule frame [OF assms(2)]) (simp_all add: assms(3))
  obtain ok r0 a0 s0 where pw: "prime_window client
      (u32_range (s_next_chunk s) (min (s_next_chunk s + SUBSCRIBE_PIPELINE) t)) (NoReason, ?a0, ?s0) = (ok, r0, a0, s0)"
    by (metis prod.exhaust)
  have s0: "s0 = ?s0" by (rule prime_state [OF pw])
  obtain "done" reason a1 s1 where l:
    "session_loop p client t (max (t div 10) 1) ws ok (s_next_chunk s) (r0, a0, s0) = Inr (done, reason, a1, s1)"
    "finish_session p client m t (s_next_chunk s) done (reason, a1, s1) = (r, acts', s')"
    using assms(1) pw by (auto simp: pull_session_def publish_status_eq Let_def split: sum.splits)
  note lp = loop [OF l(1) _ assms(4)]
  have "session_view s1 = session_view ?s0" using lp J0 s0 by simp
  then have "s_partial_valid s1" "s_partial_manifest s1 = s_partial_manifest s"
    using assms(3) by (simp_all add: session_view_def)
  then show ?thesis using that [OF l(1,2)] J0 s0 lp by simp
qed

text \<open>A whole session keeps the invariant, and one that restarts has verified what it downloaded.\<close>

lemma session_keeps:
  assumes "ota_run_session p client battery ws s = Inr (r, acts', s')" "J s" "\<not> s_session_active s"
    and "staged (s_manifest s)" "waits_carried prefix good ws"
  shows "J s' \<and> \<not> s_session_active s' \<and>
    (r \<longrightarrow> (\<exists>t every ok fr1 reason a1 s1.
       udiv (m_size (s_manifest s) + m_chunk_size (s_manifest s) - 1) (m_chunk_size (s_manifest s)) = Some t \<and>
       session_loop p client t every ws ok (s_next_chunk (snd (snd fr1))) fr1 = Inr (t, reason, a1, s1) \<and>
       J (snd (snd fr1)) \<and> J s1 \<and> s_partial_valid s1 \<and> sameImage (s_manifest s) (s_partial_manifest s1) \<and>
       boots p (s_manifest s) s1 (s_flash s')))"
proof -
  obtain acts1 s1 where r1: "replay_status client ([], s\<lparr>s_conn_lost := False\<rparr>) = (acts1, s1)" by fastforce
  note v = replay_view [OF r1]
  have J1: "J s1" by (rule J_update [OF assms(2)]) (use v in simp_all)
  have m: "s_manifest s1 = s_manifest s" and na: "\<not> s_session_active s1" using v assms(3) by simp_all
  let ?m = "s_manifest s"
  show ?thesis
  proof (cases "(case battery of None \<Rightarrow> False | Some b \<Rightarrow> f_lt b OTA_MIN_BATTERY_PERCENT) \<and> \<not> m_force ?m")
    case True
    then have "\<exists>u. s' = s1\<lparr>s_undelivered_status := u\<rparr>" "\<not> r"
      using assms(1) by (auto simp: ota_run_session_def r1 m publish_status_eq)
    then show ?thesis using J_update [OF J1, of s'] na by auto
  next
    case False
    then obtain t where t: "udiv (m_size ?m + m_chunk_size ?m - 1) (m_chunk_size ?m) = Some t"
      using assms(1) by (auto simp: ota_run_session_def r1 m Let_def split: option.splits)
    obtain proceed a2 s2 where p2: "prepare_partial p client ?m (acts1, s1) = (proceed, a2, s2)" by (metis prod.exhaust)
    note prep = prepare [OF p2 J1 na assms(4)]
    show ?thesis
    proof (cases proceed)
      case False
      then have "s' = s2 \<and> \<not> r"
        using assms(1) t p2 \<open>\<not> (_ \<and> _)\<close> by (auto simp: ota_run_session_def r1 m Let_def)
      then show ?thesis using prep by simp
    next
      case True
      then have run: "pull_session p client ws ?m t (a2, s2) = Inr (r, acts', s')"
        using assms(1) t p2 \<open>\<not> (_ \<and> _)\<close> by (simp add: ota_run_session_def r1 m Let_def split: if_splits)
      have valid: "s_partial_valid s2" using prep True by simp
      obtain ok every "done" fr1 reason a3 s3 where
        l: "session_loop p client t every ws ok (s_next_chunk s2) fr1 = Inr (done, reason, a3, s3)" and
        f: "finish_session p client ?m t (s_next_chunk s2) done (reason, a3, s3) = (r, acts', s')" and
        k: "J (snd (snd fr1))" "dl_view (snd (snd fr1)) = dl_view s2" "J s3" "s_partial_valid s3"
          "s_partial_manifest s3 = s_partial_manifest s2"
        by (rule pull [OF run _ valid assms(5)]) (use prep in simp)
      note fin = finish_session_cases [OF f]
      have J': "J s'"
      proof (cases "done = t")
        case True
        then show ?thesis using fin topic [OF k(3)] idle by simp
      next
        case False
        then show ?thesis using fin by (intro frame [OF k(3)]) simp_all
      qed
      have "s_next_chunk (snd (snd fr1)) = s_next_chunk s2" using k(2) by (simp add: dl_view_def)
      then show ?thesis using J' fin l k t prep True by metis
    qed
  qed
qed

end

text \<open>An invariant under which the progress never goes back within a session.\<close>

locale ota_growing = ota_download +
  assumes grows: "J s \<Longrightarrow> good index data \<Longrightarrow> s_next_chunk s \<le> s_next_chunk (handle_image_chunk p index data offset total_len s)"
begin

lemma event_grows: "J s \<Longrightarrow> carried prefix good e \<Longrightarrow> s_next_chunk s \<le> s_next_chunk (ota_handle_event p e s)"
proof (cases e)
  case (OtaData t data offset total_len)
  assume J: "J s" and c: "carried prefix good e"
  note [simp] = topic [OF J]
  show ?thesis using c grows [OF J]
    by (auto simp: OtaData ota_on_mqtt_data_def handle_manifest_def split: option.split)
qed (simp add: ota_on_mqtt_error_def)

lemma events_grow: "J s \<Longrightarrow> list_all (carried prefix good) evs \<Longrightarrow> s_next_chunk s \<le> s_next_chunk (ota_events p evs s)"
proof (induction evs arbitrary: s)
  case (Cons e evs)
  then have e: "carried prefix good e" and es: "list_all (carried prefix good) evs" by simp_all
  have "s_next_chunk s \<le> s_next_chunk (ota_handle_event p e s)" by (rule event_grows [OF Cons.prems(1) e])
  also have "\<dots> \<le> s_next_chunk (ota_events p evs (ota_handle_event p e s))"
    by (rule Cons.IH [OF event [OF Cons.prems(1) e] es])
  finally show ?case by (simp add: ota_events_def)
qed (simp add: ota_events_def)

lemma loop_done:
  "session_loop p client t every ws ok done (reason, acts, s) = Inr (done', reason', acts', s') \<Longrightarrow> J s \<Longrightarrow>
   waits_carried prefix good ws \<Longrightarrow> done \<le> s_next_chunk s \<Longrightarrow> done' \<le> s_next_chunk s'"
proof (induction ws arbitrary: ok "done" reason acts s)
  case Nil
  then show ?case by (simp split: if_splits)
next
  case (Cons w ws)
  let ?s1 = "ota_events p (w_before w) s"
  let ?c1 = "?s1\<lparr>s_bit_chunk := False, s_bit_fail := False\<rparr>"
  let ?s2 = "ota_events p (w_after w) ?c1"
  have good: "list_all (carried prefix good) (w_before w)" "list_all (carried prefix good) (w_after w)"
    "waits_carried prefix good ws"
    using Cons.prems(3) by (simp_all add: waits_carried_def)
  have "J ?s1" by (rule events [OF Cons.prems(2) good(1)])
  then have c1: "J ?c1" by (rule J_update; simp)
  then have J2: "J ?s2" by (rule events [OF _ good(2)])
  have g: "done \<le> s_next_chunk ?s2"
    using events_grow [OF Cons.prems(2) good(1)] events_grow [OF c1 good(2)] Cons.prems(4) by simp
  obtain o1 r1 a1 s3 where t: "top_up client t every (u32_range done (s_next_chunk ?s2)) (reason, acts, ?s2) = (o1, r1, a1, s3)"
    by (metis prod.exhaust)
  from top_up_state [OF this] obtain u where u: "s3 = ?s2\<lparr>s_undelivered_status := u\<rparr>" by blast
  have J3: "J s3" unfolding u by (rule J_update [OF J2]; simp)
  have n3: "s_next_chunk s3 = s_next_chunk ?s2" by (simp add: u)
  show ?case
    using Cons.prems(1,4) g Cons.IH [OF _ J2 good(3) g] Cons.IH [OF _ J3 good(3)] n3
    by (auto simp: t Let_def split: if_splits)
qed

end

section \<open>The platform's documented behaviour\<close>

text \<open>
  \<open>written\<close>: the bytes written to the update partition since it was begun, unknown after a failed
  write; \<open>bootable\<close>: what the boot loader starts next; \<open>absorbed\<close>: the bytes the hash operation has taken,
  none once an update of it failed.
\<close>

definition platform_ok ::
  "('f, 'h) ota_platform \<Rightarrow> ('f \<Rightarrow> u8 list option) \<Rightarrow> ('f \<Rightarrow> u8 list option) \<Rightarrow> ('h \<Rightarrow> u8 list option) \<Rightarrow>
   (u8 list \<Rightarrow> u8 list) \<Rightarrow> bool" where
  "platform_ok p written bootable absorbed sha \<longleftrightarrow>
     (\<forall>f. fst (p_begin p f) = ESP_OK \<longrightarrow> written (snd (p_begin p f)) = Some []) \<and>
     (\<forall>d f. written (snd (p_write p d f)) =
        (if fst (p_write p d f) = ESP_OK then map_option (\<lambda>w. w @ d) (written f) else None)) \<and>
     (\<forall>f. fst (p_end p f) = ESP_OK \<longrightarrow> written (snd (p_end p f)) = written f) \<and>
     (\<forall>f. fst (p_set_boot p f) = ESP_OK \<longrightarrow> bootable (snd (p_set_boot p f)) = written f) \<and>
     (\<forall>h. p_hash_setup p = Some h \<longrightarrow> absorbed h = Some []) \<and>
     (\<forall>d h. absorbed (snd (p_hash_update p d h)) =
        (if fst (p_hash_update p d h) then map_option (\<lambda>b. b @ d) (absorbed h) else None)) \<and>
     (\<forall>h d. fst (p_hash_finish p h) = Some d \<longrightarrow> map_option sha (absorbed h) = Some d)"

lemma platform_okD:
  assumes "platform_ok p written bootable absorbed sha"
  shows "fst (p_begin p f) = ESP_OK \<Longrightarrow> written (snd (p_begin p f)) = Some []"
    "written (snd (p_write p d f)) = (if fst (p_write p d f) = ESP_OK then map_option (\<lambda>w. w @ d) (written f) else None)"
    "fst (p_end p f) = ESP_OK \<Longrightarrow> written (snd (p_end p f)) = written f"
    "fst (p_set_boot p f) = ESP_OK \<Longrightarrow> bootable (snd (p_set_boot p f)) = written f"
    "p_hash_setup p = Some h \<Longrightarrow> absorbed h = Some []"
    "absorbed (snd (p_hash_update p d h)) = (if fst (p_hash_update p d h) then map_option (\<lambda>b. b @ d) (absorbed h) else None)"
    "fst (p_hash_finish p h) = Some d \<Longrightarrow> map_option sha (absorbed h) = Some d"
  apply (rule assms [unfolded platform_ok_def, THEN conjunct1, rule_format], assumption)
  apply (rule assms [unfolded platform_ok_def, THEN conjunct2, THEN conjunct1, rule_format])
  apply (rule assms [unfolded platform_ok_def, THEN conjunct2, THEN conjunct2, THEN conjunct1, rule_format], assumption)
  apply (rule assms [unfolded platform_ok_def, THEN conjunct2, THEN conjunct2, THEN conjunct2, THEN conjunct1, rule_format], assumption)
  apply (rule assms [unfolded platform_ok_def, THEN conjunct2, THEN conjunct2, THEN conjunct2, THEN conjunct2, THEN conjunct1, rule_format], assumption)
  apply (rule assms [unfolded platform_ok_def, THEN conjunct2, THEN conjunct2, THEN conjunct2, THEN conjunct2, THEN conjunct2, THEN conjunct1, rule_format])
  apply (rule assms [unfolded platform_ok_def, THEN conjunct2, THEN conjunct2, THEN conjunct2, THEN conjunct2, THEN conjunct2, THEN conjunct2, rule_format], assumption)
  done

text \<open>Flash and hash have taken the same bytes.\<close>

definition flash_is_hashed where
  "flash_is_hashed p written bootable absorbed sha prefix s \<longleftrightarrow>
     (s_session_active s \<longrightarrow> s_partial_valid s) \<and> s_topic_image_prefix s = prefix \<and>
     (platform_ok p written bootable absorbed sha \<longrightarrow> s_partial_valid s \<longrightarrow>
       (\<forall>w b. written (s_flash s) = Some w \<longrightarrow> absorbed (s_sha_op s) = Some b \<longrightarrow> w = b))"

lemma handle_chunk_eq:
  assumes "p_write p data (s_flash s) = (err, f)" "p_hash_update p data (s_sha_op s) = (success, h)"
  shows "handle_image_chunk p index data offset total_len s =
    (if \<not> s_session_active s then s
     else if offset \<noteq> 0 \<or> total_len \<noteq> bytes_len data then s\<lparr>s_bit_fail := True\<rparr>
     else if index \<noteq> s_next_chunk s then s
     else if bytes_len data \<noteq> expected_len s then s\<lparr>s_bit_fail := True\<rparr>
     else if err \<noteq> ESP_OK then s\<lparr>s_flash := f, s_bit_fail := True\<rparr>
     else if \<not> success then s\<lparr>s_flash := f, s_sha_op := h, s_bit_fail := True\<rparr>
     else s\<lparr>s_flash := f, s_sha_op := h, s_next_chunk := index + 1, s_received := s_received s + bytes_len data,
       s_bit_chunk := True\<rparr>)"
  using assms by (simp add: handle_image_chunk_def)

lemma flash_is_hashed_chunk:
  assumes "flash_is_hashed p written bootable absorbed sha prefix s"
  shows "flash_is_hashed p written bootable absorbed sha prefix (handle_image_chunk p index data offset total_len s)"
proof -
  obtain err f success h where w: "p_write p data (s_flash s) = (err, f)" and h: "p_hash_update p data (s_sha_op s) = (success, h)"
    by fastforce
  have l: "written f = (if err = ESP_OK then map_option (\<lambda>w. w @ data) (written (s_flash s)) else None)"
    "absorbed h = (if success then map_option (\<lambda>b. b @ data) (absorbed (s_sha_op s)) else None)"
    if "platform_ok p written bootable absorbed sha"
    using platform_okD(2) [OF that, of data "s_flash s"] platform_okD(6) [OF that, of data "s_sha_op s"] w h by simp_all
  show ?thesis
    using assms l unfolding handle_chunk_eq [OF w h]
    by (cases "err = ESP_OK"; cases success) (auto simp: flash_is_hashed_def)
qed

interpretation hashed: ota_download p prefix "\<lambda>_ _. True" "\<lambda>_. True"
  "flash_is_hashed p written bootable absorbed sha prefix" for p prefix written bootable absorbed sha
proof (unfold_locales, goal_cases)
  case (5 s index data offset total_len)
  then show ?case by (intro flash_is_hashed_chunk)
next
  case (6 s slot m h)
  then show ?case
    by (auto simp: flash_is_hashed_def fresh_partial_def platform_okD)
qed (auto simp: flash_is_hashed_def dl_view_def)

text \<open>
  Whatever the flash driver does: a platform with a ledger of the bytes whose writes the driver accepted
  since the last begin it accepted. The program cannot see the ledger, so it runs on \<open>ledger p\<close> as on
  \<open>p\<close>. Only the hash is assumed to do what it says.
\<close>

definition ledger :: "('f, 'h) ota_platform \<Rightarrow> ('f \<times> u8 list, 'h) ota_platform" where
  "ledger p = \<lparr>p_version = p_version p, p_slot_size = p_slot_size p,
     p_begin = (\<lambda>(f, l). let (err, f) = p_begin p f in (err, f, if err = ESP_OK then [] else l)),
     p_write = (\<lambda>d (f, l). let (err, f) = p_write p d f in (err, f, if err = ESP_OK then l @ d else l)),
     p_end = (\<lambda>(f, l). let (err, f) = p_end p f in (err, f, l)), p_abort = (\<lambda>(f, l). (p_abort p f, l)),
     p_set_boot = (\<lambda>(f, l). let (err, f) = p_set_boot p f in (err, f, l)), p_hash_setup = p_hash_setup p,
     p_hash_update = p_hash_update p, p_hash_finish = p_hash_finish p, p_hash_abort = p_hash_abort p\<rparr>"

lemma ledger_ops:
  "fst (p_begin (ledger p) x) = fst (p_begin p (fst x))"
  "fst (p_begin (ledger p) x) = ESP_OK \<Longrightarrow> snd (snd (p_begin (ledger p) x)) = []"
  "p_write (ledger p) d x = (fst (p_write p d (fst x)), snd (p_write p d (fst x)),
     if fst (p_write p d (fst x)) = ESP_OK then snd x @ d else snd x)"
  "p_end (ledger p) x = (fst (p_end p (fst x)), snd (p_end p (fst x)), snd x)"
  "p_set_boot (ledger p) x = (fst (p_set_boot p (fst x)), snd (p_set_boot p (fst x)), snd x)"
  "p_hash_setup (ledger p) = p_hash_setup p" "p_hash_update (ledger p) = p_hash_update p"
  "p_hash_finish (ledger p) = p_hash_finish p"
  by (cases x; simp add: ledger_def split_beta Let_def)+

definition hash_ok ::
  "('f, 'h) ota_platform \<Rightarrow> ('h \<Rightarrow> u8 list option) \<Rightarrow> (u8 list \<Rightarrow> u8 list) \<Rightarrow> bool" where
  "hash_ok p absorbed sha \<longleftrightarrow>
     (\<forall>h. p_hash_setup p = Some h \<longrightarrow> absorbed h = Some []) \<and>
     (\<forall>d h. absorbed (snd (p_hash_update p d h)) =
        (if fst (p_hash_update p d h) then map_option (\<lambda>b. b @ d) (absorbed h) else None)) \<and>
     (\<forall>h d. fst (p_hash_finish p h) = Some d \<longrightarrow> map_option sha (absorbed h) = Some d)"

lemma hash_okD:
  assumes "hash_ok p absorbed sha"
  shows "p_hash_setup p = Some h \<Longrightarrow> absorbed h = Some []"
    "absorbed (snd (p_hash_update p d h)) = (if fst (p_hash_update p d h) then map_option (\<lambda>b. b @ d) (absorbed h) else None)"
    "fst (p_hash_finish p h) = Some d' \<Longrightarrow> map_option sha (absorbed h) = Some d'"
  using assms unfolding hash_ok_def by blast+

text \<open>The hash has taken exactly the bytes of the ledger, unless an update of it failed.\<close>

definition log_is_hashed where
  "log_is_hashed p absorbed sha prefix s \<longleftrightarrow>
     (s_session_active s \<longrightarrow> s_partial_valid s) \<and> s_topic_image_prefix s = prefix \<and>
     (hash_ok p absorbed sha \<longrightarrow> s_partial_valid s \<longrightarrow>
       (\<forall>b. absorbed (s_sha_op s) = Some b \<longrightarrow> b = snd (s_flash s)))"

lemma log_is_hashed_chunk:
  assumes "log_is_hashed p absorbed sha prefix s"
  shows "log_is_hashed p absorbed sha prefix (handle_image_chunk (ledger p) index data offset total_len s)"
proof -
  obtain err f success h where w: "p_write p data (fst (s_flash s)) = (err, f)" and h: "p_hash_update p data (s_sha_op s) = (success, h)"
    by fastforce
  have w': "p_write (ledger p) data (s_flash s) = (err, f, if err = ESP_OK then snd (s_flash s) @ data else snd (s_flash s))"
    using w by (simp add: ledger_ops)
  have h': "p_hash_update (ledger p) data (s_sha_op s) = (success, h)" using h by (simp add: ledger_ops)
  have l: "absorbed h = (if success then map_option (\<lambda>b. b @ data) (absorbed (s_sha_op s)) else None)"
    if "hash_ok p absorbed sha"
    using hash_okD(2) [OF that, of data "s_sha_op s"] h by simp
  show ?thesis
    using assms l unfolding handle_chunk_eq [OF w' h']
    by (cases "err = ESP_OK"; cases success) (auto simp: log_is_hashed_def)
qed

interpretation logged: ota_download "ledger p" prefix "\<lambda>_ _. True" "\<lambda>_. True"
  "log_is_hashed p absorbed sha prefix" for p prefix absorbed sha
proof (unfold_locales, goal_cases)
  case (5 s index data offset total_len)
  then show ?case by (intro log_is_hashed_chunk)
next
  case (6 s slot m h)
  then show ?case
    by (auto simp: log_is_hashed_def fresh_partial_def ledger_ops hash_okD)
qed (auto simp: log_is_hashed_def dl_view_def)

text \<open>
  What has been taken is a prefix of the staged image, counted in chunks, as long as the broker hands
  out the chunks of one image.
\<close>

definition chunks_of :: "ota_manifest \<Rightarrow> u32" where
  "chunks_of m = (m_size m + m_chunk_size m - 1) div m_chunk_size m"

definition staging_ok :: "ota_manifest \<Rightarrow> u8 list \<Rightarrow> bool" where
  "staging_ok m img \<longleftrightarrow> 0 < m_chunk_size m \<and> unat (m_size m) = length img \<and> length img + unat (m_chunk_size m) < 2 ^ 32"

definition is_chunk :: "ota_manifest \<Rightarrow> u8 list \<Rightarrow> u32 \<Rightarrow> u8 list \<Rightarrow> bool" where
  "is_chunk m img i data \<longleftrightarrow> i < chunks_of m \<and>
     data = take (unat (m_chunk_size m)) (drop (unat i * unat (m_chunk_size m)) img)"

definition staged_prefix where
  "staged_prefix p written bootable absorbed sha prefix m img s \<longleftrightarrow>
     flash_is_hashed p written bootable absorbed sha prefix s \<and>
     (platform_ok p written bootable absorbed sha \<longrightarrow> s_partial_valid s \<longrightarrow>
       s_next_chunk s \<le> chunks_of m \<and>
       (\<forall>b. absorbed (s_sha_op s) = Some b \<longrightarrow> b = take (unat (s_next_chunk s) * unat (m_chunk_size m)) img))"

lemma unat_inc: "(x :: u32) < y \<Longrightarrow> unat (x + 1) = unat x + 1"
proof -
  assume "x < y"
  then have "unat x < unat y" by (simp only: word_less_nat_alt)
  from this unat_u32_less [of y] have "unat x + 1 < 4294967296" by linarith
  then show ?thesis using unat_add_no_overflow [of x 1] by simp
qed

lemma staged_prefix_chunk:
  assumes "staged_prefix p written bootable absorbed sha prefix m img s" "is_chunk m img index data"
  shows "staged_prefix p written bootable absorbed sha prefix m img (handle_image_chunk p index data offset total_len s)"
proof -
  obtain err f success h where w: "p_write p data (s_flash s) = (err, f)" and h: "p_hash_update p data (s_sha_op s) = (success, h)"
    by fastforce
  have l: "absorbed h = (if success then map_option (\<lambda>b. b @ data) (absorbed (s_sha_op s)) else None)"
    if "platform_ok p written bootable absorbed sha"
    using platform_okD(6) [OF that, of data "s_sha_op s"] h by simp
  have n: "index + 1 \<le> chunks_of m" "unat (index + 1) = unat index + 1"
    using assms(2) inc_le unat_inc by (auto simp: is_chunk_def)
  have t: "take (unat (index + 1) * unat (m_chunk_size m)) img =
      take (unat index * unat (m_chunk_size m)) img @ data"
  proof -
    have "unat (index + 1) * unat (m_chunk_size m) = unat index * unat (m_chunk_size m) + unat (m_chunk_size m)"
      unfolding n(2) by simp
    then show ?thesis using assms(2) by (simp only: take_add is_chunk_def)
  qed
  show ?thesis
    using assms(1) l n(1) t flash_is_hashed_chunk [of p written bootable absorbed sha prefix s index data offset total_len]
    unfolding handle_chunk_eq [OF w h]
    by (cases "err = ESP_OK"; cases success) (auto simp: staged_prefix_def)
qed

interpretation staged: ota_growing p prefix "is_chunk m img" "\<lambda>m'. sameImage m' m"
  "staged_prefix p written bootable absorbed sha prefix m img" for p prefix m img written bootable absorbed sha
proof (unfold_locales, goal_cases)
  case (5 s index data offset total_len)
  then show ?case by (intro staged_prefix_chunk)
next
  case (6 s slot m h)
  then show ?case by (auto simp: staged_prefix_def flash_is_hashed_def fresh_partial_def platform_okD)
next
  case (7 s index data offset total_len)
  obtain err f success h where w: "p_write p data (s_flash s) = (err, f)" and h: "p_hash_update p data (s_sha_op s) = (success, h)"
    by fastforce
  have "unat index + 1 = unat (index + 1)" using 7(2) unat_inc by (auto simp: is_chunk_def)
  then have "index \<le> index + 1" by (simp add: word_le_nat_alt)
  then show ?case unfolding handle_chunk_eq [OF w h] by auto
qed (auto simp: staged_prefix_def flash_is_hashed_def dl_view_def)

section \<open>Histories\<close>

text \<open>
  Any sequence of messages and sessions since boot, with the chunk messages and the staged manifests of
  the sessions restricted.
\<close>

inductive ota_reach ::
  "('f, 'h) ota_platform \<Rightarrow> string \<Rightarrow> (u32 \<Rightarrow> u8 list \<Rightarrow> bool) \<Rightarrow> (ota_manifest \<Rightarrow> bool) \<Rightarrow> ('f, 'h) ota \<Rightarrow> bool"
  for p prefix good staged where
  boot: "\<not> s_partial_valid s \<Longrightarrow> \<not> s_session_active s \<Longrightarrow> s_topic_image_prefix s = prefix \<Longrightarrow> ota_reach p prefix good staged s"
| message: "ota_reach p prefix good staged s \<Longrightarrow> carried prefix good e \<Longrightarrow>
    ota_reach p prefix good staged (ota_handle_event p e s)"
| session: "ota_reach p prefix good staged s \<Longrightarrow> staged (s_manifest s) \<Longrightarrow> waits_carried prefix good ws \<Longrightarrow>
    ota_run_session p client battery ws s = Inr (False, acts, s') \<Longrightarrow> ota_reach p prefix good staged s'"

context ota_download
begin

lemma reach: "ota_reach p prefix good staged s \<Longrightarrow> J s \<and> \<not> s_session_active s"
proof (induction rule: ota_reach.induct)
  case (boot s)
  then show ?case using idle by blast
next
  case (message s e)
  have "session_view (ota_handle_event p e s) = session_view s" by (rule event_session_view)
  then show ?case using message event by (simp add: session_view_def)
next
  case (session s ws client battery acts s')
  then show ?case using session_keeps [OF session.hyps(4)] by blast
qed

end

lemma staged_whole:
  assumes "staging_ok m img"
  shows "udiv (m_size m + m_chunk_size m - 1) (m_chunk_size m) = Some (chunks_of m)"
    "take (unat (chunks_of m) * unat (m_chunk_size m)) img = img"
proof -
  have pos: "1 \<le> unat (m_chunk_size m)" using assms by (simp add: staging_ok_def word_less_nat_alt)
  then show "udiv (m_size m + m_chunk_size m - 1) (m_chunk_size m) = Some (chunks_of m)"
    by (auto simp: udiv_def chunks_of_def)
  have a: "unat (m_size m + m_chunk_size m) = length img + unat (m_chunk_size m)"
    using assms unat_add_no_overflow [of "m_size m" "m_chunk_size m"] by (simp add: staging_ok_def)
  then have "1 \<le> m_size m + m_chunk_size m" using pos by (simp add: word_le_nat_alt)
  then have "unat (m_size m + m_chunk_size m - 1) = length img + unat (m_chunk_size m) - 1"
    using a by (simp add: unat_sub)
  then have "unat (chunks_of m) = (length img + (unat (m_chunk_size m) - 1)) div unat (m_chunk_size m)"
    using pos by (simp add: chunks_of_def unat_div)
  moreover have "n \<le> (n + (c - 1)) div c * c" if "1 \<le> c" for n c :: nat
  proof -
    have "(n + (c - 1)) mod c < c" using that by simp
    then show ?thesis using div_mult_mod_eq [of "n + (c - 1)" c] by linarith
  qed
  ultimately show "take (unat (chunks_of m) * unat (m_chunk_size m)) img = img" using pos by simp
qed

section \<open>Ending\<close>

definition messages_in :: "ota_wait list \<Rightarrow> nat" where
  "messages_in ws = sum_list (map (\<lambda>w. length (w_before w) + length (w_after w)) ws)"

text \<open>A message completes at most one chunk, and only a completed chunk raises its bit.\<close>

lemma chunk_counts:
  "s_next_chunk (handle_image_chunk p index data offset total_len s) = s_next_chunk s \<and>
   s_bit_chunk (handle_image_chunk p index data offset total_len s) = s_bit_chunk s \<or>
   s_next_chunk (handle_image_chunk p index data offset total_len s) = s_next_chunk s + 1"
proof -
  obtain err f success h where w: "p_write p data (s_flash s) = (err, f)" and h: "p_hash_update p data (s_sha_op s) = (success, h)"
    by fastforce
  show ?thesis unfolding handle_chunk_eq [OF w h] by simp
qed

lemma event_counts:
  "s_next_chunk (ota_handle_event p e s) = s_next_chunk s \<and> s_bit_chunk (ota_handle_event p e s) = s_bit_chunk s \<or>
   s_next_chunk (ota_handle_event p e s) = s_next_chunk s + 1"
  by (cases e)
    (simp_all add: ota_on_mqtt_data_def ota_on_mqtt_error_def handle_manifest_def chunk_counts split: option.split)

lemma events_count:
  "unat (s_next_chunk s) + length evs < 2 ^ 32 \<Longrightarrow> s' = ota_events p evs s \<Longrightarrow>
   unat (s_next_chunk s) \<le> unat (s_next_chunk s') \<and> unat (s_next_chunk s') \<le> unat (s_next_chunk s) + length evs \<and>
   (s_bit_chunk s' \<longrightarrow> s_bit_chunk s \<or> unat (s_next_chunk s) < unat (s_next_chunk s'))"
proof (induction evs arbitrary: s)
  case (Cons e evs)
  let ?s1 = "ota_handle_event p e s"
  have r: "s' = ota_events p evs ?s1" using Cons.prems(2) by (simp add: ota_events_def)
  have "unat (s_next_chunk s) + 1 < 2 ^ LENGTH(32)" using Cons.prems(1) by simp
  then have inc: "unat (s_next_chunk s + 1) = unat (s_next_chunk s) + 1"
    using unat_add_no_overflow [of "s_next_chunk s" 1] by simp
  consider (same) "s_next_chunk ?s1 = s_next_chunk s" "s_bit_chunk ?s1 = s_bit_chunk s" | (one) "s_next_chunk ?s1 = s_next_chunk s + 1"
    using event_counts [of p e s] by blast
  then show ?case
  proof cases
    case same
    then show ?thesis using Cons.IH [OF _ r] Cons.prems(1) by auto
  next
    case one
    then show ?thesis using Cons.IH [OF _ r] Cons.prems(1) inc by auto
  qed
qed (simp add: ota_events_def)

text \<open>Two waits per missing chunk, one more when a completed chunk has left its bit behind.\<close>

lemma loop_ends:
  "unat done \<le> unat (s_next_chunk s) \<Longrightarrow> unat (s_next_chunk s) + messages_in ws < 2 ^ 32 \<Longrightarrow>
   2 * (unat t - unat done) + (if s_bit_chunk s \<and> s_next_chunk s = done then 1 else 0) \<le> length ws \<Longrightarrow>
   \<exists>r. session_loop p client t every ws ok done (reason, acts, s) = Inr r"
proof (induction ws arbitrary: ok "done" reason acts s)
  case Nil
  then have "\<not> done < t" by (simp add: word_less_nat_alt)
  then show ?case by simp
next
  case (Cons w ws)
  show ?case
  proof (cases "ok \<and> done < t")
    case True
    let ?s1 = "ota_events p (w_before w) s"
    let ?c1 = "?s1\<lparr>s_bit_chunk := False, s_bit_fail := False\<rparr>"
    let ?s2 = "ota_events p (w_after w) ?c1"
    have msgs: "messages_in (w # ws) = length (w_before w) + length (w_after w) + messages_in ws"
      by (simp add: messages_in_def)
    have e1: "unat (s_next_chunk s) + length (w_before w) < 2 ^ 32" using Cons.prems(2) msgs by simp
    note n1 = events_count [OF e1 refl, of p]
    have e2: "unat (s_next_chunk ?c1) + length (w_after w) < 2 ^ 32" using Cons.prems(2) msgs n1 by simp
    note n2 = events_count [OF e2 refl, of p]
    have dt: "unat done < unat t" using True by (simp add: word_less_nat_alt)
    obtain o1 r1 a1 s3 where tu: "top_up client t every (u32_range done (s_next_chunk ?s2)) (reason, acts, ?s2) = (o1, r1, a1, s3)"
      by (metis prod.exhaust)
    from top_up_state [OF this] obtain u where u: "s3 = ?s2\<lparr>s_undelivered_status := u\<rparr>" by blast
    have m2: "unat (s_next_chunk ?s2) + messages_in ws < 2 ^ 32" using Cons.prems(2) msgs n1 n2 by simp
    show ?thesis
    proof (cases "s_next_chunk ?s2 = done")
      case same: True
      then have eq: "s_next_chunk s = done" "s_next_chunk ?s1 = done"
        using n1 n2 Cons.prems(1) by (simp_all add: word_unat_eq_iff)
      then have bits: "s_bit_chunk ?s1 \<longrightarrow> s_bit_chunk s" "\<not> s_bit_chunk ?s2" using n1 n2 same by simp_all
      have "\<exists>r. session_loop p client t every ws True done (reason, acts, ?s2) = Inr r" if "s_bit_chunk ?s1"
        using that bits eq Cons.prems(3) same m2 by (intro Cons.IH) simp_all
      then show ?thesis using True same by (auto simp: Let_def)
    next
      case False
      then have lt: "unat done < unat (s_next_chunk ?s2)"
        using n1 n2 Cons.prems(1) by (simp add: word_unat_eq_iff)
      have "\<exists>r. session_loop p client t every ws o1 (s_next_chunk ?s2) (r1, a1, s3) = Inr r"
        using lt dt Cons.prems(3) m2 by (intro Cons.IH) (auto simp: u)
      then show ?thesis using True False tu by (auto simp: Let_def)
    qed
  qed simp
qed

lemma prepare_next:
  "prepare_partial p client m (acts, s) = (proceed, acts', s') \<Longrightarrow> s_next_chunk s' = s_next_chunk s \<or> s_next_chunk s' = 0"
proof -
  let ?s1 = "if s_partial_valid s \<and> \<not> sameImage m (s_partial_manifest s) then discard_partial p s else s"
  assume run: "prepare_partial p client m (acts, s) = (proceed, acts', s')"
  have b: "s_next_chunk s' = s_next_chunk t \<or> s_next_chunk s' = 0"
    if "begin_partial p client m (acts, t) = (proceed, acts', s')" for t
    using that by (auto simp: begin_partial_def failed_attempt_def publish_status_eq discard_partial_def Let_def
        split: option.splits prod.splits if_splits)
  have "s_next_chunk ?s1 = s_next_chunk s \<or> s_next_chunk ?s1 = 0" by (simp add: discard_partial_def)
  then show ?thesis using run b [of ?s1] by (auto simp: prepare_partial_def Let_def split: if_splits)
qed

lemma pull_ends:
  assumes "unat (s_next_chunk s) + messages_in ws < 2 ^ 32" "2 * unat t \<le> length ws"
  shows "\<exists>r. pull_session p client ws m t (acts, s) = Inr r"
proof -
  obtain a1 s1 where pub: "publish_status client (Starting (m_version m) (m_size m) t (s_next_chunk s)) (acts, s) = (a1, s1)"
    by fastforce
  let ?s0 = "s1\<lparr>s_bit_chunk := False, s_bit_fail := False, s_session_active := True\<rparr>"
  obtain ok r0 a0 s0 where pw: "prime_window client
      (u32_range (s_next_chunk s) (min (s_next_chunk s + SUBSCRIBE_PIPELINE) t))
      (NoReason, a1 @ [OtaWindowBegin, TxPowerPin], ?s0) = (ok, r0, a0, s0)"
    by (metis prod.exhaust)
  have "s_next_chunk s0 = s_next_chunk s" "\<not> s_bit_chunk s0"
    using pub by (auto simp: prime_state [OF pw] publish_status_eq)
  then have "\<exists>r. session_loop p client t (max (t div 10) 1) ws ok (s_next_chunk s) (r0, a0, s0) = Inr r"
    using assms by (intro loop_ends) auto
  then obtain d r1 a2 s2 where
    "session_loop p client t (max (t div 10) 1) ws ok (s_next_chunk s) (r0, a0, s0) = Inr (d, r1, a2, s2)"
    by (metis prod.exhaust)
  then show ?thesis using pub pw by (simp add: pull_session_def Let_def) (metis prod.exhaust)
qed

section \<open>The staging tool's manifest\<close>

text \<open>What \<open>tools/ota_push.py\<close> writes (\<open>json.dumps\<close> of the five fields) as pieces between quotes.\<close>

definition between_quotes :: "string list \<Rightarrow> string" where
  "between_quotes ws = concat (map (\<lambda>w. CHR 0x22 # w) ws)"

definition manifest_text :: "string \<Rightarrow> u32 \<Rightarrow> u8 list \<Rightarrow> u32 \<Rightarrow> bool \<Rightarrow> string" where
  "manifest_text version sz sha chunk_size force =
    ''{'' @ between_quotes [''version'', '': '', version, '', '', ''size'', '': '' @ render_nat (unat sz) @ '', '',
      ''sha256'', '': '', render_hex sha, '', '', ''chunk_size'', '': '' @ render_nat (unat chunk_size) @ '', '',
      ''force'', '': '' @ (if force then ''true'' else ''false'') @ ''}'']"

lemma quoted_piece:
  assumes "CHR 0x22 \<notin> set key" "CHR 0x22 \<notin> set w" "take (length (quoted key)) (CHR 0x22 # w @ CHR 0x22 # r) = quoted key"
  shows "w = key"
proof -
  have "take (length key + 1) (w @ CHR 0x22 # r) = key @ [CHR 0x22]" using assms(3) by (simp add: quoted_def)
  then have "w @ CHR 0x22 # r = key @ CHR 0x22 # drop (length key + 1) (w @ CHR 0x22 # r)"
    by (metis append_take_drop_id append.assoc append_Cons append_Nil)
  moreover have "takeWhile (\<lambda>c. c \<noteq> CHR 0x22) (x @ CHR 0x22 # y) = x" if "CHR 0x22 \<notin> set x" for x y
    using that by (subst takeWhile_append2) auto
  ultimately show ?thesis using assms(1,2) by metis
qed

lemma find_past: "CHR 0x22 \<notin> set w \<Longrightarrow> find_from (quoted key) (w @ r) pos = find_from (quoted key) r (pos + length w)"
  by (induction w arbitrary: pos) (auto simp: quoted_def)

lemma find_piece:
  assumes "CHR 0x22 \<notin> set key" "CHR 0x22 \<notin> set w" "w \<noteq> key"
  shows "find_from (quoted key) (CHR 0x22 # w @ CHR 0x22 # r) pos = find_from (quoted key) (CHR 0x22 # r) (pos + 1 + length w)"
proof -
  have "take (length (quoted key)) (CHR 0x22 # w @ CHR 0x22 # r) \<noteq> quoted key"
    using quoted_piece [OF assms(1,2)] assms(3) by blast
  then have "find_from (quoted key) (CHR 0x22 # w @ CHR 0x22 # r) pos = find_from (quoted key) (w @ CHR 0x22 # r) (pos + 1)"
    by simp
  then show ?thesis using find_past [OF assms(2)] by simp
qed

lemma find_between:
  assumes "CHR 0x22 \<notin> set key" "\<And>w. w \<in> set ws \<Longrightarrow> CHR 0x22 \<notin> set w \<and> w \<noteq> key"
  shows "find_from (quoted key) (between_quotes ws @ between_quotes (key # v # vs)) pos =
    Some (pos + length (between_quotes ws))"
  using assms(2)
proof (induction ws arbitrary: pos)
  case Nil
  show ?case by (simp add: between_quotes_def quoted_def find_from_here)
next
  case (Cons w ws)
  obtain r where r: "between_quotes ws @ between_quotes (key # v # vs) = CHR 0x22 # r"
    by (cases ws) (auto simp: between_quotes_def)
  have "between_quotes (w # ws) @ between_quotes (key # v # vs) = CHR 0x22 # w @ CHR 0x22 # r"
    using r by (simp add: between_quotes_def)
  then have "find_from (quoted key) (between_quotes (w # ws) @ between_quotes (key # v # vs)) pos =
      find_from (quoted key) (between_quotes ws @ between_quotes (key # v # vs)) (pos + 1 + length w)"
    using find_piece [OF assms(1)] Cons.prems r by simp
  also have "\<dots> = Some (pos + 1 + length w + length (between_quotes ws))" by (rule Cons.IH) (use Cons.prems in simp)
  finally show ?case by (simp add: between_quotes_def)
qed

lemma field_between:
  assumes "CHR 0x22 \<notin> set key" "\<And>w. w \<in> set ws \<Longrightarrow> CHR 0x22 \<notin> set w \<and> w \<noteq> key"
  shows "manifest_field (''{'' @ between_quotes (ws @ key # v # vs)) key = manifest_value (v @ between_quotes vs)"
proof -
  have b: "between_quotes (ws @ key # v # vs) = between_quotes ws @ between_quotes (key # v # vs)"
    by (simp add: between_quotes_def)
  have "find_from (quoted key) (''{'' @ between_quotes (ws @ key # v # vs)) 0 = Some (1 + length (between_quotes ws))"
    using find_past [of "''{''" key "between_quotes (ws @ key # v # vs)" 0] find_between [OF assms, where ws = ws and pos = 1] b by simp
  then show ?thesis
    by (simp add: manifest_field_def str_find_def b) (simp add: between_quotes_def quoted_def)
qed

lemma string_value:
  assumes "CHR 0x22 \<notin> set w"
  shows "manifest_value ('': '' @ between_quotes (w # v # vs)) = Some w"
proof -
  have "find_from [CHR 0x22] (w @ CHR 0x22 # v @ concat (map ((#) CHR 0x22) vs)) 0 = Some (0 + length w)"
    by (rule find_from_skip) (use assms in auto)
  then show ?thesis by (simp add: manifest_value_def between_quotes_def str_find_def)
qed

lemma bare_value:
  assumes "w \<noteq> []" "\<And>c. c \<in> set w \<Longrightarrow> c \<noteq> CHR '','' \<and> c \<noteq> CHR ''}'' \<and> c \<noteq> CHR '' '' \<and> c \<noteq> CHR '':'' \<and> c \<noteq> CHR 0x22"
    and "q = CHR '','' \<or> q = CHR ''}''"
  shows "manifest_value ('': '' @ w @ q # r) = Some w"
proof -
  obtain c w' where w: "w = c # w'" using assms(1) by (cases w) auto
  have "takeWhile (\<lambda>c. c \<noteq> CHR '','' \<and> c \<noteq> CHR ''}'' \<and> c \<noteq> CHR '' '') (w @ q # r) = w"
    using assms(2,3) by (subst takeWhile_append2) auto
  then show ?thesis using assms(2) [of c] by (simp add: manifest_value_def w)
qed

lemma render_nat_plain: "c \<in> set (render_nat n) \<Longrightarrow> c \<noteq> CHR '','' \<and> c \<noteq> CHR ''}'' \<and> c \<noteq> CHR '' '' \<and> c \<noteq> CHR '':'' \<and> c \<noteq> CHR 0x22"
  using render_nat_digits [of n] by (auto simp: list_all_iff is_digit_def char_code_def)

lemma sha_nibble_char: "d < 16 \<Longrightarrow> sha_nibble (hex_char d) = Some d"
  by (simp add: sha_nibble_def hex_char_def char_code_def)

lemma sha_bytes_render: "sha_bytes (render_hex bs) = Some bs"
proof (induction bs)
  case (Cons b bs)
  have "unat b div 16 < 16" "unat b mod 16 < 16" using unat_u8_less [of b] by (simp_all add: less_mult_imp_div_less)
  with Cons show ?case by (simp add: render_hex_def sha_nibble_char)
qed (simp add: render_hex_def)

lemma hex_no_quote: "CHR 0x22 \<notin> set (render_hex bs)"
proof
  assume "CHR 0x22 \<in> set (render_hex bs)"
  then obtain b :: u8 where "CHR 0x22 = hex_char (unat b div 16) \<or> CHR 0x22 = hex_char (unat b mod 16)"
    by (auto simp: render_hex_def)
  moreover have "unat b div 16 < 16" "unat b mod 16 < 16" using unat_u8_less [of b] by (simp_all add: less_mult_imp_div_less)
  ultimately obtain d where "d < 16" "CHR 0x22 = hex_char d" by metis
  moreover have "sha_nibble (CHR 0x22) = None" by (simp add: sha_nibble_def char_code_def)
  ultimately show False using sha_nibble_char [of d] by simp
qed

section \<open>A platform on lists\<close>

type_synonym list_flash = "u8 list option \<times> u8 list option"

definition toy_hash :: "u8 list \<Rightarrow> u8 list" where
  "toy_hash b = replicate 32 (of_nat (length b))"

definition list_platform :: "(list_flash, u8 list option) ota_platform" where
  "list_platform = \<lparr>p_version = ''1'', p_slot_size = Some 1000, p_begin = (\<lambda>f. (ESP_OK, Some [], snd f)),
     p_write = (\<lambda>d f. (ESP_OK, map_option (\<lambda>w. w @ d) (fst f), snd f)), p_end = (\<lambda>f. (ESP_OK, f)),
     p_abort = (\<lambda>f. f), p_set_boot = (\<lambda>f. (ESP_OK, fst f, fst f)), p_hash_setup = Some (Some []),
     p_hash_update = (\<lambda>d h. (True, map_option (\<lambda>b. b @ d) h)),
     p_hash_finish = (\<lambda>h. (map_option toy_hash h, h)), p_hash_abort = (\<lambda>h. h)\<rparr>"

lemma list_platform_ok: "platform_ok list_platform fst snd id toy_hash"
  by (simp add: platform_ok_def list_platform_def)

definition small_manifest :: ota_manifest where
  "small_manifest = \<lparr>m_version = ''2'', m_size = 3, m_chunk_size = 2, m_sha256 = replicate 32 3, m_force = False,
     m_valid = True, m_differs_from_running = True\<rparr>"

definition staged_node :: "(list_flash, u8 list option) ota" where
  "staged_node = ota_updater_init ''s''
     \<lparr>s_topic_manifest = [], s_topic_image_prefix = [], s_topic_install = [], s_topic_installed = [], s_topic_status = [],
      s_manifest = small_manifest, s_install_requested = True, s_session_active = False, s_conn_lost = False,
      s_no_progress_attempts = 0, s_partial_valid = False, s_partial_manifest = no_manifest, s_next_chunk = 0,
      s_received = 0, s_ota_handle = False, s_flash = (None, None), s_sha_op = None, s_bit_chunk = False,
      s_bit_fail = False, s_undelivered_status = None\<rparr>"

definition chunk_event :: "nat \<Rightarrow> u8 list \<Rightarrow> ota_event" where
  "chunk_event i data = OtaData (''s/ota/image/'' @ render_nat i) data 0 (bytes_len data)"

definition small_waits :: "ota_wait list" where
  "small_waits =
    [\<lparr>w_before = [chunk_event 0 [7, 8]], w_after = [], w_cap = False\<rparr>,
     \<lparr>w_before = [chunk_event 1 [9]], w_after = [], w_cap = False\<rparr>]"

lemma chunk_event_step:
  assumes "s_topic_image_prefix s = ''s/ota/image/''" "i < 4294967296"
  shows "ota_handle_event p (chunk_event i data) s = handle_image_chunk p (of_nat i) data 0 (bytes_len data) s"
proof -
  have "from_chars_uint 32 (render_nat i) = Some (i, [])" using assms(2) by (intro from_chars_uint_render) simp
  then show ?thesis using assms(1)
    by (simp add: chunk_event_def ota_on_mqtt_data_def starts_with_text_def)
qed

lemma chunk_event_carried:
  "i < 4294967296 \<Longrightarrow> carried ''s/ota/image/'' good (chunk_event i data) = good (of_nat i) data"
proof -
  assume "i < 4294967296"
  then have "from_chars_uint 32 (render_nat i) = Some (i, [])" by (intro from_chars_uint_render) simp
  then show ?thesis by (simp add: chunk_event_def starts_with_text_def)
qed

lemma small_run:
  "\<exists>acts s'. ota_run_session list_platform (\<lambda>_. True) None small_waits staged_node = Inr (True, acts, s') \<and>
    snd (s_flash s') = Some [7, 8, 9]"
proof -
  have r: "u32_range 0 2 = [0, 1]" "u32_range 0 1 = [0]" "u32_range 1 2 = [1]" by (simp_all add: u32_range_def upt_rec)
  have m: "min (2 :: u32) 2 = 2" "max (2 div 10 :: u32) 1 = 1" "min (2 :: u32) 3 = 2" "min (2 :: u32) 1 = 1"
    by (simp_all add: min_def max_def word_le_nat_alt)
  show ?thesis
    by (simp add: ota_run_session_def replay_status_def staged_node_def ota_updater_init_def small_manifest_def udiv_def
        prepare_partial_def begin_partial_def list_platform_def pull_session_def Let_def publish_status_eq r m
        SUBSCRIBE_PIPELINE_def subscribe_chunk_def small_waits_def ota_events_def chunk_event_step handle_image_chunk_def
        ota_topic_def expected_len_def bytes_len_def chunk_done_def finish_session_def verify_image_def
        discard_partial_def toy_hash_def)
qed

lemma staged_node_reach: "ota_reach list_platform ''s/ota/image/'' good staged staged_node"
  by (rule ota_reach.boot) (simp_all add: staged_node_def ota_updater_init_def ota_topic_def)

lemma staged_node_manifest: "s_manifest staged_node = small_manifest" "s_next_chunk staged_node = 0"
  by (simp_all add: staged_node_def ota_updater_init_def)

text \<open>
  A flash whose first write fails; its state counts the writes. The first session ends with the failed
  write, the second takes the download up again.
\<close>

definition flaky_platform :: "(nat, u8 list option) ota_platform" where
  "flaky_platform = \<lparr>p_version = ''1'', p_slot_size = Some 1000, p_begin = (\<lambda>f. (ESP_OK, f)),
     p_write = (\<lambda>d f. (if f = 0 then ESP_FAIL else ESP_OK, f + 1)), p_end = (\<lambda>f. (ESP_OK, f)),
     p_abort = (\<lambda>f. f), p_set_boot = (\<lambda>f. (ESP_OK, f)), p_hash_setup = Some (Some []),
     p_hash_update = (\<lambda>d h. (True, map_option (\<lambda>b. b @ d) h)),
     p_hash_finish = (\<lambda>h. (map_option toy_hash h, h)), p_hash_abort = (\<lambda>h. h)\<rparr>"

lemma flaky_hash_ok: "hash_ok flaky_platform id toy_hash"
  by (simp add: hash_ok_def flaky_platform_def)

definition flaky_node :: "(nat \<times> u8 list, u8 list option) ota" where
  "flaky_node = ota_updater_init ''s''
     \<lparr>s_topic_manifest = [], s_topic_image_prefix = [], s_topic_install = [], s_topic_installed = [], s_topic_status = [],
      s_manifest = small_manifest, s_install_requested = True, s_session_active = False, s_conn_lost = False,
      s_no_progress_attempts = 0, s_partial_valid = False, s_partial_manifest = no_manifest, s_next_chunk = 0,
      s_received = 0, s_ota_handle = False, s_flash = (0, []), s_sha_op = None, s_bit_chunk = False,
      s_bit_fail = False, s_undelivered_status = None\<rparr>"

lemma flaky_run:
  "\<exists>acts1 s1 acts s'.
    ota_run_session (ledger flaky_platform) (\<lambda>_. True) None small_waits flaky_node = Inr (False, acts1, s1) \<and>
    s_manifest s1 = small_manifest \<and>
    ota_run_session (ledger flaky_platform) (\<lambda>_. True) None small_waits s1 = Inr (True, acts, s') \<and>
    snd (s_flash s') = [7, 8, 9]"
proof -
  have r: "u32_range 0 2 = [0, 1]" "u32_range 0 1 = [0]" "u32_range 1 2 = [1]" by (simp_all add: u32_range_def upt_rec)
  have m: "min (2 :: u32) 2 = 2" "max (2 div 10 :: u32) 1 = 1" "min (2 :: u32) 3 = 2" "min (2 :: u32) 1 = 1"
    by (simp_all add: min_def max_def word_le_nat_alt)
  show ?thesis
    by (simp add: ota_run_session_def replay_status_def flaky_node_def ota_updater_init_def small_manifest_def udiv_def
        prepare_partial_def begin_partial_def flaky_platform_def ledger_def pull_session_def Let_def publish_status_eq r m
        SUBSCRIBE_PIPELINE_def subscribe_chunk_def small_waits_def ota_events_def chunk_event_step handle_image_chunk_def
        ota_topic_def expected_len_def bytes_len_def chunk_done_def finish_session_def verify_image_def
        discard_partial_def toy_hash_def sameImage_def)
qed

section \<open>Properties\<close>

text \<open>
  C10: Whatever the broker delivers, whatever the flash driver answers, and however the sessions before
  it ended, a session restarts the chip only after the hash of what the flash accepted matched: the
  bytes whose writes returned \<open>ESP_OK\<close> since the partition was last begun, in their order, have the hash
  of the staged manifest, and after them ending the write and selecting the partition for the boot both
  returned \<open>ESP_OK\<close>. Bytes whose write failed are not among those hashed. The hash operation is assumed
  to hash what its successful updates were given.
\<close>

theorem only_verified_image_boots:
  assumes "hash_ok p absorbed sha" "ota_reach (ledger p) prefix (\<lambda>_ _. True) (\<lambda>_. True) s"
    and "ota_run_session (ledger p) client battery ws s = Inr (True, acts, s')"
  shows "sha (snd (s_flash s')) = m_sha256 (s_manifest s) \<and>
    (\<exists>f. fst (p_end p f) = ESP_OK \<and> fst (p_set_boot p (snd (p_end p f))) = ESP_OK \<and>
      fst (s_flash s') = snd (p_set_boot p (snd (p_end p f))))"
proof -
  note r = logged.reach [OF assms(2), where absorbed = absorbed and sha = sha]
  have "waits_carried prefix (\<lambda>_ _. True) ws"
  proof -
    have "carried prefix (\<lambda>_ _. True) e" for e by (cases e) simp_all
    then show ?thesis by (simp add: waits_carried_def list_all_iff)
  qed
  from logged.session_keeps [OF assms(3) conjunct1 [OF r] conjunct2 [OF r] _ this] obtain s1 where
    s1: "log_is_hashed p absorbed sha prefix s1" "s_partial_valid s1"
      "boots (ledger p) (s_manifest s) s1 (s_flash s')" by auto
  note b = s1(3) [unfolded boots_def ledger_ops]
  obtain x where x: "absorbed (s_sha_op s1) = Some x" "sha x = m_sha256 (s_manifest s)"
    using hash_okD(3) [OF assms(1)] b by auto
  then have "x = snd (s_flash s1)" using s1(1,2) assms(1) by (simp add: log_is_hashed_def)
  with b x(2) show ?thesis by auto
qed

theorem only_verified_image_boots_witness:
  "\<exists>acts1 s1 acts s'.
    ota_run_session (ledger flaky_platform) (\<lambda>_. True) None small_waits flaky_node = Inr (False, acts1, s1) \<and>
    ota_run_session (ledger flaky_platform) (\<lambda>_. True) None small_waits s1 = Inr (True, acts, s') \<and>
    snd (s_flash s') = [7, 8, 9] \<and> toy_hash [7, 8, 9] = replicate 32 3"
proof -
  obtain acts1 s1 acts s' where r:
    "ota_run_session (ledger flaky_platform) (\<lambda>_. True) None small_waits flaky_node = Inr (False, acts1, s1)"
    "s_manifest s1 = small_manifest"
    "ota_run_session (ledger flaky_platform) (\<lambda>_. True) None small_waits s1 = Inr (True, acts, s')"
    "snd (s_flash s') = [7, 8, 9]" using flaky_run by blast
  have good: "waits_carried ''s/ota/image/'' (\<lambda>_ _. True) small_waits"
    by (simp add: waits_carried_def small_waits_def chunk_event_carried)
  have "ota_reach (ledger flaky_platform) ''s/ota/image/'' (\<lambda>_ _. True) (\<lambda>_. True) flaky_node"
    by (rule ota_reach.boot) (simp_all add: flaky_node_def ota_updater_init_def ota_topic_def)
  from ota_reach.session [OF this TrueI good r(1)]
  have "ota_reach (ledger flaky_platform) ''s/ota/image/'' (\<lambda>_ _. True) (\<lambda>_. True) s1" .
  from only_verified_image_boots [OF flaky_hash_ok this r(3)]
  have "toy_hash [7, 8, 9] = replicate 32 3" by (simp add: r(2,4) small_manifest_def)
  with r show ?thesis by blast
qed

text \<open>
  C5: When the broker hands out the chunks of one staged image, in any order, repeated, lost or cut off,
  and over any number of interrupted sessions, the image that a restart boots is that image, byte for
  byte.
\<close>

theorem staged_image_boots_byte_for_byte:
  assumes "platform_ok p written bootable absorbed sha" "staging_ok m img"
    and "ota_reach p prefix (is_chunk m img) (\<lambda>m'. sameImage m' m) s" "sameImage (s_manifest s) m"
    and "waits_carried prefix (is_chunk m img) ws"
    and "ota_run_session p client battery ws s = Inr (True, acts, s')" "bootable (s_flash s') = Some w"
  shows "w = img"
proof -
  let ?J = "staged_prefix p written bootable absorbed sha prefix m img"
  have geo: "m_size (s_manifest s) = m_size m" "m_chunk_size (s_manifest s) = m_chunk_size m"
    using assms(4) by (simp_all add: sameImage_def)
  note r = staged.reach [OF assms(3), where written = written and bootable = bootable and absorbed = absorbed and sha = sha]
  from staged.session_keeps [OF assms(6) conjunct1 [OF r] conjunct2 [OF r] assms(4,5)] obtain every ok fr1 reason a1 s1 where
    l: "session_loop p client (chunks_of m) every ws ok (s_next_chunk (snd (snd fr1))) fr1 = Inr (chunks_of m, reason, a1, s1)"
    and J1: "?J (snd (snd fr1))" and J: "?J s1" and s1: "s_partial_valid s1" "boots p (s_manifest s) s1 (s_flash s')"
    using staged_whole(1) [OF assms(2)] unfolding geo by auto
  obtain r0 a0 s0 where fr1: "fr1 = (r0, a0, s0)" by (metis prod.exhaust)
  have "chunks_of m \<le> s_next_chunk s1"
    using staged.loop_done [OF _ _ assms(5) order.refl] l J1 by (simp add: fr1)
  moreover have "s_next_chunk s1 \<le> chunks_of m" using J s1 assms(1) by (simp add: staged_prefix_def)
  ultimately have n: "s_next_chunk s1 = chunks_of m" by simp
  note law = platform_okD [OF assms(1)]
  obtain b where "absorbed (s_sha_op s1) = Some b" using law(7) s1(2) by (auto simp: boots_def)
  moreover have "written (s_flash s1) = Some w" using s1(2) law(3,4) assms(7) by (simp add: boots_def)
  ultimately show ?thesis
    using J s1(1) assms(1) staged_whole(2) [OF assms(2)] n by (simp add: staged_prefix_def flash_is_hashed_def)
qed

theorem staged_image_boots_byte_for_byte_witness:
  "\<exists>acts s' w. ota_run_session list_platform (\<lambda>_. True) None small_waits staged_node = Inr (True, acts, s') \<and>
     snd (s_flash s') = Some w \<and> w = [7, 8, 9]"
proof -
  have st: "staging_ok small_manifest [7, 8, 9]" by (simp add: staging_ok_def small_manifest_def)
  have same: "sameImage (s_manifest staged_node) small_manifest" by (simp add: staged_node_manifest sameImage_def)
  have c: "is_chunk small_manifest [7, 8, 9] 0 [7, 8]" "is_chunk small_manifest [7, 8, 9] 1 [9]"
    by (simp_all add: is_chunk_def chunks_of_def small_manifest_def)
  have wc: "waits_carried ''s/ota/image/'' (is_chunk small_manifest [7, 8, 9]) small_waits"
    using c by (simp add: waits_carried_def small_waits_def chunk_event_carried)
  obtain acts s' where r: "ota_run_session list_platform (\<lambda>_. True) None small_waits staged_node = Inr (True, acts, s')"
    "snd (s_flash s') = Some [7, 8, 9]" using small_run by blast
  from staged_image_boots_byte_for_byte [OF list_platform_ok st staged_node_reach same wc r] r show ?thesis by blast
qed

text \<open>
  C36: A session always comes to an end: whatever arrives, two waits per chunk of the image are enough
  (each wait is at most 20 s long), as long as fewer than \<open>2 ^ 32\<close> messages arrive meanwhile.
\<close>

theorem session_ends:
  assumes "udiv (m_size (s_manifest s) + m_chunk_size (s_manifest s) - 1) (m_chunk_size (s_manifest s)) = Some t"
    and "2 * unat t \<le> length ws" "unat (s_next_chunk s) + messages_in ws < 2 ^ 32"
  shows "\<exists>restarts acts s'. ota_run_session p client battery ws s = Inr (restarts, acts, s')"
proof -
  obtain acts1 s1 where r1: "replay_status client ([], s\<lparr>s_conn_lost := False\<rparr>) = (acts1, s1)" by fastforce
  note v = replay_view [OF r1]
  then have m: "s_manifest s1 = s_manifest s" "s_next_chunk s1 = s_next_chunk s" by (simp_all add: dl_view_def)
  obtain proceed a2 s2 where p2: "prepare_partial p client (s_manifest s) (acts1, s1) = (proceed, a2, s2)" by (metis prod.exhaust)
  have "unat (s_next_chunk s2) + messages_in ws < 2 ^ 32" using prepare_next [OF p2] assms(3) m by auto
  from pull_ends [OF this assms(2), of p client "s_manifest s" a2] obtain b a3 s3 where
    "pull_session p client ws (s_manifest s) t (a2, s2) = Inr (b, a3, s3)" by (metis prod.exhaust)
  then show ?thesis using p2 assms(1) m by (auto simp: ota_run_session_def r1 publish_status_eq Let_def)
qed

theorem session_ends_witness:
  "\<exists>restarts acts s'. ota_run_session list_platform (\<lambda>_. False) None
     (replicate 4 \<lparr>w_before = [], w_after = [OtaConnError], w_cap = False\<rparr>) staged_node = Inr (restarts, acts, s')"
  by (rule session_ends [where t = 2])
    (simp_all add: staged_node_manifest small_manifest_def udiv_def messages_in_def sum_list_replicate)

text \<open>
  C37: A complete download that fails its hash counts against the attempt budget only when it was pulled
  in one session. When it was resumed, dropping the partial download first makes the progress a negative
  number that wraps to a large one, and the budget is refilled: a bad staging that takes more than one
  session is retried without end.
\<close>

theorem bad_resumed_image_refills_budget:
  assumes "fst (p_hash_finish p (s_sha_op s)) \<noteq> Some (m_sha256 m)"
  shows "\<exists>acts' s'. finish_session p client m t start t (reason, acts, s) = (False, acts', s') \<and> s_next_chunk s' = 0 \<and>
    s_no_progress_attempts s' = (if start = 0 then s_no_progress_attempts s + 1 else 0)"
proof -
  let ?s = "s\<lparr>s_session_active := False\<rparr>"
  obtain digest h where fh: "p_hash_finish p (s_sha_op s) = (digest, h)" by fastforce
  have "verify_image p m reason ?s = (False, ShaMismatch, ?s\<lparr>s_sha_op := h\<rparr>)"
    using assms by (auto simp: verify_image_def fh Let_def split: option.split)
  moreover have "(0 < (0 :: u32) - start) = (start \<noteq> 0)" by (simp add: word_neq_0_conv [symmetric])
  ultimately show ?thesis by (simp add: finish_session_def publish_status_eq discard_partial_def Let_def)
qed

theorem bad_resumed_image_refills_budget_witness:
  "\<exists>acts' s'. finish_session list_platform (\<lambda>_. True) small_manifest 2 1 2
     (NoReason, [], staged_node\<lparr>s_sha_op := Some [1], s_no_progress_attempts := 2\<rparr>) = (False, acts', s') \<and>
     s_no_progress_attempts s' = 0"
proof -
  have "toy_hash [1] \<noteq> m_sha256 small_manifest" by (simp add: toy_hash_def small_manifest_def)
  then show ?thesis
    using bad_resumed_image_refills_budget [of list_platform "staged_node\<lparr>s_sha_op := Some [1], s_no_progress_attempts := 2\<rparr>"
        small_manifest "\<lambda>_. True" 2 1 NoReason "[]"]
    by (auto simp: list_platform_def)
qed

text \<open>
  The manifest the staging tool writes is read back field by field, when the version holds no double
  quote and is not one of the field names.
\<close>

theorem staged_manifest_reads_back:
  assumes "version \<noteq> []" "CHR 0x22 \<notin> set version" "version \<notin> {''size'', ''sha256'', ''chunk_size'', ''force''}"
    and "0 < sz" "0 < chunk_size" "chunk_size \<le> OTA_MAX_CHUNK_SIZE" "length sha = 32"
  shows "parse_manifest running (manifest_text version sz sha chunk_size force) =
    Some \<lparr>m_version = version, m_size = sz, m_chunk_size = chunk_size, m_sha256 = sha, m_force = force,
      m_valid = True, m_differs_from_running = (version \<noteq> running)\<rparr>"
proof -
  let ?q = "CHR 0x22" and ?t = "manifest_text version sz sha chunk_size force"
  let ?n = "\<lambda>v. '': '' @ render_nat (unat (v :: u32)) @ '', ''"
  let ?f = "'': '' @ (if force then ''true'' else ''false'') @ ''}''"
  let ?ps = "[''version'', '': '', version, '', '', ''size'', ?n sz, ''sha256'', '': '', render_hex sha, '', '',
    ''chunk_size'', ?n chunk_size, ''force'', ?f]"
  have nq: "?q \<notin> set (?n v)" for v using render_nat_plain by auto
  note plain = nq hex_no_quote assms(2)
  have fld: "manifest_field ?t key = manifest_value (v @ between_quotes vs)"
    if "?ps = ws @ key # v # vs" "?q \<notin> set key" "\<forall>w \<in> set ws. ?q \<notin> set w \<and> w \<noteq> key" for key ws v vs
    using field_between [of key ws v vs] that by (simp add: manifest_text_def)
  have num: "manifest_value (?n v @ between_quotes vs) = Some (render_nat (unat v))" for v vs
    using bare_value [of "render_nat (unat v)" "CHR '',''" "CHR '' '' # between_quotes vs"] render_nat_plain render_nat_digits
    by simp
  have hex: "render_hex sha \<noteq> key" if "length key \<noteq> 64" for key using length_render_hex [of sha] assms(7) that by auto
  have f1: "manifest_field ?t ''version'' = Some version"
    using fld [of "[]" "''version''" "'': ''" "tl (tl ?ps)"] string_value [OF assms(2)] by simp
  have f2: "parse_size_field ?t ''size'' = Some sz"
    using fld [of "take 4 ?ps" "''size''" "?n sz" "drop 6 ?ps"] num [of sz] plain assms(3) unat_u32_less [of sz]
    by (simp add: parse_size_field_def from_chars_uint_render)
  have f3: "manifest_field ?t ''sha256'' = Some (render_hex sha)"
    using fld [of "take 6 ?ps" "''sha256''" "'': ''" "drop 8 ?ps"] string_value [OF hex_no_quote] plain assms(3) by simp
  have f4: "parse_size_field ?t ''chunk_size'' = Some chunk_size"
    using fld [of "take 10 ?ps" "''chunk_size''" "?n chunk_size" "drop 12 ?ps"] num [of chunk_size] plain assms(3)
      unat_u32_less [of chunk_size] hex
    by (simp add: parse_size_field_def from_chars_uint_render)
  have "manifest_field ?t ''force'' = manifest_value (?f @ between_quotes [])"
    using fld [of "take 12 ?ps" "''force''" ?f "[]"] plain assms(3) hex by simp
  then have f5: "(manifest_field ?t ''force'' = Some ''true'') = force"
    by (simp add: between_quotes_def manifest_value_def)
  have "parse_sha256_hex (render_hex sha) = Some sha"
    by (simp add: parse_sha256_hex_def length_render_hex sha_bytes_render assms(7))
  moreover have "sz \<noteq> 0" "chunk_size \<noteq> 0" using assms(4,5) by auto
  ultimately show ?thesis using f1 f2 f3 f4 f5 assms(1,6) by (simp add: parse_manifest_def not_less)
qed

theorem staged_manifest_reads_back_witness:
  "m_size (the (parse_manifest ''v1'' (manifest_text ''v2'' 3 (replicate 32 171) 2 True))) = 3"
  using staged_manifest_reads_back [of "''v2''" 3 2 "replicate 32 171" "''v1''" True]
  by (simp add: OTA_MAX_CHUNK_SIZE_def word_le_nat_alt)

end
