(* ===== verification/PublishCycle.thy ===== *)
theory PublishCycle
  imports MqttProps OtaProps
begin

unbundle bit_operations_syntax

text \<open>
  The theorems about the publish cycle of \<open>main/mqtt_sender.cpp\<close>, on the lemmas of \<open>MqttCycle\<close> and
  \<open>MqttProps\<close>, and small runs of the model they are applied to.
\<close>

section \<open>A small sensor\<close>

text \<open>
  A Wi-Fi sensor that has sent its discovery set. \<open>wake evs\<close> is the environment of one cycle: the
  events \<open>evs\<close> by step, an empty outbox and an idle TCP stack.
\<close>

definition demo_config :: mqtt_config where
  "demo_config = \<lparr>mc_secrets = \<lparr>ot_tlv = [], deviceId = ''s'', mqtt_broker_address = ''192.168.7.1'', mqtt_port = 1883,
       mqtt_user = [], mqtt_pass = [], mqtt_tls = False, mqtt_tls_ca_cert = [], transport_kind = Wifi,
       wifi_ssid = ''n'', wifi_password = [], wifi_address_family = ''ipv4''\<rparr>,
     mc_expire_after_sec = 0, mc_boot_count = 1, mc_reset_reason = ''power_on''\<rparr>"

definition demo_network :: net where
  "demo_network = \<lparr>n_ot = fresh_link, n_wifi = \<lparr>s_wifi_eg = True, s_got_ipv4 = True, s_got_ipv6 = False,
     s_wifi_ssid = [], s_wifi_password = [], s_wifi_address_family = ''ipv4'', s_wifi_acts = [],
     wd = \<lparr>wd_init_err = 0, wd_register_err = 0, wd_mode_err = 0, wd_config_err = 0, wd_start_err = 0,
       wd_tx_power_err = (\<lambda>_. 0), wd_ap_rssi = Some (- 60)\<rparr>, wifi_arrivals = (\<lambda>_. [])\<rparr>\<rparr>"

definition demo_link :: "net network_link" where
  "demo_link = fst (makeNetworkLink 254 render_hex Wifi \<lparr>cfg_ot_tlv_hex = [], cfg_wifi_ssid = ''n'',
     cfg_wifi_password = [], cfg_wifi_address_family = ''ipv4''\<rparr> demo_network)"

type_synonym demo_env = "(list_flash, u8 list option, net, flash) sender_env"
type_synonym demo_sender = "(list_flash, u8 list option, net, flash) sender"

definition wake :: "(nat \<Rightarrow> env_event list) \<Rightarrow> demo_env" where
  "wake evs = \<lparr>e_platform = list_platform, e_link = demo_link, e_api = map_nvs, e_fmt = (\<lambda>_. []), e_events = evs,
     e_event_group = True, e_client_init = True, e_socket = (\<lambda>_. 3), e_outbox = (\<lambda>_. 0), e_tick = (\<lambda>k. of_nat (100 * k)),
     e_tcp_idle = (\<lambda>_. True), e_time_us = (\<lambda>k. 1000 * int k), e_ota_group = True, e_ota_rounds = []\<rparr>"

definition demo_sensor :: demo_sender where
  "demo_sensor = \<lparr>s_cfg = demo_config, s_tls_ca_cert_pem = [], s_client_id = ''ESP32_000000'', s_client = False,
     s_client_eg = False, s_ctx = fresh_ctx, s_session_subscribed = False, s_discovery_sent_mask = - 1,
     sd_ota = staged_node\<lparr>s_install_requested := False\<rparr>, sd_rc = node, sd_nvs = blank,
     sd_log = \<lparr>s_ring = (\<lambda>_. \<lparr>captured_us = 0, rec_temp_c = Fin 0, rec_hum_pct = Fin 0\<rparr>), s_head = 0, s_tail = 0\<rparr>,
     sd_awake = \<lparr>s_accumulated_sleep_us = 0, s_period_start_us = 0\<rparr>, sd_link = demo_network, sd_step = 0, sd_trace = []\<rparr>"

definition demo_reading :: publish_params where
  "demo_reading = \<lparr>pp_temperature = Some (Fin 21), pp_humidity = Some (Fin 40), pp_battery_percent = None,
     pp_battery_millivolts = None, pp_heater_problem = None, pp_heater_run_count = None\<rparr>"

lemma apply_nothing:
  "s_pending (sd_rc s) = (\<lambda>_. None) \<Longrightarrow> apply_config e s = Some (serve e (tell [] (s\<lparr>sd_rc := (sd_rc s)\<lparr>s_pending := \<lambda>_. None\<rparr>\<rparr>)))"
  using apply_in_effect [of "sd_rc s" "e_api e" "e_fmt e" "tx_set e s" True "sd_nvs s"]
  by (simp add: apply_config_def)

lemma no_discovery: "discoveryNeed p link (- 1) = 0"
  by (simp add: discoveryNeed_def)

lemma discovery_done: "discovery_messages fmt v c rc 0 = []" "discovery_msgs 0 = 0"
  by (simp_all add: discovery_messages_def discovery_msgs_def owed_def Let_def)

lemma demo_uri: "brokerUri demo_link ''192.168.7.1'' 1883 False l = ''mqtt://192.168.7.1:1883''"
proof -
  have "format_pieces ''{}://{}:{}'' = Some [Field [], Lit CHR '':'', Lit CHR ''/'', Lit CHR ''/'', Field [], Lit CHR '':'', Field []]"
    by code_simp
  moreover have "render_int 1883 = ''1883''" by code_simp
  ultimately show ?thesis
    by (simp add: demo_link_def makeNetworkLink_def makeWifiLink_def lift_link_def wifi_brokerUri_def format_plain_def
        format_text_def looksLikeIpv6_def mqttScheme_def)
qed

lemma demo_hooks:
  "onPublishWindowBegin demo_link l = l" "onPublishWindowEnd demo_link l = l" "onSessionClosing demo_link l = l"
  "onSessionClosed demo_link l = l" "waitForBrokerReachable demo_link a t l = (True, l)"
  by (simp_all add: demo_link_def makeNetworkLink_def makeWifiLink_def lift_link_def wifi_noop_def wifi_waitForBrokerReachable_def)

definition ready :: "demo_sender \<Rightarrow> bool" where
  "ready s \<longleftrightarrow> s_cfg s = demo_config \<and> s_discovery_sent_mask s = - 1 \<and> \<not> s_install_requested (sd_ota s) \<and>
     s_pending (sd_rc s) = (\<lambda>_. None) \<and> s_tx_power_active_dbm (sd_rc s) = 20 \<and> s_head (sd_log s) = s_tail (sd_log s) \<and>
     wd_ap_rssi (wd (n_wifi (sd_link s))) = Some (- 60)"

lemma readyD:
  assumes "ready s"
  shows "s_cfg s = demo_config" "s_discovery_sent_mask s = - 1" "\<not> s_install_requested (sd_ota s)"
    "s_pending (sd_rc s) = (\<lambda>_. None)" "s_tx_power_active_dbm (sd_rc s) = 20" "s_head (sd_log s) = s_tail (sd_log s)"
    "wd_ap_rssi (wd (n_wifi (sd_link s))) = Some (- 60)"
  using assms by (simp_all add: ready_def)

lemma wake_simps:
  "e_platform (wake evs) = list_platform" "e_link (wake evs) = demo_link" "e_fmt (wake evs) = (\<lambda>_. [])" "e_events (wake evs) = evs"
  "e_event_group (wake evs)" "e_client_init (wake evs)" "e_socket (wake evs) k = 3" "e_outbox (wake evs) k = 0"
  "e_tick (wake evs) k = of_nat (100 * k)" "e_tcp_idle (wake evs) k" "e_ota_group (wake evs)" "e_ota_rounds (wake evs) = []"
  "e_time_us (wake evs) k = 1000 * int k"
  by (simp_all add: wake_def)

lemma demo_config_simps:
  "mqtt_broker_address (mc_secrets demo_config) = ''192.168.7.1''" "mqtt_port (mc_secrets demo_config) = 1883"
  "\<not> mqtt_tls (mc_secrets demo_config)"
  by (simp_all add: demo_config_def)

lemma demo_reading_any: "hasAny demo_reading"
  by (simp add: demo_reading_def hasAny_def)

lemma demo_fits: "rc_ok demo_config node" "config_ok demo_config (p_version list_platform)" "fmt_ok (\<lambda>_. [])"
proof -
  have "s_topic node = (\<lambda>k. full_topic ''s'' (cfg_suffix k))" using node_fields(2) by (simp add: topics_of_def)
  moreover have "tx_accepted node = 20" by (simp add: tx_accepted_def node_fields)
  ultimately show "rc_ok demo_config node" by (simp add: rc_ok_def demo_config_def cfg_device_id_def)
qed (simp_all add: config_ok_def demo_config_def list_platform_def MQTT_MAX_DEVICE_ID_LEN_def MQTT_MAX_DEVICE_NAME_LEN_def
    MQTT_MAC_ADDRESS_BYTES_def MQTT_MAX_RESET_REASON_LEN_def MAX_SW_VERSION_LEN_def fmt_ok_def)

definition demo_stats :: link_stats where
  "demo_stats = no_link_stats\<lparr>rssiDbm := Some (- 60)\<rparr>"

definition demo_msg :: "u32 \<Rightarrow> mqtt_msg" where
  "demo_msg awake = hd (state_msg (\<lambda>_. []) demo_config demo_reading (Some demo_stats) 20 awake)"

lemma demo_state_msg: "state_msg (\<lambda>_. []) demo_config demo_reading (Some demo_stats) 20 awake = [demo_msg awake]"
proof -
  have "float_value (Fin 21)" "float_value (Fin 40)"
    using float_value_f32 [of 21, unfolded f32_int [of 21, simplified]] float_value_f32 [of 40, unfolded f32_int [of 40, simplified]] .
  then have "state_message (\<lambda>_. []) demo_config demo_reading (Some demo_stats) 20 awake =
     json_object (state_fields demo_config demo_reading (Some demo_stats) 20 awake)"
    by (intro state_message_object [OF demo_fits(2)])
      (auto simp: readings_ok_def demo_reading_def link_rssi_def hasAny_def no_link_stats_def demo_stats_def)
  moreover have "state_topic (\<lambda>_. []) demo_config \<noteq> []"
    by (simp add: state_topic_def format_into_def Let_def topic_texts TOPIC_BUF_eval demo_config_def cfg_device_id_def)
  moreover have "json_object fs \<noteq> []" for fs by (cases fs) simp_all
  ultimately show ?thesis by (simp add: state_msg_def Let_def demo_msg_def)
qed

lemma demo_link_stats: "readLinkStats demo_link l = (case wd_ap_rssi (wd (n_wifi l)) of None \<Rightarrow> None | Some r \<Rightarrow> Some (no_link_stats\<lparr>rssiDbm := Some r\<rparr>), l)"
  by (simp add: demo_link_def makeNetworkLink_def makeWifiLink_def lift_link_def readApLinkStats_def split: option.splits)

text \<open>Steps in which nothing happens, or one event.\<close>

lemma serve_quiet: "e_events e (sd_step s) = [] \<Longrightarrow> serve e s = s\<lparr>sd_step := Suc (sd_step s)\<rparr>"
  by (simp add: serve_def)

lemma serve_one:
  "e_events e (sd_step s) = [ev] \<Longrightarrow> serve e s = env_handle (e_platform e) ev (s\<lparr>sd_step := Suc (sd_step s)\<rparr>)"
  by (simp add: serve_def)

lemma expect_acks_quiet:
  assumes "\<And>k. k < 3 \<Longrightarrow> e_events e (sd_step s + k) = []"
  shows "expect_acks e n s = s\<lparr>s_ctx := (s_ctx s)\<lparr>expected_acks := n, received_acks := 0, bit_all_acked := False\<rparr>,
    sd_step := sd_step s + 3\<rparr>"
  using assms [of 0] assms [of 1] assms [of 2] by (simp add: expect_acks_def upd_ctx_def serve_quiet)

text \<open>A state message that is acknowledged at once, nothing else being owed.\<close>

lemma publish_acked:
  assumes quiet: "\<And>k. k < 4 \<Longrightarrow> e_events e (sd_step s + k) = []" and ack: "e_events e (sd_step s + 4) = [Mqtt EvPublished]"
    and any: "hasAny p" and sent: "s_discovery_sent_mask s = - 1"
    and msg: "state_msg (e_fmt e) (s_cfg s) p link (s_tx_power_active_dbm (sd_rc s)) awake = [m]"
  shows "publish_all e p subscribe link awake s = (True, s\<lparr>
     s_ctx := (s_ctx s)\<lparr>bit_all_acked := True, bit_ack_event := True, expected_acks := 1, received_acks := 1\<rparr>,
     s_session_subscribed := s_session_subscribed s \<or> subscribe \<and> subscribed (s_ctx s),
     sd_step := sd_step s + 5, sd_trace := sd_trace s @ [Do (PublishMsg m), Do (WaitBits 4000), Got EvPublished]\<rparr>)"
proof -
  define u where "u = s\<lparr>s_ctx := (s_ctx s)\<lparr>expected_acks := 1, received_acks := 0, bit_all_acked := False\<rparr>, sd_step := sd_step s + 3\<rparr>"
  define v where "v = u\<lparr>sd_step := sd_step s + 4, sd_trace := sd_trace s @ [Do (PublishMsg m)]\<rparr>"
  have u: "expect_acks e 1 s = u" using quiet unfolding u_def by (intro expect_acks_quiet) simp
  have v: "publish_msgs e [m] u = v"
    using quiet [of 3] by (simp add: publish_msgs_def publish_msg_def serve_quiet act_def tell_def u_def v_def)
  have w: "wait_all_acked e v = (True, v\<lparr>
      s_ctx := (s_ctx v)\<lparr>bit_all_acked := True, bit_ack_event := True, received_acks := 1\<rparr>,
      sd_step := sd_step s + 5, sd_trace := sd_trace s @ [Do (PublishMsg m), Do (WaitBits 4000), Got EvPublished]\<rparr>)"
    using ack by (simp add: wait_all_acked_def serve_one act_def tell_def u_def v_def ack_arrived_def Let_def)
  have need: "discoveryNeed p link (- 1) = 0" "expected_count p 0 = 1" "discovery_messages f v c rc 0 = []" for f v c rc
    using any by (simp_all add: discoveryNeed_def expected_count_def discovery_messages_def discovery_msgs_def owed_def Let_def)
  have nil: "publish_msgs e [] u = u" by (simp add: publish_msgs_def)
  have msg: "state_msg (e_fmt e) (s_cfg u) p link (s_tx_power_active_dbm (sd_rc u)) awake = [m]"
    using msg by (simp add: u_def)
  have "publish_all e p subscribe link awake s = publish_state e p link awake 0 subscribe u"
    using any by (simp add: publish_all_def sent need u nil)
  also have "\<dots> = (True, s\<lparr>
     s_ctx := (s_ctx s)\<lparr>bit_all_acked := True, bit_ack_event := True, expected_acks := 1, received_acks := 1\<rparr>,
     s_session_subscribed := s_session_subscribed s \<or> subscribe \<and> subscribed (s_ctx s),
     sd_step := sd_step s + 5, sd_trace := sd_trace s @ [Do (PublishMsg m), Do (WaitBits 4000), Got EvPublished]\<rparr>)"
    by (cases subscribe; cases "subscribed (s_ctx s)") (simp_all add: publish_state_def msg v w, simp_all add: v_def u_def sent)
  finally show ?thesis .
qed




definition demo_period :: "demo_sender \<Rightarrow> u32 \<times> awake_stats" where
  "demo_period s = hp_awake_stats_get_and_reset_us (1000 * int (sd_step s)) (sd_awake s)"

lemma demo_telemetry:
  "read_telemetry (wake evs) s = (map_option (\<lambda>r. no_link_stats\<lparr>rssiDbm := Some r\<rparr>) (wd_ap_rssi (wd (n_wifi (sd_link s)))), fst (demo_period s), s\<lparr>sd_awake := snd (demo_period s)\<rparr>)"
  by (simp add: read_telemetry_def wake_simps demo_link_stats demo_period_def split_beta split: option.splits)

lemma open_resumed:
  assumes "ready s" "session_present (s_ctx s)" "s_session_subscribed s"
  shows "open_session (wake evs) s = (False, Some demo_stats, fst (demo_period s),
    s\<lparr>sd_awake := snd (demo_period s), sd_trace := sd_trace s @ [Do SetLinger]\<rparr>)"
  using assms readyD(7) [OF assms(1)]
  by (simp add: open_session_def set_abortive_close_def subscribe_if_needed_def wake_simps act_def tell_def Let_def demo_stats_def
      demo_telemetry demo_period_def)

definition demo_topics :: "demo_sender \<Rightarrow> (string \<times> nat) list" where
  "demo_topics s = [(s_topic_manifest (sd_ota s), 1), (s_topic_install (sd_ota s), 1), (s_topic_wildcard (sd_rc s), 1)]"

definition subscribing :: "demo_sender \<Rightarrow> demo_sender" where
  "subscribing s = s\<lparr>s_ctx := (s_ctx s)\<lparr>subscribed := True, bit_ack_event := True\<rparr>, s_session_subscribed := False,
     sd_step := Suc (sd_step s),
     sd_trace := sd_trace s @ [Do SetLinger, Do (SubscribeTopics (demo_topics s)), Got (EvSubscribed False)]\<rparr>"

lemma open_new:
  assumes "ready s" "\<not> session_present (s_ctx s)" "evs (sd_step s) = [Mqtt (EvSubscribed False)]"
  shows "open_session (wake evs) s = (True, Some demo_stats, fst (demo_period (subscribing s)),
    (subscribing s)\<lparr>sd_awake := snd (demo_period (subscribing s))\<rparr>)"
proof -
  have "subscribe_if_needed (wake evs) (s\<lparr>sd_trace := sd_trace s @ [Do SetLinger]\<rparr>) = (True, subscribing s)"
    using assms by (simp add: subscribe_if_needed_def wake_simps act_def tell_def Let_def serve_one subscribing_def demo_topics_def)
  moreover have "wd_ap_rssi (wd (n_wifi (sd_link (subscribing s)))) = Some (- 60)" using readyD(7) [OF assms(1)] by (simp add: subscribing_def)
  ultimately show ?thesis
    by (simp add: open_session_def set_abortive_close_def wake_simps act_def tell_def demo_telemetry demo_stats_def)
qed

lemma demo_close:
  assumes "evs (sd_step s) = []"
  shows "close_session (wake evs) True s = Some (s\<lparr>sd_step := Suc (sd_step s), sd_trace := sd_trace s @ [Do (ClientStop Persistent)]\<rparr>)"
proof -
  have "drain_loop (wake evs) n cap s = Some s" for n cap
    by (subst drain_loop.simps) (simp add: wake_simps)
  moreover have "tail_loop (wake evs) n u = Some u" for n u
    by (subst tail_loop.simps) (simp add: wake_simps lwip_tcp_idle_def)
  ultimately show ?thesis using assms
    by (simp add: close_session_def wake_simps demo_hooks wait_outbox_empty_def client_stop_def act_def tell_def serve_quiet upd_link_def)
qed

lemma demo_apply:
  assumes "ready s" "evs (sd_step s) = []"
  shows "apply_config (wake evs) (replay_history_if_pending (wake evs) s) = Some (s\<lparr>sd_step := Suc (sd_step s)\<rparr>)"
proof -
  have "replay_batches (wake evs) topic n s = s" for topic n
    using readyD(6) [OF assms(1)] by (cases n) (simp_all add: history_log_has_pending_def)
  then have "replay_history_if_pending (wake evs) s = s" by (simp add: replay_history_if_pending_def Let_def)
  moreover have "(sd_rc s)\<lparr>s_pending := \<lambda>_. None\<rparr> = sd_rc s"
    using readyD(4) [OF assms(1)] by (cases "sd_rc s") simp
  ultimately show ?thesis using assms readyD(4) [OF assms(1)]
    by (simp add: apply_nothing tell_def serve_quiet wake_simps)
qed

text \<open>What the published state message leaves behind, with the configuration step after it.\<close>

definition published_state :: "bool \<Rightarrow> u32 \<Rightarrow> demo_sender \<Rightarrow> demo_sender" where
  "published_state subscribe awake s = s\<lparr>
     s_ctx := (s_ctx s)\<lparr>bit_all_acked := True, bit_ack_event := True, expected_acks := 1, received_acks := 1\<rparr>,
     s_session_subscribed := s_session_subscribed s \<or> subscribe \<and> subscribed (s_ctx s), sd_step := sd_step s + 6,
     sd_trace := sd_trace s @ [Do (PublishMsg (demo_msg awake)), Do (WaitBits 4000), Got EvPublished]\<rparr>"

lemma demo_connected:
  assumes "open_session (wake evs) s = (subscribe, Some demo_stats, awake, u)" "ready u"
    "\<And>k. k < 4 \<Longrightarrow> evs (sd_step u + k) = []" "evs (sd_step u + 4) = [Mqtt EvPublished]" "evs (sd_step u + 5) = []"
  shows "connected_cycle (wake evs) demo_reading s = Some (True, published_state subscribe awake u)"
proof -
  define v where "v = (published_state subscribe awake u)\<lparr>sd_step := sd_step u + 5\<rparr>"
  have v: "publish_all (wake evs) demo_reading subscribe (Some demo_stats) awake u = (True, v)"
    using publish_acked [of "wake evs" u demo_reading "Some demo_stats" awake "demo_msg awake" subscribe] assms readyD [OF assms(2)]
    by (simp add: wake_simps demo_reading_any demo_state_msg v_def published_state_def)
  have "ready v" "sd_step v = sd_step u + 5" using assms(2) by (simp_all add: ready_def v_def published_state_def)
  from demo_apply [OF this(1)] this(2) assms(5)
  have "apply_config (wake evs) (replay_history_if_pending (wake evs) v) = Some (published_state subscribe awake u)"
    by (simp add: v_def published_state_def)
  then show ?thesis by (simp add: connected_cycle_def assms(1) v)
qed

definition demo_started :: "demo_sender \<Rightarrow> demo_sender" where
  "demo_started s = s\<lparr>s_client := True, s_client_eg := s_client s \<longrightarrow> s_client_eg s,
     s_ctx := (clear_bits (s_ctx s))\<lparr>session_present := False, subscribed := False\<rparr>,
     sd_trace := sd_trace s @
       (if s_client s then [Do (ClientSetUri ''mqtt://192.168.7.1:1883'')]
        else [Do (GroupCreate Persistent), Do (ClientInit Persistent
          (build_client_config ''mqtt://192.168.7.1:1883'' SENSOR_MQTT_RX_BUFFER_SIZE (s_client_id s) True s))]) @
       [Do (ClientStart Persistent), Do (WaitBits 5000)]\<rparr>"

lemma demo_start:
  assumes "ready s"
  shows "\<exists>u. start_persistent_client (wake evs) ''mqtt://192.168.7.1:1883'' s = (True, u) \<and> act (WaitBits (connect_wait_ms u)) u = demo_started s"
proof -
  have b: "build_client_config uri n i b (s\<lparr>s_client_eg := x, sd_trace := tr\<rparr>) = build_client_config uri n i b s" for uri n i b x tr
    by (simp add: build_client_config_def use_tls_def Let_def)
  show ?thesis using readyD(1) [OF assms]
    by (cases "s_client s")
      (simp_all add: start_persistent_client_def wake_simps demo_config_simps act_def tell_def upd_ctx_def Let_def demo_started_def connect_wait_ms_def use_tls_def b)
qed

lemma demo_ready: "ready s \<Longrightarrow> ready (demo_started s)" "sd_step (demo_started s) = sd_step s"
  "s_session_subscribed (demo_started s) = s_session_subscribed s"
  by (simp_all add: ready_def demo_started_def)

text \<open>A cycle from its connect wait on.\<close>

lemma demo_run:
  assumes s: "ready s" and u: "serve (wake evs) (demo_started s) = u"
    and v: "(if bit_connected (s_ctx u) then connected_cycle (wake evs) demo_reading u else Some (False, u)) = Some (ok, v)"
    and t: "close_session (wake evs) (bit_connected (s_ctx u) \<and> ok) v = Some t" and due: "\<not> s_install_requested (sd_ota t)"
  shows "run_publish_cycle (wake evs) demo_reading s = Some (Returned ok, t)"
proof -
  have idle: "upd_link (onPublishWindowBegin demo_link) s = s" "upd_link (onPublishWindowEnd demo_link) w = w" for w
    by (simp_all add: upd_link_def demo_hooks)
  have uri: "broker_uri (wake evs) s = ''mqtt://192.168.7.1:1883''"
    using readyD(1) [OF s] by (simp add: broker_uri_def wake_simps demo_config_simps demo_uri use_tls_def Let_def)
  obtain w where w: "start_persistent_client (wake evs) ''mqtt://192.168.7.1:1883'' s = (True, w)"
    "act (WaitBits (connect_wait_ms w)) w = demo_started s" using demo_start [OF s] by blast
  have "persistent_cycle (wake evs) demo_reading ''mqtt://192.168.7.1:1883'' s = Some (ok, t)"
    using v t by (cases "bit_connected (s_ctx u)") (auto simp: persistent_cycle_def w u Let_def demo_reading_any)
  then show ?thesis
    using due by (simp add: run_publish_cycle_def Let_def wake_simps idle demo_hooks uri demo_reading_any run_ota_if_due_def ota_update_due_def)
qed

definition resumed :: "nat \<Rightarrow> nat \<Rightarrow> env_event list" where
  "resumed n k = (if k = n then [Mqtt (EvConnected True)] else if k = n + 5 then [Mqtt EvPublished] else [])"

definition subscribed_anew :: "nat \<Rightarrow> nat \<Rightarrow> env_event list" where
  "subscribed_anew n k = (if k = n then [Mqtt (EvConnected False)] else if k = n + 1 then [Mqtt (EvSubscribed False)]
     else if k = n + 6 then [Mqtt EvPublished] else [])"

definition too_late :: "nat \<Rightarrow> nat \<Rightarrow> env_event list" where
  "too_late n k = (if k = n + 1 then [Mqtt (EvConnected False)] else [])"

definition woken :: "bool \<Rightarrow> demo_sender \<Rightarrow> demo_sender" where
  "woken b s = (demo_started s)\<lparr>s_ctx := (s_ctx (demo_started s))\<lparr>session_present := b, bit_connected := True\<rparr>,
     sd_step := Suc (sd_step s), sd_trace := sd_trace (demo_started s) @ [Got (EvConnected b)]\<rparr>"

lemma connack: "evs (sd_step s) = [Mqtt (EvConnected b)] \<Longrightarrow> serve (wake evs) (demo_started s) = woken b s"
  by (simp add: serve_one wake_simps demo_ready tell_def woken_def Let_def)

lemma woken_ready: "ready s \<Longrightarrow> ready (woken b s)"
  by (drule demo_ready(1)) (simp add: woken_def ready_def)

lemma resumed_wake:
  assumes s: "ready s" "s_session_subscribed s"
  shows "\<exists>t tr. run_publish_cycle (wake (resumed (sd_step s))) demo_reading s = Some (Returned True, t) \<and> ready t \<and>
    s_session_subscribed t \<and> s_client t \<and> sd_step t = sd_step s + 8 \<and>
    sd_trace t = sd_trace s @ tr \<and> \<not> subscribes tr \<and> session_holds (sd_trace s @ tr) = session_holds (sd_trace s)"
proof -
  let ?e = "wake (resumed (sd_step s))"
  have u: "serve ?e (demo_started s) = woken True s" by (rule connack) (simp add: resumed_def)
  let ?u = "(woken True s)\<lparr>sd_awake := snd (demo_period (woken True s)), sd_trace := sd_trace (woken True s) @ [Do SetLinger]\<rparr>"
  have "open_session ?e (woken True s) = (False, Some demo_stats, fst (demo_period (woken True s)), ?u)"
    by (rule open_resumed) (use s in \<open>simp_all add: woken_ready\<close>, simp_all add: woken_def demo_ready)
  moreover have "ready ?u" using woken_ready [OF s(1), of True] by (simp add: ready_def)
  ultimately have v: "connected_cycle ?e demo_reading (woken True s) =
      Some (True, published_state False (fst (demo_period (woken True s))) ?u)" (is "_ = Some (True, ?v)")
    by (rule demo_connected) (simp_all add: resumed_def woken_def)
  have t: "close_session ?e True ?v = Some (?v\<lparr>sd_step := Suc (sd_step ?v), sd_trace := sd_trace ?v @ [Do (ClientStop Persistent)]\<rparr>)"
     (is "_ = Some ?t")
    by (rule demo_close) (simp add: resumed_def published_state_def woken_def)
  have r: "ready ?t" using \<open>ready ?u\<close> by (simp add: ready_def published_state_def)
  have c: "bit_connected (s_ctx (woken True s))" by (simp add: woken_def)
  have "run_publish_cycle ?e demo_reading s = Some (Returned True, ?t)"
    by (rule demo_run [OF s(1) u]) (use v t readyD(3) [OF r] in \<open>simp_all add: c\<close>)
  moreover have "s_session_subscribed ?t \<and> s_client ?t \<and> sd_step ?t = sd_step s + 8"
    using s(2) by (simp add: published_state_def woken_def demo_ready) (simp add: demo_started_def)
  moreover have "sd_trace ?t = sd_trace (demo_started s) @ [Got (EvConnected True), Do SetLinger,
      Do (PublishMsg (demo_msg (fst (demo_period (woken True s))))), Do (WaitBits 4000), Got EvPublished, Do (ClientStop Persistent)]"
    by (simp add: published_state_def woken_def)
  ultimately show ?thesis using r
    by (simp add: demo_started_def subscribes_def session_holds_def)
qed

lemma anew_wake:
  assumes s: "ready s"
  shows "\<exists>t tr. run_publish_cycle (wake (subscribed_anew (sd_step s))) demo_reading s = Some (Returned True, t) \<and> ready t \<and>
    s_session_subscribed t \<and> s_client t \<and> sd_step t = sd_step s + 9 \<and>
    sd_trace t = sd_trace s @ tr \<and> subscribes tr \<and> session_holds (sd_trace s @ tr) \<and> (\<exists>awake. sent_msgs tr = [demo_msg awake])"
proof -
  let ?e = "wake (subscribed_anew (sd_step s))"
  have u: "serve ?e (demo_started s) = woken False s" by (rule connack) (simp add: subscribed_anew_def)
  let ?w = "subscribing (woken False s)"
  let ?u = "?w\<lparr>sd_awake := snd (demo_period ?w)\<rparr>"
  have "open_session ?e (woken False s) = (True, Some demo_stats, fst (demo_period ?w), ?u)"
    by (rule open_new) (use s in \<open>simp_all add: woken_ready\<close>, simp_all add: woken_def subscribed_anew_def)
  moreover have "ready ?u" using woken_ready [OF s, of False] by (simp add: ready_def subscribing_def)
  ultimately have v: "connected_cycle ?e demo_reading (woken False s) =
      Some (True, published_state True (fst (demo_period ?w)) ?u)" (is "_ = Some (True, ?v)")
    by (rule demo_connected) (simp_all add: subscribed_anew_def subscribing_def woken_def)
  have t: "close_session ?e True ?v = Some (?v\<lparr>sd_step := Suc (sd_step ?v), sd_trace := sd_trace ?v @ [Do (ClientStop Persistent)]\<rparr>)"
     (is "_ = Some ?t")
    by (rule demo_close) (simp add: subscribed_anew_def published_state_def subscribing_def woken_def)
  have r: "ready ?t" using \<open>ready ?u\<close> by (simp add: ready_def published_state_def)
  have c: "bit_connected (s_ctx (woken False s))" by (simp add: woken_def)
  have "run_publish_cycle ?e demo_reading s = Some (Returned True, ?t)"
    by (rule demo_run [OF s u]) (use v t readyD(3) [OF r] in \<open>simp_all add: c\<close>)
  moreover have "s_session_subscribed ?t \<and> s_client ?t \<and> sd_step ?t = sd_step s + 9"
    by (simp add: published_state_def subscribing_def woken_def demo_ready) (simp add: demo_started_def)
  moreover have "sd_trace ?t = sd_trace (demo_started s) @ [Got (EvConnected False), Do SetLinger,
      Do (SubscribeTopics (demo_topics (woken False s))), Got (EvSubscribed False),
      Do (PublishMsg (demo_msg (fst (demo_period ?w)))), Do (WaitBits 4000), Got EvPublished, Do (ClientStop Persistent)]"
    by (simp add: published_state_def subscribing_def woken_def)
  ultimately show ?thesis using r
    by (simp add: demo_started_def subscribes_def session_holds_def sent_msgs_def) blast
qed

lemma late_wake:
  assumes s: "ready s"
  shows "\<exists>t. run_publish_cycle (wake (too_late (sd_step s))) demo_reading s = Some (Returned False, t) \<and> ready t \<and>
    s_session_subscribed t = s_session_subscribed s \<and> s_client t \<and> sd_step t = sd_step s + 2 \<and> \<not> session_holds (sd_trace t) \<and>
    (\<exists>tr. sd_trace t = sd_trace s @ tr)"
proof -
  let ?e = "wake (too_late (sd_step s))"
  define u where "u = (demo_started s)\<lparr>sd_step := Suc (sd_step s)\<rparr>"
  have u: "serve ?e (demo_started s) = u" using serve_quiet [of ?e "demo_started s"] by (simp add: wake_simps too_late_def demo_ready u_def)
  have c: "\<not> bit_connected (s_ctx u)" by (simp add: u_def demo_started_def clear_bits_def)
  define t where "t = u\<lparr>s_ctx := (s_ctx u)\<lparr>session_present := False, bit_connected := True\<rparr>, sd_step := sd_step s + 2,
    sd_trace := sd_trace u @ [Do (ClientStop Persistent), Got (EvConnected False)]\<rparr>"
  let ?stopping = "u\<lparr>sd_trace := sd_trace u @ [Do (ClientStop Persistent)]\<rparr>"
  have "serve ?e ?stopping = t"
    using serve_one [of ?e ?stopping "Mqtt (EvConnected False)"]
    by (simp add: wake_simps too_late_def tell_def Let_def t_def u_def)
  then have t: "close_session ?e False u = Some t" by (simp add: close_session_def client_stop_def act_def tell_def)
  have r: "ready t" using demo_ready(1) [OF s] by (simp add: t_def u_def ready_def)
  have "run_publish_cycle ?e demo_reading s = Some (Returned False, t)"
    by (rule demo_run [OF s u]) (use t c readyD(3) [OF r] in simp_all)
  moreover have "\<not> session_holds (sd_trace t)" by (simp add: t_def session_holds_def)
  moreover have "s_session_subscribed t = s_session_subscribed s" "s_client t" "sd_step t = sd_step s + 2"
      "\<exists>tr. sd_trace t = sd_trace s @ tr"
    by (simp_all add: t_def u_def demo_started_def)
  ultimately show ?thesis using r by blast
qed

section \<open>The acknowledged batch\<close>

text \<open>A cycle that returns either left the discovery set alone or published in a connected state.\<close>

lemma cycle_published:
  assumes run: "run_publish_cycle e p s = Some (Returned ok, t)"
  shows "\<not> ok \<and> s_discovery_sent_mask t = s_discovery_sent_mask s \<or>
    (\<exists>sub link awake a b pre. publish_all e p sub link awake a = (ok, b) \<and> keeps e b t \<and> s_cfg a = s_cfg s \<and>
      s_discovery_sent_mask a = s_discovery_sent_mask s \<and> (\<forall>c. rc_ok c (sd_rc a) = rc_ok c (sd_rc s)) \<and>
      sd_trace a = sd_trace s @ pre)"
proof -
  obtain u v where u: "keeps e s u" "sd_rc u = sd_rc s" and v: "keeps e v t"
    and parts: "v = u \<and> \<not> ok \<or> (\<exists>uri. persistent_cycle e p uri u = Some (ok, v))"
    using cycle_parts [OF run] by blast
  note U = keepsD [OF u(1)] and V = keepsD [OF v]
  show ?thesis
  proof (cases "v = u \<and> \<not> ok")
    case True
    with U V show ?thesis by simp
  next
    case False
    with parts obtain uri where "persistent_cycle e p uri u = Some (ok, v)" by blast
    from persistent_parts [OF this] consider "\<not> ok" "continues u v"
      | x y where "connected_cycle e p x = Some (ok, y)" "keeps e y v" "continues u x" "\<forall>c. rc_ok c (sd_rc x) = rc_ok c (sd_rc u)"
      by blast
    then show ?thesis
    proof cases
      case 1
      with U V show ?thesis by (simp add: continues_def)
    next
      case 2
      obtain sub link awake a b where a: "open_session e x = (sub, link, awake, a)"
        and b: "publish_all e p sub link awake a = (ok, b)" and y: "keeps e b y"
        using connected_parts [OF 2(1)] by blast
      note A = open_session_frame [OF a]
      obtain pre where "sd_trace a = sd_trace s @ pre" using A(1) U(1) 2(3) by (auto simp: continues_def)
      moreover have "keeps e b t" using keeps_trans [OF y keeps_trans [OF 2(2) v]] .
      moreover have "s_cfg a = s_cfg s" "s_discovery_sent_mask a = s_discovery_sent_mask s"
          "\<forall>c. rc_ok c (sd_rc a) = rc_ok c (sd_rc s)"
        using A U 2(3,4) u(2) by (simp_all add: continues_def)
      ultimately show ?thesis using b by blast
    qed
  qed
qed

lemma cycle_success:
  assumes run: "run_publish_cycle e p s = Some (Returned ok, t)"
    and c: "config_ok (s_cfg s) (p_version (e_platform e))" and rc: "rc_ok (s_cfg s) (sd_rc s)" and f: "fmt_ok (e_fmt e)"
  shows "if ok then hasAny p \<and> (\<exists>pre tr post link awake rc tx m.
      sd_trace t = sd_trace s @ pre @ tr @ post \<and>
      sent_msgs tr = discovery_messages (e_fmt e) (p_version (e_platform e)) (s_cfg s) rc
        (discoveryNeed p link (s_discovery_sent_mask s)) @ [m] \<and>
      msg_topic m = state_topic (e_fmt e) (s_cfg s) \<and> msg_payload m = state_message (e_fmt e) (s_cfg s) p link tx awake \<and>
      acked_msgs (sent_msgs tr) \<le> pubacks tr \<and>
      s_discovery_sent_mask t = s_discovery_sent_mask s OR discoveryNeed p link (s_discovery_sent_mask s))
    else s_discovery_sent_mask t = s_discovery_sent_mask s"
  using cycle_published [OF run]
proof (elim disjE exE conjE)
  fix sub link awake a b pre
  assume b: "publish_all e p sub link awake a = (ok, b)" and t: "keeps e b t" and pre: "sd_trace a = sd_trace s @ pre"
    and frame: "s_cfg a = s_cfg s" "s_discovery_sent_mask a = s_discovery_sent_mask s" "\<forall>c. rc_ok c (sd_rc a) = rc_ok c (sd_rc s)"
  have mask: "s_discovery_sent_mask t = (if ok then s_discovery_sent_mask s OR discoveryNeed p link (s_discovery_sent_mask s)
      else s_discovery_sent_mask s)"
    using publish_all_mask(1) [OF b] keepsD(2) [OF t] frame(2) by simp
  show ?thesis
  proof (cases ok)
    case True
    then have "publish_all e p sub link awake a = (True, b)" using b by simp
    from publish_all_ok [OF _ _ f this] obtain tr rc m where m: "hasAny p" "sd_trace b = sd_trace a @ tr"
      "sent_msgs tr = discovery_messages (e_fmt e) (p_version (e_platform e)) (s_cfg s) rc
        (discoveryNeed p link (s_discovery_sent_mask s)) @ [m]"
      "msg_topic m = state_topic (e_fmt e) (s_cfg s)"
      "msg_payload m = state_message (e_fmt e) (s_cfg s) p link (s_tx_power_active_dbm (sd_rc a)) awake"
      "acked_msgs (sent_msgs tr) \<le> pubacks tr"
      using c rc frame by auto
    obtain post where "sd_trace t = sd_trace s @ pre @ tr @ post" using keepsD(1) [OF t] m(2) pre by auto
    with m mask True show ?thesis unfolding if_P [OF True] by blast
  qed (use mask in simp)
qed simp

text \<open>
  C2: A cycle reports success only when the broker has acknowledged what it sent: the trace has a stretch in
  which the cycle published exactly the discovery messages still owed and the state message with this
  cycle's readings, and in which at least as many PUBACKs arrived as it published QoS-1 messages. Only
  then do the sent discovery messages count as delivered; a cycle that fails leaves them owed.
\<close>

theorem success_means_acknowledged:
  assumes "run_publish_cycle e p s = Some (Returned ok, t)"
    and "config_ok (s_cfg s) (p_version (e_platform e))" "rc_ok (s_cfg s) (sd_rc s)" "fmt_ok (e_fmt e)"
  shows "if ok then hasAny p \<and> (\<exists>pre tr post link awake rc tx m.
      sd_trace t = sd_trace s @ pre @ tr @ post \<and>
      sent_msgs tr = discovery_messages (e_fmt e) (p_version (e_platform e)) (s_cfg s) rc
        (discoveryNeed p link (s_discovery_sent_mask s)) @ [m] \<and>
      msg_topic m = state_topic (e_fmt e) (s_cfg s) \<and> msg_payload m = state_message (e_fmt e) (s_cfg s) p link tx awake \<and>
      acked_msgs (sent_msgs tr) \<le> pubacks tr \<and>
      s_discovery_sent_mask t = s_discovery_sent_mask s OR discoveryNeed p link (s_discovery_sent_mask s))
    else s_discovery_sent_mask t = s_discovery_sent_mask s"
  by (rule cycle_success [OF assms])

lemma demo_is_ready: "ready demo_sensor"
  by (simp add: ready_def demo_sensor_def demo_network_def node_def runtime_config_init_def staged_node_def
      ota_updater_init_def Let_def TX_POWER_TABLE_MAX_DBM_def)

theorem success_means_acknowledged_witness:
  "\<exists>t pre tr post. run_publish_cycle (wake (subscribed_anew 0)) demo_reading demo_sensor = Some (Returned True, t) \<and>
     sd_trace t = pre @ tr @ post \<and> sent_msgs tr \<noteq> [] \<and> acked_msgs (sent_msgs tr) \<le> pubacks tr"
proof -
  obtain t where t: "run_publish_cycle (wake (subscribed_anew 0)) demo_reading demo_sensor = Some (Returned True, t)"
    using anew_wake [OF demo_is_ready] by (auto simp: demo_sensor_def)
  have s: "s_cfg demo_sensor = demo_config" "sd_rc demo_sensor = node" "sd_trace demo_sensor = []" by (simp_all add: demo_sensor_def)
  from success_means_acknowledged [OF t] demo_fits show ?thesis
    unfolding s wake_simps using t by fastforce
qed

text \<open>
  C19: The number of acknowledgements a cycle waits for is the number of QoS-1 messages it publishes, for every
  set of discovery messages still owed: the counts kept beside the publishing code agree with it, and no
  message of the set is lost to a buffer that is too small.
\<close>

theorem discovery_count_matches_messages:
  assumes "config_ok c version" "rc_ok c rc" "fmt_ok fmt"
  shows "int (acked_msgs (discovery_messages fmt version c rc need)) = discovery_msgs need"
  by (rule acked_discovery [OF assms])

theorem discovery_count_matches_messages_witness:
  "acked_msgs (discovery_messages (\<lambda>_. []) (p_version list_platform) demo_config node (mask 14)) = 42"
proof -
  have "discovery_msgs (mask 14) = 42" by code_simp
  with discovery_count_matches_messages [OF demo_fits(2,1,3), of "mask 14"] show ?thesis by simp
qed

section \<open>Subscriptions\<close>

text \<open>
  The life of the sender from its boot: any cycles in any environments, and whatever other tasks do to
  the rest of the state in between. The flag says whether in one of the cycles a CONNACK arrived outside
  its place, which is the connect wait and before any SUBACK.
\<close>

inductive publish_life :: "bool \<Rightarrow> ('f, 'h, 'l, 'n) sender \<Rightarrow> bool" where
  booted: "s_ctx s = fresh_ctx \<Longrightarrow> \<not> s_session_subscribed s \<Longrightarrow> publish_life False s"
| between: "publish_life late s \<Longrightarrow>
    publish_life late (s\<lparr>sd_ota := ou, sd_rc := rc, sd_nvs := nvs, sd_log := l, sd_awake := a, sd_link := link, sd_step := k\<rparr>)"
| cycle: "publish_life late s \<Longrightarrow> run_publish_cycle e p s = Some (Returned ok, t) \<Longrightarrow>
    publish_life (late \<or> \<not> one_connack e (sd_step s)) t"

inductive_cases publish_lifeE: "publish_life late s"

lemma publish_life_backed: "publish_life late s \<Longrightarrow> late \<or> flags_backed s"
proof (induction rule: publish_life.induct)
  case (booted s)
  then show ?case by (simp add: flags_backed_def fresh_ctx_def)
next
  case (cycle late s e p ok t)
  then show ?case using cycle_flags [OF cycle(2)] by blast
qed (simp add: flags_backed_def)

text \<open>
  C7: A successful wake that sends no SUBSCRIBE has one to fall back on: some earlier SUBACK accepted the
  topics, and no CONNACK since then reported a new session, so a broker that keeps its sessions still
  delivers the update and configuration topics. The one way out is a CONNACK that arrived, in this cycle
  or in one since the boot, after its connect wait had ended, or behind another CONNACK or a SUBACK:
  that it does break the guarantee is C25.
\<close>

theorem resumed_session_was_subscribed:
  assumes "publish_life late s" "run_publish_cycle e p s = Some (Returned True, t)"
    and "sd_trace t = sd_trace s @ tr" "\<not> subscribes tr"
  shows "session_holds (sd_trace t) \<or> late \<or> \<not> one_connack e (sd_step s)"
  using cycle_flags [OF assms(2)] publish_life_backed [OF assms(1)] assms(3,4) by auto

lemma demo_one_connack: "one_connack (wake (subscribed_anew n)) n" "one_connack (wake (resumed n)) n"
  by (auto simp: one_connack_def no_connack_def wake_simps subscribed_anew_def resumed_def is_session_event_def)

theorem resumed_session_was_subscribed_witness:
  "\<exists>s t tr. publish_life False s \<and> run_publish_cycle (wake (resumed (sd_step s))) demo_reading s = Some (Returned True, t) \<and>
     sd_trace t = sd_trace s @ tr \<and> \<not> subscribes tr \<and> session_holds (sd_trace t)"
proof -
  have s0: "publish_life False demo_sensor" by (rule booted) (simp_all add: demo_sensor_def)
  obtain s where s: "run_publish_cycle (wake (subscribed_anew (sd_step demo_sensor))) demo_reading demo_sensor = Some (Returned True, s)"
    "ready s" "s_session_subscribed s" using anew_wake [OF demo_is_ready] by blast
  have life: "publish_life False s"
    using cycle [OF s0 s(1)] demo_one_connack(1) [of "sd_step demo_sensor"] by simp
  obtain t tr where t: "run_publish_cycle (wake (resumed (sd_step s))) demo_reading s = Some (Returned True, t)"
    "sd_trace t = sd_trace s @ tr" "\<not> subscribes tr" using resumed_wake [OF s(2,3)] by blast
  from resumed_session_was_subscribed [OF life t] demo_one_connack(2) [of "sd_step s"] t life show ?thesis by blast
qed

text \<open>Successful wakes in a row, each on the session the broker kept; \<open>None\<close> when one does not succeed.\<close>

fun resumed_wakes :: "nat \<Rightarrow> demo_sender \<Rightarrow> demo_sender option" where
  "resumed_wakes 0 s = Some s"
| "resumed_wakes (Suc n) s =
    (case run_publish_cycle (wake (resumed (sd_step s))) demo_reading s of
       Some (Returned True, t) \<Rightarrow> resumed_wakes n t
     | _ \<Rightarrow> None)"

lemma resumed_wakes_never_subscribe:
  "ready s \<Longrightarrow> s_session_subscribed s \<Longrightarrow> \<exists>t tr. resumed_wakes n s = Some t \<and> sd_trace t = sd_trace s @ tr \<and>
     \<not> subscribes tr \<and> s_session_subscribed t \<and> session_holds (sd_trace t) = session_holds (sd_trace s)"
proof (induction n arbitrary: s)
  case (Suc n)
  obtain u a where u: "run_publish_cycle (wake (resumed (sd_step s))) demo_reading s = Some (Returned True, u)"
    "ready u" "s_session_subscribed u" "sd_trace u = sd_trace s @ a" "\<not> subscribes a"
    "session_holds (sd_trace s @ a) = session_holds (sd_trace s)"
    using resumed_wake [OF Suc.prems] by blast
  with Suc.IH [OF u(2,3)] show ?case by auto
qed (simp add: subscribes_def)

text \<open>
  C25: A CONNACK that arrives after the connect wait is lost with what it says: the broker has a new, empty
  session, the failed cycle keeps the old flag and the next start clears the report. From then on the
  device is cut off from its topics for good: the next wake, and every further one for as long as the
  broker keeps the session, succeeds, finds the session present and sends no SUBSCRIBE, while the broker
  holds no subscription.
\<close>

theorem late_connack_leaves_unsubscribed:
  "\<exists>t1 t2 t3 tr.
    run_publish_cycle (wake (subscribed_anew 0)) demo_reading demo_sensor = Some (Returned True, t1) \<and> session_holds (sd_trace t1) \<and>
    run_publish_cycle (wake (too_late (sd_step t1))) demo_reading t1 = Some (Returned False, t2) \<and>
    run_publish_cycle (wake (resumed (sd_step t2))) demo_reading t2 = Some (Returned True, t3) \<and>
    sd_trace t3 = sd_trace t2 @ tr \<and> \<not> subscribes tr \<and> s_session_subscribed t3 \<and> \<not> session_holds (sd_trace t3) \<and>
    (\<forall>n. \<exists>t tr. resumed_wakes n t3 = Some t \<and> sd_trace t = sd_trace t3 @ tr \<and> \<not> subscribes tr \<and>
       s_session_subscribed t \<and> \<not> session_holds (sd_trace t))"
proof -
  obtain t1 where 1: "run_publish_cycle (wake (subscribed_anew 0)) demo_reading demo_sensor = Some (Returned True, t1)"
    "ready t1" "s_session_subscribed t1" "session_holds (sd_trace t1)"
    using anew_wake [OF demo_is_ready] by (auto simp: demo_sensor_def)
  obtain t2 where 2: "run_publish_cycle (wake (too_late (sd_step t1))) demo_reading t1 = Some (Returned False, t2)"
    "ready t2" "s_session_subscribed t2" "\<not> session_holds (sd_trace t2)"
    using late_wake [OF 1(2)] 1(3) by auto
  obtain t3 tr where 3: "run_publish_cycle (wake (resumed (sd_step t2))) demo_reading t2 = Some (Returned True, t3)"
    "sd_trace t3 = sd_trace t2 @ tr" "\<not> subscribes tr" "ready t3" "s_session_subscribed t3" "\<not> session_holds (sd_trace t3)"
    using resumed_wake [OF 2(2,3)] 2(4) by metis
  have "\<forall>n. \<exists>t tr. resumed_wakes n t3 = Some t \<and> sd_trace t = sd_trace t3 @ tr \<and> \<not> subscribes tr \<and>
      s_session_subscribed t \<and> \<not> session_holds (sd_trace t)"
    using resumed_wakes_never_subscribe [OF 3(4,5)] 3(6) by simp
  with 1 2 3 show ?thesis by blast
qed

section \<open>Radio, backlog and close\<close>

text \<open>
  C13: Whatever a cycle does, the radio is back at its resting poll period when the cycle returns, on every
  transport; a cycle that ends in a restart leaves it in the publish window.
\<close>

theorem radio_rests_after_cycle:
  assumes "e_link e = fst (makeNetworkLink max_tlv ip6_text kind cfg s0)" "run_publish_cycle e p s = Some (r, t)"
  shows "case r of Returned ok \<Rightarrow> link_idle kind (sd_link t) | Restarted \<Rightarrow> link_in_window kind (sd_link t)"
  using net.cycle_windows [OF assms] by (auto split: cycle_result.splits)

theorem radio_rests_after_cycle_witness:
  "\<exists>t. run_publish_cycle (wake (subscribed_anew 0)) demo_reading demo_sensor = Some (Returned True, t) \<and>
     link_idle Wifi (sd_link t)"
proof -
  obtain t where t: "run_publish_cycle (wake (subscribed_anew 0)) demo_reading demo_sensor = Some (Returned True, t)"
    using anew_wake [OF demo_is_ready] by (auto simp: demo_sensor_def)
  from radio_rests_after_cycle [OF _ t] t show ?thesis unfolding wake_simps demo_link_def by auto
qed

text \<open>
  C11: The backlog is replayed oldest first: the batches sent are consecutive records from its front, each as
  one JSON array, at most five a cycle, and exactly the records of acknowledged batches leave the log. All
  that is sent but at most the last batch was acknowledged.
\<close>

theorem backlog_is_replayed_in_order:
  assumes "list_all float_record (hl_pending (sd_log s))"
  shows "\<exists>tr bs k. sd_trace (replay_history_if_pending e s) = sd_trace s @ tr \<and>
    replayed_in_order (backfill_topic (e_fmt e) (s_cfg s)) BACKFILL_MAX_BATCHES_PER_CYCLE (hl_pending (sd_log s))
      (hl_pending (sd_log (replay_history_if_pending e s))) tr bs k"
proof (cases "backfill_topic (e_fmt e) (s_cfg s) = []")
  case True
  then show ?thesis
    by (intro exI [of _ "[]"] exI [of _ 0]) (simp add: replay_history_if_pending_def replayed_in_order_def)
next
  case False
  with replay_batches_spec [OF assms] show ?thesis by (simp add: replay_history_if_pending_def Let_def)
qed

theorem backlog_is_replayed_in_order_witness:
  "\<exists>tr bs k. replayed_in_order (backfill_topic (\<lambda>_. []) demo_config) BACKFILL_MAX_BATCHES_PER_CYCLE
     [\<lparr>captured_us = 0, rec_temp_c = f32 21, rec_hum_pct = f32 40\<rparr>]
     (hl_pending (sd_log (replay_history_if_pending (wake (subscribed_anew 0)) (demo_sensor\<lparr>sd_log :=
        \<lparr>s_ring = (\<lambda>_. \<lparr>captured_us = 0, rec_temp_c = f32 21, rec_hum_pct = f32 40\<rparr>), s_head = 1, s_tail = 0\<rparr>\<rparr>)))) tr bs k"
    (is "\<exists>tr bs k. replayed_in_order _ _ [?r] (hl_pending (sd_log (replay_history_if_pending _ ?s))) tr bs k")
proof -
  have q: "hl_pending (sd_log ?s) = [?r]" by (simp add: hl_pending_def hl_count_def hl_distance_def)
  have "list_all float_record (hl_pending (sd_log ?s))" unfolding q by (simp add: float_record_def)
  from backlog_is_replayed_in_order [OF this, of "wake (subscribed_anew 0)"] show ?thesis
    unfolding q by (auto simp: wake_simps demo_sensor_def)
qed

text \<open>
  C21: A cycle of the persistent client returns as long as time passes: the waits of the close see their caps
  across the wrap of the 32-bit tick counter, and the drain waits no step past its second.
\<close>

theorem persistent_cycle_returns:
  assumes "ticking e T" "s_poll_interval_sec (sd_rc s) \<noteq> 0"
  shows "(\<exists>ok t. persistent_cycle e p uri s = Some (ok, t)) \<and>
    (\<exists>t. wait_outbox_empty e OUTBOX_DRAIN_CAP_MS s = Some t \<and>
      (\<forall>k. sd_step s \<le> k \<and> k < sd_step t \<longrightarrow> T k < T (sd_step s) + 1000))"
  using persistent_returns [OF assms] drain_waits [OF assms(1), of OUTBOX_DRAIN_CAP_MS s]
  by (simp add: OUTBOX_DRAIN_CAP_MS_def)

theorem persistent_cycle_returns_witness:
  "\<exists>ok t. persistent_cycle (wake (subscribed_anew 0)) demo_reading ''mqtt://192.168.7.1:1883'' demo_sensor = Some (ok, t)"
proof -
  have "\<exists>k. m \<le> 100 * k" for m :: nat by (rule exI [of _ m]) simp
  then have "ticking (wake (subscribed_anew 0)) (\<lambda>k. 100 * k)" by (simp add: ticking_def wake_simps)
  from persistent_cycle_returns [OF this, of demo_sensor] show ?thesis
    by (auto simp: demo_sensor_def node_fields)
qed

section \<open>Clients and tasks\<close>

text \<open>
  C20: A run of update sessions starts a temporary client only when none is alive and destroys every one it
  started, on every way out of the reconnect loop; only the restart into the new image leaves it.
\<close>

theorem temporary_clients_never_overlap:
  assumes "run_ota_if_due e uri battery s = Some (restart, t)"
  shows "\<exists>tr. sd_trace t = sd_trace s @ tr \<and> temp_alive tr False = Some restart"
proof (cases "ota_update_due (sd_ota s) \<and> e_ota_group e")
  case False
  with assms show ?thesis by (auto simp: run_ota_if_due_def split: if_splits)
next
  case True
  with assms obtain u where r: "ota_rounds e battery uri (e_ota_rounds e) fresh_ctx (act (GroupCreate Temporary) s) = Some (restart, u)"
    and t: "t = (if restart then u else act (GroupDelete Temporary) u)"
    by (auto simp: run_ota_if_due_def split: bind_splits)
  from rounds_alive [OF r] obtain tr where tr: "sd_trace u = sd_trace s @ Do (GroupCreate Temporary) # tr" "temp_alive tr False = Some restart"
    by auto
  define post where "post = (if restart then [] else [Do (GroupDelete Temporary)])"
  have "temp_alive ((Do (GroupCreate Temporary) # tr) @ post) False = Some restart"
    unfolding temp_alive_append using tr(2) by (simp add: post_def)
  moreover have "sd_trace t = sd_trace s @ (Do (GroupCreate Temporary) # tr) @ post"
    using t tr(1) by (simp add: post_def)
  ultimately show ?thesis by blast
qed

theorem temporary_clients_never_overlap_witness:
  "\<exists>t tr. run_ota_if_due ((wake (\<lambda>_. []))\<lparr>e_ota_rounds := [\<lparr>or_init = True, or_events = [], or_client = (\<lambda>_. True), or_waits = []\<rparr>]\<rparr>)
       [] None (demo_sensor\<lparr>sd_ota := staged_node\<rparr>) = Some (False, t) \<and>
     sd_trace t = tr \<and> Do (ClientStart Temporary) \<in> set tr \<and> temp_alive tr False = Some False"
proof -
  let ?e = "(wake (\<lambda>_. []))\<lparr>e_ota_rounds := [\<lparr>or_init = True, or_events = [], or_client = (\<lambda>_. True), or_waits = []\<rparr>]\<rparr>"
  let ?s = "demo_sensor\<lparr>sd_ota := staged_node\<rparr>"
  have due: "ota_update_due staged_node"
    by (simp add: ota_update_due_def staged_node_def ota_updater_init_def small_manifest_def OTA_MAX_NO_PROGRESS_ATTEMPTS_def)
  have "\<exists>t. run_ota_if_due ?e [] None ?s = Some (False, t) \<and> Do (ClientStart Temporary) \<in> set (sd_trace t)"
    by (simp add: run_ota_if_due_def due wake_def ota_connect_def start_client_def clear_bits_def fresh_ctx_def
        destroy_client_def act_def tell_def)
  then obtain t where t: "run_ota_if_due ?e [] None ?s = Some (False, t)" "Do (ClientStart Temporary) \<in> set (sd_trace t)" by blast
  from temporary_clients_never_overlap [OF t(1)] t show ?thesis by (auto simp: demo_sensor_def)
qed

text \<open>
  The temporary client never connects under the persistent client's id, whatever the chip's address and
  the device id: a clean connect under that id would delete the session the broker keeps.
\<close>

theorem update_client_has_its_own_id:
  assumes "length mac = 6"
  shows "client_id_of_mac mac \<noteq> ota_client_id c"
  by (rule client_ids_differ [OF assms])

theorem update_client_has_its_own_id_witness:
  "client_id_of_mac [0x40, 0x4c, 0xca, 0x0a, 0xaa, 0x0a] \<noteq> ota_client_id demo_config"
  by (rule update_client_has_its_own_id) simp

text \<open>
  C16: However callers and publish tasks interleave, at most one cycle is between its start and the clearing
  of the running flag, and the flag says whether there is one. The idle bit says it too, provided a caller
  starts a cycle only when it has seen the bit.
\<close>

theorem publish_cycles_never_overlap:
  assumes "api_run disciplined a"
  shows "cycles_alive a \<le> 1 \<and> (mqtt_is_busy a \<longleftrightarrow> cycles_alive a = 1) \<and> (disciplined \<longrightarrow> idle_bit_true a)"
  using api_run_alive [OF assms] api_run_idle assms by (cases disciplined) (auto simp: mqtt_is_busy_def)

theorem publish_cycles_never_overlap_witness:
  "api_run True (send_step True (send_step True (send_step True (init_idle_group True api_start)))) \<and>
   cycles_alive (send_step True (send_step True (send_step True (init_idle_group True api_start)))) \<le> 1"
proof -
  have start: "api_run True (init_idle_group True api_start)" by (rule start)
  have 1: "api_run True (send_step True (init_idle_group True api_start))"
    by (rule send [OF start]) (simp add: mqtt_wait_for_idle_def init_idle_group_def api_start_def)
  have 2: "api_run True (send_step True (send_step True (init_idle_group True api_start)))"
    by (rule send [OF 1]) (simp add: init_idle_group_def api_start_def)
  have "api_run True (send_step True (send_step True (send_step True (init_idle_group True api_start))))"
    by (rule send [OF 2]) (simp add: init_idle_group_def api_start_def set_idle_def)
  with publish_cycles_never_overlap [OF this] show ?thesis by blast
qed

text \<open>
  The discipline is needed: the task clears the running flag before it sets the idle bit, so a caller that
  goes by the flag can start the next cycle in between, and the bit then says idle all through it.
\<close>

theorem idle_bit_can_lie:
  "\<exists>a. api_run False a \<and> mqtt_is_busy a \<and> cycles_alive a = 1 \<and> mqtt_wait_for_idle a \<and> pa_tasks a = [CycleRunning]"
proof -
  define started where "started a = send_step True (send_step True (send_step True a))" for a
  have run: "api_run False (started a)" if "api_run False a" for a
    unfolding started_def by (intro send that) simp_all
  define a0 where "a0 = started (init_idle_group True api_start)"
  define a1 where "a1 = task_step True 0 (task_step True 0 a0)"
  define a2 where "a2 = task_step True 0 (started a1)"
  note defs = a0_def a1_def a2_def started_def api_start_def init_idle_group_def task_step_def set_idle_def
  have "api_run False a0" unfolding a0_def by (intro run start)
  then have "api_run False a1" unfolding a1_def by (intro task) (simp_all add: defs)
  from run [OF this] have "api_run False a2" unfolding a2_def by (intro task) (simp_all add: defs)
  moreover have "mqtt_is_busy a2" "cycles_alive a2 = 1" "mqtt_wait_for_idle a2" "pa_tasks a2 = [CycleRunning]"
    by (simp_all add: defs mqtt_is_busy_def cycles_alive_def mqtt_wait_for_idle_def)
  ultimately show ?thesis by blast
qed

section \<open>The state message\<close>

text \<open>
  C23: The state message is one object, whichever readings and telemetry are present in the cycle: overwriting
  the closing brace for every group never leaves a broken text, the buffer is large enough for all of them at
  their longest, and the members are exactly those present, each once. With a plain reset reason and readings
  within their C types, every member's value is a JSON number or string, unless the temperature or the
  humidity is infinite or NaN: that prints as \<open>inf\<close> or \<open>nan\<close> and the message is then no JSON (C35
  shows how a NaN offset gets into the configuration).
\<close>

theorem state_message_is_one_object:
  assumes "config_ok c version" "readings_ok p link tx" "hasAny p" "list_all plain_char (mc_reset_reason c)"
  shows "state_message fmt c p link tx awake = json_object (state_fields c p link tx awake) \<and>
    (json_members (state_fields c p link tx awake) \<longleftrightarrow> finite_opt (pp_temperature p) \<and> finite_opt (pp_humidity p))"
  using state_message_object [OF assms(1-3)] state_fields_json [OF assms(2,4)] by blast

definition full_reading :: publish_params where
  "full_reading = \<lparr>pp_temperature = Some (f32 21), pp_humidity = Some (f32 40), pp_battery_percent = Some (Fin 100),
     pp_battery_millivolts = Some 4200, pp_heater_problem = Some True, pp_heater_run_count = Some 7\<rparr>"

definition full_stats :: link_stats where
  "full_stats = \<lparr>rssiDbm = Some (- 60), uplinkRssiDbm = Some (- 70), linkQualityOut = Some 3, radioTxTimeUs = Some 900,
     radioRxTimeUs = Some 4000000000, txRetries = Some 1, txCcaFailures = Some 0, txNoAckExpiry = Some 0\<rparr>"

theorem state_message_is_one_object_witness:
  "\<exists>members. state_message (\<lambda>_. []) demo_config full_reading (Some full_stats) 20 5000 = json_object members \<and>
     map fst members = [''t'', ''h'', ''b'', ''v'', ''r'', ''hp'', ''hc'', ''rt'', ''rx'', ''tr'', ''cf'', ''ur'', ''bc'', ''rr'', ''tp'', ''aw''] \<and>
     json_members members"
proof -
  let ?fs = "state_fields demo_config full_reading (Some full_stats) 20 5000"
  have "readings_ok full_reading (Some full_stats) 20"
    by (auto simp: readings_ok_def full_reading_def full_stats_def link_rssi_def f_in_def)
  moreover have "hasAny full_reading" by (simp add: hasAny_def full_reading_def)
  moreover have "list_all plain_char (mc_reset_reason demo_config)"
    by (simp add: demo_config_def plain_char_def char_code_def)
  ultimately have "state_message (\<lambda>_. []) demo_config full_reading (Some full_stats) 20 5000 = json_object ?fs \<and>
      (json_members ?fs \<longleftrightarrow> finite_opt (pp_temperature full_reading) \<and> finite_opt (pp_humidity full_reading))"
    by (rule state_message_is_one_object [OF demo_fits(2)])
  moreover have "finite_opt (pp_temperature full_reading) \<and> finite_opt (pp_humidity full_reading)"
    using f32_int [of 21] f32_int [of 40] by (simp add: full_reading_def finite_opt_def)
  ultimately show ?thesis
    by (intro exI [of _ ?fs])
      (simp add: state_fields_def full_reading_def full_stats_def hasBatt_def hasHeater_def hasRadioStats_def hasLinkQuality_def
        hasUplinkRssi_def link_rssi_def Let_def)
qed

end
