(* ===== verification/Delivery.thy ===== *)
theory Delivery
  imports SensorsTask PublishCycle
begin

unbundle bit_operations_syntax

text \<open>
  The sensors task and the publish task together: the ready event of \<open>main/main.cpp\<close> hands the values of a
  pass to \<open>mqtt_send_sensor_data\<close>, whose task runs \<open>run_publish_cycle\<close>; the pass waits for it, takes its
  outcome and acknowledges or stores the value. Both tasks work on one history log.
\<close>

section \<open>The two tasks\<close>

text \<open>The ready event of \<open>app_main\<close>: what of the values goes to the sender.\<close>

definition ready_event :: "SensorsValues \<Rightarrow> publish_params" where
  "ready_event v = \<lparr>pp_temperature = envTemperature v, pp_humidity = envHumidity v,
     pp_battery_percent = batteryPercent v, pp_battery_millivolts = batteryVoltageMilliV v,
     pp_heater_problem = heaterProblem v, pp_heater_run_count = heaterRunCount v\<rparr>"

text \<open>
  The parameters of the cycle that runs once \<open>mqtt_send_sensor_data\<close> has returned; \<open>created\<close> is the result
  of \<open>xTaskCreate\<close>. A cycle that is still running keeps its own.
\<close>

definition mqtt_send_sensor_data ::
  "bool \<Rightarrow> publish_params \<Rightarrow> publish_params option \<Rightarrow> publish_params option" where
  "mqtt_send_sensor_data created p flight =
    (case flight of Some q \<Rightarrow> Some q | None \<Rightarrow> if created then Some p else None)"

fun sent_value :: "task_action \<Rightarrow> SensorsValues list" where
  "sent_value (Publish v) = [v]"
| "sent_value _ = []"

definition sent_values :: "task_action list \<Rightarrow> SensorsValues list" where
  "sent_values acts = concat (map sent_value acts)"

definition in_flight :: "bool \<Rightarrow> publish_params option \<Rightarrow> task_action list \<Rightarrow> publish_params option" where
  "in_flight created flight acts = fold (mqtt_send_sensor_data created) (map ready_event (sent_values acts)) flight"

text \<open>
  The state of both tasks. \<open>dv_flight\<close> holds the parameters of the running cycle; its effects on the sender
  take place when it ends. The log of the device is \<open>s_history\<close> of the one and \<open>sd_log\<close> of the other.
\<close>

record ('f, 'h, 'l, 'n) device =
  dv_task :: sensors_task
  dv_sender :: "('f, 'h, 'l, 'n) sender"
  dv_flight :: "publish_params option"

text \<open>
  The wait of a pass: the outcome, if a cycle ended before the time was up, the sender, and the cycle that
  still runs. A cycle that restarts the chip has no value here.
\<close>

definition publish_wait ::
  "('f, 'h, 'l, 'n) sender_env \<Rightarrow> bool \<Rightarrow> publish_params option \<Rightarrow> ('f, 'h, 'l, 'n) sender \<Rightarrow>
   (bool option \<times> ('f, 'h, 'l, 'n) sender \<times> publish_params option) option" where
  "publish_wait se idle flight s =
    (case flight of
       None \<Rightarrow> Some (None, s, None)
     | Some p \<Rightarrow>
         if idle then
           (case run_publish_cycle se p s of
              Some (Returned ok, s) \<Rightarrow> Some (Some ok, s, None)
            | _ \<Rightarrow> None)
         else Some (None, s, Some p))"

text \<open>
  One pass in which the answers of the sender are those of the cycle that runs: the one the pass started, or
  one it found running.
\<close>

definition device_pass ::
  "bool \<Rightarrow> ('f, 'h, 'l, 'n) sender_env \<Rightarrow> cycle_env \<Rightarrow> ('f, 'h, 'l, 'n) device \<Rightarrow> task_action list \<Rightarrow> bool \<Rightarrow>
   ('f, 'h, 'l, 'n) device \<Rightarrow> bool" where
  "device_pass created se e d acts restarted d' \<longleftrightarrow>
    (\<exists>outcome s t.
      publish_wait se (e_idle e PUBLISH_TIMEOUT_MS) (in_flight created (dv_flight d) acts) (dv_sender d) =
        Some (outcome, s, dv_flight d') \<and>
      (e_mqtt_busy e \<longleftrightarrow> in_flight created (dv_flight d) acts \<noteq> None) \<and>
      (\<forall>ok. outcome = Some ok \<longrightarrow> e_publish_succeeded e = ok) \<and>
      task_cycle e ((dv_task d)\<lparr>s_history := sd_log s\<rparr>) = Some (acts, restarted, t) \<and>
      dv_task d' = t \<and> dv_sender d' = s\<lparr>sd_log := s_history t\<rparr>)"

text \<open>The life of the two tasks: passes, and cycles that end between them.\<close>

inductive device_run :: "('f, 'h, 'l, 'n) device \<Rightarrow> bool" where
  boot: "dv_flight d = None \<Longrightarrow> s_history (dv_task d) = sd_log (dv_sender d) \<Longrightarrow> device_run d"
| pass: "device_run d \<Longrightarrow> device_pass created se e d acts False d' \<Longrightarrow> device_run d'"
| cycle_ends: "device_run d \<Longrightarrow> dv_flight d = Some p \<Longrightarrow> run_publish_cycle se p (dv_sender d) = Some (Returned ok, s) \<Longrightarrow>
    device_run \<lparr>dv_task = (dv_task d)\<lparr>s_history := sd_log s\<rparr>, dv_sender = s, dv_flight = None\<rparr>"

inductive_cases device_runE: "device_run d"

section \<open>What a pass hands to the sender\<close>

lemma sent_values_simps [simp]:
  "sent_values [] = []" "sent_values (a # acts) = sent_value a @ sent_values acts"
  "sent_values (acts @ acts') = sent_values acts @ sent_values acts'"
  by (simp_all add: sent_values_def)

lemma sent_values_none: "set acts \<subseteq> {MarkAppValid} \<Longrightarrow> sent_values acts = []"
  by (induction acts) auto

lemma outcome_sends: "publish_outcome e s otaOnly t = (acts, ok, t') \<Longrightarrow> sent_values acts = []"
proof -
  assume o: "publish_outcome e s otaOnly t = (acts, ok, t')"
  obtain marks u where m: "markAppValidOnFirstConfirmedPublish (e_mark_ok e) t = (marks, u)" by fastforce
  then have "sent_values marks = []" using mark_valid_frame [OF m] sent_values_none by blast
  with o m show ?thesis by (auto simp: publish_outcome_def split: if_splits)
qed

text \<open>The values carry the temperature and the humidity of the snapshot when the pass is flagged.\<close>

lemma battery_keeps_readings:
  "battery_fields d t v = Some (v', t') \<Longrightarrow> envTemperature v' = envTemperature v \<and> envHumidity v' = envHumidity v"
  by (auto simp: battery_fields_def Let_def split: prod.splits if_splits sum.splits option.splits)

lemma publish_cycle_sends:
  assumes "publish_cycle e s sw t = Some (acts, ok, t')"
  shows "\<exists>v. sent_values acts = (if e_ready_event e then [v] else []) \<and>
    (sw \<longrightarrow> envTemperature v = Some (cal_temp_c s) \<and> envHumidity v = Some (cal_hum_pct s))"
proof -
  obtain v u acts' where
    u: "(if \<not> sw then Some (no_values, t) else battery_fields (e_adc e) t (sensor_fields s)) = Some (v, u)"
    and o: "publish_outcome e s (\<not> sw) u = (acts', ok, t')"
    and acts: "acts = (if e_ready_event e then [Publish v] else []) @ acts'"
    using assms by (auto simp: publish_cycle_def Let_def split: option.splits prod.splits)
  have "sw \<longrightarrow> envTemperature v = Some (cal_temp_c s) \<and> envHumidity v = Some (cal_hum_pct s)"
    using u battery_keeps_readings [of "e_adc e" t "sensor_fields s" v u] by (auto simp: sensor_fields_def Let_def)
  with acts outcome_sends [OF o] show ?thesis by auto
qed

lemma supervise_sends: "supervise e f t = (acts, r, t') \<Longrightarrow> sent_values acts = []"
  by (auto simp: supervise_def Let_def stall_supervisor_def image_supervisor_def split: if_splits prod.splits)

lemma flagged_publishes: "flagged e t \<Longrightarrow> attached e \<and> publishing e t"
  by (auto simp: publishing_def flagged_def stall_pass_def)

lemma flagged_pass_sends:
  assumes c: "task_cycle e t = Some (acts, r, t')" and f: "flagged e t"
  shows "\<exists>v. sent_values acts = (if e_ready_event e then [v] else []) \<and>
    envTemperature v = Some (cal_temp_c (snapshot e)) \<and> envHumidity v = Some (cal_hum_pct (snapshot e))"
proof -
  obtain acts1 g t1 acts2 t2 where s: "service e t = Some (acts1, g, t1)"
    and v: "supervise e g t1 = (acts2, r, t2)"
    and r: "if r then acts = acts1 @ acts2 \<and> t' = t2
      else \<exists>acts3. wait_phase e t2 = (acts3, t') \<and> acts = acts1 @ acts2 @ acts3"
    using task_cycle_Some [OF c] by blast
  obtain ok where p: "publish_cycle e (snapshot e) True (noted e t) = Some (acts1, ok, t1)"
    using s f flagged_publishes [OF f] by (auto simp: service_eq Let_def)
  have "sent_values acts3 = []" if "wait_phase e t2 = (acts3, t')" for acts3
    using that by (auto simp: wait_phase_def Let_def)
  then have "sent_values acts = sent_values acts1"
    using r supervise_sends [OF v] by (cases r) auto
  with publish_cycle_sends [OF p] show ?thesis by simp
qed

lemma flagged_history: "flagged e (t\<lparr>s_history := l\<rparr>) = flagged e t"
  by (simp add: flagged_def)

lemma one_log: "device_run d \<Longrightarrow> s_history (dv_task d) = sd_log (dv_sender d)"
  by (induction rule: device_run.induct) (auto simp: device_pass_def)

section \<open>The way of a value\<close>

text \<open>
  The sender published a state message with the readings \<open>p\<close>, and everything it published with it at QoS 1
  was acknowledged by the broker.
\<close>

definition delivered ::
  "('f, 'h, 'l, 'n) sender_env \<Rightarrow> publish_params \<Rightarrow> ('f, 'h, 'l, 'n) sender \<Rightarrow> ('f, 'h, 'l, 'n) sender \<Rightarrow> bool" where
  "delivered se p s t \<longleftrightarrow>
    (\<exists>pre tr post ms m link tx awake. sd_trace t = sd_trace s @ pre @ tr @ post \<and> sent_msgs tr = ms @ [m] \<and>
      msg_topic m = state_topic (e_fmt se) (s_cfg s) \<and>
      msg_payload m = state_message (e_fmt se) (s_cfg s) p link tx awake \<and> acked_msgs (sent_msgs tr) \<le> pubacks tr)"

definition sender_fits :: "('f, 'h, 'l, 'n) sender_env \<Rightarrow> ('f, 'h, 'l, 'n) sender \<Rightarrow> bool" where
  "sender_fits se s \<longleftrightarrow> config_ok (s_cfg s) (p_version (e_platform se)) \<and> rc_ok (s_cfg s) (sd_rc s) \<and> fmt_ok (e_fmt se)"

lemma delivered_log: "delivered se p s (t\<lparr>sd_log := l\<rparr>) = delivered se p s t"
  by (simp add: delivered_def)

lemma cycle_delivers:
  assumes "run_publish_cycle se p s = Some (Returned True, t)" "sender_fits se s"
  shows "delivered se p s t"
proof -
  from assms(2) have fits: "config_ok (s_cfg s) (p_version (e_platform se))" "rc_ok (s_cfg s) (sd_rc s)" "fmt_ok (e_fmt se)"
    by (simp_all add: sender_fits_def)
  from cycle_success [OF assms(1) fits] show ?thesis unfolding delivered_def by (simp only: if_True) blast
qed

text \<open>A pass that found no cycle running takes the outcome of its own.\<close>

lemma own_cycle:
  assumes d: "device_pass created se e d acts r d'" and idle: "dv_flight d = None" and f: "flagged e (dv_task d)"
    and ready: "e_ready_event e" "created"
  shows "\<exists>p s. pp_temperature p = Some (cal_temp_c (snapshot e)) \<and> pp_humidity p = Some (cal_hum_pct (snapshot e)) \<and>
    dv_sender d' = s\<lparr>sd_log := s_history (dv_task d')\<rparr> \<and>
    (if e_idle e PUBLISH_TIMEOUT_MS
     then run_publish_cycle se p (dv_sender d) = Some (Returned (e_publish_succeeded e), s) \<and>
       published e = Some (e_publish_succeeded e) \<and> dv_flight d' = None
     else s = dv_sender d \<and> published e = None \<and> dv_flight d' = Some p) \<and>
    hp_ops acts = (if published e = Some True then [ack_of e] else []) \<and>
    s_history (dv_task d') = (if published e = Some False
      then history_log_append (e_now_us e) (cal_temp_c (snapshot e)) (cal_hum_pct (snapshot e)) (sd_log s) else sd_log s)"
proof -
  obtain outcome s t where w: "publish_wait se (e_idle e PUBLISH_TIMEOUT_MS) (in_flight created (dv_flight d) acts) (dv_sender d) =
        Some (outcome, s, dv_flight d')"
    and busy: "e_mqtt_busy e \<longleftrightarrow> in_flight created (dv_flight d) acts \<noteq> None"
    and ok: "\<forall>ok. outcome = Some ok \<longrightarrow> e_publish_succeeded e = ok"
    and c: "task_cycle e ((dv_task d)\<lparr>s_history := sd_log s\<rparr>) = Some (acts, r, t)"
    and d': "dv_task d' = t" "dv_sender d' = s\<lparr>sd_log := s_history t\<rparr>"
    using d unfolding device_pass_def by blast
  have fl: "flagged e ((dv_task d)\<lparr>s_history := sd_log s\<rparr>)" using f by (simp add: flagged_history)
  from flagged_pass_sends [OF c fl] ready obtain v where v: "sent_values acts = [v]"
    "envTemperature v = Some (cal_temp_c (snapshot e))" "envHumidity v = Some (cal_hum_pct (snapshot e))" by auto
  define p where "p = ready_event v"
  have q: "in_flight created (dv_flight d) acts = Some p"
    using ready by (simp add: in_flight_def v(1) idle mqtt_send_sensor_data_def p_def)
  have pub: "published e = (if e_idle e PUBLISH_TIMEOUT_MS then Some (e_publish_succeeded e) else None)"
    using busy by (simp add: published_def q)
  have cyc: "if e_idle e PUBLISH_TIMEOUT_MS
      then run_publish_cycle se p (dv_sender d) = Some (Returned (e_publish_succeeded e), s) \<and> dv_flight d' = None
      else s = dv_sender d \<and> dv_flight d' = Some p"
    using w ok unfolding q publish_wait_def by (auto split: if_splits option.splits prod.splits cycle_result.splits)
  have vp: "pp_temperature p = Some (cal_temp_c (snapshot e))" "pp_humidity p = Some (cal_hum_pct (snapshot e))"
    by (simp_all add: p_def ready_event_def v)
  show ?thesis
    using cyc pub cycle_delivery [OF c] fl d' vp
    by (intro exI [of _ p] exI [of _ s]) (auto simp: stored_def)
qed

section \<open>A pass without a battery\<close>

lemma outcome_heartbeat:
  assumes "publish_outcome e s otaOnly t = (acts, ok, t')"
  shows "m_lastSeenHeartbeat t' = m_lastSeenHeartbeat t"
proof -
  obtain marks u where m: "markAppValidOnFirstConfirmedPublish (e_mark_ok e) t = (marks, u)" by fastforce
  then have "u = t\<lparr>s_checked := s_checked u, ota_state := ota_state u\<rparr>" using mark_valid_frame [OF m] by simp
  then have "m_lastSeenHeartbeat u = m_lastSeenHeartbeat t"
    by (metis sensors_task.select_convs(7) sensors_task.surjective sensors_task.update_convs(9,10))
  with assms m show ?thesis by (auto simp: publish_outcome_def split: if_splits)
qed

lemma supervise_confirmed:
  assumes "supervise e f t = (acts, r, t')" "\<not> lpStalledThisCycle f" "\<not> pending_image t"
  shows "\<not> r \<and> m_lastSeenHeartbeat t' = m_lastSeenHeartbeat t"
  using assms
  by (auto simp: supervise_def Let_def stall_supervisor_def image_supervisor_def pending_image_def split: if_splits prod.splits)

lemma plain_pass:
  assumes f: "flagged e t" and ready: "e_ready_event e" and adc: "\<not> readVoltageViaAdc (m_settings t)"
    and image: "\<not> pending_image t"
  shows "\<exists>acts t'. task_cycle e t = Some (acts, False, t') \<and> sent_values acts = [sensor_fields (snapshot e)] \<and>
    m_settings t' = m_settings t \<and> \<not> pending_image t' \<and> m_lastSeenHeartbeat t' = heartbeat_counter (snapshot e)"
proof -
  obtain acts r t' where c: "task_cycle e t = Some (acts, r, t')"
    using cycle_defined_without_adc [OF adc, of e] by (metis not_None_eq prod_cases3)
  obtain acts1 g t1 acts2 t2 where s: "service e t = Some (acts1, g, t1)"
    and v: "supervise e g t1 = (acts2, r, t2)"
    and r: "if r then acts = acts1 @ acts2 \<and> t' = t2
      else \<exists>acts3. wait_phase e t2 = (acts3, t') \<and> acts = acts1 @ acts2 @ acts3"
    using task_cycle_Some [OF c] by blast
  have "\<not> stall_pass e t" using f by (auto simp: flagged_def stall_pass_def)
  with service_flags [OF s] image have "\<not> lpStalledThisCycle g" "\<not> pending_image t1" by simp_all
  from supervise_confirmed [OF v this] have "\<not> r" and hb: "m_lastSeenHeartbeat t2 = m_lastSeenHeartbeat t1" by simp_all
  obtain ok where p: "publish_cycle e (snapshot e) True (noted e t) = Some (acts1, ok, t1)"
    using s f flagged_publishes [OF f] by (auto simp: service_eq Let_def)
  have "battery_fields d (noted e t) w = Some (w, noted e t)" for d w using adc by (simp add: battery_fields_def)
  with p obtain acts' where o: "publish_outcome e (snapshot e) False (noted e t) = (acts', ok, t1)"
    "acts1 = Publish (sensor_fields (snapshot e)) # acts'"
    using ready by (auto simp: publish_cycle_def Let_def split: prod.splits)
  obtain acts3 where w: "wait_phase e t2 = (acts3, t')" "acts = acts1 @ acts2 @ acts3" using r \<open>\<not> r\<close> by auto
  have "m_lastSeenHeartbeat t' = m_lastSeenHeartbeat t2" "sent_values acts3 = []"
    using w(1) by (auto simp: wait_phase_def Let_def)
  with outcome_heartbeat [OF o(1)] hb have "m_lastSeenHeartbeat t' = heartbeat_counter (snapshot e)" by (simp add: noted_def)
  moreover have "sent_values acts = [sensor_fields (snapshot e)]"
    using w(2) o(2) outcome_sends [OF o(1)] supervise_sends [OF v] \<open>sent_values acts3 = []\<close> by simp
  ultimately show ?thesis
    using c \<open>\<not> r\<close> cycle_settings [OF c] cycle_keeps_confirmed [OF c image] by auto
qed

text \<open>The device of a plain pass: the demo sensor with a confirmed image and no battery reading.\<close>

definition plain_task :: "sensors_task \<Rightarrow> bool" where
  "plain_task t \<longleftrightarrow> \<not> readVoltageViaAdc (m_settings t) \<and> \<not> pending_image t"

lemma plain_device_pass:
  assumes t: "plain_task (dv_task d)" and f: "flagged e (dv_task d)" and ready: "e_ready_event e"
    and q: "q = mqtt_send_sensor_data True (ready_event (sensor_fields (snapshot e))) (dv_flight d)"
    and w: "publish_wait se (e_idle e PUBLISH_TIMEOUT_MS) q (dv_sender d) = Some (outcome, s, q')"
    and e: "e_mqtt_busy e \<longleftrightarrow> q \<noteq> None" "\<forall>ok. outcome = Some ok \<longrightarrow> e_publish_succeeded e = ok"
  shows "\<exists>acts t'. device_pass True se e d acts False \<lparr>dv_task = t', dv_sender = s\<lparr>sd_log := s_history t'\<rparr>, dv_flight = q'\<rparr> \<and>
    plain_task t' \<and> m_lastSeenHeartbeat t' = heartbeat_counter (snapshot e) \<and>
    hp_ops acts = (if published e = Some True then [ack_of e] else []) \<and>
    (published e \<noteq> Some False \<longrightarrow> s_history t' = sd_log s)"
proof -
  let ?t = "(dv_task d)\<lparr>s_history := sd_log s\<rparr>"
  have p: "flagged e ?t" "\<not> readVoltageViaAdc (m_settings ?t)" "\<not> pending_image ?t"
    using t f by (simp_all add: flagged_history plain_task_def pending_image_def)
  obtain acts t' where c: "task_cycle e ?t = Some (acts, False, t')" "sent_values acts = [sensor_fields (snapshot e)]"
    "m_settings t' = m_settings ?t" "\<not> pending_image t'" "m_lastSeenHeartbeat t' = heartbeat_counter (snapshot e)"
    using plain_pass [OF p(1) ready p(2,3)] by blast
  have "in_flight True (dv_flight d) acts = q" by (simp add: in_flight_def c(2) q)
  with w e c(1) have "device_pass True se e d acts False \<lparr>dv_task = t', dv_sender = s\<lparr>sd_log := s_history t'\<rparr>, dv_flight = q'\<rparr>"
    unfolding device_pass_def by auto
  moreover have "plain_task t'" using c(3,4) p(2) by (simp add: plain_task_def)
  moreover have "hp_ops acts = (if published e = Some True then [ack_of e] else [])"
      "published e \<noteq> Some False \<longrightarrow> s_history t' = sd_log s"
    using cycle_delivery [OF c(1)] p(1) by simp_all
  ultimately show ?thesis using c(5) by blast
qed

definition demo_device :: "(list_flash, u8 list option, net, flash) device" where
  "demo_device = \<lparr>dv_task = booted ESP_OTA_IMG_VALID, dv_sender = demo_sensor, dv_flight = None\<rparr>"

text \<open>The reading of the next poll, and a pass whose time runs out.\<close>

definition next_state :: lp_shared_state where
  "next_state = flagged_state\<lparr>heartbeat_counter := 8, cal_temp_c := Fin 30\<rparr>"

definition slow_env :: cycle_env where
  "slow_env = (still_env flagged_state)\<lparr>e_idle := \<lambda>_. False\<rparr>"

lemma demo_snapshots: "snapshot slow_env = flagged_state" "snapshot (still_env next_state) = next_state"
  by (rule snapshot_still; simp add: flagged_state_def next_state_def zero_shared_def slow_env_def still_env_def)+

lemma demo_flags:
  "plain_task (booted img) \<longleftrightarrow> img \<noteq> ESP_OTA_IMG_PENDING_VERIFY" "flagged (still_env flagged_state) (booted img)"
  "flagged slow_env (booted img)" "m_lastSeenHeartbeat t = 7 \<Longrightarrow> flagged (still_env next_state) t"
  using snapshot_flagged demo_snapshots
  by (simp_all add: flagged_def still_fields slow_env_def attached_def)
    (simp_all add: plain_task_def booted_def SensorsTask_new_def plain_settings_def pending_image_def flagged_state_def next_state_def still_env_def)

lemma demo_readings: "ready_event (sensor_fields flagged_state) = demo_reading"
  by (simp add: ready_event_def sensor_fields_def Let_def)
    (simp add: flagged_state_def zero_shared_def no_values_def demo_reading_def)

lemma demo_sender_fits: "sender_fits (wake evs) demo_sensor"
  using demo_fits by (simp add: sender_fits_def wake_simps) (simp add: demo_sensor_def)

section \<open>Properties\<close>

text \<open>
  C3: A flagged value does not get lost between the tasks: a pass that finds no cycle running leaves it
  delivered and acknowledged, its state message and all that was sent with it confirmed by the broker;
  or at the newest end of the history log; or under way in the cycle that still runs. Only in the first case
  does the LP program hear that it was delivered.
\<close>

theorem flagged_value_is_accounted_for:
  assumes "device_pass created se e d acts r d'" "dv_flight d = None" "flagged e (dv_task d)"
    and "e_ready_event e" "created" "sender_fits se (dv_sender d)"
  shows "\<exists>p. pp_temperature p = Some (cal_temp_c (snapshot e)) \<and> pp_humidity p = Some (cal_hum_pct (snapshot e)) \<and>
    (hp_ops acts = [ack_of e] \<and> dv_flight d' = None \<and> delivered se p (dv_sender d) (dv_sender d') \<or>
     hp_ops acts = [] \<and> dv_flight d' = None \<and> (\<exists>log. sd_log (dv_sender d') =
       history_log_append (e_now_us e) (cal_temp_c (snapshot e)) (cal_hum_pct (snapshot e)) log) \<or>
     hp_ops acts = [] \<and> dv_flight d' = Some p)"
proof -
  obtain p s where p: "pp_temperature p = Some (cal_temp_c (snapshot e))" "pp_humidity p = Some (cal_hum_pct (snapshot e))"
    and s: "dv_sender d' = s\<lparr>sd_log := s_history (dv_task d')\<rparr>"
    and c: "if e_idle e PUBLISH_TIMEOUT_MS
     then run_publish_cycle se p (dv_sender d) = Some (Returned (e_publish_succeeded e), s) \<and>
       published e = Some (e_publish_succeeded e) \<and> dv_flight d' = None
     else s = dv_sender d \<and> published e = None \<and> dv_flight d' = Some p"
    and h: "hp_ops acts = (if published e = Some True then [ack_of e] else [])"
    and l: "s_history (dv_task d') = (if published e = Some False
      then history_log_append (e_now_us e) (cal_temp_c (snapshot e)) (cal_hum_pct (snapshot e)) (sd_log s) else sd_log s)"
    using own_cycle [OF assms(1-5)] by blast
  consider "published e = Some True" | "published e = Some False" | "published e = None" by (cases "published e") auto
  then show ?thesis
  proof cases
    case 1
    with c have "run_publish_cycle se p (dv_sender d) = Some (Returned True, s)" "dv_flight d' = None" by (auto split: if_splits)
    with cycle_delivers [OF _ assms(6)] have "delivered se p (dv_sender d) (dv_sender d')" by (simp add: s delivered_log)
    with 1 h p \<open>dv_flight d' = None\<close> show ?thesis by auto
  next
    case 2
    with c h l s p show ?thesis by (intro exI [of _ p]) (auto split: if_splits)
  next
    case 3
    with c h p show ?thesis by (intro exI [of _ p]) (auto split: if_splits)
  qed
qed

theorem flagged_value_is_accounted_for_witness:
  "\<exists>acts d' p. device_pass True (wake (subscribed_anew 0)) (still_env flagged_state) demo_device acts False d' \<and>
     hp_ops acts = [AckDelivered (Fin 21) (Fin 40)] \<and> pp_temperature p = Some (Fin 21) \<and>
     delivered (wake (subscribed_anew 0)) p demo_sensor (dv_sender d')"
proof -
  let ?se = "wake (subscribed_anew 0)" and ?e = "still_env flagged_state"
  obtain s where "run_publish_cycle ?se demo_reading demo_sensor = Some (Returned True, s)"
    using anew_wake [OF demo_is_ready] by (auto simp: demo_sensor_def)
  then have w: "publish_wait ?se (e_idle ?e PUBLISH_TIMEOUT_MS) (Some demo_reading) (dv_sender demo_device) = Some (Some True, s, None)"
    by (simp add: publish_wait_def still_env_def demo_device_def)
  have q: "Some demo_reading = mqtt_send_sensor_data True (ready_event (sensor_fields (snapshot ?e))) (dv_flight demo_device)"
    by (simp add: mqtt_send_sensor_data_def demo_device_def snapshot_flagged demo_readings)
  have d: "plain_task (dv_task demo_device)" "flagged ?e (dv_task demo_device)" "dv_flight demo_device = None"
    "dv_sender demo_device = demo_sensor" by (simp_all add: demo_device_def demo_flags)
  have e: "e_ready_event ?e" "e_mqtt_busy ?e \<longleftrightarrow> Some demo_reading \<noteq> None" "\<forall>ok. Some True = Some ok \<longrightarrow> e_publish_succeeded ?e = ok"
    by (simp_all add: still_env_def)
  obtain acts d' where p: "device_pass True ?se ?e demo_device acts False d'" and h: "hp_ops acts = [ack_of ?e]"
    using plain_device_pass [OF d(1,2) e(1) q w e(2,3)] by (auto simp: still_fields)
  have a: "ack_of ?e = AckDelivered (Fin 21) (Fin 40)" "cal_temp_c (snapshot ?e) = Fin 21"
    by (simp_all add: ack_of_def snapshot_flagged) (simp_all add: flagged_state_def)
  from flagged_value_is_accounted_for [OF p d(3,2) e(1) TrueI] p h show ?thesis
    by (auto simp: a d(4) demo_sender_fits)
qed

text \<open>
  C26: The condition is needed: a pass whose predecessor gave up waiting finds that cycle still running, its own
  values are not sent, and yet it waits for the old cycle and takes its success. The LP program is told that 30
  degrees were delivered, while all that was ever published is the message with 21.
\<close>

theorem stale_success_acknowledges_unsent_value:
  "\<exists>d acts d' m awake. device_run d \<and> dv_flight d = Some demo_reading \<and>
     device_pass True (wake (subscribed_anew 0)) (still_env next_state) d acts False d' \<and>
     hp_ops acts = [AckDelivered (Fin 30) (Fin 40)] \<and> hl_pending (sd_log (dv_sender d')) = [] \<and> dv_flight d' = None \<and>
     sent_msgs (sd_trace (dv_sender d')) = [m] \<and> pp_temperature demo_reading = Some (Fin 21) \<and>
     msg_payload m = state_message (\<lambda>_. []) demo_config demo_reading (Some demo_stats) 20 awake"
proof -
  let ?se = "wake (subscribed_anew 0)"
  have boot: "device_run demo_device"
    by (rule boot) (simp_all add: demo_device_def booted_def SensorsTask_new_def demo_sensor_def empty_log_def)
  have q1: "Some demo_reading = mqtt_send_sensor_data True (ready_event (sensor_fields (snapshot slow_env))) (dv_flight demo_device)"
    by (simp add: mqtt_send_sensor_data_def demo_device_def demo_snapshots demo_readings)
  have w1: "publish_wait ?se (e_idle slow_env PUBLISH_TIMEOUT_MS) (Some demo_reading) (dv_sender demo_device) = Some (None, demo_sensor, Some demo_reading)"
    by (simp add: publish_wait_def slow_env_def demo_device_def)
  have e1: "e_ready_event slow_env" "e_mqtt_busy slow_env \<longleftrightarrow> Some demo_reading \<noteq> None"
    "\<forall>ok. None = Some ok \<longrightarrow> e_publish_succeeded slow_env = ok" "published slow_env = None"
    by (simp_all add: slow_env_def still_env_def published_def)
  have d0: "plain_task (dv_task demo_device)" "flagged slow_env (dv_task demo_device)" by (simp_all add: demo_device_def demo_flags)
  obtain acts1 t1 where p1: "device_pass True ?se slow_env demo_device acts1 False
      \<lparr>dv_task = t1, dv_sender = demo_sensor\<lparr>sd_log := s_history t1\<rparr>, dv_flight = Some demo_reading\<rparr>"
      (is "device_pass _ _ _ _ _ _ ?d")
    and t1: "plain_task t1" "m_lastSeenHeartbeat t1 = heartbeat_counter flagged_state" "s_history t1 = sd_log demo_sensor"
    using plain_device_pass [OF d0 e1(1) q1 w1 e1(2,3)] by (auto simp: e1(4) demo_snapshots)
  have d: "?d = \<lparr>dv_task = t1, dv_sender = demo_sensor, dv_flight = Some demo_reading\<rparr>" by (simp add: t1(3))
  have run: "device_run ?d" by (rule pass [OF boot p1])
  let ?e = "still_env next_state"
  obtain s tr awake where s: "run_publish_cycle ?se demo_reading demo_sensor = Some (Returned True, s)" "ready s"
    "sd_trace s = tr" "sent_msgs tr = [demo_msg awake]"
    using anew_wake [OF demo_is_ready] by (auto simp: demo_sensor_def)
  have q2: "Some demo_reading = mqtt_send_sensor_data True (ready_event (sensor_fields (snapshot ?e))) (dv_flight ?d)"
    by (simp add: mqtt_send_sensor_data_def)
  have w2: "publish_wait ?se (e_idle ?e PUBLISH_TIMEOUT_MS) (Some demo_reading) (dv_sender ?d) = Some (Some True, s, None)"
    using s(1) by (simp add: publish_wait_def still_env_def t1(3))
  have e2: "e_ready_event ?e" "e_mqtt_busy ?e \<longleftrightarrow> Some demo_reading \<noteq> None" "\<forall>ok. Some True = Some ok \<longrightarrow> e_publish_succeeded ?e = ok"
    by (simp_all add: still_env_def)
  have d1: "plain_task (dv_task ?d)" "flagged ?e (dv_task ?d)"
    using t1(1,2) demo_flags(4) [of t1] by (simp_all add: flagged_state_def)
  obtain acts t where p2: "device_pass True ?se ?e ?d acts False \<lparr>dv_task = t, dv_sender = s\<lparr>sd_log := s_history t\<rparr>, dv_flight = None\<rparr>"
      (is "device_pass _ _ _ _ _ _ ?d'")
    and t: "hp_ops acts = [ack_of ?e]" "s_history t = sd_log s"
    using plain_device_pass [OF d1 e2(1) q2 w2 e2(2,3)] by (auto simp: still_fields)
  have a: "ack_of ?e = AckDelivered (Fin 30) (Fin 40)"
    by (simp add: ack_of_def demo_snapshots) (simp add: next_state_def flagged_state_def)
  have l: "hl_pending (sd_log s) = []"
    using readyD(6) [OF s(2)] by (simp add: hl_pending_def hl_count_def hl_distance_def)
  have m: "msg_payload (demo_msg awake) = state_message (\<lambda>_. []) demo_config demo_reading (Some demo_stats) 20 awake"
    using demo_state_msg [of awake] unfolding demo_msg_def by (simp add: state_msg_def Let_def split: if_splits)
  show ?thesis
    by (rule exI [of _ ?d], rule exI [of _ acts], rule exI [of _ ?d'], rule exI [of _ "demo_msg awake"], rule exI [of _ awake])
      (use run p2 t a l m s(3,4) in \<open>simp add: demo_reading_def\<close>)
qed

end
