(* ===== verification/Spec2Isabelle.thy ===== *)
theory Spec2Isabelle
  imports Boot Diagnostics Delivery
begin

text \<open>
  Verification development of the OpenThread sleepy temperature and humidity sensor (ESP32-C6, ESP-IDF).

  \<^bold>\<open>The system.\<close> The firmware has two programs. The LP program (\<open>components/lp_sensor_core/lp_core/main.cpp\<close>)
  runs on the low-power core once per timer period: it reads the SHT4x sensor, calibrates, runs the heater
  when due, and wakes the HP core when the value moved enough or its skip budget is used up. The HP firmware
  (\<open>main/\<close>) sleeps until then. Its sensors task takes a snapshot of the shared memory, hands the values to
  the MQTT sender, and acknowledges to the LP program what the broker confirmed; what was not confirmed
  goes to the history log, from which later cycles replay it. A publish cycle opens the radio's window,
  connects, sends what is owed, applies configuration that arrived over MQTT, runs a firmware update that
  is due, and puts the radio back to rest. The two programs meet in one structure in shared memory; the
  HP tasks meet in the runtime configuration, the history log, the updater's state and the network link.

  \<^bold>\<open>Theories, in the order of their imports, and the code they model.\<close>
  \<^item> \<open>Prelude\<close>: machine words, \<open>esp_err_t\<close>, signed conversions, truncating division; shared lemmas.
  \<^item> \<open>Floats\<close>: binary32 and binary64 with NaN and infinities over exact rationals; \<open>rounding\<close> and
    \<open>float_format\<close> are the interface (monotone, exact on representable values), interpreted at both
    formats.
  \<^item> \<open>SharedLayout\<close>: \<open>include/shared_layout.h\<close>, both structures field by field.
  \<^item> \<open>LpMeasure\<close>: \<open>crc8\<close>, \<open>measure\<close>, \<open>measureAveraged\<close>, \<open>runHeaterMaintenance\<close> over a parameter bus.
  \<^item> \<open>LpCore\<close>: the LP program's \<open>main\<close> phase by phase; the locale \<open>hp_side\<close> is what it relies on of a
    concurrent HP core.
  \<^item> \<open>SeqLock\<close>: \<open>lp_sensor_core.c\<close>, its writers, start-up and sequence-locked reader; interprets \<open>hp_side\<close>
    on the HP operations and reads any interleaving of both programs' writes (\<open>seq_memory\<close>).
  \<^item> \<open>HistoryLog\<close>: \<open>history_log.cpp\<close>, a ring that refines a queue of the newest 8192 records (\<open>replay_queue\<close>).
  \<^item> \<open>RtcClockFix\<close>: \<open>rtc_clock_fix.cpp\<close>; \<open>Battery\<close>: curve, percentage and ADC burst of \<open>sensorstask\<close>.
  \<^item> \<open>ConfigText\<close>: the hand-written parsers of \<open>config_text.cpp\<close> and \<open>common_utils.cpp\<close> and number printing.
  \<^item> \<open>RuntimeConfig\<close>, \<open>ConfigProps\<close>: \<open>runtime_config.cpp\<close> over a parameter NVS with documented laws.
  \<^item> \<open>SensorsTask\<close>: a pass of \<open>executeTask\<close>, and runs of passes.
  \<^item> \<open>OtaUpdater\<close>, \<open>OtaProps\<close>: \<open>ota_updater.cpp\<close>, the manifest reader and the chunk-pull session with the
    MQTT events that arrive at its waits; \<open>ota_download\<close> is the interface of a download invariant.
  \<^item> \<open>Boot\<close>: \<open>app_main\<close> of \<open>main.cpp\<close>; \<open>Diagnostics\<close>: awake time, die temperature, error task.
  \<^item> \<open>StdFormat\<close>: the part of \<open>std::format\<close> the sender uses, with exact decimal rounding, and the two
    fixed-capacity writers of \<open>mqtt_sender.cpp\<close>.
  \<^item> \<open>NetLink\<close>: \<open>main/net/\<close>, the seam (\<open>network_link\<close> is the struct of callbacks), the OpenThread and the Wi-Fi
    link and the dispatcher. \<open>link_windows\<close> is the contract of the radio's windows, interpreted on both links
    and on the dispatcher's.
  \<^item> \<open>MqttFormat\<close>: every topic and payload of \<open>mqtt_sender.cpp\<close>, its format strings and derived capacities.
  \<^item> \<open>MqttSender\<close>: the event handler, both MQTT clients, the publish cycle (\<open>run_publish_cycle\<close>) with its
    acknowledgement wait, replay, close and update sessions, and the task and flags around it.
  \<^item> \<open>MqttCycle\<close>, \<open>MqttProps\<close>, \<open>PublishCycle\<close>: lemmas and theorems about the cycle.
  \<^item> \<open>Delivery\<close>: the passes of \<open>SensorsTask\<close> with the publish cycles they start and wait for (\<open>device_pass\<close>), on
    one history log, and runs of both tasks (\<open>device_run\<close>).

  \<^bold>\<open>What the lemmas show.\<close>
  \<^item> Delivery: a value that woke the HP core wakes it again until acknowledged; a pass acknowledges exactly
    what was confirmed and stores the rest; a publish cycle reports success only after an
    acknowledgement for every QoS-1 message it sent; the backlog leaves the log in order and only when
    acknowledged. Of both tasks together: a flagged value ends delivered, stored or under way. Silence is bounded by the skip budget.
  \<^item> Integrity: a damaged sensor reply is rejected, an accepted snapshot is one instant of the memory, only
    an image with the staged hash boots and it is the staged image byte for byte.
  \<^item> Configuration: received values take effect clamped and typed, survive a reboot, and the device's own
    echo changes nothing; a TX power on trial settles in three cycles.
  \<^item> The session: subscriptions are renewed unless the broker has confirmed that it holds them; temporary
    clients never overlap; at most one cycle runs; the radio rests after every cycle.
  \<^item> Texts: every message fits its buffer, the state message is one JSON object, the discovery counts
    match what is published, and what the device prints it reads back.
  \<^item> Where the code falls short of its intent the theorem says how: a lost CONNACK leaves the device
    unsubscribed, the success of an old cycle acknowledges values that were never sent, the idle bit can be set while a cycle runs, a NaN payload never settles, a confirmed TX
    power is lost at reboot, a bad resumed image refills the budget.

  \<^bold>\<open>Modelling decisions.\<close> Third-party code (ESP-IDF drivers, NVS, \<open>esp_ota\<close>, the hash, the ADC, the MQTT client,
  OpenThread, the Wi-Fi driver, lwIP) is a parameter or a list of events and answers that the theorems leave
  arbitrary; laws it must obey are named hypotheses (\<open>nvs_ok\<close>, \<open>platform_ok\<close>, \<open>one_connack\<close>, \<open>ticking\<close>) with an
  instance each. Unsigned integers are words of their width; signed ones are \<open>int\<close> with the conversions
  written out. Undefined behaviour (division by zero, a conversion out of range) is \<open>None\<close> or a fault.
  Other tasks act at the points where the code gives up control or touches shared state: the HP core's
  writes are a schedule against the LP program, and \<open>e_events\<close> holds what the MQTT task does between two steps
  of a publish cycle. Actions go into a trace. The tick rate is 1 kHz (\<open>CONFIG_FREERTOS_HZ\<close>), so
  \<open>pdMS_TO_TICKS\<close> is the identity. The shortest float text of \<open>std::to_chars\<close> is the parameter \<open>fmt\<close> with a
  length bound.

  \<^bold>\<open>Bounds and fuel.\<close> Loops with a cap recurse on it. The update session consumes a list of waits, and
  \<open>session_ends\<close> shows that two per missing chunk are enough; \<open>ota_rounds\<close> consumes the connections of a cycle,
  each of which is an input, and is \<open>None\<close> when the list is too short. The two waits of the close are partial
  functions; \<open>persistent_cycle_returns\<close> shows that they return.

  \<^bold>\<open>Not modelled.\<close> Log output and the LED; task priorities and stack sizes; the contents of ESP-IDF. The
  temporary client's events reach the updater only (its context counts no acknowledgements). The publish
  cycle owns the history log while it runs: the sensors task appends only after the cycle, or after it gave
  up waiting for one. The drivers \<open>components/i2cdev\<close>, \<open>components/sht3x\<close> and \<open>components/sht4x\<close> are vendored and
  not called by the firmware. The Python tools are modelled only where the manifest they write is read.
\<close>

end
